(* ===== verification/Prelude.thy ===== *)
theory Prelude
  imports Main "HOL-Library.Word"
begin

text \<open>
  Shared vocabulary of the development: the machine types of the C sources (LP64: \<open>unsigned
  long\<close> and \<open>size_t\<close> are 64 bits), little-endian packing of integers (the on-disk records are
  packed structures written raw on a little-endian machine), C strings as byte lists, the
  contract of a fixed-size record codec, and generic list lemmas the components share.
\<close>

unbundle bit_operations_syntax

named_theorems c_int \<open>unsigned readings of the machine words\<close>
named_theorems le_simps \<open>packing and unpacking of little-endian integers\<close>

section \<open>Machine types\<close>

type_synonym byte = "8 word"
type_synonym u16 = "16 word"
type_synonym u32 = "32 word"
type_synonym ulong = "64 word"

lemma unat_byte_bound [c_int]: "unat (b :: byte) < 256"
  using unsigned_less [of b, where ?'a = nat] by simp

lemma unat_u16_bound [c_int]: "unat (w :: u16) < 65536"
  using unsigned_less [of w, where ?'a = nat] by simp

lemma unat_u32_bound [c_int]: "unat (w :: u32) < 4294967296"
  using unsigned_less [of w, where ?'a = nat] by simp

lemma unat_ulong_bound [c_int]: "unat (w :: ulong) < 18446744073709551616"
  using unsigned_less [of w, where ?'a = nat] by simp

text \<open>Values that fit are read back unchanged.\<close>

lemma sint_of_nat_small: "m < 2 ^ 63 \<Longrightarrow> sint (of_nat m :: ulong) = int m"
  by (simp add: signed_of_nat signed_take_bit_int_eq_self)

lemma unat_of_nat_ulong: "m < 2 ^ 64 \<Longrightarrow> unat (of_nat m :: ulong) = m"
  by (simp add: unat_of_nat)

lemma of_nat_ulong_inj: "a < 2 ^ 64 \<Longrightarrow> b < 2 ^ 64 \<Longrightarrow> (of_nat a = (of_nat b :: ulong)) \<longleftrightarrow> a = b"
  by (metis unat_of_nat_ulong)

section \<open>Little-endian integers\<close>

fun le_bytes :: "nat \<Rightarrow> nat \<Rightarrow> byte list" where
  "le_bytes 0 v = []"
| "le_bytes (Suc n) v = word_of_nat v # le_bytes n (v div 256)"

fun le_nat :: "byte list \<Rightarrow> nat" where
  "le_nat [] = 0"
| "le_nat (b # bs) = unat b + 256 * le_nat bs"

lemma length_le_bytes [simp]: "length (le_bytes n v) = n"
  by (induction n arbitrary: v) auto

lemma le_nat_bound: "le_nat bs < 256 ^ length bs"
proof (induction bs)
  case (Cons b bs)
  have "256 * (le_nat bs + 1) \<le> 256 * 256 ^ length bs"
    using Cons.IH by (intro mult_le_mono2) simp
  then show ?case using unat_byte_bound [of b] by simp
qed simp

lemma le_nat_le_bytes [le_simps]: "le_nat (le_bytes n v) = v mod 256 ^ n"
proof (induction n arbitrary: v)
  case (Suc n)
  have "v mod (256 * 256 ^ n) = 256 * (v div 256 mod 256 ^ n) + v mod 256"
    by (rule mod_mult2_eq)
  with Suc show ?case by (simp add: unat_of_nat)
qed simp

lemma word_of_nat_byte_head: "(word_of_nat (unat b + 256 * n) :: byte) = b"
  using unat_byte_bound [of b] by (simp add: word_unat_eq_iff unat_of_nat del: of_nat_add)

lemma le_bytes_le_nat [le_simps]: "le_bytes (length bs) (le_nat bs) = bs"
proof (induction bs)
  case (Cons b bs)
  then show ?case using unat_byte_bound [of b]
    by (simp add: word_of_nat_byte_head del: of_nat_add)
qed simp

definition le16 :: "u16 \<Rightarrow> byte list" where
  "le16 w = le_bytes 2 (unat w)"

definition un_le16 :: "byte list \<Rightarrow> u16" where
  "un_le16 bs = word_of_nat (le_nat bs)"

definition le32 :: "u32 \<Rightarrow> byte list" where
  "le32 w = le_bytes 4 (unat w)"

definition un_le32 :: "byte list \<Rightarrow> u32" where
  "un_le32 bs = word_of_nat (le_nat bs)"

lemma length_le16 [simp]: "length (le16 w) = 2"
  by (simp add: le16_def)

lemma length_le32 [simp]: "length (le32 w) = 4"
  by (simp add: le32_def)

lemma un_le16_le16 [simp]: "un_le16 (le16 w) = w"
  using unat_u16_bound [of w] by (simp add: un_le16_def le16_def le_nat_le_bytes)

lemma un_le32_le32 [simp]: "un_le32 (le32 w) = w"
  using unat_u32_bound [of w] by (simp add: un_le32_def le32_def le_nat_le_bytes)

lemma le16_un_le16 [simp]: "length bs = 2 \<Longrightarrow> le16 (un_le16 bs) = bs"
  using le_nat_bound [of bs] le_bytes_le_nat [of bs]
  by (simp add: un_le16_def le16_def unat_of_nat)

lemma le32_un_le32 [simp]: "length bs = 4 \<Longrightarrow> le32 (un_le32 bs) = bs"
  using le_nat_bound [of bs] le_bytes_le_nat [of bs]
  by (simp add: un_le32_def le32_def unat_of_nat)

section \<open>C strings\<close>

text \<open>
  A C string is the byte list before its terminating zero; \<open>cstr\<close> reads one out of a buffer,
  \<open>cs\<close> turns a literal into bytes.
\<close>

definition cstr :: "byte list \<Rightarrow> byte list" where
  "cstr bs = takeWhile (\<lambda>b. b \<noteq> 0) bs"

definition cs :: "string \<Rightarrow> byte list" where
  "cs s = map (\<lambda>c. word_of_nat (of_char c)) s"

definition tolower_c :: "byte \<Rightarrow> byte" where
  "tolower_c c = (if 0x41 \<le> c \<and> c \<le> 0x5A then c + 0x20 else c)"

definition toupper_c :: "byte \<Rightarrow> byte" where
  "toupper_c c = (if 0x61 \<le> c \<and> c \<le> 0x7A then c - 0x20 else c)"

definition isdigit_c :: "byte \<Rightarrow> bool" where
  "isdigit_c c \<longleftrightarrow> 0x30 \<le> c \<and> c \<le> 0x39"

definition isalpha_c :: "byte \<Rightarrow> bool" where
  "isalpha_c c \<longleftrightarrow> (0x41 \<le> c \<and> c \<le> 0x5A) \<or> (0x61 \<le> c \<and> c \<le> 0x7A)"

definition isspace_c :: "byte \<Rightarrow> bool" where
  "isspace_c c \<longleftrightarrow> c = 0x20 \<or> (0x09 \<le> c \<and> c \<le> 0x0D)"

lemma cstr_id: "0 \<notin> set bs \<Longrightarrow> cstr bs = bs"
  by (auto simp: cstr_def intro: takeWhile_eq_all_conv [THEN iffD2])

lemma zero_notin_cstr [simp]: "0 \<notin> set (cstr bs)"
  by (auto simp: cstr_def dest: set_takeWhileD)

lemma cstr_cstr [simp]: "cstr (cstr bs) = cstr bs"
  by (rule cstr_id) simp

lemma tolower_c_idem [simp]: "tolower_c (tolower_c c) = tolower_c c"
proof -
  have "\<not> (0x41 \<le> c + 0x20 \<and> c + 0x20 \<le> 0x5A)" if "0x41 \<le> c" "c \<le> 0x5A"
    using that by unat_arith
  then show ?thesis by (auto simp: tolower_c_def)
qed

section \<open>Fixed-size record codecs\<close>

text \<open>
  Every table file of a message base is an array of records of one size, read and written
  whole. The contract of such a record's packed form: a fixed, positive width, and packing
  and unpacking are inverse. A file of such records is then a list (\<open>unpack\<close>), reading the
  \<open>i\<close>-th record is indexing, overwriting it is \<open>list_update\<close>, and writing at the end appends.
\<close>

fun chunks :: "nat \<Rightarrow> nat \<Rightarrow> byte list \<Rightarrow> byte list list" where
  "chunks w 0 bs = []"
| "chunks w (Suc n) bs = take w bs # chunks w n (drop w bs)"

definition unpack :: "nat \<Rightarrow> (byte list \<Rightarrow> 'a) \<Rightarrow> byte list \<Rightarrow> 'a list" where
  "unpack w dec bs = map dec (chunks w (length bs div w) bs)"

definition overwrite :: "byte list \<Rightarrow> nat \<Rightarrow> byte list \<Rightarrow> byte list" where
  "overwrite data pos bs =
     take pos data @ replicate (pos - length data) 0 @ bs @ drop (pos + length bs) data"

lemma length_chunks [simp]: "length (chunks w n bs) = n"
  by (induction n arbitrary: bs) auto

lemma nth_chunks: "i < n \<Longrightarrow> chunks w n bs ! i = take w (drop (i * w) bs)"
proof (induction n arbitrary: bs i)
  case (Suc n)
  then show ?case by (cases i) (auto simp: add.commute)
qed simp

lemma length_unpack [simp]: "length (unpack w dec bs) = length bs div w"
  by (simp add: unpack_def)

lemma nth_unpack: "i < length bs div w \<Longrightarrow> unpack w dec bs ! i = dec (take w (drop (i * w) bs))"
  by (simp add: unpack_def nth_chunks)

lemma length_overwrite [simp]:
  "length (overwrite data pos bs) = max (length data) (pos + length bs)"
  by (auto simp: overwrite_def)

lemma overwrite_inside:
  "pos + length bs \<le> length data \<Longrightarrow> overwrite data pos bs = take pos data @ bs @ drop (pos + length bs) data"
  by (simp add: overwrite_def)

lemma overwrite_end: "overwrite data (length data) bs = data @ bs"
  by (simp add: overwrite_def)

lemma nth_overwrite:
  assumes "i < max (length data) (pos + length bs)"
  shows "overwrite data pos bs ! i =
    (if pos \<le> i \<and> i < pos + length bs then bs ! (i - pos)
     else if i < length data then data ! i else 0)"
  using assms by (auto simp: overwrite_def nth_append min_def)

lemma take_drop_overwrite:
  "take (length bs) (drop pos (overwrite data pos bs)) = bs"
  by (auto simp: overwrite_def min_def)

lemma overwrite_overwrite_next:
  "overwrite (overwrite data pos as) (pos + length as) bs = overwrite data pos (as @ bs)"
  by (intro nth_equalityI) (auto simp: nth_overwrite nth_append)

lemma overwrite_same [simp]: "overwrite (overwrite data pos as) pos as = overwrite data pos as"
  by (intro nth_equalityI) (auto simp: nth_overwrite)

locale wf_codec =
  fixes enc :: "'a \<Rightarrow> byte list" and dec :: "byte list \<Rightarrow> 'a" and w :: nat and wf :: "'a \<Rightarrow> bool"
  assumes wf_length_enc: "wf x \<Longrightarrow> length (enc x) = w"
    and wf_dec_enc: "wf x \<Longrightarrow> dec (enc x) = x"
    and enc_dec: "length bs = w \<Longrightarrow> enc (dec bs) = bs"
    and wf_dec: "length bs = w \<Longrightarrow> wf (dec bs)"
    and width_pos: "0 < w"
begin

lemma enc_inj: "wf x \<Longrightarrow> wf y \<Longrightarrow> enc x = enc y \<Longrightarrow> x = y"
  by (metis wf_dec_enc)

lemma record_inside: "i < length bs div w \<Longrightarrow> i * w + w \<le> length bs"
proof -
  assume "i < length bs div w"
  then have "(i + 1) * w \<le> length bs div w * w" by (intro mult_le_mono1) simp
  also have "\<dots> \<le> length bs" by simp
  finally show ?thesis by simp
qed

lemma unpack_read: "i < length bs div w \<Longrightarrow> unpack w dec bs ! i = dec (take w (drop (i * w) bs))"
  by (rule nth_unpack)

lemma length_wf_records: "\<forall>x \<in> set xs. wf x \<Longrightarrow> length (concat (map enc xs)) = w * length xs"
  by (induction xs) (simp_all add: wf_length_enc)

lemma wf_unpack_concat:
  assumes "\<forall>x \<in> set xs. wf x"
  shows "unpack w dec (concat (map enc xs)) = xs"
proof -
  have "\<forall>x \<in> set xs. wf x \<Longrightarrow> chunks w (length xs) (concat (map enc xs)) = map enc xs" for xs
    by (induction xs) (simp_all add: wf_length_enc)
  then have "unpack w dec (concat (map enc xs)) = map (\<lambda>x. dec (enc x)) xs"
    using width_pos assms by (simp add: unpack_def length_wf_records comp_def)
  then show ?thesis using assms by (simp add: wf_dec_enc map_idI)
qed

lemma bytes_are_records: "length bs = w * n \<Longrightarrow> concat (map enc (unpack w dec bs)) = bs"
proof -
  have "length bs = w * n \<Longrightarrow> concat (map (enc \<circ> dec) (chunks w n bs)) = bs" for n
  proof (induction n arbitrary: bs)
    case (Suc n)
    then have "length (take w bs) = w" by simp
    with Suc show ?case by (simp add: enc_dec)
  qed simp
  moreover assume "length bs = w * n"
  ultimately show ?thesis
    using width_pos by (simp add: unpack_def)
qed

lemma wf_unpack: "x \<in> set (unpack w dec bs) \<Longrightarrow> wf x"
proof -
  assume "x \<in> set (unpack w dec bs)"
  then obtain i where i: "i < length bs div w" "x = unpack w dec bs ! i"
    by (auto simp: in_set_conv_nth)
  then show ?thesis
    using record_inside [OF i(1)] wf_dec [of "take w (drop (i * w) bs)"] by (simp add: nth_unpack)
qed

lemma wf_unpack_update:
  assumes i: "i < length bs div w" and x: "wf x"
  shows "unpack w dec (overwrite bs (i * w) (enc x)) = (unpack w dec bs)[i := x]"
proof (rule nth_equalityI)
  have inside: "i * w + w \<le> length bs" using i by (rule record_inside)
  then have len: "length (overwrite bs (i * w) (enc x)) = length bs"
    by (simp add: wf_length_enc [OF x])
  then show "length (unpack w dec (overwrite bs (i * w) (enc x)))
      = length ((unpack w dec bs)[i := x])" by simp
  fix j assume "j < length (unpack w dec (overwrite bs (i * w) (enc x)))"
  then have j: "j < length bs div w" using len by simp
  then have jin: "j * w + w \<le> length bs" by (rule record_inside)
  have "take w (drop (j * w) (overwrite bs (i * w) (enc x))) =
      (if j = i then enc x else take w (drop (j * w) bs))"
  proof (cases "j = i")
    case True
    then show ?thesis using take_drop_overwrite [of "enc x" "i * w" bs] by (simp add: wf_length_enc [OF x])
  next
    case False
    then have apart: "j * w + w \<le> i * w \<or> i * w + w \<le> j * w"
      by (metis add_mult_distrib2 mult.commute mult_Suc_right add.commute nat_neq_iff Suc_leI mult_le_mono1)
    show ?thesis
    proof (rule nth_equalityI)
      show "length (take w (drop (j * w) (overwrite bs (i * w) (enc x)))) =
          length (if j = i then enc x else take w (drop (j * w) bs))"
        using False len by simp
      fix k assume "k < length (take w (drop (j * w) (overwrite bs (i * w) (enc x))))"
      then have k: "k < w" by simp
      then show "take w (drop (j * w) (overwrite bs (i * w) (enc x))) ! k =
          (if j = i then enc x else take w (drop (j * w) bs)) ! k"
        using False apart jin by (auto simp: nth_overwrite wf_length_enc [OF x])
    qed
  qed
  then show "unpack w dec (overwrite bs (i * w) (enc x)) ! j = (unpack w dec bs)[i := x] ! j"
    using i j len by (simp add: nth_unpack nth_list_update wf_dec_enc [OF x])
qed

lemma wf_unpack_append:
  assumes "length bs = w * n" "\<forall>x \<in> set xs. wf x"
  shows "unpack w dec (bs @ concat (map enc xs)) = unpack w dec bs @ xs"
proof -
  have "bs @ concat (map enc xs) = concat (map enc (unpack w dec bs @ xs))"
    using bytes_are_records [OF assms(1)] by simp
  moreover have "\<forall>x \<in> set (unpack w dec bs @ xs). wf x" using assms(2) wf_unpack by auto
  ultimately show ?thesis by (simp only: wf_unpack_concat)
qed

end

text \<open>When every value has a packed form, the laws need no side condition.\<close>

locale record_codec =
  fixes enc :: "'a \<Rightarrow> byte list" and dec :: "byte list \<Rightarrow> 'a" and w :: nat
  assumes length_enc: "length (enc x) = w"
    and dec_enc: "dec (enc x) = x"
    and total_enc_dec: "length bs = w \<Longrightarrow> enc (dec bs) = bs"
    and total_width_pos: "0 < w"

sublocale record_codec \<subseteq> wf_codec enc dec w "\<lambda>_. True"
  by unfold_locales (simp_all add: length_enc dec_enc total_enc_dec total_width_pos)

context record_codec
begin

lemma unpack_concat: "unpack w dec (concat (map enc xs)) = xs"
  by (rule wf_unpack_concat) simp

lemma unpack_update:
  "i < length bs div w \<Longrightarrow> unpack w dec (overwrite bs (i * w) (enc x)) = (unpack w dec bs)[i := x]"
  by (rule wf_unpack_update) simp_all

lemma unpack_append:
  "length bs = w * n \<Longrightarrow> unpack w dec (bs @ enc x) = unpack w dec bs @ [x]"
  using wf_unpack_append [of bs n "[x]"] by simp

end

lemma unpack2_Cons: "unpack 2 dec (b0 # b1 # bs) = dec [b0, b1] # unpack 2 dec bs"
  by (simp add: unpack_def)

lemma unpack2_short: "length bs < 2 \<Longrightarrow> unpack 2 dec bs = []"
  by (simp add: unpack_def)

interpretation u16_codec: record_codec le16 un_le16 2
  by unfold_locales simp_all

interpretation u32_codec: record_codec le32 un_le32 4
  by unfold_locales simp_all

text \<open>A table of single bytes (the header allocation table) is its own list of records.\<close>

definition enc_byte :: "byte \<Rightarrow> byte list" where
  "enc_byte b = [b]"

definition dec_byte :: "byte list \<Rightarrow> byte" where
  "dec_byte bs = hd bs"

interpretation byte_codec: record_codec enc_byte dec_byte 1
  by unfold_locales (auto simp: enc_byte_def dec_byte_def length_Suc_conv)

lemma unpack_byte [simp]: "unpack (Suc 0) dec_byte bs = bs"
proof (rule nth_equalityI)
  fix i assume "i < length (unpack (Suc 0) dec_byte bs)"
  then show "unpack (Suc 0) dec_byte bs ! i = bs ! i"
    by (simp add: nth_unpack dec_byte_def hd_drop_conv_nth take_Suc)
qed simp

end
