(* ===== verification/SmbBase.thy ===== *)
theory SmbBase
  imports Prelude
begin

text \<open>
  The state of an open message base (\<open>smb_t\<close>, smblib/smbdefs.h), the standard streams it
  works on, and the operations of smblib.c and smbfile.c on the base as a whole: opening and
  closing streams, locking, the status header, creation, and the stack of bases.

  A stream is a position in the byte list of its file (\<open>fpos\<close>, None for a null \<open>FILE*\<close>); the
  file itself stays in \<open>disk\<close> when the stream is closed. Reads stop at the end of the file,
  writes past the end fill the gap with zeros, and a write that would grow the file past
  \<open>medium\<close> bytes is refused and leaves the file as it is.

  What other processes and the operating system do is the environment \<open>env\<close>, fixed during a
  call: each retry loop of the code runs over the list of attempts it makes before its retry
  time has passed, and an exhausted list is the time-out. Memory allocation succeeds, and the
  text of \<open>last_error\<close>, which no code reads, is left out.
\<close>

section \<open>Result codes and attributes\<close>

definition SMB_SUCCESS :: int where "SMB_SUCCESS = 0"
definition SMB_FAILURE :: int where "SMB_FAILURE = -1"
definition SMB_ERR_NOT_OPEN :: int where "SMB_ERR_NOT_OPEN = -100"
definition SMB_ERR_HDR_LEN :: int where "SMB_ERR_HDR_LEN = -101"
definition SMB_ERR_HDR_OFFSET :: int where "SMB_ERR_HDR_OFFSET = -102"
definition SMB_ERR_HDR_ID :: int where "SMB_ERR_HDR_ID = -103"
definition SMB_ERR_HDR_VER :: int where "SMB_ERR_HDR_VER = -104"
definition SMB_ERR_NOT_FOUND :: int where "SMB_ERR_NOT_FOUND = -110"
definition SMB_ERR_DAT_OFFSET :: int where "SMB_ERR_DAT_OFFSET = -120"
definition SMB_ERR_DAT_LEN :: int where "SMB_ERR_DAT_LEN = -121"
definition SMB_ERR_OPEN :: int where "SMB_ERR_OPEN = -200"
definition SMB_ERR_SEEK :: int where "SMB_ERR_SEEK = -201"
definition SMB_ERR_LOCK :: int where "SMB_ERR_LOCK = -202"
definition SMB_ERR_READ :: int where "SMB_ERR_READ = -203"
definition SMB_ERR_WRITE :: int where "SMB_ERR_WRITE = -204"
definition SMB_ERR_TIMEOUT :: int where "SMB_ERR_TIMEOUT = -205"
definition SMB_ERR_FILE_LEN :: int where "SMB_ERR_FILE_LEN = -206"
definition SMB_ERR_DELETE :: int where "SMB_ERR_DELETE = -207"
definition SMB_ERR_UNLOCK :: int where "SMB_ERR_UNLOCK = -208"
definition SMB_ERR_MEM :: int where "SMB_ERR_MEM = -300"
definition SMB_DUPE_MSG :: int where "SMB_DUPE_MSG = 1"

lemmas smb_codes =
  SMB_SUCCESS_def SMB_FAILURE_def SMB_ERR_NOT_OPEN_def SMB_ERR_HDR_LEN_def SMB_ERR_HDR_OFFSET_def
  SMB_ERR_HDR_ID_def SMB_ERR_HDR_VER_def SMB_ERR_NOT_FOUND_def SMB_ERR_DAT_OFFSET_def
  SMB_ERR_DAT_LEN_def SMB_ERR_OPEN_def SMB_ERR_SEEK_def SMB_ERR_LOCK_def SMB_ERR_READ_def
  SMB_ERR_WRITE_def SMB_ERR_TIMEOUT_def SMB_ERR_FILE_LEN_def SMB_ERR_DELETE_def SMB_ERR_UNLOCK_def SMB_ERR_MEM_def
  SMB_DUPE_MSG_def

definition SMB_EMAIL :: u16 where "SMB_EMAIL = 1"
definition SMB_HYPERALLOC :: u16 where "SMB_HYPERALLOC = 2"
definition SMB_NOHASH :: u16 where "SMB_NOHASH = 4"

definition SDT_BLOCK_LEN :: ulong where "SDT_BLOCK_LEN = 256"
definition SHD_BLOCK_LEN :: ulong where "SHD_BLOCK_LEN = 256"
definition SMB_MAX_HDR_LEN :: ulong where "SMB_MAX_HDR_LEN = 0xffff"
definition SMB_VERSION :: u16 where "SMB_VERSION = 0x0121"

definition SMB_HEADER_ID :: "byte list" where "SMB_HEADER_ID = [0x53, 0x4D, 0x42, 0x1A]"
definition SHD_HEADER_ID :: "byte list" where "SHD_HEADER_ID = [0x53, 0x48, 0x44, 0x1A]"

text \<open>Sizes of the packed structures \<open>smbhdr_t\<close>, \<open>smbstatus_t\<close>, \<open>msghdr_t\<close>, \<open>idxrec_t\<close>.\<close>

abbreviation (input) "sizeof_smbhdr \<equiv> 8 :: nat"
abbreviation (input) "sizeof_smbstatus \<equiv> 24 :: nat"
abbreviation (input) "sizeof_msghdr \<equiv> 70 :: nat"
abbreviation (input) "sizeof_idxrec \<equiv> 20 :: nat"

section \<open>State\<close>

datatype ext = SHD | SID | SDT | SDA | SHA | HASH

datatype open_try = Opened | Denied | Broken

record environment =
  medium :: nat
  open_tries :: "ext \<Rightarrow> open_try list"
  sem_tries :: "bool list"
  create_tries :: "bool list"
  remove_ok :: bool
  trunc_tries :: "open_try list"
  lock_tries :: "(bool \<times> bool) list"
  unlock_ok :: bool
  msglock_tries :: "nat \<Rightarrow> bool list"
  sch_tries :: "open_try list"
  clock :: u32

record smbstatus =
  last_msg :: u32
  total_msgs :: u32
  header_offset :: u32
  max_crcs :: u32
  max_msgs :: u32
  max_age :: u16
  st_attr :: u16

record smb =
  disk :: "ext \<Rightarrow> byte list"
  sch_file :: "byte list"
  fpos :: "ext \<Rightarrow> nat option"
  retry_time :: u32
  retry_delay :: u32
  status :: smbstatus
  locked :: bool
  env :: environment

section \<open>Streams\<close>

definition is_open :: "smb \<Rightarrow> ext \<Rightarrow> bool" where
  "is_open smb x \<longleftrightarrow> fpos smb x \<noteq> None"

definition ftell :: "smb \<Rightarrow> ext \<Rightarrow> nat" where
  "ftell smb x = (case fpos smb x of None \<Rightarrow> 0 | Some p \<Rightarrow> p)"

definition fseek :: "smb \<Rightarrow> ext \<Rightarrow> nat \<Rightarrow> smb" where
  "fseek smb x p = smb\<lparr>fpos := (fpos smb)(x \<mapsto> p)\<rparr>"

definition fseek_end :: "smb \<Rightarrow> ext \<Rightarrow> smb" where
  "fseek_end smb x = fseek smb x (length (disk smb x))"

definition fread :: "smb \<Rightarrow> ext \<Rightarrow> nat \<Rightarrow> byte list \<times> smb" where
  "fread smb x n =
     (let bs = take n (drop (ftell smb x) (disk smb x))
      in (bs, fseek smb x (ftell smb x + length bs)))"

definition fwrite :: "smb \<Rightarrow> ext \<Rightarrow> byte list \<Rightarrow> bool \<times> smb" where
  "fwrite smb x bs =
     (let p = ftell smb x
      in if p + length bs \<le> max (length (disk smb x)) (medium (env smb))
         then (True, smb\<lparr>disk := (disk smb)(x := overwrite (disk smb x) p bs),
                          fpos := (fpos smb)(x \<mapsto> p + length bs)\<rparr>)
         else (False, smb))"

definition chsize :: "smb \<Rightarrow> ext \<Rightarrow> nat \<Rightarrow> smb" where
  "chsize smb x n = smb\<lparr>disk := (disk smb)
     (x := take n (disk smb x) @ replicate (n - length (disk smb x)) 0)\<rparr>"

text \<open>Writing the same bytes \<open>n\<close> times, stopping at the first refused write.\<close>

fun fwrite_rep :: "nat \<Rightarrow> smb \<Rightarrow> ext \<Rightarrow> byte list \<Rightarrow> bool \<times> smb" where
  "fwrite_rep 0 smb x bs = (True, smb)"
| "fwrite_rep (Suc n) smb x bs =
     (case fwrite smb x bs of
        (True, smb') \<Rightarrow> fwrite_rep n smb' x bs
      | (False, smb') \<Rightarrow> (False, smb'))"

fun fwrite_all :: "smb \<Rightarrow> ext \<Rightarrow> byte list list \<Rightarrow> bool \<times> smb" where
  "fwrite_all smb x [] = (True, smb)"
| "fwrite_all smb x (bs # bss) =
     (case fwrite smb x bs of
        (True, smb') \<Rightarrow> fwrite_all smb' x bss
      | (False, smb') \<Rightarrow> (False, smb'))"

section \<open>Opening and closing streams (smbfile.c)\<close>

fun open_loop :: "open_try list \<Rightarrow> int" where
  "open_loop [] = SMB_ERR_TIMEOUT"
| "open_loop (Opened # _) = SMB_SUCCESS"
| "open_loop (Broken # _) = SMB_ERR_OPEN"
| "open_loop (Denied # ts) = open_loop ts"

definition smb_open_fp :: "smb \<Rightarrow> ext \<Rightarrow> int \<times> smb" where
  "smb_open_fp smb x =
     (if is_open smb x then (SMB_SUCCESS, smb)
      else let r = open_loop (open_tries (env smb) x)
           in if r = SMB_SUCCESS then (SMB_SUCCESS, fseek smb x 0) else (r, smb))"

definition smb_close_fp :: "smb \<Rightarrow> ext \<Rightarrow> smb" where
  "smb_close_fp smb x = smb\<lparr>fpos := (fpos smb)(x := None)\<rparr>"

section \<open>Locking (smblib.c)\<close>

fun locksmbhdr_loop :: "(bool \<times> bool) list \<Rightarrow> smb \<Rightarrow> int \<times> smb" where
  "locksmbhdr_loop [] smb = (SMB_ERR_TIMEOUT, smb)"
| "locksmbhdr_loop ((granted, unlocked) # ts) smb =
     (if granted then (SMB_SUCCESS, smb\<lparr>locked := True\<rparr>)
      else locksmbhdr_loop ts (if unlocked then smb\<lparr>locked := False\<rparr> else smb))"

definition smb_locksmbhdr :: "smb \<Rightarrow> int \<times> smb" where
  "smb_locksmbhdr smb =
     (if \<not> is_open smb SHD then (SMB_ERR_NOT_OPEN, smb)
      else locksmbhdr_loop (lock_tries (env smb)) smb)"

definition smb_unlocksmbhdr :: "smb \<Rightarrow> int \<times> smb" where
  "smb_unlocksmbhdr smb =
     (if locked smb
      then if \<not> is_open smb SHD then (SMB_ERR_NOT_OPEN, smb)
           else if \<not> unlock_ok (env smb) then (SMB_ERR_UNLOCK, smb)
           else (SMB_SUCCESS, smb\<lparr>locked := False\<rparr>)
      else (SMB_SUCCESS, smb))"

definition smb_valid_hdr_offset :: "smb \<Rightarrow> ulong \<Rightarrow> bool" where
  "smb_valid_hdr_offset smb offset \<longleftrightarrow>
     \<not> (offset < of_nat (sizeof_smbhdr + sizeof_smbstatus)
        \<or> offset < ucast (header_offset (status smb)))"

fun lockmsghdr_loop :: "bool list \<Rightarrow> int" where
  "lockmsghdr_loop [] = SMB_ERR_TIMEOUT"
| "lockmsghdr_loop (granted # ts) = (if granted then SMB_SUCCESS else lockmsghdr_loop ts)"

definition smb_lockmsghdr :: "smb \<Rightarrow> u32 \<Rightarrow> int" where
  "smb_lockmsghdr smb idx_offset =
     (if \<not> is_open smb SHD then SMB_ERR_NOT_OPEN
      else if \<not> smb_valid_hdr_offset smb (ucast idx_offset) then SMB_ERR_HDR_OFFSET
      else lockmsghdr_loop (msglock_tries (env smb) (unat idx_offset)))"

section \<open>The status header\<close>

definition fld :: "nat \<Rightarrow> nat \<Rightarrow> byte list \<Rightarrow> byte list" where
  "fld k n bs = take n (drop k bs)"

lemma length_fld [simp]: "k + n \<le> length bs \<Longrightarrow> length (fld k n bs) = n"
  by (simp add: fld_def)

lemma fld_all [simp]: "length bs = n \<Longrightarrow> fld 0 n bs = bs"
  by (simp add: fld_def)

lemma fld_join: "k' = k + a \<Longrightarrow> fld k a bs @ fld k' b bs = fld k (a + b) bs"
  by (simp add: fld_def take_add add.commute)

lemma fld_join_more: "k' = k + a \<Longrightarrow> fld k a bs @ fld k' b bs @ xs = fld k (a + b) bs @ xs"
  by (simp add: fld_def take_add add.commute)

lemma fld_append [simp]:
  "length as = m \<Longrightarrow> fld k n (as @ bs) =
     (if k + n \<le> m then fld k n as else if m \<le> k then fld (k - m) n bs
      else drop k as @ take (n - (m - k)) bs)"
  by (auto simp: fld_def)

definition enc_status :: "smbstatus \<Rightarrow> byte list" where
  "enc_status s = le32 (last_msg s) @ le32 (total_msgs s) @ le32 (header_offset s)
     @ le32 (max_crcs s) @ le32 (max_msgs s) @ le16 (max_age s) @ le16 (st_attr s)"

definition dec_status :: "byte list \<Rightarrow> smbstatus" where
  "dec_status bs = \<lparr>last_msg = un_le32 (fld 0 4 bs), total_msgs = un_le32 (fld 4 4 bs),
     header_offset = un_le32 (fld 8 4 bs), max_crcs = un_le32 (fld 12 4 bs),
     max_msgs = un_le32 (fld 16 4 bs), max_age = un_le16 (fld 20 2 bs),
     st_attr = un_le16 (fld 22 2 bs)\<rparr>"

text \<open>A short read overwrites the first bytes of the structure in memory.\<close>

definition smb_getstatus :: "smb \<Rightarrow> int \<times> smb" where
  "smb_getstatus smb =
     (if \<not> is_open smb SHD then (SMB_ERR_NOT_OPEN, smb)
      else case fread (fseek smb SHD sizeof_smbhdr) SHD sizeof_smbstatus of (bs, smb1) \<Rightarrow>
        let smb2 = smb1\<lparr>status := dec_status (bs @ drop (length bs) (enc_status (status smb)))\<rparr>
        in (if length bs = sizeof_smbstatus then SMB_SUCCESS else SMB_ERR_READ, smb2))"

definition smb_putstatus :: "smb \<Rightarrow> int \<times> smb" where
  "smb_putstatus smb =
     (if \<not> is_open smb SHD then (SMB_ERR_NOT_OPEN, smb)
      else case fwrite (fseek smb SHD sizeof_smbhdr) SHD (enc_status (status smb)) of
        (ok, smb1) \<Rightarrow> (if ok then SMB_SUCCESS else SMB_ERR_WRITE, smb1))"

section \<open>Opening, closing and creating a base\<close>

definition smb_close :: "smb \<Rightarrow> smb" where
  "smb_close smb =
     (let smb1 = (if is_open smb SHD then smb_close_fp (snd (smb_unlocksmbhdr smb)) SHD else smb)
      in foldl smb_close_fp smb1 [SDT, SID, SDA, SHA, HASH])"

fun smb_lock_wait :: "bool list \<Rightarrow> bool" where
  "smb_lock_wait [] = False"
| "smb_lock_wait (islocked # ts) = (if islocked then smb_lock_wait ts else True)"

definition empty_status :: smbstatus where
  "empty_status = \<lparr>last_msg = 0, total_msgs = 0, header_offset = 0, max_crcs = 0,
     max_msgs = 0, max_age = 0, st_attr = 0\<rparr>"

text \<open>Locking the whole base for maintenance: the exclusive creation of its semaphore file, and
  its removal.\<close>

fun smb_lock_loop :: "bool list \<Rightarrow> int" where
  "smb_lock_loop [] = SMB_ERR_LOCK"
| "smb_lock_loop (created # ts) = (if created then SMB_SUCCESS else smb_lock_loop ts)"

definition smb_lock :: "smb \<Rightarrow> int" where
  "smb_lock smb = smb_lock_loop (create_tries (env smb))"

definition smb_unlock :: "smb \<Rightarrow> int" where
  "smb_unlock smb = (if remove_ok (env smb) then SMB_SUCCESS else SMB_ERR_DELETE)"

fun trunchdr_loop :: "open_try list \<Rightarrow> smb \<Rightarrow> int \<times> smb" where
  "trunchdr_loop [] smb = (SMB_ERR_TIMEOUT, smb)"
| "trunchdr_loop (Opened # _) smb = (SMB_SUCCESS, chsize smb SHD 0)"
| "trunchdr_loop (Broken # _) smb = (SMB_ERR_WRITE, smb)"
| "trunchdr_loop (Denied # ts) smb = trunchdr_loop ts smb"

definition smb_trunchdr :: "smb \<Rightarrow> int \<times> smb" where
  "smb_trunchdr smb =
     (if \<not> is_open smb SHD then (SMB_ERR_NOT_OPEN, smb)
      else trunchdr_loop (trunc_tries (env smb)) (fseek smb SHD 0))"

definition open_defaults :: "smb \<Rightarrow> smb" where
  "open_defaults smb =
     (let smb1 = (if retry_time smb = 0 then smb\<lparr>retry_time := 10\<rparr> else smb);
          smb2 = (if retry_delay smb1 = 0 \<or> retry_time smb1 * 100 < retry_delay smb1
                  then smb1\<lparr>retry_delay := 250\<rparr> else smb1)
      in smb2\<lparr>fpos := (\<lambda>_. None)\<rparr>)"

definition read_smbhdr :: "smb \<Rightarrow> int \<times> smb" where
  "read_smbhdr smb =
     (case smb_locksmbhdr smb of (r, smb1) \<Rightarrow>
        if r \<noteq> SMB_SUCCESS then (SMB_ERR_LOCK, smb_close smb1)
        else case fread smb1 SHD sizeof_smbhdr of (hdr, smb2) \<Rightarrow>
          if length hdr \<noteq> sizeof_smbhdr then (SMB_ERR_READ, smb_close smb2)
          else if fld 0 4 hdr \<noteq> SMB_HEADER_ID then (SMB_ERR_HDR_ID, smb_close smb2)
          else if un_le16 (fld 4 2 hdr) < 0x110 then (SMB_ERR_HDR_VER, smb_close smb2)
          else case fread smb2 SHD sizeof_smbstatus of (bs, smb3) \<Rightarrow>
            let smb4 = smb3\<lparr>status := dec_status (bs @ drop (length bs) (enc_status (status smb3)))\<rparr>
            in if length bs \<noteq> sizeof_smbstatus then (SMB_ERR_READ, smb_close smb4)
               else case smb_unlocksmbhdr smb4 of (u, smb5) \<Rightarrow>
                 if u \<noteq> SMB_SUCCESS then (u, smb_close smb5)
                 else (SMB_SUCCESS, fseek smb5 SHD 0))"

definition smb_open :: "smb \<Rightarrow> int \<times> smb" where
  "smb_open smb0 =
     (let smb = open_defaults smb0
      in if \<not> smb_lock_wait (sem_tries (env smb)) then (SMB_ERR_TIMEOUT, smb)
         else case smb_open_fp smb SHD of (i, smb1) \<Rightarrow>
           if i \<noteq> SMB_SUCCESS then (i, smb1)
           else let smb2 = smb1\<lparr>status := empty_status\<rparr> in
             case (if sizeof_smbhdr \<le> length (disk smb2 SHD) then read_smbhdr smb2
                   else (SMB_SUCCESS, smb2)) of (j, smb3) \<Rightarrow>
               if j \<noteq> SMB_SUCCESS then (j, smb3)
               else case smb_open_fp smb3 SDT of (k, smb4) \<Rightarrow>
                 if k \<noteq> SMB_SUCCESS then (k, smb4) else smb_open_fp smb4 SID)"

definition enc_smbhdr :: "byte list" where
  "enc_smbhdr = SMB_HEADER_ID @ le16 SMB_VERSION
     @ le16 (of_nat (sizeof_smbhdr + sizeof_smbstatus))"

definition smb_create :: "smb \<Rightarrow> int \<times> smb" where
  "smb_create smb =
     (if \<not> is_open smb SHD \<or> \<not> is_open smb SDT \<or> \<not> is_open smb SID then (SMB_ERR_NOT_OPEN, smb)
      else case (if sizeof_smbhdr + sizeof_smbstatus \<le> length (disk smb SHD)
                 then smb_locksmbhdr smb else (SMB_SUCCESS, smb)) of (r, smb1) \<Rightarrow>
        if r \<noteq> SMB_SUCCESS then (SMB_ERR_LOCK, smb1)
        else
          let smb2 = smb1\<lparr>status := (status smb1)\<lparr>last_msg := 0, total_msgs := 0,
                header_offset := of_nat (sizeof_smbhdr + sizeof_smbstatus)\<rparr>\<rparr>;
              smb3 = snd (fwrite (fseek smb2 SHD 0) SHD enc_smbhdr);
              smb4 = snd (fwrite smb3 SHD (enc_status (status smb3)));
              smb5 = chsize (fseek smb4 SHD 0) SHD (sizeof_smbhdr + sizeof_smbstatus);
              smb6 = chsize (fseek smb5 SDT 0) SDT 0;
              smb7 = chsize (fseek smb6 SID 0) SID 0;
              smb8 = smb7\<lparr>disk := (disk smb7)(SDA := [], SHA := [], HASH := []), sch_file := []\<rparr>
          in (SMB_SUCCESS, snd (smb_unlocksmbhdr smb8)))"

section \<open>The stack of message bases\<close>

datatype stack_op = POP | PUSH | XCHNG

definition SMB_STACK_LEN :: nat where "SMB_STACK_LEN = 4"

text \<open>
  The stack holds copies of the structure \<open>smb_t\<close>, whose stream fields are pointers: copying it
  copies no file and no position. So the operation is stated over any type of structures, with
  \<open>opened b x\<close> for a stream pointer of \<open>b\<close> that is not null; the top of the stack is the head of
  the list. The result is the return value, the stack and the caller's structure.
\<close>

definition smb_stack ::
  "('b \<Rightarrow> ext \<Rightarrow> bool) \<Rightarrow> 'b list \<Rightarrow> 'b \<Rightarrow> stack_op \<Rightarrow> int \<times> 'b list \<times> 'b" where
  "smb_stack opened stack smb op =
     (if op = PUSH
      then if SMB_STACK_LEN \<le> length stack then (SMB_FAILURE, stack, smb)
           else if \<not> opened smb SHD \<or> \<not> opened smb SDT \<or> \<not> opened smb SID
           then (SMB_SUCCESS, stack, smb)
           else (SMB_SUCCESS, smb # stack, smb)
      else case stack of
        [] \<Rightarrow> (SMB_SUCCESS, stack, smb)
      | saved # rest \<Rightarrow>
          if op = XCHNG
          then if \<not> opened smb SHD then (SMB_SUCCESS, stack, smb)
               else (SMB_SUCCESS, smb # rest, saved)
          else (SMB_SUCCESS, rest, saved))"

section \<open>Laws of the streams\<close>

named_theorems stream_simps \<open>what a stream operation leaves of the state\<close>

lemma ftell_fseek [simp]: "ftell (fseek smb x p) x = p"
  by (simp add: ftell_def fseek_def)

lemma fseek_fields [stream_simps]:
  "disk (fseek smb x p) = disk smb" "env (fseek smb x p) = env smb"
  "status (fseek smb x p) = status smb" "locked (fseek smb x p) = locked smb"
  "is_open (fseek smb x p) y \<longleftrightarrow> y = x \<or> is_open smb y"
  by (auto simp: fseek_def is_open_def)

lemma fseek_end_fields [stream_simps]:
  "disk (fseek_end smb x) = disk smb" "env (fseek_end smb x) = env smb"
  "status (fseek_end smb x) = status smb" "locked (fseek_end smb x) = locked smb"
  "is_open (fseek_end smb x) y \<longleftrightarrow> y = x \<or> is_open smb y"
  "ftell (fseek_end smb x) x = length (disk smb x)"
  by (auto simp: fseek_end_def stream_simps)

lemma fread_eq:
  "fread smb x n = (take n (drop (ftell smb x) (disk smb x)),
     fseek smb x (ftell smb x + length (take n (drop (ftell smb x) (disk smb x)))))"
  by (simp add: fread_def Let_def)

lemma fwrite_fields [stream_simps]:
  "env (snd (fwrite smb x bs)) = env smb" "status (snd (fwrite smb x bs)) = status smb"
  "locked (snd (fwrite smb x bs)) = locked smb"
  "y \<noteq> x \<Longrightarrow> disk (snd (fwrite smb x bs)) y = disk smb y"
  "is_open smb x \<Longrightarrow> is_open (snd (fwrite smb x bs)) y = is_open smb y"
  by (auto simp: fwrite_def Let_def is_open_def)

lemma fwrite_ok_iff:
  "fst (fwrite smb x bs) \<longleftrightarrow>
     ftell smb x + length bs \<le> max (length (disk smb x)) (medium (env smb))"
  by (simp add: fwrite_def Let_def)

lemma fwrite_okE:
  assumes "fwrite smb x bs = (True, smb')"
  shows "disk smb' = (disk smb)(x := overwrite (disk smb x) (ftell smb x) bs)"
    and "ftell smb' x = ftell smb x + length bs"
    and "env smb' = env smb" and "status smb' = status smb" and "locked smb' = locked smb"
    and "is_open smb' y \<longleftrightarrow> y = x \<or> is_open smb y"
  using assms by (auto simp: fwrite_def Let_def ftell_def is_open_def split: if_splits)

lemma fwrite_refused: "fwrite smb x bs = (False, smb') \<Longrightarrow> smb' = smb"
  by (auto simp: fwrite_def Let_def split: if_splits)

lemma replicate_Suc_concat: "concat (replicate (Suc n) bs) = bs @ concat (replicate n bs)"
  by simp

lemma fwrite_rep_frame:
  assumes "fwrite_rep n smb x bs = (ok, smb')"
  shows "env smb' = env smb \<and> status smb' = status smb \<and> locked smb' = locked smb
    \<and> (\<forall>y. y \<noteq> x \<longrightarrow> disk smb' y = disk smb y)"
  using assms
proof (induction n arbitrary: smb)
  case (Suc n)
  then show ?case
    by (cases "fwrite smb x bs" rule: prod.exhaust)
      (fastforce split: bool.splits dest: fwrite_okE fwrite_refused)
qed simp

lemma fwrite_rep_ok:
  assumes "ftell smb x + n * length bs \<le> max (length (disk smb x)) (medium (env smb))"
  shows "\<exists>smb'. fwrite_rep n smb x bs = (True, smb')
    \<and> disk smb' = (disk smb)(x := (if n = 0 then disk smb x
        else overwrite (disk smb x) (ftell smb x) (concat (replicate n bs))))
    \<and> (\<forall>y. is_open smb' y \<longleftrightarrow> (n \<noteq> 0 \<and> y = x) \<or> is_open smb y)"
  using assms
proof (induction n arbitrary: smb)
  case (Suc n)
  obtain smb1 where w: "fwrite smb x bs = (True, smb1)"
    using Suc.prems by (cases "fwrite smb x bs") (auto simp: fwrite_def Let_def split: if_splits)
  note e = fwrite_okE [OF w]
  have "ftell smb1 x + n * length bs \<le> max (length (disk smb1 x)) (medium (env smb1))"
    using Suc.prems by (auto simp: e)
  from Suc.IH [OF this] obtain smb' where
    r: "fwrite_rep n smb1 x bs = (True, smb')" and
    d: "disk smb' = (disk smb1)(x := (if n = 0 then disk smb1 x
        else overwrite (disk smb1 x) (ftell smb1 x) (concat (replicate n bs))))" and
    o: "\<forall>y. is_open smb' y \<longleftrightarrow> (n \<noteq> 0 \<and> y = x) \<or> is_open smb1 y"
    by blast
  then show ?case
    using w by (auto simp: e overwrite_overwrite_next)
qed (auto intro: exI [of _ smb])

lemma length_enc_status [simp]: "length (enc_status s) = 24"
  by (simp add: enc_status_def)

interpretation status_codec: record_codec enc_status dec_status 24
proof
  show "dec_status (enc_status x) = x" for x
    by (simp add: enc_status_def dec_status_def)
  show "length bs = 24 \<Longrightarrow> enc_status (dec_status bs) = bs" for bs
    by (simp add: enc_status_def dec_status_def fld_join fld_join_more)
qed simp_all

lemma smb_putstatus_getstatus:
  assumes "smb_putstatus smb = (SMB_SUCCESS, smb')"
  shows "\<exists>smb''. smb_getstatus (smb'\<lparr>status := s\<rparr>) = (SMB_SUCCESS, smb'')
    \<and> status smb'' = status smb"
proof -
  obtain smb1 where op: "is_open smb SHD" and
    w: "fwrite (fseek smb SHD 8) SHD (enc_status (status smb)) = (True, smb1)" "smb' = smb1"
    using assms by (auto simp: smb_putstatus_def smb_codes split: if_splits prod.splits)
  note e = fwrite_okE [OF w(1)]
  have "fld 8 24 (disk smb' SHD) = enc_status (status smb)"
    using take_drop_overwrite [of "enc_status (status smb)" 8 "disk smb SHD"]
    by (simp add: w(2) e fld_def stream_simps)
  then show ?thesis
    using op w(2) e(6) [of SHD]
    by (simp add: smb_getstatus_def fread_eq stream_simps is_open_def fld_def
      status_codec.dec_enc ftell_def fseek_def)
qed

lemma open_loop_codes: "open_loop ts \<in> {SMB_SUCCESS, SMB_ERR_OPEN, SMB_ERR_TIMEOUT}"
  by (induction ts rule: open_loop.induct) auto

lemma smb_open_fp_success:
  "smb_open_fp smb x = (SMB_SUCCESS, smb') \<Longrightarrow> is_open smb' x \<and> disk smb' = disk smb
    \<and> env smb' = env smb \<and> status smb' = status smb \<and> locked smb' = locked smb"
  by (auto simp: smb_open_fp_def Let_def stream_simps split: if_splits)

lemma smb_open_fp_failure:
  "smb_open_fp smb x = (r, smb') \<Longrightarrow> r \<noteq> SMB_SUCCESS \<Longrightarrow>
     smb' = smb \<and> \<not> is_open smb x \<and> r \<in> {SMB_ERR_OPEN, SMB_ERR_TIMEOUT}"
  using open_loop_codes [of "open_tries (env smb) x"]
  by (auto simp: smb_open_fp_def Let_def split: if_splits)

lemma smb_close_fp_fields [stream_simps]:
  "disk (smb_close_fp smb x) = disk smb" "env (smb_close_fp smb x) = env smb"
  "status (smb_close_fp smb x) = status smb" "locked (smb_close_fp smb x) = locked smb"
  "is_open (smb_close_fp smb x) y \<longleftrightarrow> y \<noteq> x \<and> is_open smb y"
  by (auto simp: smb_close_fp_def is_open_def)

section \<open>A sample base\<close>

text \<open>An open base with the given file contents, on a quiet system; the witnesses run on it.\<close>

definition sample_env :: environment where
  "sample_env = \<lparr>medium = 65536, open_tries = (\<lambda>_. [Opened]), sem_tries = [False],
     create_tries = [True], remove_ok = True, trunc_tries = [Opened],
     lock_tries = [(True, True)], unlock_ok = True, msglock_tries = (\<lambda>_. [True]),
     sch_tries = [Opened],
     clock = 0x50000000\<rparr>"

definition sample_smb :: "(ext \<Rightarrow> byte list) \<Rightarrow> smb" where
  "sample_smb d = \<lparr>disk = d, sch_file = [], fpos = (\<lambda>_. Some 0), retry_time = 10,
     retry_delay = 250, status = empty_status\<lparr>header_offset := 32\<rparr>, locked = False,
     env = sample_env\<rparr>"

lemma sample_smb_fields [simp]:
  "disk (sample_smb d) = d" "is_open (sample_smb d) x" "env (sample_smb d) = sample_env"
  "st_attr (status (sample_smb d)) = 0" "header_offset (status (sample_smb d)) = 32"
  "medium sample_env = 65536" "locked (sample_smb d) = False"
  by (simp_all add: sample_smb_def is_open_def empty_status_def sample_env_def)

end
