(* ===== verification/SmbData.thy ===== *)
theory SmbData
  imports SmbBase
begin

text \<open>
  The records of a message base (smblib/smbdefs.h) and a message in memory (\<open>smbmsg_t\<close>).
  \<open>idxrec\<close>, \<open>dfield\<close> and \<open>hfield\<close> and the fixed part of a header (\<open>msghdr\<close>) are packed
  structures: each has its packed form and interprets \<open>record_codec\<close>. In memory a message
  keeps its header fields with their data and the convenience pointers into them; a pointer is
  the data it points to (None for NULL), read as a C string by its users.
\<close>

section \<open>Packed records\<close>

record when_t =
  wtime :: u32
  wzone :: u16

record idxrec =
  idx_to :: u16
  idx_from :: u16
  idx_subj :: u16
  idx_attr :: u16
  idx_offset :: u32
  idx_number :: u32
  idx_time :: u32

record dfield =
  df_type :: u16
  df_offset :: u32
  df_length :: u32

record hfield =
  hf_type :: u16
  hf_length :: u16

record msghdr =
  hdr_id :: "byte list"
  hdr_type :: u16
  hdr_version :: u16
  hdr_length :: u16
  hdr_attr :: u16
  auxattr :: u32
  netattr :: u32
  when_written :: when_t
  when_imported :: when_t
  hdr_number :: u32
  thread_back :: u32
  thread_next :: u32
  thread_first :: u32
  delivery_attempts :: u16
  hdr_reserved :: "byte list"
  thread_id :: u32
  times_downloaded :: u32
  last_downloaded :: u32
  hdr_offset :: u32
  total_dfields :: u16

definition enc_idx :: "idxrec \<Rightarrow> byte list" where
  "enc_idx r = le16 (idx_to r) @ le16 (idx_from r) @ le16 (idx_subj r) @ le16 (idx_attr r)
     @ le32 (idx_offset r) @ le32 (idx_number r) @ le32 (idx_time r)"

definition dec_idx :: "byte list \<Rightarrow> idxrec" where
  "dec_idx bs = \<lparr>idx_to = un_le16 (fld 0 2 bs), idx_from = un_le16 (fld 2 2 bs),
     idx_subj = un_le16 (fld 4 2 bs), idx_attr = un_le16 (fld 6 2 bs),
     idx_offset = un_le32 (fld 8 4 bs), idx_number = un_le32 (fld 12 4 bs),
     idx_time = un_le32 (fld 16 4 bs)\<rparr>"

definition enc_dfield :: "dfield \<Rightarrow> byte list" where
  "enc_dfield d = le16 (df_type d) @ le32 (df_offset d) @ le32 (df_length d)"

definition dec_dfield :: "byte list \<Rightarrow> dfield" where
  "dec_dfield bs = \<lparr>df_type = un_le16 (fld 0 2 bs), df_offset = un_le32 (fld 2 4 bs),
     df_length = un_le32 (fld 6 4 bs)\<rparr>"

definition enc_hfield :: "hfield \<Rightarrow> byte list" where
  "enc_hfield h = le16 (hf_type h) @ le16 (hf_length h)"

definition dec_hfield :: "byte list \<Rightarrow> hfield" where
  "dec_hfield bs = \<lparr>hf_type = un_le16 (fld 0 2 bs), hf_length = un_le16 (fld 2 2 bs)\<rparr>"

definition enc_hdr :: "msghdr \<Rightarrow> byte list" where
  "enc_hdr h = hdr_id h @ le16 (hdr_type h) @ le16 (hdr_version h) @ le16 (hdr_length h)
     @ le16 (hdr_attr h) @ le32 (auxattr h) @ le32 (netattr h)
     @ le32 (wtime (when_written h)) @ le16 (wzone (when_written h))
     @ le32 (wtime (when_imported h)) @ le16 (wzone (when_imported h))
     @ le32 (hdr_number h) @ le32 (thread_back h) @ le32 (thread_next h)
     @ le32 (thread_first h) @ le16 (delivery_attempts h) @ hdr_reserved h
     @ le32 (thread_id h) @ le32 (times_downloaded h) @ le32 (last_downloaded h)
     @ le32 (hdr_offset h) @ le16 (total_dfields h)"

definition dec_hdr :: "byte list \<Rightarrow> msghdr" where
  "dec_hdr bs = \<lparr>hdr_id = fld 0 4 bs, hdr_type = un_le16 (fld 4 2 bs),
     hdr_version = un_le16 (fld 6 2 bs), hdr_length = un_le16 (fld 8 2 bs),
     hdr_attr = un_le16 (fld 10 2 bs), auxattr = un_le32 (fld 12 4 bs),
     netattr = un_le32 (fld 16 4 bs),
     when_written = \<lparr>wtime = un_le32 (fld 20 4 bs), wzone = un_le16 (fld 24 2 bs)\<rparr>,
     when_imported = \<lparr>wtime = un_le32 (fld 26 4 bs), wzone = un_le16 (fld 30 2 bs)\<rparr>,
     hdr_number = un_le32 (fld 32 4 bs), thread_back = un_le32 (fld 36 4 bs),
     thread_next = un_le32 (fld 40 4 bs), thread_first = un_le32 (fld 44 4 bs),
     delivery_attempts = un_le16 (fld 48 2 bs), hdr_reserved = fld 50 2 bs,
     thread_id = un_le32 (fld 52 4 bs), times_downloaded = un_le32 (fld 56 4 bs),
     last_downloaded = un_le32 (fld 60 4 bs), hdr_offset = un_le32 (fld 64 4 bs),
     total_dfields = un_le16 (fld 68 2 bs)\<rparr>"

interpretation idx_codec: record_codec enc_idx dec_idx 20
  by unfold_locales
    (simp_all add: enc_idx_def dec_idx_def fld_join fld_join_more)

interpretation dfield_codec: record_codec enc_dfield dec_dfield 10
  by unfold_locales
    (simp_all add: enc_dfield_def dec_dfield_def fld_join fld_join_more)

interpretation hfield_codec: record_codec enc_hfield dec_hfield 4
  by unfold_locales
    (simp_all add: enc_hfield_def dec_hfield_def fld_join fld_join_more)

text \<open>The two byte arrays of a header have their declared sizes.\<close>

definition wf_hdr :: "msghdr \<Rightarrow> bool" where
  "wf_hdr h \<longleftrightarrow> length (hdr_id h) = 4 \<and> length (hdr_reserved h) = 2"

lemma length_enc_hdr: "wf_hdr h \<Longrightarrow> length (enc_hdr h) = 70"
  by (simp add: enc_hdr_def wf_hdr_def)

lemma dec_enc_hdr: "wf_hdr h \<Longrightarrow> dec_hdr (enc_hdr h) = h"
  by (simp add: enc_hdr_def dec_hdr_def wf_hdr_def)

lemma enc_dec_hdr: "length bs = 70 \<Longrightarrow> enc_hdr (dec_hdr bs) = bs"
  by (simp add: enc_hdr_def dec_hdr_def fld_join fld_join_more)

lemma wf_dec_hdr [simp]: "length bs = 70 \<Longrightarrow> wf_hdr (dec_hdr bs)"
  by (simp add: dec_hdr_def wf_hdr_def)

interpretation hdr_codec: wf_codec enc_hdr dec_hdr 70 wf_hdr
  by unfold_locales (simp_all add: length_enc_hdr dec_enc_hdr enc_dec_hdr)

section \<open>Field types\<close>

abbreviation (input) "SENDER \<equiv> 0x00 :: u16"
abbreviation (input) "SENDERAGENT \<equiv> 0x01 :: u16"
abbreviation (input) "SENDERNETTYPE \<equiv> 0x02 :: u16"
abbreviation (input) "SENDERNETADDR \<equiv> 0x03 :: u16"
abbreviation (input) "SENDEREXT \<equiv> 0x04 :: u16"
abbreviation (input) "SENDERORG \<equiv> 0x06 :: u16"
abbreviation (input) "SENDERIPADDR \<equiv> 0x07 :: u16"
abbreviation (input) "SENDERHOSTNAME \<equiv> 0x08 :: u16"
abbreviation (input) "SENDERPROTOCOL \<equiv> 0x09 :: u16"
abbreviation (input) "AUTHOR \<equiv> 0x10 :: u16"
abbreviation (input) "REPLYTO \<equiv> 0x20 :: u16"
abbreviation (input) "REPLYTOAGENT \<equiv> 0x21 :: u16"
abbreviation (input) "REPLYTONETTYPE \<equiv> 0x22 :: u16"
abbreviation (input) "REPLYTONETADDR \<equiv> 0x23 :: u16"
abbreviation (input) "REPLYTOEXT \<equiv> 0x24 :: u16"
abbreviation (input) "RECIPIENT \<equiv> 0x30 :: u16"
abbreviation (input) "RECIPIENTAGENT \<equiv> 0x31 :: u16"
abbreviation (input) "RECIPIENTNETTYPE \<equiv> 0x32 :: u16"
abbreviation (input) "RECIPIENTNETADDR \<equiv> 0x33 :: u16"
abbreviation (input) "RECIPIENTEXT \<equiv> 0x34 :: u16"
abbreviation (input) "FORWARDED \<equiv> 0x48 :: u16"
abbreviation (input) "SUBJECT \<equiv> 0x60 :: u16"
abbreviation (input) "SMB_SUMMARY \<equiv> 0x61 :: u16"
abbreviation (input) "SMB_COMMENT \<equiv> 0x62 :: u16"
abbreviation (input) "SMB_EXPIRATION \<equiv> 0x65 :: u16"
abbreviation (input) "SMB_PRIORITY \<equiv> 0x66 :: u16"
abbreviation (input) "SMB_COST \<equiv> 0x67 :: u16"
abbreviation (input) "FIDOAREA \<equiv> 0xa1 :: u16"
abbreviation (input) "FIDOMSGID \<equiv> 0xa4 :: u16"
abbreviation (input) "FIDOREPLYID \<equiv> 0xa5 :: u16"
abbreviation (input) "FIDOPID \<equiv> 0xa6 :: u16"
abbreviation (input) "FIDOFLAGS \<equiv> 0xa7 :: u16"
abbreviation (input) "FIDOTID \<equiv> 0xa8 :: u16"
abbreviation (input) "RFC822MSGID \<equiv> 0xb1 :: u16"
abbreviation (input) "RFC822REPLYID \<equiv> 0xb2 :: u16"
abbreviation (input) "USENETPATH \<equiv> 0xc0 :: u16"
abbreviation (input) "USENETNEWSGROUPS \<equiv> 0xc1 :: u16"
abbreviation (input) "SMTPREVERSEPATH \<equiv> 0xd1 :: u16"
abbreviation (input) "SMTPSYSMSG \<equiv> 0xd8 :: u16"
abbreviation (input) "TEXT_BODY \<equiv> 0x00 :: u16"
abbreviation (input) "TEXT_TAIL \<equiv> 0x02 :: u16"
abbreviation (input) "NET_NONE \<equiv> 0 :: u16"
abbreviation (input) "NET_UNKNOWN \<equiv> 1 :: u16"
abbreviation (input) "NET_FIDO \<equiv> 2 :: u16"
abbreviation (input) "NET_QWK \<equiv> 4 :: u16"
abbreviation (input) "NET_INTERNET \<equiv> 5 :: u16"

section \<open>A message in memory\<close>

record net_t =
  net_type :: u16
  net_addr :: "byte list option"

record smbmsg =
  idx :: idxrec
  hdr :: msghdr
  m_to :: "byte list option"
  to_ext :: "byte list option"
  m_from :: "byte list option"
  from_ext :: "byte list option"
  from_org :: "byte list option"
  from_ip :: "byte list option"
  from_host :: "byte list option"
  from_prot :: "byte list option"
  replyto :: "byte list option"
  replyto_ext :: "byte list option"
  m_id :: "byte list option"
  reply_id :: "byte list option"
  reverse_path :: "byte list option"
  path :: "byte list option"
  newsgroups :: "byte list option"
  ftn_pid :: "byte list option"
  ftn_tid :: "byte list option"
  ftn_area :: "byte list option"
  ftn_flags :: "byte list option"
  ftn_msgid :: "byte list option"
  ftn_reply :: "byte list option"
  summary :: "byte list option"
  subj :: "byte list option"
  to_agent :: u16
  from_agent :: u16
  replyto_agent :: u16
  to_net :: net_t
  from_net :: net_t
  replyto_net :: net_t
  hfields :: "(hfield \<times> byte list option) list"
  dfields :: "dfield list"
  m_offset :: int
  forwarded :: bool
  expiration :: u32
  priority :: u32
  cost :: u32
  m_hashed :: bool

definition zero_idx :: idxrec where
  "zero_idx = \<lparr>idx_to = 0, idx_from = 0, idx_subj = 0, idx_attr = 0, idx_offset = 0,
     idx_number = 0, idx_time = 0\<rparr>"

definition zero_hdr :: msghdr where
  "zero_hdr = \<lparr>hdr_id = [0, 0, 0, 0], hdr_type = 0, hdr_version = 0, hdr_length = 0,
     hdr_attr = 0, auxattr = 0, netattr = 0, when_written = \<lparr>wtime = 0, wzone = 0\<rparr>,
     when_imported = \<lparr>wtime = 0, wzone = 0\<rparr>, hdr_number = 0, thread_back = 0, thread_next = 0,
     thread_first = 0, delivery_attempts = 0, hdr_reserved = [0, 0], thread_id = 0,
     times_downloaded = 0, last_downloaded = 0, hdr_offset = 0, total_dfields = 0\<rparr>"

definition zero_net :: net_t where
  "zero_net = \<lparr>net_type = 0, net_addr = None\<rparr>"

definition zero_msg :: smbmsg where
  "zero_msg = \<lparr>idx = zero_idx, hdr = zero_hdr, m_to = None, to_ext = None, m_from = None,
     from_ext = None, from_org = None, from_ip = None, from_host = None, from_prot = None,
     replyto = None, replyto_ext = None, m_id = None, reply_id = None, reverse_path = None,
     path = None, newsgroups = None, ftn_pid = None, ftn_tid = None, ftn_area = None,
     ftn_flags = None, ftn_msgid = None, ftn_reply = None, summary = None, subj = None,
     to_agent = 0, from_agent = 0, replyto_agent = 0, to_net = zero_net, from_net = zero_net,
     replyto_net = zero_net, hfields = [], dfields = [], m_offset = 0, forwarded = False,
     expiration = 0, priority = 0, cost = 0, m_hashed = False\<rparr>"

text \<open>
  The fields a \<open>for\<close> loop over \<open>total_dfields\<close> visits. The code indexes the array without a
  check; a message whose count exceeds its array is excluded by \<open>wf_msg\<close>.
\<close>

definition live_dfields :: "smbmsg \<Rightarrow> dfield list" where
  "live_dfields m = take (unat (total_dfields (hdr m))) (dfields m)"

definition wf_hfield :: "hfield \<times> byte list option \<Rightarrow> bool" where
  "wf_hfield f \<longleftrightarrow> (case snd f of
      None \<Rightarrow> hf_length (fst f) = 0
    | Some d \<Rightarrow> length d = unat (hf_length (fst f)))"

definition wf_msg :: "smbmsg \<Rightarrow> bool" where
  "wf_msg m \<longleftrightarrow> wf_hdr (hdr m) \<and> unat (total_dfields (hdr m)) \<le> length (dfields m)
     \<and> list_all wf_hfield (hfields m)"

end
