(* ===== verification/SmbAlloc.thy ===== *)
theory SmbAlloc
  imports SmbData
begin

text \<open>
  Block allocation (smblib/smballoc.c): the data allocation table (.sda, one 16-bit reference
  count per 256-byte block of the data file) and the header allocation table (.sha, one byte
  per header block). Allocation takes the first run of unused blocks, or the end of the table
  when there is none; references are added and removed block by block.
\<close>

section \<open>The code\<close>

definition smb_datblocks :: "ulong \<Rightarrow> ulong" where
  "smb_datblocks len =
     (let blocks = len div SDT_BLOCK_LEN
      in if len mod SDT_BLOCK_LEN \<noteq> 0 then blocks + 1 else blocks)"

definition smb_hdrblocks :: "ulong \<Rightarrow> ulong" where
  "smb_hdrblocks len =
     (let blocks = len div SHD_BLOCK_LEN
      in if len mod SHD_BLOCK_LEN \<noteq> 0 then blocks + 1 else blocks)"

text \<open>The scan of the data table: \<open>j\<close> counts consecutive unused blocks, and the loop condition
  reads the offset as a signed long.\<close>

fun allocdat_scan :: "ulong \<Rightarrow> ulong \<Rightarrow> ulong \<Rightarrow> byte list \<Rightarrow> ulong" where
  "allocdat_scan blocks j offset (b0 # b1 # rest) =
     (if sint offset < 0 then offset
      else let offset' = offset + SDT_BLOCK_LEN;
               j' = (if un_le16 [b0, b1] = 0 then j + 1 else 0)
           in if j' = blocks then offset' - blocks * SDT_BLOCK_LEN
              else allocdat_scan blocks j' offset' rest)"
| "allocdat_scan blocks j offset _ = offset"

definition smb_allocdat :: "smb \<Rightarrow> ulong \<Rightarrow> u16 \<Rightarrow> int \<times> smb" where
  "smb_allocdat smb len refs =
     (if \<not> is_open smb SDA then (SMB_ERR_NOT_OPEN, smb)
      else let blocks = smb_datblocks len;
               offset = allocdat_scan blocks 0 0 (disk smb SDA)
           in if sint offset < 0 then (SMB_ERR_DAT_OFFSET, smb)
              else case fwrite_rep (unat blocks)
                     (fseek smb SDA (unat (offset div SDT_BLOCK_LEN) * 2)) SDA (le16 refs) of
                (ok, smb') \<Rightarrow> (if ok then sint offset else SMB_ERR_WRITE, smb'))"

definition smb_fallocdat :: "smb \<Rightarrow> ulong \<Rightarrow> u16 \<Rightarrow> int \<times> smb" where
  "smb_fallocdat smb len refs =
     (if \<not> is_open smb SDA then (SMB_ERR_NOT_OPEN, smb)
      else let blocks = smb_datblocks len;
               smb1 = fseek_end smb SDA;
               offset = (of_nat (ftell smb1 SDA) div 2) * SDT_BLOCK_LEN
           in if sint offset < 0 then (SMB_ERR_DAT_OFFSET, smb1)
              else case fwrite_rep (unat blocks) smb1 SDA (le16 refs) of
                (ok, smb') \<Rightarrow> (if ok then sint offset else SMB_ERR_WRITE, smb'))"

text \<open>The loop that \<open>smb_freemsgdat\<close> and \<open>smb_incdat\<close> run over the blocks of a range: read a
  count, change it, step back and write it.\<close>

fun sda_loop :: "(u16 \<Rightarrow> u16) \<Rightarrow> nat \<Rightarrow> nat \<Rightarrow> smb \<Rightarrow> int \<times> smb" where
  "sda_loop f 0 block smb = (SMB_SUCCESS, smb)"
| "sda_loop f (Suc n) block smb =
     (case fread (fseek smb SDA (block * 2)) SDA 2 of (bs, smb1) \<Rightarrow>
        if length bs \<noteq> 2 then (SMB_ERR_READ, smb1)
        else case fwrite (fseek smb1 SDA (block * 2)) SDA (le16 (f (un_le16 bs))) of
          (True, smb2) \<Rightarrow> sda_loop f n (Suc block) smb2
        | (False, smb2) \<Rightarrow> (SMB_ERR_WRITE, smb2))"

definition drop_refs :: "u16 \<Rightarrow> u16 \<Rightarrow> u16" where
  "drop_refs refs i = (if refs = 0 \<or> i < refs then 0 else i - refs)"

text \<open>The result of opening the table is kept in a \<open>uint16_t\<close> before it is returned.\<close>

definition smb_freemsgdat :: "smb \<Rightarrow> ulong \<Rightarrow> ulong \<Rightarrow> u16 \<Rightarrow> int \<times> smb" where
  "smb_freemsgdat smb offset len refs =
     (if st_attr (status smb) AND SMB_HYPERALLOC \<noteq> 0 then (SMB_SUCCESS, smb)
      else let blocks = smb_datblocks len;
               block = unat (offset div SDT_BLOCK_LEN)
           in if is_open smb SDA then sda_loop (drop_refs refs) (unat blocks) block smb
              else case smb_open_fp smb SDA of (i, smb1) \<Rightarrow>
                if (word_of_int i :: u16) \<noteq> word_of_int SMB_SUCCESS
                then (uint (word_of_int i :: u16), smb1)
                else case sda_loop (drop_refs refs) (unat blocks) block smb1 of
                  (retval, smb2) \<Rightarrow> (retval, smb_close_fp smb2 SDA))"

definition smb_incdat :: "smb \<Rightarrow> ulong \<Rightarrow> ulong \<Rightarrow> u16 \<Rightarrow> int \<times> smb" where
  "smb_incdat smb offset len refs =
     (if \<not> is_open smb SDA then (SMB_ERR_NOT_OPEN, smb)
      else sda_loop (\<lambda>i. i + refs) (unat (smb_datblocks len))
             (unat (offset div SDT_BLOCK_LEN)) smb)"

fun incmsg_loop :: "u32 \<Rightarrow> u16 \<Rightarrow> dfield list \<Rightarrow> smb \<Rightarrow> int \<times> smb" where
  "incmsg_loop offset refs [] smb = (SMB_SUCCESS, smb)"
| "incmsg_loop offset refs (d # ds) smb =
     (case smb_incdat smb (ucast (offset + df_offset d)) (ucast (df_length d)) refs of
        (i, smb') \<Rightarrow> if i \<noteq> SMB_SUCCESS then (i, smb') else incmsg_loop offset refs ds smb')"

definition smb_incmsg_dfields :: "smb \<Rightarrow> smbmsg \<Rightarrow> u16 \<Rightarrow> int \<times> smb" where
  "smb_incmsg_dfields smb msg refs =
     (if st_attr (status smb) AND SMB_HYPERALLOC \<noteq> 0 then (SMB_SUCCESS, smb)
      else if is_open smb SDA
      then incmsg_loop (hdr_offset (hdr msg)) refs (live_dfields msg) smb
      else case smb_open_fp smb SDA of (i, smb1) \<Rightarrow>
        if i \<noteq> SMB_SUCCESS then (i, smb1)
        else case incmsg_loop (hdr_offset (hdr msg)) refs (live_dfields msg) smb1 of
          (j, smb2) \<Rightarrow> (j, smb_close_fp smb2 SDA))"

fun freemsg_loop :: "u32 \<Rightarrow> u16 \<Rightarrow> dfield list \<Rightarrow> smb \<Rightarrow> int \<times> smb" where
  "freemsg_loop offset refs [] smb = (SMB_SUCCESS, smb)"
| "freemsg_loop offset refs (d # ds) smb =
     (case smb_freemsgdat smb (ucast (offset + df_offset d)) (ucast (df_length d)) refs of
        (i, smb') \<Rightarrow> if i \<noteq> SMB_SUCCESS then (i, smb') else freemsg_loop offset refs ds smb')"

definition smb_freemsg_dfields :: "smb \<Rightarrow> smbmsg \<Rightarrow> u16 \<Rightarrow> int \<times> smb" where
  "smb_freemsg_dfields smb msg refs =
     freemsg_loop (hdr_offset (hdr msg)) refs (live_dfields msg) smb"

definition smb_freemsghdr :: "smb \<Rightarrow> ulong \<Rightarrow> ulong \<Rightarrow> int \<times> smb" where
  "smb_freemsghdr smb offset len =
     (if \<not> is_open smb SHA then (SMB_ERR_NOT_OPEN, smb)
      else case fwrite_rep (unat (smb_hdrblocks len))
             (fseek smb SHA (unat (offset div SHD_BLOCK_LEN))) SHA (enc_byte 0) of
        (ok, smb') \<Rightarrow> (if ok then SMB_SUCCESS else SMB_ERR_WRITE, smb'))"

definition smb_freemsg :: "smb \<Rightarrow> smbmsg \<Rightarrow> int \<times> smb" where
  "smb_freemsg smb msg =
     (if st_attr (status smb) AND SMB_HYPERALLOC \<noteq> 0 then (SMB_SUCCESS, smb)
      else if \<not> smb_valid_hdr_offset smb (ucast (idx_offset (idx msg)))
      then (SMB_ERR_HDR_OFFSET, smb)
      else case smb_freemsg_dfields smb msg 1 of (i, smb1) \<Rightarrow>
        if i \<noteq> SMB_SUCCESS then (i, smb1)
        else smb_freemsghdr smb1 (ucast (idx_offset (idx msg) - header_offset (status smb1)))
               (ucast (hdr_length (hdr msg))))"

fun allochdr_scan :: "ulong \<Rightarrow> ulong \<Rightarrow> ulong \<Rightarrow> byte list \<Rightarrow> ulong" where
  "allochdr_scan blocks i offset [] = offset"
| "allochdr_scan blocks i offset (c # rest) =
     (let offset' = offset + SHD_BLOCK_LEN;
          i' = (if c = 0 then i + 1 else 0)
      in if i' = blocks then offset' - blocks * SHD_BLOCK_LEN
         else allochdr_scan blocks i' offset' rest)"

definition smb_allochdr :: "smb \<Rightarrow> ulong \<Rightarrow> int \<times> smb" where
  "smb_allochdr smb len =
     (if \<not> is_open smb SHA then (SMB_ERR_NOT_OPEN, smb)
      else let blocks = smb_hdrblocks len;
               offset = allochdr_scan blocks 0 0 (disk smb SHA)
           in case fwrite_rep (unat blocks)
                     (fseek smb SHA (unat (offset div SHD_BLOCK_LEN))) SHA (enc_byte 1) of
                (ok, smb') \<Rightarrow> (if ok then sint offset else SMB_ERR_WRITE, smb'))"

definition smb_fallochdr :: "smb \<Rightarrow> ulong \<Rightarrow> int \<times> smb" where
  "smb_fallochdr smb len =
     (if \<not> is_open smb SHA then (SMB_ERR_NOT_OPEN, smb)
      else let smb1 = fseek_end smb SHA;
               offset = of_nat (ftell smb1 SHA) * SHD_BLOCK_LEN
           in case fwrite_rep (unat (smb_hdrblocks len)) smb1 SHA (enc_byte 1) of
                (ok, smb') \<Rightarrow> (if ok then sint offset else SMB_ERR_WRITE, smb'))"

definition pad_length_for_alignment :: "ulong \<Rightarrow> ulong \<Rightarrow> ulong" where
  "pad_length_for_alignment len blk = (if len mod blk = 0 then 0 else blk - len mod blk)"

definition smb_hallochdr :: "smb \<Rightarrow> int \<times> smb" where
  "smb_hallochdr smb =
     (if \<not> is_open smb SHD then (SMB_ERR_NOT_OPEN, smb)
      else let smb1 = fseek_end smb SHD;
               offset = of_nat (ftell smb1 SHD) :: ulong
           in if offset < ucast (header_offset (status smb))
              then (uint (header_offset (status smb)), smb1)
              else let offset' = offset - ucast (header_offset (status smb))
                   in (sint (offset' + pad_length_for_alignment offset' SHD_BLOCK_LEN), smb1))"

definition smb_hallocdat :: "smb \<Rightarrow> int \<times> smb" where
  "smb_hallocdat smb =
     (if \<not> is_open smb SDT then (SMB_ERR_NOT_OPEN, smb)
      else if sint (of_nat (length (disk smb SDT)) :: ulong) < 0 then (SMB_ERR_FILE_LEN, smb)
      else let smb1 = fseek_end smb SDT;
               offset = of_nat (ftell smb1 SDT) :: ulong
           in if sint offset < 0 then (SMB_ERR_DAT_OFFSET, smb1)
              else (sint (offset + pad_length_for_alignment offset SDT_BLOCK_LEN), smb1))"

section \<open>First fit\<close>

definition free_run :: "('a \<Rightarrow> bool) \<Rightarrow> 'a list \<Rightarrow> nat \<Rightarrow> nat \<Rightarrow> bool" where
  "free_run free t n k \<longleftrightarrow> k + n \<le> length t \<and> (\<forall>i < n. free (t ! (k + i)))"

definition first_fit :: "('a \<Rightarrow> bool) \<Rightarrow> 'a list \<Rightarrow> nat \<Rightarrow> nat" where
  "first_fit free t n =
     (case find (free_run free t n) [0..<length t] of None \<Rightarrow> length t | Some k \<Rightarrow> k)"

fun scan_table :: "('a \<Rightarrow> bool) \<Rightarrow> nat \<Rightarrow> nat \<Rightarrow> nat \<Rightarrow> 'a list \<Rightarrow> nat" where
  "scan_table free n j pos [] = pos"
| "scan_table free n j pos (x # xs) =
     (let j' = (if free x then Suc j else 0)
      in if j' = n then Suc pos - n else scan_table free n j' (Suc pos) xs)"

lemma first_fit_run:
  assumes "free_run free t n k" "0 < n" "\<And>k'. k' < k \<Longrightarrow> \<not> free_run free t n k'"
  shows "first_fit free t n = k"
proof -
  have "k < length t" using assms by (simp add: free_run_def)
  then have "find (free_run free t n) [0..<length t] = Some k"
    unfolding find_Some_iff using assms by (auto intro!: exI [of _ k])
  then show ?thesis by (simp add: first_fit_def)
qed

lemma first_fit_none:
  assumes "\<And>k. \<not> free_run free t n k"
  shows "first_fit free t n = length t"
  using assms by (simp add: first_fit_def find_None_iff [THEN iffD2] split: option.splits)

lemma first_fit_cases:
  assumes "0 < n"
  obtains "free_run free t n (first_fit free t n)"
  | "first_fit free t n = length t" "\<And>k. \<not> free_run free t n k"
proof (cases "find (free_run free t n) [0..<length t]")
  case None
  then have "\<not> free_run free t n k" for k
    using assms by (auto simp: find_None_iff free_run_def)
  then show ?thesis using that(2) first_fit_none by blast
next
  case (Some k)
  then have "free_run free t n k" by (auto simp: find_Some_iff)
  with Some show ?thesis using that(1) by (simp add: first_fit_def)
qed

lemma first_fit_le: "0 < n \<Longrightarrow> first_fit free t n \<le> length t"
  by (rule first_fit_cases [of n free t]) (auto simp: free_run_def)

lemma first_fit_free:
  "0 < n \<Longrightarrow> i < n \<Longrightarrow> first_fit free t n + i < length t \<Longrightarrow> free (t ! (first_fit free t n + i))"
  by (rule first_fit_cases [of n free t]) (auto simp: free_run_def)

lemma first_fit_least:
  assumes "0 < n" "k' < first_fit free t n"
  shows "\<not> free_run free t n k'"
proof (cases "find (free_run free t n) [0..<length t]")
  case None
  then show ?thesis using assms(1) by (auto simp: find_None_iff free_run_def)
next
  case (Some k)
  then have "first_fit free t n = k" by (simp add: first_fit_def)
  moreover from Some obtain i where "i < length t" "k = i"
    "\<forall>j < i. \<not> free_run free t n j" by (auto simp: find_Some_iff)
  ultimately show ?thesis using assms(2) by simp
qed

lemma scan_table_first_fit_gen:
  assumes "t = ys @ xs" "pos = length ys" "j < n" "j \<le> length ys"
    "\<forall>i < j. free (ys ! (length ys - j + i))"
    "j < length ys \<Longrightarrow> \<not> free (ys ! (length ys - Suc j))"
    "\<And>k. k + n \<le> length ys \<Longrightarrow> \<not> free_run free t n k"
  shows "scan_table free n j pos xs = first_fit free t n"
  using assms
proof (induction xs arbitrary: ys pos j)
  case Nil
  then show ?case by (simp add: first_fit_none free_run_def)
next
  case (Cons x xs)
  let ?ys = "ys @ [x]"
  have at: "t ! (length ys) = x" using Cons.prems(1) by simp
  have tys: "i < length ys \<Longrightarrow> t ! i = ys ! i" for i using Cons.prems(1) by (simp add: nth_append)
  show ?case
  proof (cases "free x \<and> Suc j = n")
    case True
    let ?k = "Suc (length ys) - n"
    have le: "n \<le> Suc (length ys)" using True Cons.prems(4) by simp
    have "free (t ! (?k + i))" if "i < n" for i
    proof (cases "i = j")
      case True
      then have "?k + i = length ys" using \<open>free x \<and> Suc j = n\<close> Cons.prems(4) by auto
      then show ?thesis using \<open>free x \<and> Suc j = n\<close> at by simp
    next
      case False
      then have "i < j" using that True by simp
      then have "free (ys ! (length ys - j + i))" using Cons.prems(5) by blast
      moreover have "?k + i = length ys - j + i" using True by auto
      ultimately show ?thesis using tys [of "length ys - j + i"] \<open>i < j\<close> Cons.prems(4) by simp
    qed
    then have run: "free_run free t n ?k"
      using le Cons.prems(1) by (simp add: free_run_def)
    have "\<not> free_run free t n k'" if "k' < ?k" for k'
      using that Cons.prems(7) [of k'] by simp
    then have "first_fit free t n = ?k"
      using run True by (intro first_fit_run) auto
    then show ?thesis using True Cons.prems(2) by (simp add: Let_def)
  next
    case False
    let ?j = "if free x then Suc j else 0"
    have jn: "?j \<noteq> n" "?j < n" using False Cons.prems(3) by auto
    have "scan_table free n ?j (Suc pos) xs = first_fit free t n"
    proof (rule Cons.IH [of ?ys])
      show "t = ?ys @ xs" "Suc pos = length ?ys" "?j < n" "?j \<le> length ?ys"
        using Cons.prems jn by auto
      show "\<forall>i < ?j. free (?ys ! (length ?ys - ?j + i))"
      proof (intro allI impI)
        fix i assume i: "i < ?j"
        then have f: "free x" "i \<le> j" by (auto split: if_splits)
        show "free (?ys ! (length ?ys - ?j + i))"
        proof (cases "i = j")
          case True
          then show ?thesis using f Cons.prems(4) by (simp add: nth_append)
        next
          case False
          then show ?thesis using f Cons.prems(4,5) by (simp add: nth_append)
        qed
      qed
      show "?j < length ?ys \<Longrightarrow> \<not> free (?ys ! (length ?ys - Suc ?j))"
        using Cons.prems(4,6) by (auto simp: nth_append)
      fix k assume k: "k + n \<le> length ?ys"
      show "\<not> free_run free t n k"
      proof (cases "k + n \<le> length ys")
        case True
        then show ?thesis by (rule Cons.prems(7))
      next
        case False
        then have e: "k + n = Suc (length ys)" using k by simp
        show ?thesis
        proof (cases "free x")
          case True
          then have "Suc j < n" using jn by simp
          then have "j < length ys" "k \<le> length ys - Suc j" using e by auto
          moreover then have "\<not> free (t ! (length ys - Suc j))"
            using Cons.prems(6) tys by simp
          moreover have "length ys - Suc j - k < n" using e \<open>Suc j < n\<close> by linarith
          ultimately show ?thesis
            unfolding free_run_def by (metis le_add_diff_inverse)
        next
          case False
          have "length ys - k < n" "k \<le> length ys" using e Cons.prems(3) by auto
          then show ?thesis using False at unfolding free_run_def
            by (metis le_add_diff_inverse)
        qed
      qed
    qed
    then show ?thesis using jn(1) by (simp add: Let_def)
  qed
qed

lemma scan_table_first_fit: "0 < n \<Longrightarrow> scan_table free n 0 0 t = first_fit free t n"
  by (rule scan_table_first_fit_gen [of t "[]" t]) (auto simp: free_run_def)

section \<open>Tables of blocks\<close>

locale block_table = record_codec enc dec w
  for enc :: "'a \<Rightarrow> byte list" and dec :: "byte list \<Rightarrow> 'a" and w :: nat +
  fixes free :: "'a \<Rightarrow> bool"
begin

lemma length_enc_list: "length (concat (map enc xs)) = w * length xs"
  by (induction xs) (simp_all add: length_enc)

lemma unpack_mark:
  assumes len: "length bs = w * m" and k: "k \<le> m"
  shows "unpack w dec (overwrite bs (k * w) (concat (replicate n (enc x)))) =
    take k (unpack w dec bs) @ replicate n x @ drop (k + n) (unpack w dec bs)"
proof -
  let ?t = "unpack w dec bs"
  have lt: "length ?t = m" using len width_pos by simp
  have bs: "bs = concat (map enc (take j ?t)) @ concat (map enc (drop j ?t))" for j
    using bytes_are_records [OF len] by (metis append_take_drop_id concat_append map_append)
  have tk: "take (k * w) bs = concat (map enc (take k ?t))"
    using bs [of k] k lt by (metis append_eq_conv_conj length_enc_list length_take min.absorb2 mult.commute)
  have dr: "drop (k * w + w * n) bs = concat (map enc (drop (k + n) ?t))"
  proof (cases "k + n \<le> m")
    case True
    then show ?thesis using bs [of "k + n"] lt
      by (metis add_mult_distrib2 append_eq_conv_conj length_enc_list length_take min.absorb2 mult.commute)
  next
    case False
    then have "m * w \<le> (k + n) * w" by (intro mult_le_mono1) simp
    then show ?thesis using False len lt by (simp add: algebra_simps)
  qed
  have le: "k * w \<le> length bs" using k len by simp
  have rep: "concat (replicate n (enc x)) = concat (map enc (replicate n x))"
    by (simp add: map_replicate_const)
  have lrep: "length (concat (replicate n (enc x))) = w * n"
    by (metis rep length_enc_list length_replicate)
  have "overwrite bs (k * w) (concat (replicate n (enc x))) =
      take (k * w) bs @ concat (replicate n (enc x)) @ drop (k * w + w * n) bs"
    using le by (simp add: overwrite_def lrep)
  also have "\<dots> = concat (map enc (take k ?t @ replicate n x @ drop (k + n) ?t))"
    unfolding tk dr by simp
  finally have "overwrite bs (k * w) (concat (replicate n (enc x))) =
      concat (map enc (take k ?t @ replicate n x @ drop (k + n) ?t))" .
  then show ?thesis by (simp only: unpack_concat)
qed

end



interpretation sda: block_table le16 un_le16 2 "\<lambda>i. i = 0"
  by unfold_locales

interpretation sha: block_table enc_byte dec_byte 1 "\<lambda>c. c = 0"
  by unfold_locales

section \<open>The scans of the code are first fit\<close>

lemma allocdat_scan_table:
  assumes "256 * (pos + length bs div 2) < 2 ^ 63" "j < n" "j \<le> pos" "n < 2 ^ 63"
  shows "allocdat_scan (of_nat n) (of_nat j) (of_nat (256 * pos)) bs =
    of_nat (256 * scan_table (\<lambda>i. i = 0) n j pos (unpack 2 un_le16 bs))"
  using assms
proof (induction bs arbitrary: j pos rule: induct_list012)
  case (3 b0 b1 rest)
  let ?j = "if un_le16 [b0, b1] = 0 then Suc j else 0"
  have nneg: "\<not> sint (of_nat (256 * pos) :: ulong) < 0"
    using "3.prems" by (subst sint_of_nat_small) auto
  have off: "of_nat (256 * pos) + SDT_BLOCK_LEN = (of_nat (256 * Suc pos) :: ulong)"
    by (simp add: SDT_BLOCK_LEN_def)
  have jw: "(if un_le16 [b0, b1] = 0 then of_nat j + 1 else 0) = (of_nat ?j :: ulong)"
    by simp
  have jn: "(of_nat ?j = (of_nat n :: ulong)) \<longleftrightarrow> ?j = n"
  proof -
    have "?j < 2 ^ 64" "n < 2 ^ 64" using "3.prems" by auto
    then show ?thesis by (rule of_nat_ulong_inj)
  qed
  have step: "allocdat_scan (of_nat n) (of_nat j) (of_nat (256 * pos)) (b0 # b1 # rest) =
    (if ?j = n then of_nat (256 * Suc pos) - of_nat n * SDT_BLOCK_LEN
     else allocdat_scan (of_nat n) (of_nat ?j) (of_nat (256 * Suc pos)) rest)"
    unfolding allocdat_scan.simps Let_def off jw jn using nneg by simp
  show ?case
  proof (cases "?j = n")
    case True
    then have le: "256 * n \<le> 256 * Suc pos" using "3.prems" by (auto split: if_splits)
    have "of_nat (256 * Suc pos) - of_nat n * SDT_BLOCK_LEN =
        (of_nat (256 * Suc pos) - of_nat (256 * n) :: ulong)"
      by (simp add: SDT_BLOCK_LEN_def)
    also have "\<dots> = of_nat (256 * Suc pos - 256 * n)"
      using le by (rule of_nat_diff [symmetric])
    finally show ?thesis
      using True step by (simp add: Let_def unpack2_Cons diff_mult_distrib2)
  next
    case False
    have "allocdat_scan (of_nat n) (of_nat ?j) (of_nat (256 * Suc pos)) rest =
      of_nat (256 * scan_table (\<lambda>i. i = 0) n ?j (Suc pos) (unpack 2 un_le16 rest))"
      using "3.prems" False by (intro "3.IH"(1)) auto
    then show ?thesis
      using False step by (simp add: Let_def unpack2_Cons)
  qed
qed (auto simp: unpack2_short)

lemma allochdr_scan_table:
  assumes "256 * (pos + length bs) < 2 ^ 63" "j < n" "j \<le> pos" "n < 2 ^ 63"
  shows "allochdr_scan (of_nat n) (of_nat j) (of_nat (256 * pos)) bs =
    of_nat (256 * scan_table (\<lambda>c. c = 0) n j pos bs)"
  using assms
proof (induction bs arbitrary: j pos)
  case (Cons c rest)
  let ?j = "if c = 0 then Suc j else 0"
  have off: "of_nat (256 * pos) + SHD_BLOCK_LEN = (of_nat (256 * Suc pos) :: ulong)"
    by (simp add: SHD_BLOCK_LEN_def)
  have jw: "(if c = 0 then of_nat j + 1 else 0) = (of_nat ?j :: ulong)"
    by simp
  have jn: "(of_nat ?j = (of_nat n :: ulong)) \<longleftrightarrow> ?j = n"
  proof -
    have "?j < 2 ^ 64" "n < 2 ^ 64" using Cons.prems by auto
    then show ?thesis by (rule of_nat_ulong_inj)
  qed
  have step: "allochdr_scan (of_nat n) (of_nat j) (of_nat (256 * pos)) (c # rest) =
    (if ?j = n then of_nat (256 * Suc pos) - of_nat n * SHD_BLOCK_LEN
     else allochdr_scan (of_nat n) (of_nat ?j) (of_nat (256 * Suc pos)) rest)"
    unfolding allochdr_scan.simps Let_def off jw jn by simp
  show ?case
  proof (cases "?j = n")
    case True
    then have le: "256 * n \<le> 256 * Suc pos" using Cons.prems by (auto split: if_splits)
    have "of_nat (256 * Suc pos) - of_nat n * SHD_BLOCK_LEN =
        (of_nat (256 * Suc pos) - of_nat (256 * n) :: ulong)"
      by (simp add: SHD_BLOCK_LEN_def)
    also have "\<dots> = of_nat (256 * Suc pos - 256 * n)"
      using le by (rule of_nat_diff [symmetric])
    finally show ?thesis
      using True step by (simp add: Let_def diff_mult_distrib2)
  next
    case False
    have "allochdr_scan (of_nat n) (of_nat ?j) (of_nat (256 * Suc pos)) rest =
      of_nat (256 * scan_table (\<lambda>c. c = 0) n ?j (Suc pos) rest)"
      using Cons.prems False by (intro Cons.IH) auto
    then show ?thesis
      using False step by (simp add: Let_def)
  qed
qed simp

lemma div_256_up: "(n + 255) div 256 = (if n mod 256 = 0 then n div 256 else n div 256 + (1::nat))"
proof -
  define q r where "q = n div 256" and "r = n mod 256"
  then have n: "n = 256 * q + r" and r: "r < 256" by simp_all
  have "(n + 255) div 256 = q + (r + 255) div 256" using n by simp
  moreover have "(r + 255) div 256 = (if r = 0 then 0 else 1)"
    using r by (auto intro: div_nat_eqI)
  ultimately show ?thesis unfolding q_def r_def by (cases "n mod 256 = 0") auto
qed

lemma unat_smb_datblocks: "unat (smb_datblocks len) = (unat len + 255) div 256"
proof -
  have m: "unat (len mod SDT_BLOCK_LEN) = unat len mod 256"
    and d: "unat (len div SDT_BLOCK_LEN) = unat len div 256"
    by (simp_all add: SDT_BLOCK_LEN_def unat_mod unat_div)
  have z: "len mod SDT_BLOCK_LEN \<noteq> 0 \<longleftrightarrow> unat len mod 256 \<noteq> 0"
    unfolding m [symmetric] by (simp add: unsigned_eq_0_iff)
  have up: "unat (len div SDT_BLOCK_LEN + 1) = unat len div 256 + 1"
  proof -
    have "len div SDT_BLOCK_LEN + 1 = (of_nat (unat len div 256 + 1) :: ulong)"
      by (simp only: d [symmetric] of_nat_add of_nat_unat of_nat_1 ucast_id)
    moreover have "unat len div 256 + 1 < 2 ^ 64" using unat_ulong_bound [of len] by simp
    ultimately show ?thesis by (simp only: unat_of_nat_ulong)
  qed
  show ?thesis
  proof (cases "unat len mod 256 = 0")
    case True
    then have "smb_datblocks len = len div SDT_BLOCK_LEN" using z by (simp add: smb_datblocks_def Let_def)
    moreover have "(unat len + 255) div 256 = unat len div 256" using True div_256_up [of "unat len"] by simp
    ultimately show ?thesis using d by simp
  next
    case False
    then have "smb_datblocks len = len div SDT_BLOCK_LEN + 1" using z by (simp add: smb_datblocks_def Let_def)
    moreover have "(unat len + 255) div 256 = unat len div 256 + 1" using False div_256_up [of "unat len"] by simp
    ultimately show ?thesis using up by simp
  qed
qed

lemma unat_smb_hdrblocks: "unat (smb_hdrblocks len) = (unat len + 255) div 256"
  using unat_smb_datblocks [of len]
  by (simp add: smb_hdrblocks_def smb_datblocks_def SDT_BLOCK_LEN_def SHD_BLOCK_LEN_def)

section \<open>Ranges of the data table\<close>

definition sda_table :: "smb \<Rightarrow> u16 list" where
  "sda_table smb = unpack 2 un_le16 (disk smb SDA)"

definition map_range :: "('a \<Rightarrow> 'a) \<Rightarrow> nat \<Rightarrow> nat \<Rightarrow> 'a list \<Rightarrow> 'a list" where
  "map_range f b n t = take b t @ map f (take n (drop b t)) @ drop (b + n) t"

lemma length_map_range [simp]: "length (map_range f b n t) = length t"
  by (auto simp: map_range_def)

lemma nth_map_range: "i < length t \<Longrightarrow>
    map_range f b n t ! i = (if b \<le> i \<and> i < b + n then f (t ! i) else t ! i)"
  by (auto simp: map_range_def nth_append min_def)

lemma map_range_0 [simp]: "map_range f b 0 t = t"
  by (simp add: map_range_def)

lemma map_range_Suc: "b < length t \<Longrightarrow> map_range f b (Suc n) t = map_range f (Suc b) n (t[b := f (t ! b)])"
  by (rule nth_equalityI) (auto simp: nth_map_range nth_list_update)

lemma sda_loop_spec:
  assumes "length (disk smb SDA) = 2 * m" "b + n \<le> m" "is_open smb SDA"
  shows "\<exists>smb'. sda_loop f n b smb = (SMB_SUCCESS, smb')
    \<and> (\<forall>y. y \<noteq> SDA \<longrightarrow> disk smb' y = disk smb y)
    \<and> sda_table smb' = map_range f b n (sda_table smb)
    \<and> length (disk smb' SDA) = 2 * m \<and> is_open smb' = is_open smb
    \<and> env smb' = env smb \<and> status smb' = status smb \<and> locked smb' = locked smb"
  using assms
proof (induction n arbitrary: b smb)
  case (Suc n)
  let ?s1 = "fseek (fseek smb SDA (b * 2)) SDA (b * 2 + 2)"
  have b: "b < length (disk smb SDA) div 2" using Suc.prems by simp
  have rd: "fread (fseek smb SDA (b * 2)) SDA 2 = (take 2 (drop (b * 2) (disk smb SDA)), ?s1)"
    using Suc.prems by (simp add: fread_eq stream_simps)
  let ?v = "f (un_le16 (take 2 (drop (b * 2) (disk smb SDA))))"
  have "fst (fwrite (fseek ?s1 SDA (b * 2)) SDA (le16 ?v))"
    using Suc.prems by (simp add: fwrite_ok_iff stream_simps)
  then obtain s2 where w: "fwrite (fseek ?s1 SDA (b * 2)) SDA (le16 ?v) = (True, s2)"
    by (metis prod.collapse)
  note e = fwrite_okE [OF w]
  have d2: "disk s2 SDA = overwrite (disk smb SDA) (b * 2) (le16 ?v)"
    by (simp add: e stream_simps)
  then have len2: "length (disk s2 SDA) = 2 * m" using Suc.prems by simp
  have t2: "sda_table s2 = (sda_table smb)[b := f (sda_table smb ! b)]"
    using u16_codec.unpack_update [OF b] b by (simp add: sda_table_def d2 nth_unpack)
  have o2: "is_open s2 = is_open smb"
    using Suc.prems(3) by (auto simp: e stream_simps fun_eq_iff)
  have bt: "b < length (sda_table smb)" using b by (simp add: sda_table_def)
  obtain s' where s': "sda_loop f n (Suc b) s2 = (SMB_SUCCESS, s')"
    "\<forall>y. y \<noteq> SDA \<longrightarrow> disk s' y = disk s2 y"
    "sda_table s' = map_range f (Suc b) n (sda_table s2)" "length (disk s' SDA) = 2 * m"
    "is_open s' = is_open s2" "env s' = env s2" "status s' = status s2" "locked s' = locked s2"
    using Suc.IH [of s2 "Suc b"] len2 Suc.prems o2 by auto
  have "sda_loop f (Suc n) b smb = (SMB_SUCCESS, s')"
    using Suc.prems s'(1) w rd by simp
  moreover have "sda_table s' = map_range f b (Suc n) (sda_table smb)"
    using s'(3) t2 bt by (simp add: map_range_Suc)
  moreover have "\<forall>y. y \<noteq> SDA \<longrightarrow> disk s' y = disk smb y"
    using s'(2) by (simp add: e stream_simps)
  ultimately show ?case using s' o2 by (auto simp: e stream_simps)
qed auto

lemma unat_block_of_offset: "256 * k < 2 ^ 64 \<Longrightarrow> unat ((of_nat (256 * k) :: ulong) div SDT_BLOCK_LEN) = k"
  by (simp add: SDT_BLOCK_LEN_def unat_div unat_of_nat_ulong del: of_nat_mult)

section \<open>Runs of the operations\<close>

lemma allocdat_run:
  assumes "is_open smb SDA" and len: "length (disk smb SDA) = 2 * m"
    and pos: "0 < len" and small: "256 * m < 2 ^ 63"
    and t: "t = sda_table smb" and n: "n = unat (smb_datblocks len)"
    and k: "k = first_fit (\<lambda>i. i = 0) t n"
    and room: "2 * (k + n) \<le> medium (env smb)"
  shows "\<exists>smb'. smb_allocdat smb len refs = (int (256 * k), smb')
    \<and> sda_table smb' = take k t @ replicate n refs @ drop (k + n) t
    \<and> length (disk smb' SDA) = 2 * max m (k + n) \<and> is_open smb' = is_open smb
    \<and> status smb' = status smb \<and> env smb' = env smb
    \<and> (\<forall>y. y \<noteq> SDA \<longrightarrow> disk smb' y = disk smb y)"
proof -
  have "1 \<le> unat len" using pos by (simp add: word_gt_0 unat_gt_0 Suc_le_eq)
  then have n0: "0 < n" and n63: "n < 2 ^ 63"
    using unat_ulong_bound [of len] by (simp_all add: n unat_smb_datblocks div_greater_zero_iff)
  have lt: "length t = m" using len by (simp add: t sda_table_def)
  have km: "k \<le> m" using first_fit_le [OF n0, of _ t] lt by (simp add: k)
  have scan: "allocdat_scan (smb_datblocks len) 0 0 (disk smb SDA) = of_nat (256 * k)"
    using allocdat_scan_table [of 0 "disk smb SDA" 0 n] n0 n63 small len
    by (simp add: n k t sda_table_def scan_table_first_fit del: of_nat_mult)
  have so: "sint (of_nat (256 * k) :: ulong) = int (256 * k)"
    using small km by (intro sint_of_nat_small) auto
  have blk: "unat ((of_nat (256 * k) :: ulong) div SDT_BLOCK_LEN) = k"
    using small km by (intro unat_block_of_offset) auto
  let ?s = "fseek smb SDA (k * 2)"
  obtain s' where w: "fwrite_rep n ?s SDA (le16 refs) = (True, s')"
    and d: "disk s' = (disk ?s)(SDA := overwrite (disk ?s SDA) (ftell ?s SDA) (concat (replicate n (le16 refs))))"
    and o: "\<forall>y. is_open s' y \<longleftrightarrow> y = SDA \<or> is_open smb y"
    using fwrite_rep_ok [of ?s SDA n "le16 refs"] room n0 by (auto simp: stream_simps le_max_iff_disj)
  have "sda_table s' = take k t @ replicate n refs @ drop (k + n) t"
    using sda.unpack_mark [OF len km, of n refs] by (simp add: sda_table_def d stream_simps t)
  moreover have "smb_allocdat smb len refs = (int (256 * k), s')"
    using assms(1) scan so w blk
    by (simp add: smb_allocdat_def Let_def n [symmetric] del: of_nat_mult)
  moreover have "\<forall>y. y \<noteq> SDA \<longrightarrow> disk s' y = disk smb y"
    by (simp add: d stream_simps)
  moreover have "is_open s' = is_open smb" using o assms(1) by (auto simp: fun_eq_iff)
  moreover have "length (concat (replicate n (le16 refs))) = 2 * n"
    by (induction n) simp_all
  then have "length (disk s' SDA) = 2 * max m (k + n)"
    by (simp add: d stream_simps len max_def)
  moreover have "status s' = status smb" "env s' = env smb"
    using fwrite_rep_frame [OF w] by (simp_all add: stream_simps)
  ultimately show ?thesis by blast
qed

lemma sda_table_length: "length (disk smb SDA) = 2 * m \<Longrightarrow> length (sda_table smb) = m"
  by (simp add: sda_table_def)

lemma map_range_mark:
  "length t = m \<Longrightarrow> k \<le> m \<Longrightarrow> map_range f k n (take k t @ replicate n x @ drop (k + n) t)
     = take k t @ replicate n (f x) @ drop (k + n) t"
  by (simp add: map_range_def min_def)

lemma map_range_cancel:
  assumes "\<And>i. b \<le> i \<Longrightarrow> i < b + n \<Longrightarrow> i < length t \<Longrightarrow> g (f (t ! i)) = t ! i"
  shows "map_range g b n (map_range f b n t) = t"
  by (rule nth_equalityI) (use assms in \<open>auto simp: nth_map_range\<close>)

lemma drop_refs_add:
  fixes i r :: u16
  assumes "unat i + unat r < 65536" "r \<noteq> 0"
  shows "drop_refs r (i + r) = i"
proof -
  have "unat (i + r) = unat i + unat r" using assms(1) by (simp add: unat_word_ariths)
  then have "\<not> i + r < r" by (simp add: word_less_nat_alt)
  then show ?thesis using assms(2) by (simp add: drop_refs_def)
qed

lemma smb_freemsgdat_open:
  assumes "is_open smb SDA" "st_attr (status smb) AND SMB_HYPERALLOC = 0"
  shows "smb_freemsgdat smb offset len refs =
    sda_loop (drop_refs refs) (unat (smb_datblocks len)) (unat (offset div SDT_BLOCK_LEN)) smb"
  using assms by (simp add: smb_freemsgdat_def Let_def)

definition sample_sda :: smb where
  "sample_sda = sample_smb ((\<lambda>_. [])(SDA := [1, 0, 0, 0, 0, 0, 2, 0, 0, 0]))"
lemma sample_counts: "unpack 2 un_le16 [1, 0, 0, 0, 0, 0, 2, 0, 0, 0] = [1, 0, 0, 2, 0]"
  by code_simp
lemma sample_blocks: "unat (smb_datblocks 300) = 2" by code_simp
lemma sample_fit: "first_fit (\<lambda>i. i = 0) [1, 0, 0, 2, 0 :: u16] 2 = 1" by code_simp

lemma sample_sda_facts:
  "is_open sample_sda x" "length (disk sample_sda SDA) = 10"
  "sda_table sample_sda = [1, 0, 0, 2, 0]" "medium (env sample_sda) = 65536"
  "st_attr (status sample_sda) = 0"
  by (simp_all add: sample_sda_def sda_table_def sample_counts)

text \<open>
  C14: \<open>smb_allocdat\<close> returns the byte offset of the first run of \<open>smb_datblocks len\<close> unused blocks
  of the data allocation table, or of the end of the table when there is none; it sets exactly
  the counts of that run to \<open>refs\<close>, growing the table when the run is the end, and changes no
  other file.
\<close>

theorem smb_allocdat_correct:
  assumes "is_open smb SDA" and len: "length (disk smb SDA) = 2 * m"
    and pos: "0 < len" and small: "256 * m < 2 ^ 63"
    and t: "t = sda_table smb" and n: "n = unat (smb_datblocks len)"
    and k: "k = first_fit (\<lambda>i. i = 0) t n"
    and room: "2 * (k + n) \<le> medium (env smb)"
  shows "\<exists>smb'. smb_allocdat smb len refs = (int (256 * k), smb')
    \<and> sda_table smb' = take k t @ replicate n refs @ drop (k + n) t
    \<and> (\<forall>i < n. k + i < m \<longrightarrow> t ! (k + i) = 0)
    \<and> (\<forall>k' < k. \<not> free_run (\<lambda>i. i = 0) t n k')
    \<and> (\<forall>y. y \<noteq> SDA \<longrightarrow> disk smb' y = disk smb y)"
proof -
  have n0: "0 < n" using pos
    by (simp add: n unat_smb_datblocks div_greater_zero_iff word_gt_0 unat_gt_0 Suc_le_eq)
  have "i < n \<Longrightarrow> k + i < m \<Longrightarrow> t ! (k + i) = 0" for i
    using first_fit_free [OF n0, of i "\<lambda>i. i = 0" t] sda_table_length [OF len] by (simp add: k t)
  moreover have "k' < k \<Longrightarrow> \<not> free_run (\<lambda>i. i = 0) t n k'" for k'
    using first_fit_least [OF n0] by (simp add: k)
  ultimately show ?thesis using allocdat_run [OF assms] by blast
qed

theorem smb_allocdat_correct_witness:
  "\<exists>smb'. smb_allocdat sample_sda 300 1 = (256, smb') \<and> sda_table smb' = [1, 1, 1, 2, 0]"
proof -
  have "\<exists>smb'. smb_allocdat sample_sda 300 1 = (int (256 * 1), smb')
    \<and> sda_table smb' = take 1 [1, 0, 0, 2, 0] @ replicate 2 1 @ drop (1 + 2) [1, 0, 0, 2, 0]
    \<and> (\<forall>i < 2. 1 + i < 5 \<longrightarrow> [1, 0, 0, 2, 0 :: u16] ! (1 + i) = 0)
    \<and> (\<forall>k' < 1. \<not> free_run (\<lambda>i. i = 0) [1, 0, 0, 2, 0 :: u16] 2 k')
    \<and> (\<forall>y. y \<noteq> SDA \<longrightarrow> disk smb' y = disk sample_sda y)"
    by (rule smb_allocdat_correct [where m = 5])
      (simp_all add: sample_sda_facts sample_blocks sample_fit)
  then show ?thesis by (auto simp: numeral_2_eq_2)
qed

text \<open>
  C15: Freeing the bytes \<open>smb_allocdat\<close> has just allocated, with the same number of references,
  restores the allocation table, except that blocks added at its end stay there as unused.
\<close>

theorem smb_freemsgdat_undoes_alloc:
  assumes "is_open smb SDA" and len: "length (disk smb SDA) = 2 * m"
    and "0 < len" and small: "256 * m < 2 ^ 63"
    and t: "t = sda_table smb" and n: "n = unat (smb_datblocks len)"
    and k: "k = first_fit (\<lambda>i. i = 0) t n"
    and room: "2 * (k + n) \<le> medium (env smb)"
    and attr: "st_attr (status smb) AND SMB_HYPERALLOC = 0"
    and alloc: "smb_allocdat smb len refs = (off, smb1)"
  shows "\<exists>smb2. smb_freemsgdat smb1 (word_of_int off) len refs = (SMB_SUCCESS, smb2)
    \<and> sda_table smb2 = t @ replicate (k + n - m) 0"
proof -
  have n0: "0 < n" using \<open>0 < len\<close>
    by (simp add: n unat_smb_datblocks div_greater_zero_iff word_gt_0 unat_gt_0 Suc_le_eq)
  have lt: "length t = m" using len by (simp add: t sda_table_length)
  have km: "k \<le> m" using first_fit_le [OF n0, of _ t] lt by (simp add: k)
  obtain s where s: "smb_allocdat smb len refs = (int (256 * k), s)"
    "sda_table s = take k t @ replicate n refs @ drop (k + n) t"
    "length (disk s SDA) = 2 * max m (k + n)" "is_open s = is_open smb" "status s = status smb"
    using allocdat_run [OF assms(1-3) small t n k room] by blast
  then have off: "off = int (256 * k)" "smb1 = s" using alloc by simp_all
  have blk: "unat ((word_of_int off :: ulong) div SDT_BLOCK_LEN) = k"
    using unat_block_of_offset [of k] small km by (simp add: off)
  obtain s2 where s2: "sda_loop (drop_refs refs) n k s = (SMB_SUCCESS, s2)"
    "sda_table s2 = map_range (drop_refs refs) k n (sda_table s)"
    using sda_loop_spec [of s "max m (k + n)" k n "drop_refs refs"] s(3,4) assms(1) by auto
  have "drop_refs refs refs = 0" by (simp add: drop_refs_def)
  then have "sda_table s2 = take k t @ replicate n 0 @ drop (k + n) t"
    using s2(2) map_range_mark [OF lt km] by (simp add: s(2))
  also have "\<dots> = t @ replicate (k + n - m) 0"
  proof (rule nth_equalityI)
    fix i assume "i < length (take k t @ replicate n 0 @ drop (k + n) t)"
    then have "i < max m (k + n)" using lt km by auto
    then show "(take k t @ replicate n 0 @ drop (k + n) t) ! i = (t @ replicate (k + n - m) 0) ! i"
      using first_fit_free [OF n0, of "i - k" "\<lambda>i. i = 0" t] lt km
      by (auto simp: nth_append k [symmetric] min_def)
  qed (use lt km in auto)
  finally have "sda_table s2 = t @ replicate (k + n - m) 0" .
  moreover have "smb_freemsgdat smb1 (word_of_int off) len refs = (SMB_SUCCESS, s2)"
    using smb_freemsgdat_open [of s "word_of_int off" len refs] s(4,5) assms(1) attr s2(1)
    by (simp only: off(2) blk n [symmetric])
  ultimately show ?thesis by blast
qed

theorem smb_freemsgdat_undoes_alloc_witness:
  "\<exists>smb2. smb_freemsgdat (snd (smb_allocdat sample_sda 300 1)) 256 300 1 = (SMB_SUCCESS, smb2)
    \<and> sda_table smb2 = [1, 0, 0, 2, 0]"
proof -
  have "\<exists>s. smb_allocdat sample_sda 300 1 = (int (256 * 1), s)"
    using allocdat_run [of sample_sda 5 300 "[1, 0, 0, 2, 0]" 2 1 1]
    by (fastforce simp: sample_sda_facts sample_blocks sample_fit)
  then have alloc: "smb_allocdat sample_sda 300 1 = (256, snd (smb_allocdat sample_sda 300 1))"
    by auto
  have "\<exists>smb2. smb_freemsgdat (snd (smb_allocdat sample_sda 300 1)) (word_of_int 256) 300 1
      = (SMB_SUCCESS, smb2) \<and> sda_table smb2 = [1, 0, 0, 2, 0] @ replicate (1 + 2 - 5) 0"
    by (rule smb_freemsgdat_undoes_alloc [OF _ _ _ _ _ _ _ _ _ alloc])
      (simp_all add: sample_sda_facts sample_blocks sample_fit)
  then show ?thesis by simp
qed

text \<open>
  Inside the table, \<open>smb_incdat\<close> adds \<open>refs\<close> to the count of every block of the range and to no
  other, and \<open>smb_freemsgdat\<close> of the same range undoes it, as long as no count overflows.
\<close>

theorem smb_freemsgdat_undoes_incdat:
  assumes "is_open smb SDA" and len: "length (disk smb SDA) = 2 * m"
    and n: "n = unat (smb_datblocks len)" and b: "b = unat (offset div SDT_BLOCK_LEN)"
    and inside: "b + n \<le> m" and refs: "refs \<noteq> 0"
    and attr: "st_attr (status smb) AND SMB_HYPERALLOC = 0"
    and noov: "\<And>i. b \<le> i \<Longrightarrow> i < b + n \<Longrightarrow> unat (sda_table smb ! i) + unat refs < 65536"
  shows "\<exists>smb1 smb2. smb_incdat smb offset len refs = (SMB_SUCCESS, smb1)
    \<and> (\<forall>i < m. sda_table smb1 ! i = (if b \<le> i \<and> i < b + n then sda_table smb ! i + refs
         else sda_table smb ! i))
    \<and> smb_freemsgdat smb1 offset len refs = (SMB_SUCCESS, smb2)
    \<and> sda_table smb2 = sda_table smb"
proof -
  have lt: "length (sda_table smb) = m" using len by (rule sda_table_length)
  obtain s1 where s1: "sda_loop (\<lambda>i. i + refs) n b smb = (SMB_SUCCESS, s1)"
    "sda_table s1 = map_range (\<lambda>i. i + refs) b n (sda_table smb)"
    "length (disk s1 SDA) = 2 * m" "is_open s1 = is_open smb" "status s1 = status smb"
    using sda_loop_spec [of smb m b n "\<lambda>i. i + refs"] len inside assms(1) by auto
  obtain s2 where s2: "sda_loop (drop_refs refs) n b s1 = (SMB_SUCCESS, s2)"
    "sda_table s2 = map_range (drop_refs refs) b n (sda_table s1)"
    using sda_loop_spec [of s1 m b n "drop_refs refs"] s1 inside assms(1) by auto
  have "sda_table s2 = sda_table smb"
    unfolding s2(2) s1(2)
    by (rule map_range_cancel) (use noov refs in \<open>simp add: drop_refs_add\<close>)
  then show ?thesis
    using s1 s2 smb_freemsgdat_open [of s1] assms(1) attr lt
    by (auto simp: smb_incdat_def n b nth_map_range)
qed

theorem smb_freemsgdat_undoes_incdat_witness:
  "\<exists>smb1 smb2. smb_incdat sample_sda 256 300 3 = (SMB_SUCCESS, smb1)
    \<and> sda_table smb1 ! 1 = 3
    \<and> smb_freemsgdat smb1 256 300 3 = (SMB_SUCCESS, smb2) \<and> sda_table smb2 = [1, 0, 0, 2, 0]"
proof -
  have "unat (sda_table sample_sda ! i) + unat (3 :: u16) < 65536" if "1 \<le> i" "i < 1 + 2" for i
    using that by (cases "i = 1"; cases "i = 2") (auto simp: sample_sda_facts)
  then have "\<exists>smb1 smb2. smb_incdat sample_sda 256 300 3 = (SMB_SUCCESS, smb1)
    \<and> (\<forall>i < 5. sda_table smb1 ! i = (if 1 \<le> i \<and> i < 1 + 2 then sda_table sample_sda ! i + 3
         else sda_table sample_sda ! i))
    \<and> smb_freemsgdat smb1 256 300 3 = (SMB_SUCCESS, smb2)
    \<and> sda_table smb2 = sda_table sample_sda"
    by (intro smb_freemsgdat_undoes_incdat)
      (simp_all add: sample_sda_facts sample_blocks SDT_BLOCK_LEN_def)
  then show ?thesis by (fastforce simp: sample_sda_facts)
qed

lemma unat_ucast_u32: "n < 2 ^ 32 \<Longrightarrow> unat (ucast (of_nat n :: u32) :: ulong) = n"
  by (simp add: unsigned_ucast_eq unat_of_nat take_bit_nat_eq_self)

text \<open>
  Freeing a message field by field rounds each data field up to whole blocks on its own. When
  the last of two adjacent fields crosses a block boundary that the sum of the two rounded
  lengths does not reach, the last block of the message keeps its reference count: it leaks.
\<close>

theorem smb_freemsg_dfields_leak:
  assumes "is_open smb SDA" and len: "length (disk smb SDA) = 2 * m"
    and attr: "st_attr (status smb) AND SMB_HYPERALLOC = 0"
    and msg: "live_dfields msg = [d1, d2]" "hdr_offset (hdr msg) = of_nat (256 * k)"
      "df_offset d1 = 0" "df_length d1 = of_nat b" "df_offset d2 = of_nat b" "df_length d2 = of_nat t"
    and small: "256 * k + b + t < 2 ^ 32" and inside: "k + (b + t + 255) div 256 \<le> m"
    and straddle: "0 < t" "b div 256 + (t + 255) div 256 < (b + t + 255) div 256"
  shows "\<exists>smb1. smb_freemsg_dfields smb msg 1 = (SMB_SUCCESS, smb1)
    \<and> (let last = k + (b + t + 255) div 256 - 1 in sda_table smb1 ! last = sda_table smb ! last)"
proof -
  have blk: "x < 2 ^ 32 \<Longrightarrow> unat ((ucast (of_nat x :: u32) :: ulong) div SDT_BLOCK_LEN) = x div 256" for x
    by (simp add: SDT_BLOCK_LEN_def unat_div unat_ucast_u32 del: of_nat_mult)
  have blk1: "unat ((ucast (of_nat (256 * k) :: u32) :: ulong) div SDT_BLOCK_LEN) = k"
    using blk [of "256 * k"] small by (simp del: of_nat_mult)
  have blk2: "unat ((ucast (of_nat (256 * k) + of_nat b :: u32) :: ulong) div SDT_BLOCK_LEN) = k + b div 256"
    using blk [of "256 * k + b"] small by (simp del: of_nat_mult)
  have n1: "unat (smb_datblocks (ucast (of_nat b :: u32))) = (b + 255) div 256"
    and n2: "unat (smb_datblocks (ucast (of_nat t :: u32))) = (t + 255) div 256"
    using small by (simp_all add: unat_smb_datblocks unat_ucast_u32)
  let ?last = "k + (b + t + 255) div 256 - 1"
  have c: "(b + 255) div 256 \<le> Suc (b div 256)" by (simp add: div_256_up)
  have t1: "1 \<le> (t + 255) div 256" using straddle(1) by (simp add: div_greater_zero_iff Suc_le_eq)
  have last: "k + (b + 255) div 256 \<le> ?last" "k + b div 256 + (t + 255) div 256 \<le> ?last" "?last < m"
    using c t1 straddle inside by linarith+
  obtain s1 where s1: "sda_loop (drop_refs 1) ((b + 255) div 256) k smb = (SMB_SUCCESS, s1)"
    "sda_table s1 = map_range (drop_refs 1) k ((b + 255) div 256) (sda_table smb)"
    "length (disk s1 SDA) = 2 * m" "is_open s1 = is_open smb" "status s1 = status smb"
    using sda_loop_spec [of smb m k "(b + 255) div 256" "drop_refs 1"] len last assms(1) by auto
  obtain s2 where s2: "sda_loop (drop_refs 1) ((t + 255) div 256) (k + b div 256) s1 = (SMB_SUCCESS, s2)"
    "sda_table s2 = map_range (drop_refs 1) (k + b div 256) ((t + 255) div 256) (sda_table s1)"
    using sda_loop_spec [of s1 m "k + b div 256" "(t + 255) div 256" "drop_refs 1"] s1 last assms(1) by auto
  have "smb_freemsg_dfields smb msg 1 = (SMB_SUCCESS, s2)"
    using s1 s2 assms(1) attr
    by (simp add: smb_freemsg_dfields_def msg smb_freemsgdat_open blk1 blk2 n1 n2 del: of_nat_mult)
  moreover have "sda_table s2 ! ?last = sda_table smb ! ?last"
    using last sda_table_length [OF len] by (simp add: s2(2) s1(2) nth_map_range)
  ultimately show ?thesis by (auto simp: Let_def)
qed

definition sample_straddle :: smbmsg where
  "sample_straddle = zero_msg\<lparr>
     hdr := (zero_hdr\<lparr>hdr_offset := 256, total_dfields := 2\<rparr>),
     dfields := [\<lparr>df_type = 0, df_offset = 0, df_length = 255\<rparr>,
       \<lparr>df_type = 2, df_offset = 255, df_length = 3\<rparr>]\<rparr>"

lemma sample_straddle_facts:
  "hdr_offset (hdr sample_straddle) = 256"
  "live_dfields sample_straddle = [\<lparr>df_type = 0, df_offset = 0, df_length = 255\<rparr>,
       \<lparr>df_type = 2, df_offset = 255, df_length = 3\<rparr>]"
  by (simp_all add: sample_straddle_def live_dfields_def)

theorem smb_freemsg_dfields_leak_witness:
  "\<exists>smb1. smb_freemsg_dfields (sample_smb ((\<lambda>_. [])(SDA := [1, 0, 1, 0, 1, 0]))) sample_straddle 1
      = (SMB_SUCCESS, smb1) \<and> sda_table smb1 ! 2 = 1"
proof -
  let ?s = "sample_smb ((\<lambda>_. [])(SDA := [1, 0, 1, 0, 1, 0]))"
  have "unpack 2 un_le16 [1, 0, 1, 0, 1, 0] = [1, 1, 1]" by code_simp
  then have t: "sda_table ?s = [1, 1, 1]" by (simp add: sda_table_def)
  have "\<exists>smb1. smb_freemsg_dfields ?s sample_straddle 1 = (SMB_SUCCESS, smb1)
    \<and> (let last = 1 + (255 + 3 + 255) div 256 - 1 in sda_table smb1 ! last = sda_table ?s ! last)"
    by (rule smb_freemsg_dfields_leak [where m = 3 and b = 255 and t = 3 and k = 1
        and ?d1.0 = "\<lparr>df_type = 0, df_offset = 0, df_length = 255\<rparr>"
        and ?d2.0 = "\<lparr>df_type = 2, df_offset = 255, df_length = 3\<rparr>"])
      (simp_all add: sample_straddle_facts)
  then show ?thesis by (simp add: t numeral_2_eq_2)
qed

text \<open>
  When the data allocation table cannot be opened, \<open>smb_freemsgdat\<close> returns the error code read
  as an unsigned 16-bit integer, a positive number that is no \<open>SMB_ERR\<close> code.
\<close>

theorem smb_freemsgdat_open_error:
  assumes "\<not> is_open smb SDA" "st_attr (status smb) AND SMB_HYPERALLOC = 0"
    and "open_loop (open_tries (env smb) SDA) = e" "e \<noteq> SMB_SUCCESS"
  shows "smb_freemsgdat smb offset len refs = (65536 + e, smb) \<and> 0 < 65536 + e"
proof -
  have "e = SMB_ERR_OPEN \<or> e = SMB_ERR_TIMEOUT"
    using open_loop_codes [of "open_tries (env smb) SDA"] assms(3,4) by auto
  then show ?thesis
    using assms by (auto simp: smb_freemsgdat_def smb_open_fp_def Let_def smb_codes)
qed

theorem smb_freemsgdat_open_error_witness:
  "smb_freemsgdat ((sample_smb (\<lambda>_. []))\<lparr>fpos := (\<lambda>_. None),
      env := sample_env\<lparr>open_tries := (\<lambda>_. [Broken])\<rparr>\<rparr>) 0 300 1
    = (65336, (sample_smb (\<lambda>_. []))\<lparr>fpos := (\<lambda>_. None),
      env := sample_env\<lparr>open_tries := (\<lambda>_. [Broken])\<rparr>\<rparr>)"
  using smb_freemsgdat_open_error [of "(sample_smb (\<lambda>_. []))\<lparr>fpos := (\<lambda>_. None),
      env := sample_env\<lparr>open_tries := (\<lambda>_. [Broken])\<rparr>\<rparr>" "SMB_ERR_OPEN" 0 300 1]
  by (simp add: is_open_def smb_codes)

lemma allochdr_run:
  assumes "is_open smb SHA" and pos: "0 < len" and small: "256 * length (disk smb SHA) < 2 ^ 63"
    and t: "t = disk smb SHA" and n: "n = unat (smb_hdrblocks len)"
    and k: "k = first_fit (\<lambda>c. c = 0) t n"
    and room: "k + n \<le> medium (env smb)"
  shows "\<exists>smb'. smb_allochdr smb len = (int (256 * k), smb')
    \<and> disk smb' SHA = take k t @ replicate n 1 @ drop (k + n) t
    \<and> is_open smb' = is_open smb \<and> env smb' = env smb
    \<and> (\<forall>y. y \<noteq> SHA \<longrightarrow> disk smb' y = disk smb y)"
proof -
  have "1 \<le> unat len" using pos by (simp add: word_gt_0 unat_gt_0 Suc_le_eq)
  then have n0: "0 < n" and n63: "n < 2 ^ 63"
    using unat_ulong_bound [of len] by (simp_all add: n unat_smb_hdrblocks div_greater_zero_iff)
  have km: "k \<le> length t" using first_fit_le [OF n0, of _ t] by (simp add: k)
  have scan: "allochdr_scan (smb_hdrblocks len) 0 0 (disk smb SHA) = of_nat (256 * k)"
    using allochdr_scan_table [of 0 "disk smb SHA" 0 n] n0 n63 small
    by (simp add: n k t scan_table_first_fit del: of_nat_mult)
  have so: "sint (of_nat (256 * k) :: ulong) = int (256 * k)"
    using small km t by (intro sint_of_nat_small) auto
  have blk: "unat ((of_nat (256 * k) :: ulong) div SHD_BLOCK_LEN) = k"
    using unat_block_of_offset [of k] small km t by (simp add: SHD_BLOCK_LEN_def SDT_BLOCK_LEN_def)
  let ?s = "fseek smb SHA k"
  obtain s' where w: "fwrite_rep n ?s SHA (enc_byte 1) = (True, s')"
    and d: "disk s' = (disk ?s)(SHA := overwrite (disk ?s SHA) (ftell ?s SHA) (concat (replicate n (enc_byte 1))))"
    and o: "\<forall>y. is_open s' y \<longleftrightarrow> y = SHA \<or> is_open smb y"
    using fwrite_rep_ok [of ?s SHA n "enc_byte 1"] room n0
    by (auto simp: stream_simps le_max_iff_disj enc_byte_def)
  have "disk s' SHA = take k t @ replicate n 1 @ drop (k + n) t"
    using sha.unpack_mark [of t "length t" k n 1] km by (simp add: d stream_simps t)
  moreover have "smb_allochdr smb len = (int (256 * k), s')"
    using assms(1) scan so w blk
    by (simp add: smb_allochdr_def Let_def n [symmetric] del: of_nat_mult)
  moreover have "is_open s' = is_open smb" using o assms(1) by (auto simp: fun_eq_iff)
  moreover have "env s' = env smb"
    using fwrite_rep_frame [OF w] by (simp add: stream_simps)
  ultimately show ?thesis by (auto simp: d stream_simps)
qed

text \<open>
  C16: \<open>smb_allochdr\<close> marks the first run of unused header blocks (or the end of the table) as used,
  and \<open>smb_freemsghdr\<close> of the offset it returned clears the same blocks.
\<close>

theorem smb_allochdr_freemsghdr:
  assumes "is_open smb SHA" and pos: "0 < len" and small: "256 * length (disk smb SHA) < 2 ^ 63"
    and t: "t = disk smb SHA" and n: "n = unat (smb_hdrblocks len)"
    and k: "k = first_fit (\<lambda>c. c = 0) t n"
    and room: "k + n \<le> medium (env smb)"
  shows "\<exists>smb1 smb2. smb_allochdr smb len = (int (256 * k), smb1)
    \<and> disk smb1 SHA = take k t @ replicate n 1 @ drop (k + n) t
    \<and> (\<forall>i < n. k + i < length t \<longrightarrow> t ! (k + i) = 0)
    \<and> smb_freemsghdr smb1 (of_nat (256 * k)) len = (SMB_SUCCESS, smb2)
    \<and> disk smb2 SHA = t @ replicate (k + n - length t) 0"
proof -
  have n0: "0 < n" using pos
    by (simp add: n unat_smb_hdrblocks div_greater_zero_iff word_gt_0 unat_gt_0 Suc_le_eq)
  have km: "k \<le> length t" using first_fit_le [OF n0, of _ t] by (simp add: k)
  have free: "i < n \<Longrightarrow> k + i < length t \<Longrightarrow> t ! (k + i) = 0" for i
    using first_fit_free [OF n0, of i "\<lambda>c. c = 0" t] by (simp add: k)
  obtain s1 where s1: "smb_allochdr smb len = (int (256 * k), s1)"
    "disk s1 SHA = take k t @ replicate n 1 @ drop (k + n) t" "is_open s1 = is_open smb"
    using allochdr_run [OF assms] by blast
  have blk: "unat ((of_nat (256 * k) :: ulong) div SHD_BLOCK_LEN) = k"
    using unat_block_of_offset [of k] small km t by (simp add: SHD_BLOCK_LEN_def SDT_BLOCK_LEN_def)
  have len1: "length (disk s1 SHA) = max (length t) (k + n)" using km by (auto simp: s1(2))
  let ?s = "fseek s1 SHA k"
  obtain s2 where w: "fwrite_rep n ?s SHA (enc_byte 0) = (True, s2)"
    and d: "disk s2 = (disk ?s)(SHA := overwrite (disk ?s SHA) (ftell ?s SHA) (concat (replicate n (enc_byte 0))))"
    using fwrite_rep_ok [of ?s SHA n "enc_byte 0"] n0 len1
    by (auto simp: stream_simps le_max_iff_disj enc_byte_def)
  have "disk s2 SHA = take k (disk s1 SHA) @ replicate n 0 @ drop (k + n) (disk s1 SHA)"
    using sha.unpack_mark [of "disk s1 SHA" "length (disk s1 SHA)" k n 0] len1 km
    by (simp add: d stream_simps)
  also have "\<dots> = t @ replicate (k + n - length t) 0"
  proof (rule nth_equalityI)
    fix i assume "i < length (take k (disk s1 SHA) @ replicate n 0 @ drop (k + n) (disk s1 SHA))"
    then have "i < max (length t) (k + n)" using len1 km by auto
    then show "(take k (disk s1 SHA) @ replicate n 0 @ drop (k + n) (disk s1 SHA)) ! i
        = (t @ replicate (k + n - length t) 0) ! i"
      using free [of "i - k"] km by (auto simp: s1(2) nth_append min_def)
  qed (use len1 km in auto)
  finally have "disk s2 SHA = t @ replicate (k + n - length t) 0" .
  moreover have "smb_freemsghdr s1 (of_nat (256 * k)) len = (SMB_SUCCESS, s2)"
    using assms(1) s1(3) w by (simp only: smb_freemsghdr_def blk n [symmetric]) simp
  ultimately show ?thesis using s1 free by blast
qed

definition sample_sha :: smb where
  "sample_sha = sample_smb ((\<lambda>_. [])(SHA := [1, 0, 1, 0]))"

lemma sample_sha_facts:
  "is_open sample_sha x" "disk sample_sha SHA = [1, 0, 1, 0]" "medium (env sample_sha) = 65536"
  "unat (smb_hdrblocks 300) = 2" "first_fit (\<lambda>c. c = 0) [1, 0, 1, 0 :: byte] 2 = 4"
  by (simp add: sample_sha_def, simp add: sample_sha_def, simp add: sample_sha_def, code_simp, code_simp)

theorem smb_allochdr_freemsghdr_witness:
  "\<exists>smb1 smb2. smb_allochdr sample_sha 300 = (1024, smb1) \<and> disk smb1 SHA = [1, 0, 1, 0, 1, 1]
    \<and> smb_freemsghdr smb1 1024 300 = (SMB_SUCCESS, smb2) \<and> disk smb2 SHA = [1, 0, 1, 0, 0, 0]"
proof -
  have "\<exists>smb1 smb2. smb_allochdr sample_sha 300 = (int (256 * 4), smb1)
    \<and> disk smb1 SHA = take 4 [1, 0, 1, 0] @ replicate 2 1 @ drop (4 + 2) [1, 0, 1, 0]
    \<and> (\<forall>i < 2. 4 + i < length [1, 0, 1, 0 :: byte] \<longrightarrow> [1, 0, 1, 0 :: byte] ! (4 + i) = 0)
    \<and> smb_freemsghdr smb1 (of_nat (256 * 4)) 300 = (SMB_SUCCESS, smb2)
    \<and> disk smb2 SHA = [1, 0, 1, 0] @ replicate (4 + 2 - length [1, 0, 1, 0 :: byte]) 0"
    by (rule smb_allochdr_freemsghdr) (simp_all add: sample_sha_facts)
  then show ?thesis by (auto simp: numeral_2_eq_2)
qed
end
