(* ===== verification/SmbIndex.thy ===== *)
theory SmbIndex
  imports SmbAlloc
begin

text \<open>
  The index file (.sid) of a message base: a list of fixed-size records, one per message,
  appended in the order of their message numbers (smblib.c, \<open>smb_getmsgidx\<close>,
  \<open>smb_getfirstidx\<close>, \<open>smb_getlastidx\<close>, \<open>smb_putmsgidx\<close>). A message is found by its number with
  a binary search, or by its position, counted from the front or from the end. The search is
  a loop with no bound of its own, so not returning is the value None.

  File lengths are below the signed 64-bit bound, so the arithmetic of the code on them is
  exact; the position of a message is kept in an \<open>int32_t\<close>.
\<close>

section \<open>The code\<close>

definition to_int32 :: "int \<Rightarrow> int" where
  "to_int32 i = signed_take_bit 31 i"

definition sid_table :: "smb \<Rightarrow> idxrec list" where
  "sid_table smb = unpack 20 dec_idx (disk smb SID)"

partial_function (option) getmsgidx_search ::
  "u32 \<Rightarrow> nat \<Rightarrow> nat \<Rightarrow> nat \<Rightarrow> nat \<Rightarrow> smb \<Rightarrow> (int \<times> smb \<times> idxrec \<times> nat) option" where
  "getmsgidx_search number count lo hi l smb =
     (if count \<le> l then Some (SMB_ERR_NOT_FOUND, smb, zero_idx, l)
      else case fread (fseek smb SID (l * sizeof_idxrec)) SID sizeof_idxrec of (bs, smb') \<Rightarrow>
        let r = dec_idx bs in
        if length bs \<noteq> sizeof_idxrec then Some (SMB_ERR_READ, smb', r, l)
        else if Suc lo = hi \<and> idx_number r \<noteq> number then Some (SMB_ERR_NOT_FOUND, smb', r, l)
        else if number < idx_number r
        then getmsgidx_search number count lo l (lo + (l - lo) div 2) smb'
        else if idx_number r < number
        then getmsgidx_search number count l hi (hi - (hi - l) div 2) smb'
        else Some (SMB_SUCCESS, smb', r, l))"

definition getmsgidx_at :: "smb \<Rightarrow> smbmsg \<Rightarrow> int \<times> smb \<times> smbmsg" where
  "getmsgidx_at smb msg =
     (let len = int (length (disk smb SID));
          byte_offset = (if m_offset msg < 0 then len - (- m_offset msg) * int sizeof_idxrec
                         else m_offset msg * int sizeof_idxrec)
      in if len \<le> byte_offset then (SMB_ERR_HDR_OFFSET, smb, msg)
         else if byte_offset < 0 then (SMB_ERR_SEEK, smb, msg)
         else case fread (fseek smb SID (nat byte_offset)) SID sizeof_idxrec of (bs, smb') \<Rightarrow>
           let msg' = msg\<lparr>idx := dec_idx (bs @ drop (length bs) (enc_idx (idx msg)))\<rparr>
           in if length bs \<noteq> sizeof_idxrec then (SMB_ERR_READ, smb', msg')
              else (SMB_SUCCESS, smb',
                msg'\<lparr>m_offset := to_int32 (byte_offset div int sizeof_idxrec)\<rparr>))"

definition smb_getmsgidx :: "smb \<Rightarrow> smbmsg \<Rightarrow> (int \<times> smb \<times> smbmsg) option" where
  "smb_getmsgidx smb msg =
     (if \<not> is_open smb SID then Some (SMB_ERR_NOT_OPEN, smb, msg)
      else let len = length (disk smb SID); count = len div sizeof_idxrec
           in if len < sizeof_idxrec \<or> count = 0 then Some (SMB_ERR_FILE_LEN, smb, msg)
              else if hdr_number (hdr msg) = 0 then Some (getmsgidx_at smb msg)
              else map_option (\<lambda>(r, smb', x, l).
                  if r = SMB_SUCCESS
                  then (SMB_SUCCESS, smb', msg\<lparr>idx := x, m_offset := to_int32 (int l)\<rparr>)
                  else (r, smb', msg))
                (getmsgidx_search (hdr_number (hdr msg)) count 0 count (count div 2) smb))"

text \<open>The record a read leaves in the caller's structure, complete or not.\<close>

definition smb_getfirstidx :: "smb \<Rightarrow> idxrec \<Rightarrow> int \<times> smb \<times> idxrec" where
  "smb_getfirstidx smb x =
     (if \<not> is_open smb SID then (SMB_ERR_NOT_OPEN, smb, x)
      else case fread (fseek smb SID 0) SID sizeof_idxrec of (bs, smb') \<Rightarrow>
        let x' = dec_idx (bs @ drop (length bs) (enc_idx x))
        in if length bs \<noteq> sizeof_idxrec then (SMB_ERR_READ, smb', x') else (SMB_SUCCESS, smb', x'))"

definition smb_getlastidx :: "smb \<Rightarrow> idxrec \<Rightarrow> int \<times> smb \<times> idxrec" where
  "smb_getlastidx smb x =
     (if \<not> is_open smb SID then (SMB_ERR_NOT_OPEN, smb, x)
      else let len = length (disk smb SID)
           in if len < sizeof_idxrec then (SMB_ERR_FILE_LEN, smb, x)
              else case fread (fseek smb SID (len - sizeof_idxrec)) SID sizeof_idxrec of (bs, smb') \<Rightarrow>
                let x' = dec_idx (bs @ drop (length bs) (enc_idx x))
                in if length bs \<noteq> sizeof_idxrec then (SMB_ERR_READ, smb', x')
                   else (SMB_SUCCESS, smb', x'))"

definition smb_putmsgidx :: "smb \<Rightarrow> smbmsg \<Rightarrow> int \<times> smb" where
  "smb_putmsgidx smb msg =
     (if \<not> is_open smb SID then (SMB_ERR_NOT_OPEN, smb)
      else let byte_offset = m_offset msg * int sizeof_idxrec
           in if int (length (disk smb SID)) < byte_offset then (SMB_ERR_HDR_OFFSET, smb)
              else if byte_offset < 0 then (SMB_ERR_SEEK, smb)
              else case fwrite (fseek smb SID (nat byte_offset)) SID (enc_idx (idx msg)) of
                (ok, smb') \<Rightarrow> (if ok then SMB_SUCCESS else SMB_ERR_WRITE, smb'))"

section \<open>Reading the table\<close>

lemma length_sid_table [simp]: "length (sid_table smb) = length (disk smb SID) div 20"
  by (simp add: sid_table_def)

lemma fread_idx:
  assumes "l < length (sid_table smb)"
  shows "\<exists>bs smb'. fread (fseek smb SID (l * 20)) SID 20 = (bs, smb') \<and> length bs = 20
    \<and> dec_idx bs = sid_table smb ! l \<and> disk smb' = disk smb \<and> status smb' = status smb
    \<and> env smb' = env smb \<and> locked smb' = locked smb
    \<and> (\<forall>y. is_open smb' y \<longleftrightarrow> y = SID \<or> is_open smb y)"
proof -
  have l: "l < length (disk smb SID) div 20" using assms by simp
  have "l * 20 + 20 \<le> length (disk smb SID)"
    using idx_codec.record_inside [OF l] by simp
  then show ?thesis
    using l by (simp add: fread_eq stream_simps sid_table_def nth_unpack)
qed

section \<open>The search\<close>

text \<open>Each turn reads one record strictly between the bounds and narrows them.\<close>

lemma getmsgidx_search_step:
  assumes "l < length (sid_table smb)" "length (sid_table smb) = count"
  obtains smb' where "disk smb' = disk smb" "status smb' = status smb" "env smb' = env smb"
    "\<And>y. is_open smb' y \<longleftrightarrow> y = SID \<or> is_open smb y"
    "getmsgidx_search number count lo hi l smb =
      (let r = sid_table smb ! l in
       if Suc lo = hi \<and> idx_number r \<noteq> number then Some (SMB_ERR_NOT_FOUND, smb', r, l)
       else if number < idx_number r
       then getmsgidx_search number count lo l (lo + (l - lo) div 2) smb'
       else if idx_number r < number
       then getmsgidx_search number count l hi (hi - (hi - l) div 2) smb'
       else Some (SMB_SUCCESS, smb', r, l))"
proof -
  obtain bs smb' where r: "fread (fseek smb SID (l * 20)) SID 20 = (bs, smb')" "length bs = 20"
    "dec_idx bs = sid_table smb ! l" "disk smb' = disk smb" "status smb' = status smb"
    "env smb' = env smb" "\<forall>y. is_open smb' y \<longleftrightarrow> y = SID \<or> is_open smb y"
    using fread_idx [OF assms(1)] by blast
  have "\<not> count \<le> l" using assms by simp
  then show ?thesis
    using r by (intro that [of smb']) (simp_all add: getmsgidx_search.simps [of number count lo hi l smb])
qed

definition search_inv :: "nat \<Rightarrow> nat \<Rightarrow> nat \<Rightarrow> nat \<Rightarrow> bool" where
  "search_inv count lo hi l \<longleftrightarrow> lo < hi \<and> hi \<le> count
     \<and> (if Suc lo = hi then l = lo \<or> l = hi else lo < l \<and> l < hi)"

lemma search_inv_lower: "search_inv count lo hi l \<Longrightarrow> Suc lo \<noteq> hi \<Longrightarrow>
    search_inv count lo l (lo + (l - lo) div 2)"
  by (auto simp: search_inv_def)

lemma search_inv_upper: "search_inv count lo hi l \<Longrightarrow> Suc lo \<noteq> hi \<Longrightarrow>
    search_inv count l hi (hi - (hi - l) div 2)"
  by (auto simp: search_inv_def)

lemma search_inv_start: "0 < count \<Longrightarrow> search_inv count 0 count (count div 2)"
  by (auto simp: search_inv_def)

text \<open>Whatever the index holds, sorted or not, the search returns.\<close>

lemma getmsgidx_search_returns:
  assumes "search_inv count lo hi l" "length (sid_table smb) = count"
  shows "\<exists>r smb' x k. getmsgidx_search number count lo hi l smb = Some (r, smb', x, k)
    \<and> disk smb' = disk smb \<and> status smb' = status smb \<and> env smb' = env smb
    \<and> (\<forall>y. is_open smb y \<longrightarrow> is_open smb' y)
    \<and> (r = SMB_SUCCESS \<and> k < count \<and> x = sid_table smb ! k \<and> idx_number x = number
       \<or> r = SMB_ERR_NOT_FOUND)"
  using assms
proof (induction "hi - lo" arbitrary: lo hi l smb rule: less_induct)
  case less
  show ?case
  proof (cases "count \<le> l")
    case True
    then show ?thesis by (simp add: getmsgidx_search.simps)
  next
    case False
    then have lt: "l < length (sid_table smb)" using less.prems(2) by simp
    obtain smb1 where s1: "disk smb1 = disk smb" "status smb1 = status smb" "env smb1 = env smb"
      "\<forall>y. is_open smb y \<longrightarrow> is_open smb1 y"
      and step: "getmsgidx_search number count lo hi l smb =
      (let r = sid_table smb ! l in
       if Suc lo = hi \<and> idx_number r \<noteq> number then Some (SMB_ERR_NOT_FOUND, smb1, r, l)
       else if number < idx_number r
       then getmsgidx_search number count lo l (lo + (l - lo) div 2) smb1
       else if idx_number r < number
       then getmsgidx_search number count l hi (hi - (hi - l) div 2) smb1
       else Some (SMB_SUCCESS, smb1, r, l))"
      using getmsgidx_search_step [OF lt less.prems(2)] by metis
    have t1: "sid_table smb1 = sid_table smb" by (simp add: sid_table_def s1)
    consider "Suc lo = hi" "idx_number (sid_table smb ! l) \<noteq> number"
      | "Suc lo \<noteq> hi" "number < idx_number (sid_table smb ! l)"
      | "Suc lo \<noteq> hi" "idx_number (sid_table smb ! l) < number"
      | "idx_number (sid_table smb ! l) = number"
      by (meson linorder_neqE)
    then show ?thesis
    proof cases
      case 1
      then show ?thesis using s1 by (simp add: step Let_def)
    next
      case 2
      then have "l - lo < hi - lo" using less.prems(1) by (auto simp: search_inv_def)
      from less.hyps [OF this search_inv_lower [OF less.prems(1) 2(1)], of smb1] 2 s1 t1 less.prems(2)
      show ?thesis by (simp add: step Let_def) blast
    next
      case 3
      then have "hi - l < hi - lo" using less.prems(1) by (auto simp: search_inv_def)
      from less.hyps [OF this search_inv_upper [OF less.prems(1) 3(1)], of smb1] 3 s1 t1 less.prems(2)
      show ?thesis using less_not_sym [OF 3(2)] by (simp add: step Let_def) blast
    next
      case 4
      then show ?thesis using s1 lt less.prems(2) by (simp add: step Let_def)
    qed
  qed
qed

text \<open>On an index in the order of message numbers, not found means not there.\<close>

definition search_bounds :: "u32 \<Rightarrow> idxrec list \<Rightarrow> nat \<Rightarrow> nat \<Rightarrow> nat \<Rightarrow> bool" where
  "search_bounds number t lo hi l \<longleftrightarrow>
     (\<forall>i < lo. idx_number (t ! i) < number)
     \<and> (\<forall>i < length t. hi \<le> i \<longrightarrow> number < idx_number (t ! i))
     \<and> (l = hi \<longrightarrow> idx_number (t ! lo) < number)"

lemma getmsgidx_search_complete:
  assumes "search_inv count lo hi l" "length (sid_table smb) = count"
    and sorted: "sorted_wrt (\<lambda>a b. idx_number a < idx_number b) (sid_table smb)"
    and "search_bounds number (sid_table smb) lo hi l"
    and "getmsgidx_search number count lo hi l smb = Some (SMB_ERR_NOT_FOUND, smb', x, k)"
    and "i < count"
  shows "idx_number (sid_table smb ! i) \<noteq> number"
  using assms
proof (induction "hi - lo" arbitrary: lo hi l smb rule: less_induct)
  case less
  let ?t = "sid_table smb"
  have mono: "idx_number (?t ! i) < idx_number (?t ! j)" if "i < j" "j < count" for i j
    using sorted_wrt_nth_less [OF less.prems(3)] that less.prems(2) by simp
  note b = less.prems(4) [unfolded search_bounds_def]
  show ?case
  proof (cases "count \<le> l")
    case True
    then have l: "l = hi" "Suc lo = hi" using less.prems(1) by (auto simp: search_inv_def split: if_splits)
    then have "i < lo \<or> i = lo" using True less.prems(6) by auto
    then show ?thesis using b l by auto
  next
    case False
    then have lt: "l < length ?t" using less.prems(2) by simp
    obtain smb1 where s1: "disk smb1 = disk smb"
      and step: "getmsgidx_search number count lo hi l smb =
      (let r = ?t ! l in
       if Suc lo = hi \<and> idx_number r \<noteq> number then Some (SMB_ERR_NOT_FOUND, smb1, r, l)
       else if number < idx_number r
       then getmsgidx_search number count lo l (lo + (l - lo) div 2) smb1
       else if idx_number r < number
       then getmsgidx_search number count l hi (hi - (hi - l) div 2) smb1
       else Some (SMB_SUCCESS, smb1, r, l))"
      using getmsgidx_search_step [OF lt less.prems(2)] by metis
    have t1: "sid_table smb1 = ?t" by (simp add: sid_table_def s1)
    consider "Suc lo = hi" "idx_number (?t ! l) \<noteq> number"
      | "Suc lo \<noteq> hi" "number < idx_number (?t ! l)"
      | "Suc lo \<noteq> hi" "idx_number (?t ! l) < number"
      | "idx_number (?t ! l) = number"
      by (meson linorder_neqE)
    then show ?thesis
    proof cases
      case 1
      then have "i < lo \<or> i = lo \<or> hi \<le> i" by auto
      moreover have "idx_number (?t ! lo) \<noteq> number"
        using 1 less.prems(1) b by (auto simp: search_inv_def)
      ultimately show ?thesis using b less.prems(2,6) by fastforce
    next
      case 2
      have d: "l - lo < hi - lo" using 2 less.prems(1) by (auto simp: search_inv_def)
      have "search_bounds number ?t lo l (lo + (l - lo) div 2)"
        unfolding search_bounds_def
      proof (intro conjI allI impI)
        fix j assume "j < length ?t" "l \<le> j"
        then show "number < idx_number (?t ! j)"
          using mono [of l j] 2 less.prems(2) by (cases "j = l") auto
      next
        assume "lo + (l - lo) div 2 = l"
        then show "idx_number (?t ! lo) < number"
          using 2(1) less.prems(1) by (auto simp: search_inv_def)
      qed (use b in auto)
      then show ?thesis
        using less.hyps [OF d search_inv_lower [OF less.prems(1) 2(1)], of smb1] 2 t1 less.prems
        by (simp add: step Let_def)
    next
      case 3
      have d: "hi - l < hi - lo" using 3 less.prems(1) by (auto simp: search_inv_def)
      have "search_bounds number ?t l hi (hi - (hi - l) div 2)"
        unfolding search_bounds_def
      proof (intro conjI allI impI)
        fix j assume "j < l"
        then show "idx_number (?t ! j) < number"
          using mono [of j l] 3 lt less.prems(2) by (auto intro: less_trans)
      qed (use b 3 in auto)
      then show ?thesis
        using less.hyps [OF d search_inv_upper [OF less.prems(1) 3(1)], of smb1] 3 t1 less.prems
          less_not_sym [OF 3(2)]
        by (simp add: step Let_def)
    next
      case 4
      then show ?thesis using less.prems(5) by (simp add: step Let_def smb_codes)
    qed
  qed
qed

section \<open>Properties of the operations\<close>

lemma to_int32_small: "0 \<le> i \<Longrightarrow> i < 2 ^ 31 \<Longrightarrow> to_int32 i = i"
  by (simp add: to_int32_def signed_take_bit_int_eq_self)

lemma getmsgidx_finds:
  assumes "is_open smb SID" and t: "t = sid_table smb" and "t \<noteq> []" "length t < 2 ^ 31"
    and sorted: "sorted_wrt (\<lambda>a b. idx_number a < idx_number b) t"
    and n: "hdr_number (hdr msg) = n" "n \<noteq> 0"
  shows "\<exists>smb'. smb_getmsgidx smb msg =
      Some (case find (\<lambda>i. idx_number (t ! i) = n) [0..<length t] of
          None \<Rightarrow> (SMB_ERR_NOT_FOUND, smb', msg)
        | Some i \<Rightarrow> (SMB_SUCCESS, smb', msg\<lparr>idx := t ! i, m_offset := int i\<rparr>))
    \<and> disk smb' = disk smb \<and> status smb' = status smb \<and> env smb' = env smb
    \<and> (\<forall>y. is_open smb y \<longrightarrow> is_open smb' y)"
proof -
  let ?c = "length (disk smb SID) div 20"
  have c: "length (sid_table smb) = ?c" "length t = ?c" by (simp_all add: t)
  have c0: "0 < ?c" using \<open>t \<noteq> []\<close> c(2) by (metis length_greater_0_conv)
  then have f: "\<not> length (disk smb SID) < 20" "?c \<noteq> 0" by auto
  note inv = search_inv_start [OF c0]
  obtain r smb' x k where res: "getmsgidx_search n ?c 0 ?c (?c div 2) smb = Some (r, smb', x, k)"
    "disk smb' = disk smb \<and> status smb' = status smb \<and> env smb' = env smb
      \<and> (\<forall>y. is_open smb y \<longrightarrow> is_open smb' y)"
    "r = SMB_SUCCESS \<and> k < ?c \<and> x = t ! k \<and> idx_number x = n \<or> r = SMB_ERR_NOT_FOUND"
    using getmsgidx_search_returns [OF inv c(1), of n] t by auto
  have get: "smb_getmsgidx smb msg = Some (if r = SMB_SUCCESS
      then (SMB_SUCCESS, smb', msg\<lparr>idx := x, m_offset := to_int32 (int k)\<rparr>) else (r, smb', msg))"
    using assms(1) n f by (simp add: smb_getmsgidx_def Let_def res(1))
  show ?thesis
  proof (cases "r = SMB_SUCCESS")
    case True
    then have k: "k < ?c" "x = t ! k" "idx_number (t ! k) = n"
      using res(3) by (auto simp: smb_codes)
    have "idx_number (t ! j) \<noteq> n" if "j < k" for j
      using sorted_wrt_nth_less [OF sorted that] k c by auto
    then have "find (\<lambda>i. idx_number (t ! i) = n) [0..<length t] = Some k"
      using k c by (auto simp: find_Some_iff intro!: exI [of _ k])
    then show ?thesis
      using get True k res(2) c assms(4) by (simp add: to_int32_small)
  next
    case False
    then have r: "r = SMB_ERR_NOT_FOUND" using res(3) by blast
    have "search_bounds n (sid_table smb) 0 ?c (?c div 2)"
      using c0 by (auto simp: search_bounds_def)
    then have "idx_number (t ! i) \<noteq> n" if "i < ?c" for i
      using getmsgidx_search_complete [OF inv c(1) _ _ _ that] sorted res(1) r t by blast
    then have "find (\<lambda>i. idx_number (t ! i) = n) [0..<length t] = None"
      using c by (simp add: find_None_iff)
    then show ?thesis using get False r res(2) by simp
  qed
qed

text \<open>
  C17: On an open index in strictly increasing order of message numbers, \<open>smb_getmsgidx\<close> with a
  message number finds its record and its position exactly when the index holds it, and
  otherwise returns \<open>SMB_ERR_NOT_FOUND\<close> and leaves the message as it was.
\<close>

theorem smb_getmsgidx_correct:
  assumes "is_open smb SID" and t: "t = sid_table smb" and "t \<noteq> []" "length t < 2 ^ 31"
    and sorted: "sorted_wrt (\<lambda>a b. idx_number a < idx_number b) t"
    and n: "hdr_number (hdr msg) = n" "n \<noteq> 0"
  shows "\<exists>smb'. smb_getmsgidx smb msg =
      Some (case find (\<lambda>i. idx_number (t ! i) = n) [0..<length t] of
          None \<Rightarrow> (SMB_ERR_NOT_FOUND, smb', msg)
        | Some i \<Rightarrow> (SMB_SUCCESS, smb', msg\<lparr>idx := t ! i, m_offset := int i\<rparr>))
    \<and> disk smb' = disk smb"
  using getmsgidx_finds [OF assms] by blast

lemma getmsgidx_total:
  "\<exists>r smb' msg'. smb_getmsgidx smb msg = Some (r, smb', msg') \<and> disk smb' = disk smb"
proof -
  let ?c = "length (disk smb SID) div 20"
  have "\<exists>r smb' msg'. smb_getmsgidx smb msg = Some (r, smb', msg') \<and> disk smb' = disk smb"
    if "is_open smb SID" "\<not> length (disk smb SID) < 20" "hdr_number (hdr msg) \<noteq> 0"
  proof -
    have "0 < ?c" using that(2) by (simp add: div_greater_zero_iff)
    from getmsgidx_search_returns [OF search_inv_start [OF this] length_sid_table]
    obtain r smb' x k where "getmsgidx_search (hdr_number (hdr msg)) ?c 0 ?c (?c div 2) smb
        = Some (r, smb', x, k)" "disk smb' = disk smb" by blast
    then show ?thesis
      using that \<open>0 < ?c\<close> by (cases "r = SMB_SUCCESS") (simp_all add: smb_getmsgidx_def Let_def)
  qed
  then show ?thesis
    by (cases "is_open smb SID \<and> \<not> length (disk smb SID) < 20 \<and> hdr_number (hdr msg) \<noteq> 0")
      (auto simp: smb_getmsgidx_def getmsgidx_at_def Let_def fread_eq stream_simps)
qed

lemma putmsgidx_success:
  assumes len: "length (disk smb SID) = 20 * count"
    and k: "m_offset msg = int k"
    and put: "smb_putmsgidx smb msg = (SMB_SUCCESS, smb')"
  shows "k \<le> count" "is_open smb SID" "is_open smb' SID"
    "disk smb' = (disk smb)(SID := overwrite (disk smb SID) (k * 20) (enc_idx (idx msg)))"
    "status smb' = status smb" "env smb' = env smb" "locked smb' = locked smb"
    "\<And>y. is_open smb' y = is_open smb y"
    "sid_table smb' = (if k < count then (sid_table smb)[k := idx msg] else sid_table smb @ [idx msg])"
proof -
  show op: "is_open smb SID" and kc: "k \<le> count"
    using put k(1) len
    by (auto simp: smb_putmsgidx_def Let_def smb_codes nat_mult_distrib split: if_splits prod.splits)
  have w: "fwrite (fseek smb SID (k * 20)) SID (enc_idx (idx msg)) = (True, smb')"
    using put k(1) len
    by (auto simp: smb_putmsgidx_def Let_def smb_codes nat_mult_distrib split: if_splits prod.splits)
  note e = fwrite_okE [OF w]
  show d: "disk smb' = (disk smb)(SID := overwrite (disk smb SID) (k * 20) (enc_idx (idx msg)))"
    by (simp add: e stream_simps)
  show "status smb' = status smb" "env smb' = env smb" "locked smb' = locked smb" "is_open smb' SID"
    "\<And>y. is_open smb' y = is_open smb y"
    using op by (auto simp: e stream_simps)
  show "sid_table smb' = (if k < count then (sid_table smb)[k := idx msg] else sid_table smb @ [idx msg])"
  proof (cases "k < count")
    case True
    then show ?thesis
      using idx_codec.unpack_update [of k "disk smb SID" "idx msg"] len
      by (simp add: sid_table_def d)
  next
    case False
    then have "k * 20 = length (disk smb SID)" using kc len by simp
    then show ?thesis
      using False idx_codec.unpack_append [OF len, of "idx msg"]
      by (simp add: sid_table_def d overwrite_end)
  qed
qed

lemma getmsgidx_disk: "smb_getmsgidx smb msg = Some (r, smb', msg') \<Longrightarrow> disk smb' = disk smb"
  using getmsgidx_total [of smb msg] by auto

text \<open>
  C18: \<open>smb_getmsgidx\<close> returns on every base and for every message, whatever the index file holds
  (unsorted, truncated, or garbage), and changes no file.
\<close>

theorem smb_getmsgidx_returns:
  "\<exists>r smb' msg'. smb_getmsgidx smb msg = Some (r, smb', msg') \<and> disk smb' = disk smb"
  by (rule getmsgidx_total)

text \<open>
  C19: Writing a record at a position of the index, or just past its end, replaces or appends
  that one record, and reading that position back by offset gives the record written.
\<close>

theorem smb_putmsgidx_getmsgidx:
  assumes len: "length (disk smb SID) = 20 * count" and t: "t = sid_table smb"
    and k: "m_offset msg = int k" "k < 2 ^ 31"
    and put: "smb_putmsgidx smb msg = (SMB_SUCCESS, smb')"
    and get: "hdr_number (hdr m) = 0" "m_offset m = int k"
  shows "sid_table smb' = (if k < count then t[k := idx msg] else t @ [idx msg])
    \<and> (\<exists>smb''. smb_getmsgidx smb' m = Some (SMB_SUCCESS, smb'', m\<lparr>idx := idx msg\<rparr>))"
proof -
  note p = putmsgidx_success [OF len k(1) put]
  have d: "disk smb' SID = overwrite (disk smb SID) (k * 20) (enc_idx (idx msg))" by (simp add: p)
  have len': "k * 20 + 20 \<le> length (disk smb' SID)"
    by (simp add: d idx_codec.length_enc)
  have "take 20 (drop (k * 20) (disk smb' SID)) = enc_idx (idx msg)"
    using take_drop_overwrite [of "enc_idx (idx msg)" "k * 20" "disk smb SID"]
    by (simp add: d idx_codec.length_enc)
  moreover have "is_open smb' SID" by (rule p(3))
  moreover have "length (disk smb' SID) div 20 \<noteq> 0" using len' by (simp add: div_eq_0_iff)
  ultimately have "\<exists>smb''. smb_getmsgidx smb' m = Some (SMB_SUCCESS, smb'', m\<lparr>idx := idx msg\<rparr>)"
    using len' get k
    by (simp add: smb_getmsgidx_def getmsgidx_at_def Let_def fread_eq stream_simps nat_mult_distrib
      idx_codec.length_enc idx_codec.dec_enc to_int32_small)
  then show ?thesis using p(9) t by blast
qed

text \<open>An index of three messages, numbered 3, 5 and 9.\<close>

definition sample_idx :: "u32 \<Rightarrow> idxrec" where
  "sample_idx n = zero_idx\<lparr>idx_number := n, idx_offset := 32\<rparr>"

definition sample_sid :: smb where
  "sample_sid = sample_smb ((\<lambda>_. [])(SID := concat (map enc_idx (map sample_idx [3, 5, 9]))))"

lemma sample_sid_facts:
  "is_open sample_sid x" "sid_table sample_sid = [sample_idx 3, sample_idx 5, sample_idx 9]"
  "length (disk sample_sid SID) = 60" "idx_number (sample_idx n) = n"
  using idx_codec.unpack_concat [of "map sample_idx [3, 5, 9]"]
  by (simp_all add: sample_sid_def sid_table_def idx_codec.length_enc sample_idx_def)

definition msg_number :: "u32 \<Rightarrow> smbmsg" where
  "msg_number n = zero_msg\<lparr>hdr := zero_hdr\<lparr>hdr_number := n\<rparr>\<rparr>"

theorem smb_getmsgidx_correct_witness:
  "\<exists>smb1 smb2. smb_getmsgidx sample_sid (msg_number 9)
      = Some (SMB_SUCCESS, smb1, (msg_number 9)\<lparr>idx := sample_idx 9, m_offset := 2\<rparr>)
    \<and> smb_getmsgidx sample_sid (msg_number 4) = Some (SMB_ERR_NOT_FOUND, smb2, msg_number 4)"
proof -
  let ?t = "[sample_idx 3, sample_idx 5, sample_idx 9]"
  have st: "sorted_wrt (\<lambda>a b. idx_number a < idx_number b) ?t" by (simp add: sample_sid_facts)
  have "\<exists>smb'. smb_getmsgidx sample_sid (msg_number n) =
      Some (case find (\<lambda>i. idx_number (?t ! i) = n) [0..<length ?t] of
          None \<Rightarrow> (SMB_ERR_NOT_FOUND, smb', msg_number n)
        | Some i \<Rightarrow> (SMB_SUCCESS, smb', (msg_number n)\<lparr>idx := ?t ! i, m_offset := int i\<rparr>))
    \<and> disk smb' = disk sample_sid" if "n \<noteq> 0" for n
    by (rule smb_getmsgidx_correct)
      (use that st in \<open>simp_all add: sample_sid_facts msg_number_def\<close>)
  from this [of 9] this [of 4] show ?thesis
    by (auto simp: sample_sid_facts)
qed

theorem smb_putmsgidx_getmsgidx_witness:
  "sid_table (snd (smb_putmsgidx sample_sid (zero_msg\<lparr>idx := sample_idx 11, m_offset := 3\<rparr>)))
    = [sample_idx 3, sample_idx 5, sample_idx 9, sample_idx 11]"
proof -
  let ?m = "zero_msg\<lparr>idx := sample_idx 11, m_offset := 3\<rparr>"
  have "fst (smb_putmsgidx sample_sid ?m) = SMB_SUCCESS"
    by (simp add: smb_putmsgidx_def Let_def sample_sid_facts fwrite_def stream_simps
      idx_codec.length_enc) (simp add: sample_sid_def)
  then have put: "smb_putmsgidx sample_sid ?m = (SMB_SUCCESS, snd (smb_putmsgidx sample_sid ?m))"
    by (metis prod.collapse)
  show ?thesis
    using smb_putmsgidx_getmsgidx [OF _ refl _ _ put, of 3 3 "msg_number 0\<lparr>m_offset := 3\<rparr>"]
    by (simp add: sample_sid_facts msg_number_def)
qed

end
