(* ===== verification/Crc.thy ===== *)
theory Crc
  imports Prelude
begin

text \<open>
  The two checksums of the message base (smblib/crc16.c, crc32.c): CRC-16/XMODEM and CRC-32,
  computed a byte at a time from a table. They are compared with the bit-serial division they
  abbreviate, and shown to notice every change of a single byte.
\<close>

section \<open>The code\<close>

definition crc16tbl :: "u16 list" where
  "crc16tbl =
    [0x0000, 0x1021, 0x2042, 0x3063, 0x4084, 0x50A5, 0x60C6, 0x70E7, 0x8108, 0x9129, 0xA14A, 0xB16B,
     0xC18C, 0xD1AD, 0xE1CE, 0xF1EF, 0x1231, 0x0210, 0x3273, 0x2252, 0x52B5, 0x4294, 0x72F7, 0x62D6,
     0x9339, 0x8318, 0xB37B, 0xA35A, 0xD3BD, 0xC39C, 0xF3FF, 0xE3DE, 0x2462, 0x3443, 0x0420, 0x1401,
     0x64E6, 0x74C7, 0x44A4, 0x5485, 0xA56A, 0xB54B, 0x8528, 0x9509, 0xE5EE, 0xF5CF, 0xC5AC, 0xD58D,
     0x3653, 0x2672, 0x1611, 0x0630, 0x76D7, 0x66F6, 0x5695, 0x46B4, 0xB75B, 0xA77A, 0x9719, 0x8738,
     0xF7DF, 0xE7FE, 0xD79D, 0xC7BC, 0x48C4, 0x58E5, 0x6886, 0x78A7, 0x0840, 0x1861, 0x2802, 0x3823,
     0xC9CC, 0xD9ED, 0xE98E, 0xF9AF, 0x8948, 0x9969, 0xA90A, 0xB92B, 0x5AF5, 0x4AD4, 0x7AB7, 0x6A96,
     0x1A71, 0x0A50, 0x3A33, 0x2A12, 0xDBFD, 0xCBDC, 0xFBBF, 0xEB9E, 0x9B79, 0x8B58, 0xBB3B, 0xAB1A,
     0x6CA6, 0x7C87, 0x4CE4, 0x5CC5, 0x2C22, 0x3C03, 0x0C60, 0x1C41, 0xEDAE, 0xFD8F, 0xCDEC, 0xDDCD,
     0xAD2A, 0xBD0B, 0x8D68, 0x9D49, 0x7E97, 0x6EB6, 0x5ED5, 0x4EF4, 0x3E13, 0x2E32, 0x1E51, 0x0E70,
     0xFF9F, 0xEFBE, 0xDFDD, 0xCFFC, 0xBF1B, 0xAF3A, 0x9F59, 0x8F78, 0x9188, 0x81A9, 0xB1CA, 0xA1EB,
     0xD10C, 0xC12D, 0xF14E, 0xE16F, 0x1080, 0x00A1, 0x30C2, 0x20E3, 0x5004, 0x4025, 0x7046, 0x6067,
     0x83B9, 0x9398, 0xA3FB, 0xB3DA, 0xC33D, 0xD31C, 0xE37F, 0xF35E, 0x02B1, 0x1290, 0x22F3, 0x32D2,
     0x4235, 0x5214, 0x6277, 0x7256, 0xB5EA, 0xA5CB, 0x95A8, 0x8589, 0xF56E, 0xE54F, 0xD52C, 0xC50D,
     0x34E2, 0x24C3, 0x14A0, 0x0481, 0x7466, 0x6447, 0x5424, 0x4405, 0xA7DB, 0xB7FA, 0x8799, 0x97B8,
     0xE75F, 0xF77E, 0xC71D, 0xD73C, 0x26D3, 0x36F2, 0x0691, 0x16B0, 0x6657, 0x7676, 0x4615, 0x5634,
     0xD94C, 0xC96D, 0xF90E, 0xE92F, 0x99C8, 0x89E9, 0xB98A, 0xA9AB, 0x5844, 0x4865, 0x7806, 0x6827,
     0x18C0, 0x08E1, 0x3882, 0x28A3, 0xCB7D, 0xDB5C, 0xEB3F, 0xFB1E, 0x8BF9, 0x9BD8, 0xABBB, 0xBB9A,
     0x4A75, 0x5A54, 0x6A37, 0x7A16, 0x0AF1, 0x1AD0, 0x2AB3, 0x3A92, 0xFD2E, 0xED0F, 0xDD6C, 0xCD4D,
     0xBDAA, 0xAD8B, 0x9DE8, 0x8DC9, 0x7C26, 0x6C07, 0x5C64, 0x4C45, 0x3CA2, 0x2C83, 0x1CE0, 0x0CC1,
     0xEF1F, 0xFF3E, 0xCF5D, 0xDF7C, 0xAF9B, 0xBFBA, 0x8FD9, 0x9FF8, 0x6E17, 0x7E36, 0x4E55, 0x5E74,
     0x2E93, 0x3EB2, 0x0ED1, 0x1EF0]"

definition crc32tbl :: "u32 list" where
  "crc32tbl =
    [0x00000000, 0x77073096, 0xee0e612c, 0x990951ba, 0x076dc419, 0x706af48f, 0xe963a535, 0x9e6495a3,
     0x0edb8832, 0x79dcb8a4, 0xe0d5e91e, 0x97d2d988, 0x09b64c2b, 0x7eb17cbd, 0xe7b82d07, 0x90bf1d91,
     0x1db71064, 0x6ab020f2, 0xf3b97148, 0x84be41de, 0x1adad47d, 0x6ddde4eb, 0xf4d4b551, 0x83d385c7,
     0x136c9856, 0x646ba8c0, 0xfd62f97a, 0x8a65c9ec, 0x14015c4f, 0x63066cd9, 0xfa0f3d63, 0x8d080df5,
     0x3b6e20c8, 0x4c69105e, 0xd56041e4, 0xa2677172, 0x3c03e4d1, 0x4b04d447, 0xd20d85fd, 0xa50ab56b,
     0x35b5a8fa, 0x42b2986c, 0xdbbbc9d6, 0xacbcf940, 0x32d86ce3, 0x45df5c75, 0xdcd60dcf, 0xabd13d59,
     0x26d930ac, 0x51de003a, 0xc8d75180, 0xbfd06116, 0x21b4f4b5, 0x56b3c423, 0xcfba9599, 0xb8bda50f,
     0x2802b89e, 0x5f058808, 0xc60cd9b2, 0xb10be924, 0x2f6f7c87, 0x58684c11, 0xc1611dab, 0xb6662d3d,
     0x76dc4190, 0x01db7106, 0x98d220bc, 0xefd5102a, 0x71b18589, 0x06b6b51f, 0x9fbfe4a5, 0xe8b8d433,
     0x7807c9a2, 0x0f00f934, 0x9609a88e, 0xe10e9818, 0x7f6a0dbb, 0x086d3d2d, 0x91646c97, 0xe6635c01,
     0x6b6b51f4, 0x1c6c6162, 0x856530d8, 0xf262004e, 0x6c0695ed, 0x1b01a57b, 0x8208f4c1, 0xf50fc457,
     0x65b0d9c6, 0x12b7e950, 0x8bbeb8ea, 0xfcb9887c, 0x62dd1ddf, 0x15da2d49, 0x8cd37cf3, 0xfbd44c65,
     0x4db26158, 0x3ab551ce, 0xa3bc0074, 0xd4bb30e2, 0x4adfa541, 0x3dd895d7, 0xa4d1c46d, 0xd3d6f4fb,
     0x4369e96a, 0x346ed9fc, 0xad678846, 0xda60b8d0, 0x44042d73, 0x33031de5, 0xaa0a4c5f, 0xdd0d7cc9,
     0x5005713c, 0x270241aa, 0xbe0b1010, 0xc90c2086, 0x5768b525, 0x206f85b3, 0xb966d409, 0xce61e49f,
     0x5edef90e, 0x29d9c998, 0xb0d09822, 0xc7d7a8b4, 0x59b33d17, 0x2eb40d81, 0xb7bd5c3b, 0xc0ba6cad,
     0xedb88320, 0x9abfb3b6, 0x03b6e20c, 0x74b1d29a, 0xead54739, 0x9dd277af, 0x04db2615, 0x73dc1683,
     0xe3630b12, 0x94643b84, 0x0d6d6a3e, 0x7a6a5aa8, 0xe40ecf0b, 0x9309ff9d, 0x0a00ae27, 0x7d079eb1,
     0xf00f9344, 0x8708a3d2, 0x1e01f268, 0x6906c2fe, 0xf762575d, 0x806567cb, 0x196c3671, 0x6e6b06e7,
     0xfed41b76, 0x89d32be0, 0x10da7a5a, 0x67dd4acc, 0xf9b9df6f, 0x8ebeeff9, 0x17b7be43, 0x60b08ed5,
     0xd6d6a3e8, 0xa1d1937e, 0x38d8c2c4, 0x4fdff252, 0xd1bb67f1, 0xa6bc5767, 0x3fb506dd, 0x48b2364b,
     0xd80d2bda, 0xaf0a1b4c, 0x36034af6, 0x41047a60, 0xdf60efc3, 0xa867df55, 0x316e8eef, 0x4669be79,
     0xcb61b38c, 0xbc66831a, 0x256fd2a0, 0x5268e236, 0xcc0c7795, 0xbb0b4703, 0x220216b9, 0x5505262f,
     0xc5ba3bbe, 0xb2bd0b28, 0x2bb45a92, 0x5cb36a04, 0xc2d7ffa7, 0xb5d0cf31, 0x2cd99e8b, 0x5bdeae1d,
     0x9b64c2b0, 0xec63f226, 0x756aa39c, 0x026d930a, 0x9c0906a9, 0xeb0e363f, 0x72076785, 0x05005713,
     0x95bf4a82, 0xe2b87a14, 0x7bb12bae, 0x0cb61b38, 0x92d28e9b, 0xe5d5be0d, 0x7cdcefb7, 0x0bdbdf21,
     0x86d3d2d4, 0xf1d4e242, 0x68ddb3f8, 0x1fda836e, 0x81be16cd, 0xf6b9265b, 0x6fb077e1, 0x18b74777,
     0x88085ae6, 0xff0f6a70, 0x66063bca, 0x11010b5c, 0x8f659eff, 0xf862ae69, 0x616bffd3, 0x166ccf45,
     0xa00ae278, 0xd70dd2ee, 0x4e048354, 0x3903b3c2, 0xa7672661, 0xd06016f7, 0x4969474d, 0x3e6e77db,
     0xaed16a4a, 0xd9d65adc, 0x40df0b66, 0x37d83bf0, 0xa9bcae53, 0xdebb9ec5, 0x47b2cf7f, 0x30b5ffe9,
     0xbdbdf21c, 0xcabac28a, 0x53b39330, 0x24b4a3a6, 0xbad03605, 0xcdd70693, 0x54de5729, 0x23d967bf,
     0xb3667a2e, 0xc4614ab8, 0x5d681b02, 0x2a6f2b94, 0xb40bbe37, 0xc30c8ea1, 0x5a05df1b, 0x2d02ef8d]"

definition ucrc16 :: "byte \<Rightarrow> u16 \<Rightarrow> u16" where
  "ucrc16 ch crc = (crc16tbl ! unat ((drop_bit 8 crc AND 0xff) XOR ucast ch)) XOR push_bit 8 crc"

definition ucrc32 :: "byte \<Rightarrow> u32 \<Rightarrow> u32" where
  "ucrc32 ch crc = (crc32tbl ! unat ((crc XOR ucast ch) AND 0xff)) XOR drop_bit 8 crc"

text \<open>A length of 0 asks for the length of the C string in the buffer.\<close>

definition crc16 :: "byte list \<Rightarrow> nat \<Rightarrow> u16" where
  "crc16 data len = foldl (\<lambda>crc ch. ucrc16 ch crc) 0 (if len = 0 then cstr data else take len data)"

definition crc32i :: "u32 \<Rightarrow> byte list \<Rightarrow> nat \<Rightarrow> u32" where
  "crc32i crc buf len =
     NOT (foldl (\<lambda>crc ch. ucrc32 ch crc) crc (if len = 0 then cstr buf else take len buf))"

definition crc32 :: "byte list \<Rightarrow> nat \<Rightarrow> u32" where
  "crc32 buf len = crc32i 0xffffffff buf len"

text \<open>The checksum of the first \<open>len\<close> bytes of a file, or of all of it for 0.\<close>

fun fcrc32_loop :: "nat \<Rightarrow> nat \<Rightarrow> u32 \<Rightarrow> byte list \<Rightarrow> u32" where
  "fcrc32_loop len l crc [] = crc"
| "fcrc32_loop len l crc (ch # fbytes) =
     (if len = 0 \<or> l < len then fcrc32_loop len (Suc l) (ucrc32 ch crc) fbytes else crc)"

definition fcrc32 :: "byte list \<Rightarrow> nat \<Rightarrow> u32" where
  "fcrc32 fbytes len = NOT (fcrc32_loop len 0 0xffffffff fbytes)"

section \<open>Bit-serial division\<close>

definition step16 :: "u16 \<Rightarrow> u16" where
  "step16 c = (if bit c 15 then push_bit 1 c XOR 0x1021 else push_bit 1 c)"

definition step32 :: "u32 \<Rightarrow> u32" where
  "step32 c = (if bit c 0 then drop_bit 1 c XOR 0xedb88320 else drop_bit 1 c)"

text \<open>Both steps are linear over XOR and lose nothing.\<close>

lemma bit_times_2: "bit (c * 2 :: u16) n \<longleftrightarrow> bit c (n - 1) \<and> n \<noteq> 0 \<and> n < 16"
  using bit_double_iff [of c n] by (auto simp: mult.commute)

lemma step32_xor: "step32 (x XOR y) = step32 x XOR step32 y"
  by (auto simp: step32_def bit_xor_iff ac_simps)

lemma step16_xor: "step16 (x XOR y) = step16 x XOR step16 y"
  by (auto simp: step16_def bit_xor_iff ac_simps)

lemma step32_zero: "step32 c = 0 \<Longrightarrow> c = 0"
proof -
  assume z: "step32 c = 0"
  show "c = 0"
  proof (rule bit_word_eqI)
    fix n assume "n < LENGTH(32)"
    have "\<not> bit c 0"
    proof
      assume "bit c 0"
      then have "bit (drop_bit 1 c XOR 0xedb88320) 31 = bit (0 :: u32) 31"
        using z by (simp add: step32_def)
      then show False by (simp add: bit_xor_iff bit_drop_bit_eq impossible_bit)
    qed
    then have "drop_bit 1 c = 0" using z by (simp add: step32_def)
    then have "bit (drop_bit 1 c) m = bit 0 m" for m by simp
    then have "\<not> bit c (Suc m)" for m by (simp add: bit_drop_bit_eq)
    then show "bit c n = bit 0 n" using \<open>\<not> bit c 0\<close> by (cases n) auto
  qed
qed

lemma step16_zero: "step16 c = 0 \<Longrightarrow> c = 0"
proof -
  assume z: "step16 c = 0"
  have "\<not> bit c 15"
  proof
    assume "bit c 15"
    then have "bit (push_bit 1 c XOR 0x1021) 0 = bit (0 :: u16) 0"
      using z by (simp add: step16_def)
    then show False by (simp add: bit_xor_iff bit_times_2)
  qed
  then have p: "push_bit 1 c = 0" using z by (simp add: step16_def)
  show "c = 0"
  proof (rule bit_word_eqI)
    fix n assume n: "n < LENGTH(16)"
    show "bit c n = bit 0 n"
    proof (cases "n = 15")
      case True
      then show ?thesis using \<open>\<not> bit c 15\<close> by simp
    next
      case False
      then show ?thesis
        using n arg_cong [OF p, of "\<lambda>w. bit w (Suc n)"] by (auto simp: bit_times_2)
    qed
  qed
qed

lemma funpow_xor:
  fixes f :: "'a::len word \<Rightarrow> 'a word"
  assumes "\<And>x y. f (x XOR y) = f x XOR f y"
  shows "(f ^^ n) (x XOR y) = (f ^^ n) x XOR (f ^^ n) y"
  by (induction n) (simp_all add: assms)

lemma funpow_zero:
  fixes f :: "'a::len word \<Rightarrow> 'a word"
  assumes "\<And>x. f x = 0 \<Longrightarrow> x = 0"
  shows "(f ^^ n) x = 0 \<Longrightarrow> x = 0"
  by (induction n) (use assms in auto)

lemma step32_shift: "take_bit n c = 0 \<Longrightarrow> (step32 ^^ n) c = drop_bit n c"
proof (induction n arbitrary: c)
  case (Suc n)
  have b: "\<not> bit c m" if "m \<le> n" for m
    using arg_cong [OF Suc.prems, of "\<lambda>w. bit w m"] that by (simp add: bit_take_bit_iff)
  have "take_bit n (drop_bit 1 c) = 0"
    by (rule bit_eqI) (use b in \<open>simp add: bit_take_bit_iff bit_drop_bit_eq\<close>)
  then show ?case
    using b [of 0] Suc.IH [of "drop_bit 1 c"]
    by (simp add: funpow_Suc_right step32_def drop_bit_drop_bit del: funpow.simps)
qed simp

lemma step16_shift: "(\<And>m. 16 \<le> m + n \<Longrightarrow> \<not> bit c m) \<Longrightarrow> (step16 ^^ n) c = push_bit n c"
proof (induction n arbitrary: c)
  case (Suc n)
  have "\<not> bit c 15" using Suc.prems [of 15] by simp
  moreover have "\<not> bit (push_bit 1 c) m" if "16 \<le> m + n" for m
    using Suc.prems [of "m - 1"] that by (auto simp: bit_times_2)
  ultimately show ?case
    using Suc.IH [of "push_bit 1 c"] by (simp add: funpow_Suc_right step16_def push_bit_push_bit del: funpow.simps)
qed simp

section \<open>The tables\<close>

fun xor_double :: "'a::len word list \<Rightarrow> 'a word list \<Rightarrow> 'a word list" where
  "xor_double [] t = t"
| "xor_double (b # bs) t = xor_double bs (t @ map (\<lambda>x. x XOR b) t)"

lemma map_xor_double:
  assumes "\<And>x y. g (x XOR y) = g x XOR g y"
  shows "map g (xor_double bs t) = xor_double (map g bs) (map g t)"
  by (induction bs arbitrary: t) (simp_all add: assms comp_def)

lemma bytes_xor_double:
  "map word_of_nat [0..<256] = (xor_double [1, 2, 4, 8, 16, 32, 64, 128] [0] :: u32 list)"
  "map word_of_nat [0..<256] = (xor_double [1, 2, 4, 8, 16, 32, 64, 128] [0] :: u16 list)"
  by (simp_all add: upt_rec)

lemma funpow8: "(f ^^ 8) x = f (f (f (f (f (f (f (f x)))))))"
  by (simp add: eval_nat_numeral)

lemma crc32tbl_steps: "crc32tbl = map (\<lambda>i. (step32 ^^ 8) (word_of_nat i)) [0..<256]"
proof -
  have "map (step32 ^^ 8) (map word_of_nat [0..<256])
    = xor_double (map (step32 ^^ 8) [1, 2, 4, 8, 16, 32, 64, 128]) (map (step32 ^^ 8) [0])"
    unfolding bytes_xor_double by (rule map_xor_double) (rule funpow_xor [OF step32_xor])
  also have "map (step32 ^^ 8) [1, 2, 4, 8, 16, 32, 64, 128] = [0x77073096, 0xee0e612c,
      0x076dc419, 0x0edb8832, 0x1db71064, 0x3b6e20c8, 0x76dc4190, 0xedb88320]"
    by (simp add: step32_def funpow8)
  also have "map (step32 ^^ 8) [0] = [0]" by (simp add: step32_def funpow8)
  also have "xor_double [0x77073096, 0xee0e612c, 0x076dc419, 0x0edb8832, 0x1db71064, 0x3b6e20c8,
      0x76dc4190, 0xedb88320] [0] = crc32tbl"
    by (simp add: crc32tbl_def)
  finally show ?thesis by (simp add: comp_def)
qed

lemma crc16tbl_steps: "crc16tbl = map (\<lambda>i. (step16 ^^ 8) (push_bit 8 (word_of_nat i))) [0..<256]"
proof -
  let ?g = "\<lambda>x. (step16 ^^ 8) (push_bit 8 x)"
  have "map ?g (map word_of_nat [0..<256])
    = xor_double (map ?g [1, 2, 4, 8, 16, 32, 64, 128]) (map ?g [0])"
    unfolding bytes_xor_double
    by (rule map_xor_double) (simp add: funpow_xor [OF step16_xor])
  also have "map ?g [1, 2, 4, 8, 16, 32, 64, 128] = [0x1021, 0x2042, 0x4084, 0x8108, 0x1231,
      0x2462, 0x48c4, 0x9188]"
    by (simp add: step16_def funpow8)
  also have "map ?g [0] = [0]" by (simp add: step16_def funpow8)
  also have "xor_double [0x1021, 0x2042, 0x4084, 0x8108, 0x1231, 0x2462, 0x48c4, 0x9188] [0]
      = crc16tbl"
    by (simp add: crc16tbl_def)
  finally show ?thesis by (simp add: comp_def)
qed

lemma low_high_split: "(c :: 'a::len word) = take_bit 8 c XOR push_bit 8 (drop_bit 8 c)"
  by (rule bit_word_eqI) (auto simp: bit_simps)

lemma and_255: "(c :: 'a::len word) AND 0xff = take_bit 8 c"
  by (simp add: take_bit_eq_mask mask_eq_exp_minus_1)

lemma unat_take_bit_8: "unat (take_bit 8 c :: 'a::len word) < 256"
  using take_bit_nat_less_exp [of 8 "unat c"] by (simp add: unsigned_take_bit_eq)

lemma ucrc32_steps: "ucrc32 ch crc = (step32 ^^ 8) (crc XOR ucast ch)"
proof -
  let ?c = "crc XOR ucast ch :: u32"
  have "(step32 ^^ 8) ?c = (step32 ^^ 8) (take_bit 8 ?c) XOR (step32 ^^ 8) (push_bit 8 (drop_bit 8 ?c))"
    by (metis funpow_xor [OF step32_xor] low_high_split)
  also have "(step32 ^^ 8) (take_bit 8 ?c) = crc32tbl ! unat (take_bit 8 ?c)"
    using unat_take_bit_8 [of ?c] by (simp add: crc32tbl_steps)
  also have "(step32 ^^ 8) (push_bit 8 (drop_bit 8 ?c)) = drop_bit 8 (push_bit 8 (drop_bit 8 ?c))"
    by (rule step32_shift, rule bit_word_eqI) (auto simp: bit_simps)
  also have "\<dots> = drop_bit 8 crc"
    by (rule bit_word_eqI) (auto simp: bit_simps dest: bit_imp_le_length)
  finally show ?thesis by (simp add: ucrc32_def and_255)
qed

lemma ucrc16_steps: "ucrc16 ch crc = (step16 ^^ 8) (crc XOR push_bit 8 (ucast ch))"
proof -
  let ?c = "crc XOR push_bit 8 (ucast ch) :: u16"
  have i: "drop_bit 8 ?c = (drop_bit 8 crc AND 0xff) XOR ucast ch"
    unfolding and_255 by (rule bit_word_eqI) (auto simp: bit_simps dest: bit_imp_le_length)
  have "take_bit 8 (drop_bit 8 ?c) = drop_bit 8 ?c"
    by (rule bit_word_eqI) (auto simp: bit_simps dest: bit_imp_le_length)
  then have small: "unat (drop_bit 8 ?c) < 256"
    using unat_take_bit_8 [of "drop_bit 8 ?c"] by simp
  have "(step16 ^^ 8) ?c = (step16 ^^ 8) (push_bit 8 (drop_bit 8 ?c)) XOR (step16 ^^ 8) (take_bit 8 ?c)"
    by (metis funpow_xor [OF step16_xor] low_high_split xor.commute)
  also have "(step16 ^^ 8) (push_bit 8 (drop_bit 8 ?c)) = crc16tbl ! unat (drop_bit 8 ?c)"
    using small by (simp add: crc16tbl_steps)
  also have "(step16 ^^ 8) (take_bit 8 ?c) = push_bit 8 (take_bit 8 ?c)"
    by (rule step16_shift) (simp add: bit_simps)
  also have "\<dots> = push_bit 8 crc"
    by (rule bit_word_eqI) (auto simp: bit_simps)
  finally show ?thesis unfolding ucrc16_def i by (rule sym)
qed

section \<open>A register fed byte by byte\<close>

text \<open>
  The contract both checksums keep: feeding a byte loses neither the register nor the byte.
  Then two messages of the same length that differ in one byte end with different registers.
\<close>

locale crc_register =
  fixes upd :: "byte \<Rightarrow> 'c \<Rightarrow> 'c"
  assumes upd_register: "upd b c = upd b c' \<Longrightarrow> c = c'"
    and upd_byte: "upd b c = upd b' c \<Longrightarrow> b = b'"
begin

definition feed :: "'c \<Rightarrow> byte list \<Rightarrow> 'c" where
  "feed c bs = foldl (\<lambda>c b. upd b c) c bs"

lemma feed_append: "feed c (xs @ ys) = feed (feed c xs) ys"
  by (simp add: feed_def)

lemma feed_inj: "feed c bs = feed c' bs \<Longrightarrow> c = c'"
  by (induction bs arbitrary: c c') (auto simp: feed_def dest: upd_register)

lemma one_byte: "b \<noteq> b' \<Longrightarrow> feed c (xs @ b # ys) \<noteq> feed c (xs @ b' # ys)"
proof
  assume "b \<noteq> b'" and eq: "feed c (xs @ b # ys) = feed c (xs @ b' # ys)"
  have "feed c (xs @ a # ys) = feed (upd a (feed c xs)) ys" for a
    by (simp add: feed_def)
  then have "upd b (feed c xs) = upd b' (feed c xs)" using eq by (simp add: feed_inj)
  then show False using upd_byte \<open>b \<noteq> b'\<close> by blast
qed

end

lemma funpow_inj:
  fixes f :: "'a::len word \<Rightarrow> 'a word"
  assumes "\<And>x y. f (x XOR y) = f x XOR f y" "\<And>x. f x = 0 \<Longrightarrow> x = 0"
    and "(f ^^ n) x = (f ^^ n) y"
  shows "x = y"
proof -
  have "(f ^^ n) (x XOR y) = 0" using assms(3) by (simp add: funpow_xor [OF assms(1)])
  then have "x XOR y = 0" using funpow_zero [of f n "x XOR y"] assms(2) by blast
  then show ?thesis by (metis xor_self_eq xor.assoc xor.left_neutral xor.right_neutral)
qed

lemma funpow8_step32_inj: "(step32 ^^ 8) x = (step32 ^^ 8) y \<Longrightarrow> x = y"
  by (rule funpow_inj [OF step32_xor step32_zero])

lemma funpow8_step16_inj: "(step16 ^^ 8) x = (step16 ^^ 8) y \<Longrightarrow> x = y"
  by (rule funpow_inj [OF step16_xor step16_zero])

lemma xor_cancel: "(a XOR b = a XOR c) \<longleftrightarrow> b = (c :: 'a::len word)" "(b XOR a = c XOR a) \<longleftrightarrow> b = c"
  by (metis xor.assoc xor_self_eq xor.left_neutral, metis xor.assoc xor_self_eq xor.right_neutral)

lemma ucast_byte_inj:
  assumes "(ucast b :: 'a::len word) = ucast b'" "8 \<le> LENGTH('a)"
  shows "b = (b' :: byte)"
proof (rule bit_word_eqI)
  fix n assume "n < LENGTH(8)"
  moreover have "bit (ucast b :: 'a word) n = bit (ucast b' :: 'a word) n" using assms by simp
  ultimately show "bit b n = bit b' n" using assms(2) by (simp add: bit_ucast_iff)
qed

lemma push_byte_inj:
  assumes "push_bit 8 (ucast b :: u16) = push_bit 8 (ucast b')"
  shows "b = (b' :: byte)"
proof (rule bit_word_eqI)
  fix n assume "n < LENGTH(8)"
  moreover have "bit (push_bit 8 (ucast b :: u16)) (n + 8) = bit (push_bit 8 (ucast b' :: u16)) (n + 8)"
    using assms by simp
  ultimately show "bit b n = bit b' n" by (simp add: bit_simps)
qed

interpretation reg32: crc_register ucrc32
proof
  show "ucrc32 b c = ucrc32 b c' \<Longrightarrow> c = c'" for b c c'
    using funpow8_step32_inj [of "c XOR ucast b" "c' XOR ucast b"] by (simp add: ucrc32_steps xor_cancel)
  show "ucrc32 b c = ucrc32 b' c \<Longrightarrow> b = b'" for b b' c
    using funpow8_step32_inj [of "c XOR ucast b" "c XOR ucast b'"] ucast_byte_inj [of b b', where ?'a = 32]
    by (simp add: ucrc32_steps xor_cancel)
qed

interpretation reg16: crc_register ucrc16
proof
  show "ucrc16 b c = ucrc16 b c' \<Longrightarrow> c = c'" for b c c'
    using funpow8_step16_inj [of "c XOR push_bit 8 (ucast b)" "c' XOR push_bit 8 (ucast b)"]
    by (simp add: ucrc16_steps xor_cancel)
  show "ucrc16 b c = ucrc16 b' c \<Longrightarrow> b = b'" for b b' c
    using funpow8_step16_inj [of "c XOR push_bit 8 (ucast b)" "c XOR push_bit 8 (ucast b')"]
      push_byte_inj [of b b']
    by (simp add: ucrc16_steps xor_cancel)
qed

section \<open>Properties\<close>

text \<open>
  C22: The table-driven CRC-32 of a buffer is the bit-serial one: each byte is added to the low
  end of the register, which is then divided eight times by the polynomial edb88320, starting
  from all ones and complemented at the end.
\<close>

theorem crc32_bit_serial:
  "crc32 buf len = NOT (foldl (\<lambda>c b. (step32 ^^ 8) (c XOR ucast b)) 0xffffffff
     (if len = 0 then cstr buf else take len buf))"
  by (simp add: crc32_def crc32i_def ucrc32_steps)

text \<open>
  The table-driven CRC-16 of a buffer is the bit-serial one: each byte is added to the high
  end of the register, which is then divided eight times by the polynomial 1021.
\<close>

theorem crc16_bit_serial:
  "crc16 data len = foldl (\<lambda>c b. (step16 ^^ 8) (c XOR push_bit 8 (ucast b))) 0
     (if len = 0 then cstr data else take len data)"
  by (simp add: crc16_def ucrc16_steps)

text \<open>
  C23: Two buffers of the same length that differ in exactly one byte have different CRC-32s and
  different CRC-16s.
\<close>

theorem crc_one_byte_detected:
  assumes "b \<noteq> b'"
  shows "crc32 (xs @ b # ys) (length (xs @ b # ys)) \<noteq> crc32 (xs @ b' # ys) (length (xs @ b' # ys))
    \<and> crc16 (xs @ b # ys) (length (xs @ b # ys)) \<noteq> crc16 (xs @ b' # ys) (length (xs @ b' # ys))"
  using reg32.one_byte [OF assms, of "0xffffffff" xs ys] reg16.one_byte [OF assms, of 0 xs ys]
  by (simp add: crc32_def crc32i_def crc16_def reg32.feed_def reg16.feed_def)

theorem crc_one_byte_detected_witness:
  "crc32 [1, 2, 3] 3 \<noteq> crc32 [1, 7, 3] 3 \<and> crc16 [1, 2, 3] 3 \<noteq> crc16 [1, 7, 3] 3"
  using crc_one_byte_detected [of 2 7 "[1]" "[3]"] by (simp add: numeral_3_eq_3)

lemma fcrc32_loop_eq:
  "fcrc32_loop len l crc fbytes =
     foldl (\<lambda>crc ch. ucrc32 ch crc) crc (if len = 0 then fbytes else take (len - l) fbytes)"
proof (induction fbytes arbitrary: l crc)
  case (Cons ch fbytes)
  show ?case
  proof (cases "len = 0 \<or> len \<le> l")
    case False
    then have "len - l = Suc (len - Suc l)" by arith
    then show ?thesis using False by (simp add: Cons.IH)
  qed (auto simp: Cons.IH)
qed simp

lemma fcrc32_crc32: "0 < len \<Longrightarrow> fcrc32 fbytes len = crc32 fbytes len"
  by (simp add: fcrc32_def fcrc32_loop_eq crc32_def crc32i_def)

end
