(* ===== verification/Md5.thy ===== *)
theory Md5
  imports Prelude "HOL-Library.Monad_Syntax"
begin

text \<open>
  The MD5 message digest (smblib/md5.c) of the message hashes: the block transformation, and the
  incremental interface that buffers input and counts its bits in two 32-bit words. The index of
  the loop over the input is a 32-bit integer as in the code, so that an input of 4 GB or more,
  where it wraps, is read for ever; None stands for a call that does not return, or that reads
  or writes outside the input or the buffer. The digest is compared with RFC 1321, whose
  transformation is written down a second time, by its own indices, functions and table.
\<close>

section \<open>The code\<close>

record md5 =
  md5_state :: "u32 \<times> u32 \<times> u32 \<times> u32"
  count0 :: u32
  count1 :: u32
  md5_buffer :: "byte list"

definition md5_init :: "u32 \<times> u32 \<times> u32 \<times> u32" where
  "md5_init = (0x67452301, 0xefcdab89, 0x98badcfe, 0x10325476)"

definition MD5_open :: "md5 \<Rightarrow> md5" where
  "MD5_open m = m\<lparr>count0 := 0, count1 := 0, md5_state := md5_init\<rparr>"

definition md5_F :: "u32 \<Rightarrow> u32 \<Rightarrow> u32 \<Rightarrow> u32" where
  "md5_F x y z = (x AND y) OR (NOT x AND z)"

definition md5_G :: "u32 \<Rightarrow> u32 \<Rightarrow> u32 \<Rightarrow> u32" where
  "md5_G x y z = (x AND z) OR (y AND NOT z)"

definition md5_H :: "u32 \<Rightarrow> u32 \<Rightarrow> u32 \<Rightarrow> u32" where
  "md5_H x y z = x XOR y XOR z"

definition md5_I :: "u32 \<Rightarrow> u32 \<Rightarrow> u32 \<Rightarrow> u32" where
  "md5_I x y z = y XOR (x OR NOT z)"

definition ROTATE_LEFT :: "u32 \<Rightarrow> nat \<Rightarrow> u32" where
  "ROTATE_LEFT x n = push_bit n x OR drop_bit (32 - n) x"

text \<open>
  The transformation is 64 macro calls \<open>RoundN(a, b, c, d, x[k], s, ac)\<close> that assign the first of
  four local variables; each call is an entry of \<open>md5_program\<close>.
\<close>

datatype md5_round = R1 | R2 | R3 | R4

datatype md5_reg = Ar | Br | Cr | Dr

type_synonym md5_call =
  "md5_round \<times> md5_reg \<times> md5_reg \<times> md5_reg \<times> md5_reg \<times> nat \<times> nat \<times> u32"

fun md5_fun :: "md5_round \<Rightarrow> u32 \<Rightarrow> u32 \<Rightarrow> u32 \<Rightarrow> u32" where
  "md5_fun R1 = md5_F"
| "md5_fun R2 = md5_G"
| "md5_fun R3 = md5_H"
| "md5_fun R4 = md5_I"

fun get_reg :: "u32 \<times> u32 \<times> u32 \<times> u32 \<Rightarrow> md5_reg \<Rightarrow> u32" where
  "get_reg (a, b, c, d) Ar = a"
| "get_reg (a, b, c, d) Br = b"
| "get_reg (a, b, c, d) Cr = c"
| "get_reg (a, b, c, d) Dr = d"

fun set_reg :: "u32 \<times> u32 \<times> u32 \<times> u32 \<Rightarrow> md5_reg \<Rightarrow> u32 \<Rightarrow> u32 \<times> u32 \<times> u32 \<times> u32" where
  "set_reg (a, b, c, d) Ar v = (v, b, c, d)"
| "set_reg (a, b, c, d) Br v = (a, v, c, d)"
| "set_reg (a, b, c, d) Cr v = (a, b, v, d)"
| "set_reg (a, b, c, d) Dr v = (a, b, c, v)"

fun md5_step :: "u32 list \<Rightarrow> u32 \<times> u32 \<times> u32 \<times> u32 \<Rightarrow> md5_call \<Rightarrow> u32 \<times> u32 \<times> u32 \<times> u32" where
  "md5_step x st (r, ra, rb, rc, rd, k, s, ac) =
     (let v = get_reg st ra + (md5_fun r (get_reg st rb) (get_reg st rc) (get_reg st rd) + x ! k + ac)
      in set_reg st ra (ROTATE_LEFT v s + get_reg st rb))"

definition md5_program :: "md5_call list" where
  "md5_program =
    [(R1, Ar, Br, Cr, Dr, 0, 7, 0xd76aa478), (R1, Dr, Ar, Br, Cr, 1, 12, 0xe8c7b756),
     (R1, Cr, Dr, Ar, Br, 2, 17, 0x242070db), (R1, Br, Cr, Dr, Ar, 3, 22, 0xc1bdceee),
     (R1, Ar, Br, Cr, Dr, 4, 7, 0xf57c0faf), (R1, Dr, Ar, Br, Cr, 5, 12, 0x4787c62a),
     (R1, Cr, Dr, Ar, Br, 6, 17, 0xa8304613), (R1, Br, Cr, Dr, Ar, 7, 22, 0xfd469501),
     (R1, Ar, Br, Cr, Dr, 8, 7, 0x698098d8), (R1, Dr, Ar, Br, Cr, 9, 12, 0x8b44f7af),
     (R1, Cr, Dr, Ar, Br, 10, 17, 0xffff5bb1), (R1, Br, Cr, Dr, Ar, 11, 22, 0x895cd7be),
     (R1, Ar, Br, Cr, Dr, 12, 7, 0x6b901122), (R1, Dr, Ar, Br, Cr, 13, 12, 0xfd987193),
     (R1, Cr, Dr, Ar, Br, 14, 17, 0xa679438e), (R1, Br, Cr, Dr, Ar, 15, 22, 0x49b40821),
     (R2, Ar, Br, Cr, Dr, 1, 5, 0xf61e2562), (R2, Dr, Ar, Br, Cr, 6, 9, 0xc040b340),
     (R2, Cr, Dr, Ar, Br, 11, 14, 0x265e5a51), (R2, Br, Cr, Dr, Ar, 0, 20, 0xe9b6c7aa),
     (R2, Ar, Br, Cr, Dr, 5, 5, 0xd62f105d), (R2, Dr, Ar, Br, Cr, 10, 9, 0x2441453),
     (R2, Cr, Dr, Ar, Br, 15, 14, 0xd8a1e681), (R2, Br, Cr, Dr, Ar, 4, 20, 0xe7d3fbc8),
     (R2, Ar, Br, Cr, Dr, 9, 5, 0x21e1cde6), (R2, Dr, Ar, Br, Cr, 14, 9, 0xc33707d6),
     (R2, Cr, Dr, Ar, Br, 3, 14, 0xf4d50d87), (R2, Br, Cr, Dr, Ar, 8, 20, 0x455a14ed),
     (R2, Ar, Br, Cr, Dr, 13, 5, 0xa9e3e905), (R2, Dr, Ar, Br, Cr, 2, 9, 0xfcefa3f8),
     (R2, Cr, Dr, Ar, Br, 7, 14, 0x676f02d9), (R2, Br, Cr, Dr, Ar, 12, 20, 0x8d2a4c8a),
     (R3, Ar, Br, Cr, Dr, 5, 4, 0xfffa3942), (R3, Dr, Ar, Br, Cr, 8, 11, 0x8771f681),
     (R3, Cr, Dr, Ar, Br, 11, 16, 0x6d9d6122), (R3, Br, Cr, Dr, Ar, 14, 23, 0xfde5380c),
     (R3, Ar, Br, Cr, Dr, 1, 4, 0xa4beea44), (R3, Dr, Ar, Br, Cr, 4, 11, 0x4bdecfa9),
     (R3, Cr, Dr, Ar, Br, 7, 16, 0xf6bb4b60), (R3, Br, Cr, Dr, Ar, 10, 23, 0xbebfbc70),
     (R3, Ar, Br, Cr, Dr, 13, 4, 0x289b7ec6), (R3, Dr, Ar, Br, Cr, 0, 11, 0xeaa127fa),
     (R3, Cr, Dr, Ar, Br, 3, 16, 0xd4ef3085), (R3, Br, Cr, Dr, Ar, 6, 23, 0x4881d05),
     (R3, Ar, Br, Cr, Dr, 9, 4, 0xd9d4d039), (R3, Dr, Ar, Br, Cr, 12, 11, 0xe6db99e5),
     (R3, Cr, Dr, Ar, Br, 15, 16, 0x1fa27cf8), (R3, Br, Cr, Dr, Ar, 2, 23, 0xc4ac5665),
     (R4, Ar, Br, Cr, Dr, 0, 6, 0xf4292244), (R4, Dr, Ar, Br, Cr, 7, 10, 0x432aff97),
     (R4, Cr, Dr, Ar, Br, 14, 15, 0xab9423a7), (R4, Br, Cr, Dr, Ar, 5, 21, 0xfc93a039),
     (R4, Ar, Br, Cr, Dr, 12, 6, 0x655b59c3), (R4, Dr, Ar, Br, Cr, 3, 10, 0x8f0ccc92),
     (R4, Cr, Dr, Ar, Br, 10, 15, 0xffeff47d), (R4, Br, Cr, Dr, Ar, 1, 21, 0x85845dd1),
     (R4, Ar, Br, Cr, Dr, 8, 6, 0x6fa87e4f), (R4, Dr, Ar, Br, Cr, 15, 10, 0xfe2ce6e0),
     (R4, Cr, Dr, Ar, Br, 6, 15, 0xa3014314), (R4, Br, Cr, Dr, Ar, 13, 21, 0x4e0811a1),
     (R4, Ar, Br, Cr, Dr, 4, 6, 0xf7537e82), (R4, Dr, Ar, Br, Cr, 11, 10, 0xbd3af235),
     (R4, Cr, Dr, Ar, Br, 2, 15, 0x2ad7d2bb), (R4, Br, Cr, Dr, Ar, 9, 21, 0xeb86d391)]"

definition MD5Transform :: "u32 \<times> u32 \<times> u32 \<times> u32 \<Rightarrow> byte list \<Rightarrow> u32 \<times> u32 \<times> u32 \<times> u32" where
  "MD5Transform st block =
     (case st of (sa, sb, sc, sd) \<Rightarrow>
      case foldl (md5_step (unpack 4 un_le32 block)) st md5_program of (a, b, c, d) \<Rightarrow>
        (sa + a, sb + b, sc + c, sd + d))"

text \<open>The loop over the whole blocks of the input, from byte i on; the result has the i it ends with.\<close>

partial_function (option) digest_loop ::
  "u32 \<times> u32 \<times> u32 \<times> u32 \<Rightarrow> byte list \<Rightarrow> u32 \<Rightarrow> ((u32 \<times> u32 \<times> u32 \<times> u32) \<times> u32) option" where
  "digest_loop st input i =
     (if unat (i + 63) < length input
      then if unat i + 64 \<le> length input
           then digest_loop (MD5Transform st (take 64 (drop (unat i) input))) input (i + 64)
           else None
      else Some (st, i))"

definition MD5_digest :: "md5 \<Rightarrow> byte list \<Rightarrow> md5 option" where
  "MD5_digest m input =
     (let inputLen = length input;
          index = unat (drop_bit 3 (count0 m) AND 0x3F);
          bits = push_bit 3 (word_of_nat inputLen :: u32);
          c0 = count0 m + bits;
          c1 = (if c0 < bits then count1 m + 1 else count1 m)
               + drop_bit 29 (word_of_nat inputLen :: u32);
          m1 = m\<lparr>count0 := c0, count1 := c1\<rparr>;
          partLen = 64 - index
      in if partLen \<le> inputLen
         then do {
           let buf = overwrite (md5_buffer m) index (take partLen input);
           (st, i) \<leftarrow> digest_loop (MD5Transform (md5_state m) buf) input (word_of_nat partLen);
           (if unat i \<le> inputLen \<and> inputLen - unat i \<le> 64
            then Some (m1\<lparr>md5_state := st, md5_buffer := overwrite buf 0 (drop (unat i) input)\<rparr>)
            else None) }
         else Some (m1\<lparr>md5_buffer := overwrite (md5_buffer m) index input\<rparr>))"

definition PADDING :: "byte list" where
  "PADDING = 0x80 # replicate 63 0"

definition MD5_close :: "md5 \<Rightarrow> byte list option" where
  "MD5_close m = do {
     let bits = le32 (count0 m) @ le32 (count1 m);
     let index = unat (drop_bit 3 (count0 m) AND 0x3f);
     let padLen = (if index < 56 then 56 - index else 120 - index);
     m1 \<leftarrow> MD5_digest m (take padLen PADDING);
     m2 \<leftarrow> MD5_digest m1 bits;
     case md5_state m2 of (a, b, c, d) \<Rightarrow> Some (le32 a @ le32 b @ le32 c @ le32 d) }"

definition MD5_calc :: "md5 \<Rightarrow> byte list \<Rightarrow> byte list option" where
  "MD5_calc ctx buf = do { m \<leftarrow> MD5_digest (MD5_open ctx) buf; MD5_close m }"

definition hexdigits :: "byte list" where
  "hexdigits = cs ''0123456789abcdef''"

definition MD5_hex :: "byte list \<Rightarrow> byte list" where
  "MD5_hex digest =
     concat (map (\<lambda>b. [hexdigits ! unat (drop_bit 4 b), hexdigits ! unat (b AND 0x0F)]) digest)"

section \<open>The digest of RFC 1321\<close>

text \<open>
  The 64 operations of the RFC, by their number: the function of the round, the word of the block
  it takes, the rotation, and the integer part of 4294967296 times abs(sin(i + 1)), i + 1 in
  radians. Each operation computes a new b and moves the other words one place on.
\<close>

definition rfc_fun :: "nat \<Rightarrow> u32 \<Rightarrow> u32 \<Rightarrow> u32 \<Rightarrow> u32" where
  "rfc_fun i b c d =
     (if i < 16 then (b AND c) OR (NOT b AND d)
      else if i < 32 then (b AND d) OR (c AND NOT d)
      else if i < 48 then b XOR c XOR d
      else c XOR (b OR NOT d))"

definition rfc_word :: "nat \<Rightarrow> nat" where
  "rfc_word i =
     (if i < 16 then i else if i < 32 then (5 * i + 1) mod 16
      else if i < 48 then (3 * i + 5) mod 16 else 7 * i mod 16)"

definition rfc_shift :: "nat \<Rightarrow> nat" where
  "rfc_shift i =
     [[7, 12, 17, 22], [5, 9, 14, 20], [4, 11, 16, 23], [6, 10, 15, 21]] ! (i div 16) ! (i mod 4)"

definition rfc_sine :: "u32 list" where
  "rfc_sine =
    [3614090360, 3905402710, 606105819, 3250441966, 4118548399, 1200080426, 2821735955, 4249261313,
     1770035416, 2336552879, 4294925233, 2304563134, 1804603682, 4254626195, 2792965006, 1236535329,
     4129170786, 3225465664, 643717713, 3921069994, 3593408605, 38016083, 3634488961, 3889429448,
     568446438, 3275163606, 4107603335, 1163531501, 2850285829, 4243563512, 1735328473, 2368359562,
     4294588738, 2272392833, 1839030562, 4259657740, 2763975236, 1272893353, 4139469664, 3200236656,
     681279174, 3936430074, 3572445317, 76029189, 3654602809, 3873151461, 530742520, 3299628645,
     4096336452, 1126891415, 2878612391, 4237533241, 1700485571, 2399980690, 4293915773, 2240044497,
     1873313359, 4264355552, 2734768916, 1309151649, 4149444226, 3174756917, 718787259, 3951481745]"

fun rfc_operation :: "u32 list \<Rightarrow> u32 \<times> u32 \<times> u32 \<times> u32 \<Rightarrow> nat \<Rightarrow> u32 \<times> u32 \<times> u32 \<times> u32" where
  "rfc_operation x (a, b, c, d) i =
     (d, b + word_rotl (rfc_shift i) (a + rfc_fun i b c d + x ! rfc_word i + rfc_sine ! i), b, c)"

definition rfc_block :: "u32 \<times> u32 \<times> u32 \<times> u32 \<Rightarrow> byte list \<Rightarrow> u32 \<times> u32 \<times> u32 \<times> u32" where
  "rfc_block st block =
     (case st of (sa, sb, sc, sd) \<Rightarrow>
      case fold (\<lambda>i st. rfc_operation (unpack 4 un_le32 block) st i) [0..<64] st of (a, b, c, d) \<Rightarrow>
        (sa + a, sb + b, sc + c, sd + d))"

text \<open>
  The message is padded with a 1 bit, zeros up to 56 modulo 64 bytes, and its length in bits as a
  64-bit integer, and the blocks of the result are folded into the state; the words of the
  state start as the bytes 01 23 45 67 89 ab cd ef and these backwards, low-order bytes first.
\<close>

definition rfc_start :: "u32 \<times> u32 \<times> u32 \<times> u32" where
  "rfc_start = (un_le32 [0x01, 0x23, 0x45, 0x67], un_le32 [0x89, 0xab, 0xcd, 0xef],
     un_le32 [0xfe, 0xdc, 0xba, 0x98], un_le32 [0x76, 0x54, 0x32, 0x10])"

definition md5_pad :: "byte list \<Rightarrow> byte list" where
  "md5_pad m = m @ 0x80 # replicate ((119 - length m mod 64) mod 64) 0 @ le_bytes 8 (8 * length m)"

definition md5_out :: "u32 \<times> u32 \<times> u32 \<times> u32 \<Rightarrow> byte list" where
  "md5_out st = (case st of (a, b, c, d) \<Rightarrow> le32 a @ le32 b @ le32 c @ le32 d)"

definition md5_spec :: "byte list \<Rightarrow> byte list" where
  "md5_spec m =
     md5_out (foldl rfc_block rfc_start (chunks 64 (length (md5_pad m) div 64) (md5_pad m)))"

section \<open>The transformation is that of the RFC\<close>

lemma ROTATE_LEFT_word_rotl: "0 < n \<Longrightarrow> n < 32 \<Longrightarrow> ROTATE_LEFT x n = word_rotl n x"
proof (rule bit_word_eqI)
  fix k
  assume n: "0 < n" "n < 32" and "k < LENGTH(32)"
  then have k: "k < 32" by simp
  have l: "LENGTH(32) = 32" by simp
  have i: "(k + (32 - n)) mod 32 = (if n \<le> k then k - n else k + (32 - n))"
  proof (cases "n \<le> k")
    case True
    then have "k + (32 - n) = (k - n) + 32" using n by arith
    then show ?thesis using True k by (simp only: mod_add_self2 if_True) simp
  qed (use n in simp)
  have "bit (word_rotl n x) k = bit x (if n \<le> k then k - n else k + (32 - n))"
    unfolding bit_word_rotl_iff l mod_less [OF n(2)] i using k by simp
  moreover have "bit (ROTATE_LEFT x n) k = bit x (if n \<le> k then k - n else k + (32 - n))"
  proof -
    have "bit x (32 - n + k) \<Longrightarrow> 32 - n + k < 32" using bit_imp_le_length [of x "32 - n + k"] by simp
    then show ?thesis using n k
      by (auto simp add: ROTATE_LEFT_def bit_or_iff bit_push_bit_iff bit_drop_bit_eq add.commute)
  qed
  ultimately show "bit (ROTATE_LEFT x n) k = bit (word_rotl n x) k" by simp
qed

text \<open>Four calls of the code are four operations of the RFC: the registers come back to their places.\<close>

definition code_calls :: "nat \<Rightarrow> md5_call list" where
  "code_calls j =
     (let r = [R1, R2, R3, R4] ! (j div 4);
          call = (\<lambda>i a b c d. (r, a, b, c, d, rfc_word i, rfc_shift i, rfc_sine ! i))
      in [call (4 * j) Ar Br Cr Dr, call (4 * j + 1) Dr Ar Br Cr,
          call (4 * j + 2) Cr Dr Ar Br, call (4 * j + 3) Br Cr Dr Ar])"

lemma md5_program_calls: "md5_program = concat (map code_calls [0..<16])"
  by code_simp

lemma rfc_operations: "[0..<64] = concat (map (\<lambda>j. [4 * j, 4 * j + 1, 4 * j + 2, 4 * j + 3]) [0..<16])"
  by code_simp

lemma rfc_shift_range: "i < 64 \<Longrightarrow> 0 < rfc_shift i \<and> rfc_shift i < 32"
proof -
  have "list_all (\<lambda>i. 0 < rfc_shift i \<and> rfc_shift i < 32) [0..<64]" by code_simp
  then show "i < 64 \<Longrightarrow> ?thesis" by (simp add: list_all_iff)
qed

lemma md5_fun_rfc:
  assumes "i < 64"
  shows "md5_fun ([R1, R2, R3, R4] ! (i div 16)) b c d = rfc_fun i b c d"
proof -
  consider "i div 16 = 0" "i < 16" | "i div 16 = 1" "16 \<le> i" "i < 32"
    | "i div 16 = 2" "32 \<le> i" "i < 48" | "i div 16 = 3" "48 \<le> i"
    using assms by linarith
  then show ?thesis
    by cases (simp_all add: rfc_fun_def md5_F_def md5_G_def md5_H_def md5_I_def ac_simps)
qed

text \<open>One call of the code, with the registers in any place, computes the new value of the RFC.\<close>

lemma md5_call_value:
  assumes "i < 64"
  shows "ROTATE_LEFT (a + (md5_fun ([R1, R2, R3, R4] ! (i div 16)) b c d + x ! rfc_word i + rfc_sine ! i))
      (rfc_shift i) + b
    = b + word_rotl (rfc_shift i) (a + rfc_fun i b c d + x ! rfc_word i + rfc_sine ! i)"
  unfolding md5_fun_rfc [OF assms] using rfc_shift_range [OF assms] by (simp add: ROTATE_LEFT_word_rotl ac_simps)

lemma code_calls_rfc:
  assumes "j < 16"
  shows "foldl (md5_step x) st (code_calls j)
    = fold (\<lambda>i st. rfc_operation x st i) [4 * j, 4 * j + 1, 4 * j + 2, 4 * j + 3] st"
proof -
  obtain a b c d where st: "st = (a, b, c, d)" by (cases st)
  have i: "4 * j < 64" "4 * j + 1 < 64" "4 * j + 2 < 64" "4 * j + 3 < 64" using assms by simp_all
  have "4 * j div 16 = j div 4" "(4 * j + 1) div 16 = j div 4" "(4 * j + 2) div 16 = j div 4"
    "(4 * j + 3) div 16 = j div 4" by linarith+
  note v = i [THEN md5_call_value, unfolded this]
  show ?thesis unfolding st code_calls_def Let_def
    by (simp only: foldl_Cons foldl_Nil fold_simps md5_step.simps Let_def get_reg.simps set_reg.simps
        rfc_operation.simps v)
qed

lemma md5_program_rfc: "foldl (md5_step x) st md5_program = fold (\<lambda>i st. rfc_operation x st i) [0..<64] st"
proof -
  have "\<forall>j \<in> set js. j < 16 \<Longrightarrow> foldl (md5_step x) st (concat (map code_calls js))
    = fold (\<lambda>i st. rfc_operation x st i) (concat (map (\<lambda>j. [4 * j, 4 * j + 1, 4 * j + 2, 4 * j + 3]) js)) st" for js
  proof (induction js arbitrary: st)
    case (Cons j js)
    then have "j < 16" "\<forall>j \<in> set js. j < 16" by simp_all
    from Cons.IH [OF this(2)] code_calls_rfc [OF this(1)] show ?case
      by (simp only: concat.simps list.map foldl_append fold_append o_apply)
  qed simp
  from this [of "[0..<16]"] show ?thesis unfolding md5_program_calls rfc_operations by simp
qed

lemma MD5Transform_rfc: "MD5Transform = rfc_block"
  by (intro ext) (simp add: MD5Transform_def rfc_block_def md5_program_rfc)

lemma md5_init_rfc: "md5_init = rfc_start"
  by (simp add: md5_init_def rfc_start_def un_le32_def)

text \<open>A test vector of the RFC, for the specification itself.\<close>

lemma abc_bytes: "cs ''abc'' = [0x61, 0x62, 0x63]"
  by (simp add: cs_def)

lemma le_bytes_add: "le_bytes (a + b) v = le_bytes a v @ le_bytes b (v div 256 ^ a)"
  by (induction a arbitrary: v) (simp_all add: div_mult2_eq)

lemma le_bytes_4: "le_bytes 4 v = [word_of_nat v, word_of_nat (v div 256), word_of_nat (v div 65536), word_of_nat (v div 16777216)]"
proof -
  have "le_bytes 4 v = le_bytes (Suc (Suc (Suc (Suc 0)))) v" by (simp only: eval_nat_numeral BitM.simps)
  then show ?thesis by (simp add: div_mult2_eq [symmetric])
qed

lemma le_bytes_24: "le_bytes 8 24 = [24, 0, 0, 0, 0, 0, 0, 0]"
proof -
  have "le_bytes 8 24 = le_bytes (4 + 4) 24" by simp
  also have "\<dots> = [24, 0, 0, 0] @ [0, 0, 0, 0]" unfolding le_bytes_add le_bytes_4 by simp
  finally show ?thesis by simp
qed

lemma abc_padded: "md5_pad [0x61, 0x62, 0x63] = [0x61, 0x62, 0x63, 0x80] @ replicate 52 0 @ [24, 0, 0, 0, 0, 0, 0, 0]"
proof -
  have "length [0x61, 0x62, 0x63 :: byte] = 3" by simp
  then show ?thesis unfolding md5_pad_def by (simp only: append_Cons append_Nil) (simp add: le_bytes_24)
qed

lemma abc_chunks:
  "chunks 64 (length (md5_pad [0x61, 0x62, 0x63]) div 64) (md5_pad [0x61, 0x62, 0x63]) = [md5_pad [0x61, 0x62, 0x63]]"
  "chunks 4 (length (md5_pad [0x61, 0x62, 0x63]) div 4) (md5_pad [0x61, 0x62, 0x63]) =
    [0x61, 0x62, 0x63, 0x80] # replicate 13 [0, 0, 0, 0] @ [[24, 0, 0, 0], [0, 0, 0, 0]]"
  unfolding abc_padded by code_simp+

lemma abc_words:
  "unpack 4 un_le32 (md5_pad [0x61, 0x62, 0x63]) =
    [2153996897, 0, 0, 0, 0, 0, 0, 0, 0, 0, 0, 0, 0, 0, 24, 0]"
proof -
  have "replicate 13 [0, 0, 0, 0 :: byte] = map (\<lambda>i. [0, 0, 0, 0]) [0..<13]" by (simp add: map_replicate_const)
  also have "\<dots> = [[0, 0, 0, 0], [0, 0, 0, 0], [0, 0, 0, 0], [0, 0, 0, 0], [0, 0, 0, 0], [0, 0, 0, 0], [0, 0, 0, 0], [0, 0, 0, 0], [0, 0, 0, 0], [0, 0, 0, 0], [0, 0, 0, 0], [0, 0, 0, 0], [0, 0, 0, 0]]"
    by code_simp
  finally show ?thesis unfolding unpack_def abc_chunks(2) by (simp add: un_le32_def)
qed

lemma abc_operations:
  "fold (\<lambda>i st. rfc_operation [2153996897, 0, 0, 0, 0, 0, 0, 0, 0, 0, 0, 0, 0, 0, 24, 0] st i) [0..<64]
     (0x67452301, 0xefcdab89, 0x98badcfe, 0x10325476)
   = (822795919, 3229755059, 3833903576, 1649249458)"
  by code_simp

lemma md5_spec_abc: "MD5_hex (md5_spec (cs ''abc'')) = cs ''900150983cd24fb0d6963f7d28e17f72''"
proof -
  have "rfc_block md5_init (md5_pad [0x61, 0x62, 0x63]) = (2555380112, 2958021180, 2101319382, 1920983336)"
    unfolding rfc_block_def abc_words md5_init_def prod.case abc_operations by simp
  then have "md5_spec (cs ''abc'') = md5_out (2555380112, 2958021180, 2101319382, 1920983336)"
    unfolding md5_spec_def abc_bytes abc_chunks(1) md5_init_rfc [symmetric] by simp
  moreover have "md5_out (2555380112, 2958021180, 2101319382, 1920983336)
    = [144, 1, 80, 152, 60, 210, 79, 176, 214, 150, 63, 125, 40, 225, 127, 114]"
    by (simp add: md5_out_def le32_def le_bytes_4)
  moreover have "MD5_hex [144, 1, 80, 152, 60, 210, 79, 176, 214, 150, 63, 125, 40, 225, 127, 114]
    = cs ''900150983cd24fb0d6963f7d28e17f72''" by (simp add: MD5_hex_def hexdigits_def cs_def)
  ultimately show ?thesis by simp
qed

section \<open>The loop over the input\<close>

text \<open>The whole blocks of a list of any length folded into a state, and what is left over.\<close>

function digest_blocks ::
  "u32 \<times> u32 \<times> u32 \<times> u32 \<Rightarrow> byte list \<Rightarrow> (u32 \<times> u32 \<times> u32 \<times> u32) \<times> byte list" where
  "digest_blocks st input =
     (if 64 \<le> length input
      then digest_blocks (MD5Transform st (take 64 input)) (drop 64 input) else (st, input))"
  by pat_completeness auto
termination by (relation "measure (\<lambda>(st, input). length input)") auto

declare digest_blocks.simps [simp del]

lemma digest_blocks_short: "length bs < 64 \<Longrightarrow> digest_blocks st bs = (st, bs)"
  by (simp add: digest_blocks.simps)

lemma digest_blocks_long:
  "length b = 64 \<Longrightarrow> digest_blocks st (b @ bs) = digest_blocks (MD5Transform st b) bs"
  by (simp add: digest_blocks.simps [of st "b @ bs"])

lemma digest_blocks_append:
  "digest_blocks st (xs @ ys) =
     (case digest_blocks st xs of (st', r) \<Rightarrow> digest_blocks st' (r @ ys))"
proof (induction st xs rule: digest_blocks.induct)
  case (1 st xs)
  show ?case
  proof (cases "64 \<le> length xs")
    case True
    have "digest_blocks st (xs @ ys) = digest_blocks (MD5Transform st (take 64 xs)) (drop 64 xs @ ys)"
      using True by (simp add: digest_blocks.simps [of st "xs @ ys"])
    then show ?thesis using True 1 by (simp add: digest_blocks.simps [of st xs])
  qed (simp add: digest_blocks.simps [of st xs])
qed

lemma digest_blocks_rest:
  "digest_blocks st bs = (st', r) \<Longrightarrow> length r = length bs mod 64"
proof (induction st bs rule: digest_blocks.induct)
  case (1 st bs)
  then show ?case
    by (cases "64 \<le> length bs") (auto simp: digest_blocks.simps [of st bs] le_mod_geq)
qed

lemma digest_blocks_suffix:
  "digest_blocks st bs = (st', r) \<Longrightarrow> drop (length bs - length r) bs = r"
proof (induction st bs rule: digest_blocks.induct)
  case (1 st bs)
  show ?case
  proof (cases "64 \<le> length bs")
    case True
    then have e: "digest_blocks (MD5Transform st (take 64 bs)) (drop 64 bs) = (st', r)"
      using 1(2) by (simp add: digest_blocks.simps [of st bs])
    then have "length r \<le> length bs - 64" using digest_blocks_rest [OF e] by simp
    then show ?thesis using True 1(1) [OF True e] by simp
  qed (use 1(2) in \<open>simp add: digest_blocks.simps [of st bs]\<close>)
qed

lemma digest_blocks_chunks:
  "length bs = 64 * n \<Longrightarrow> digest_blocks st bs = (foldl MD5Transform st (chunks 64 n bs), [])"
proof (induction n arbitrary: st bs)
  case (Suc n)
  then have "digest_blocks st bs = digest_blocks (MD5Transform st (take 64 bs)) (drop 64 bs)"
    by (simp add: digest_blocks.simps [of st bs])
  then show ?case using Suc by simp
qed (simp add: digest_blocks.simps)

text \<open>
  On an input whose last bytes leave the index room to be looked at in 32 bits, the loop of the
  code is this fold; on one of 4 GB it has no result, since its index is never behind the end.
\<close>

lemma digest_loop_blocks:
  "length input + 63 < 2 ^ 32 \<Longrightarrow> unat i \<le> length input \<Longrightarrow>
    digest_loop st input i = (case digest_blocks st (drop (unat i) input) of
      (st', r) \<Rightarrow> Some (st', word_of_nat (length input - length r)))"
proof (induction "length input - unat i" arbitrary: st i rule: less_induct)
  case less
  have n63: "unat (i + 63) = unat i + 63" using less.prems by (simp add: unat_word_ariths)
  show ?case
  proof (cases "unat i + 64 \<le> length input")
    case True
    then have n64: "unat (i + 64) = unat i + 64" using less.prems by (simp add: unat_word_ariths)
    have "digest_loop st input i = digest_loop (MD5Transform st (take 64 (drop (unat i) input))) input (i + 64)"
      using True n63 by (subst digest_loop.simps) simp
    also have "\<dots> = (case digest_blocks (MD5Transform st (take 64 (drop (unat i) input))) (drop (unat i + 64) input) of
      (st', r) \<Rightarrow> Some (st', word_of_nat (length input - length r)))"
      using less.hyps [of "i + 64"] less.prems(1) True n64 by simp
    also have "digest_blocks (MD5Transform st (take 64 (drop (unat i) input))) (drop (unat i + 64) input)
        = digest_blocks st (drop (unat i) input)"
    proof -
      have "64 \<le> length (drop (unat i) input)" using True by simp
      then show ?thesis by (simp add: digest_blocks.simps [of st "drop (unat i) input"] add.commute)
    qed
    finally show ?thesis .
  next
    case False
    then have "digest_loop st input i = Some (st, i)"
      using n63 by (subst digest_loop.simps) simp
    then show ?thesis using False less.prems by (simp add: digest_blocks_short)
  qed
qed

lemma digest_loop_huge: "2 ^ 32 \<le> length input \<Longrightarrow> digest_loop st input i = None"
proof (rule ccontr)
  assume big: "2 ^ 32 \<le> length input" and "digest_loop st input i \<noteq> None"
  then obtain y where run: "digest_loop st input i = Some y" by blast
  have "\<not> 2 ^ 32 \<le> length input"
  proof (rule digest_loop.raw_induct [where P = "\<lambda>st input i y. \<not> 2 ^ 32 \<le> length input", OF _ run])
    fix f :: "u32 \<times> u32 \<times> u32 \<times> u32 \<Rightarrow> byte list \<Rightarrow> u32 \<Rightarrow> ((u32 \<times> u32 \<times> u32 \<times> u32) \<times> u32) option"
      and st input i y
    assume "\<And>st input i y. f st input i = Some y \<Longrightarrow> \<not> 2 ^ 32 \<le> length input"
      and "(if unat (i + 63) < length input
        then if unat i + 64 \<le> length input
             then f (MD5Transform st (take 64 (drop (unat i) input))) input (i + 64) else None
        else Some (st, i)) = Some y"
    then show "\<not> 2 ^ 32 \<le> length input"
      using unat_u32_bound [of "i + 63"] by (fastforce split: if_splits)
  qed
  then show False using big by simp
qed

text \<open>So an input of 4 GB or more is never digested.\<close>

lemma MD5_digest_huge:
  assumes "2 ^ 32 \<le> length input"
  shows "MD5_digest m input = None"
proof -
  have "64 - unat (drop_bit 3 (count0 m) AND 0x3F) \<le> length input" using assms by simp
  then show ?thesis by (simp add: MD5_digest_def Let_def digest_loop_huge [OF assms])
qed

section \<open>What a context holds\<close>

text \<open>What a context holds of the bytes fed to it so far.\<close>

definition md5_holds :: "md5 \<Rightarrow> byte list \<Rightarrow> bool" where
  "md5_holds m msg \<longleftrightarrow> length (md5_buffer m) = 64
     \<and> count0 m = word_of_nat (8 * length msg) \<and> count1 m = word_of_nat (8 * length msg div 2 ^ 32)
     \<and> digest_blocks md5_init msg = (md5_state m, take (length msg mod 64) (md5_buffer m))"

lemma md5_index:
  assumes "count0 m = word_of_nat (8 * n)"
  shows "unat (drop_bit 3 (count0 m) AND 0x3F) = n mod 64"
proof -
  have "(drop_bit 3 (count0 m) AND 0x3F) = take_bit 6 (drop_bit 3 (count0 m))"
    by (simp add: take_bit_eq_mask mask_eq_exp_minus_1)
  then have "unat (drop_bit 3 (count0 m) AND 0x3F) = unat (count0 m) div 8 mod 64"
    by (simp only: unsigned_take_bit_eq unsigned_drop_bit_eq)
      (simp add: take_bit_eq_mod drop_bit_eq_div unat_u32_bound [THEN mod_less])
  also have "unat (count0 m) = 8 * n mod (8 * 2 ^ 29)"
    unfolding assms by (simp add: unat_of_nat del: of_nat_mult)
  also have "\<dots> = 8 * (n mod 2 ^ 29)" by (rule mult_mod_right [symmetric])
  finally show ?thesis by (simp add: mod_mod_cancel)
qed

lemma md5_open_holds: "length (md5_buffer m) = 64 \<Longrightarrow> md5_holds (MD5_open m) []"
  by (simp add: md5_holds_def MD5_open_def digest_blocks_short)

lemma carry_sum:
  fixes w :: nat
  assumes "0 < w"
  shows "(if (a + b) mod w < b mod w then 1 else 0) + a div w + b div w = (a + b) div w"
proof -
  have m: "(a + b) mod w = (a mod w + b mod w) mod w" by (simp add: mod_add_eq)
  have lt: "a mod w < w" "b mod w < w" using assms by simp_all
  have "(a + b) div w = a div w + b div w + (a mod w + b mod w) div w" by (rule div_add1_eq)
  moreover have "(a mod w + b mod w) div w = (if (a + b) mod w < b mod w then 1 else 0)"
  proof (cases "a mod w + b mod w < w")
    case True
    then show ?thesis unfolding m by simp
  next
    case False
    moreover have "a mod w + b mod w - w < w" using lt by arith
    ultimately have "(a mod w + b mod w) mod w = a mod w + b mod w - w" "(a mod w + b mod w) div w = 1"
      using assms by (simp_all add: le_mod_geq le_div_geq)
    moreover have "a mod w + b mod w - w < b mod w" using lt False by arith
    ultimately show ?thesis unfolding m by simp
  qed
  ultimately show ?thesis by simp
qed

lemma md5_count:
  assumes "n < 2 ^ 32"
  shows "(let bits = push_bit 3 (word_of_nat n :: u32); c0 = word_of_nat (8 * k) + bits
    in (c0, (if c0 < bits then word_of_nat (8 * k div 2 ^ 32) + 1 else word_of_nat (8 * k div 2 ^ 32))
            + drop_bit 29 (word_of_nat n :: u32)))
    = (word_of_nat (8 * (k + n)) :: u32, word_of_nat (8 * (k + n) div 2 ^ 32) :: u32)"
proof -
  have bits: "push_bit 3 (word_of_nat n :: u32) = word_of_nat (8 * n)"
    by (simp add: push_bit_eq_mult)
  have hi: "drop_bit 29 (word_of_nat n :: u32) = word_of_nat (8 * n div 2 ^ 32)"
    by (rule unsigned_word_eqI [where ?'a = nat])
      (use assms in \<open>simp add: drop_bit_eq_div unat_div unat_of_nat del: of_nat_mult\<close>)
  have c0: "word_of_nat (8 * k) + word_of_nat (8 * n) = (word_of_nat (8 * k + 8 * n) :: u32)" by simp
  have lt: "(word_of_nat (8 * k + 8 * n) :: u32) < word_of_nat (8 * n)
      \<longleftrightarrow> (8 * k + 8 * n) mod 2 ^ 32 < 8 * n mod 2 ^ 32"
    by (simp add: word_less_nat_alt unat_of_nat del: of_nat_mult of_nat_add)
  have "word_of_nat (8 * (k + n) div 2 ^ 32) = (word_of_nat
      ((if (8 * k + 8 * n) mod 2 ^ 32 < 8 * n mod 2 ^ 32 then 1 else 0)
       + 8 * k div 2 ^ 32 + 8 * n div 2 ^ 32) :: u32)"
    using carry_sum [of "2 ^ 32" "8 * k" "8 * n"] by (simp only: distrib_left) simp
  then show ?thesis
    unfolding Let_def bits c0 hi lt by (simp add: distrib_left)
qed

lemma md5_digest_counts:
  assumes "MD5_digest m input = Some m'"
  shows "count0 m' = count0 m + push_bit 3 (word_of_nat (length input))"
    "count1 m' =
     (if count0 m + push_bit 3 (word_of_nat (length input)) < push_bit 3 (word_of_nat (length input))
      then count1 m + 1 else count1 m) + drop_bit 29 (word_of_nat (length input))"
  using assms unfolding MD5_digest_def Let_def
  by (auto simp del: One_nat_def split: if_splits prod.splits bind_splits)

lemma overwrite_buffer:
  assumes "k < 64" "length buf = 64" "64 - k \<le> length input" "length r < 64"
  shows "length (overwrite (overwrite buf k (take (64 - k) input)) 0 r) = 64
    \<and> take (length r) (overwrite (overwrite buf k (take (64 - k) input)) 0 r) = r"
  using assms by (auto simp: overwrite_def)

lemma MD5_digest_full:
  assumes "unat (drop_bit 3 (count0 m) AND 0x3F) = k" "k < 64" "64 - k \<le> length input" "length input + 63 < 2 ^ 32"
    "digest_blocks (MD5Transform (md5_state m) (overwrite (md5_buffer m) k (take (64 - k) input)))
       (drop (64 - k) input) = (st, r)"
  obtains m' where "MD5_digest m input = Some m'" "md5_state m' = st"
    "md5_buffer m' = overwrite (overwrite (md5_buffer m) k (take (64 - k) input)) 0 r"
proof -
  have i: "unat (word_of_nat (64 - k) :: u32) = 64 - k" by (simp add: unat_of_nat)
  have "length r = length (drop (64 - k) input) mod 64" by (rule digest_blocks_rest [OF assms(5)])
  moreover have "length (drop (64 - k) input) mod 64 \<le> length (drop (64 - k) input)" by (rule mod_less_eq_dividend)
  ultimately have r: "length r < 64" "length r \<le> length input - (64 - k)" by simp_all
  then have "64 - k + (length (drop (64 - k) input) - length r) = length input - length r" using assms(3) by simp
  then have "drop (length input - length r) input = r"
    using digest_blocks_suffix [OF assms(5)] by (simp add: add.commute)
  moreover have "unat (word_of_nat (length input - length r) :: u32) = length input - length r"
    using assms(4) by (simp add: unat_of_nat)
  moreover have "digest_loop (MD5Transform (md5_state m) (overwrite (md5_buffer m) k (take (64 - k) input)))
      input (word_of_nat (64 - k)) = Some (st, word_of_nat (length input - length r))"
    using digest_loop_blocks [OF assms(4), of "word_of_nat (64 - k)"] assms(3,5) unfolding i by simp
  ultimately have "\<exists>m'. MD5_digest m input = Some m' \<and> md5_state m' = st
    \<and> md5_buffer m' = overwrite (overwrite (md5_buffer m) k (take (64 - k) input)) 0 r"
    using assms(3) r by (simp add: MD5_digest_def Let_def assms(1) del: One_nat_def)
  then show thesis using that by blast
qed

lemma MD5_digest_part:
  assumes "unat (drop_bit 3 (count0 m) AND 0x3F) = k" "length input < 64 - k"
  obtains m' where "MD5_digest m input = Some m'" "md5_state m' = md5_state m"
    "md5_buffer m' = overwrite (md5_buffer m) k input"
proof -
  have "\<exists>m'. MD5_digest m input = Some m' \<and> md5_state m' = md5_state m
    \<and> md5_buffer m' = overwrite (md5_buffer m) k input"
    using assms(2) by (simp add: MD5_digest_def Let_def assms(1))
  then show thesis using that by blast
qed

lemma MD5_digest_holds:
  assumes "md5_holds m msg" "length input + 63 < 2 ^ 32"
  obtains m' where "MD5_digest m input = Some m'" "md5_holds m' (msg @ input)"
proof -
  let ?k = "length msg mod 64"
  let ?part = "take (64 - ?k) input"
  have len: "length (md5_buffer m) = 64" and idx: "unat (drop_bit 3 (count0 m) AND 0x3F) = ?k"
    and blk: "digest_blocks md5_init msg = (md5_state m, take ?k (md5_buffer m))"
    using assms(1) md5_index [of m "length msg"] by (simp_all add: md5_holds_def del: of_nat_mult)
  have cnt: "count0 m' = word_of_nat (8 * length (msg @ input))
    \<and> count1 m' = word_of_nat (8 * length (msg @ input) div 2 ^ 32)" if m': "MD5_digest m input = Some m'" for m'
  proof -
    have c: "count0 m = word_of_nat (8 * length msg)" "count1 m = word_of_nat (8 * length msg div 2 ^ 32)"
      using assms(1) by (simp_all only: md5_holds_def)
    have "length input < 2 ^ 32" using assms(2) by simp
    note n = md5_count [OF this, of "length msg", unfolded Let_def prod.inject, folded c]
    show ?thesis unfolding md5_digest_counts [OF m'] length_append by (rule n)
  qed
  have all: "digest_blocks md5_init (msg @ input)
      = digest_blocks (md5_state m) (take ?k (md5_buffer m) @ input)"
    unfolding digest_blocks_append [of md5_init msg input] blk by simp
  have rest: "digest_blocks md5_init (msg @ input) = (st, r) \<Longrightarrow> length r = length (msg @ input) mod 64"
    for st r by (rule digest_blocks_rest)
  have k: "?k < 64" by simp
  show thesis
  proof (cases "64 - ?k \<le> length input")
    case True
    let ?buf = "overwrite (md5_buffer m) ?k ?part"
    have buf: "?buf = take ?k (md5_buffer m) @ ?part" using True len k
      by (simp add: overwrite_inside)
    obtain st r where d: "digest_blocks (MD5Transform (md5_state m) ?buf) (drop (64 - ?k) input) = (st, r)"
      by fastforce
    have "take ?k (md5_buffer m) @ input = ?buf @ drop (64 - ?k) input"
      by (simp add: buf)
    then have e: "digest_blocks md5_init (msg @ input) = (st, r)"
      using d digest_blocks_long [of ?buf] True len by (simp add: all)
    then have r: "length r < 64" "length r = length (msg @ input) mod 64" using rest [of st r] by simp_all
    obtain m' where m': "MD5_digest m input = Some m'" "md5_state m' = st"
      "md5_buffer m' = overwrite ?buf 0 r"
      by (rule MD5_digest_full [OF idx k True assms(2) d])
    note b = overwrite_buffer [OF k len, of input r, OF True r(1)]
    have "md5_holds m' (msg @ input)"
      unfolding md5_holds_def m'(2,3) e r(2) [symmetric] using b cnt [OF m'(1)] by simp
    then show thesis using m'(1) that by blast
  next
    case False
    then have "length (take ?k (md5_buffer m) @ input) < 64" using len by simp
    then have e: "digest_blocks md5_init (msg @ input) = (md5_state m, take ?k (md5_buffer m) @ input)"
      by (simp add: all digest_blocks_short)
    have "length input < 64 - ?k" using False by simp
    then obtain m' where m': "MD5_digest m input = Some m'" "md5_state m' = md5_state m"
      "md5_buffer m' = overwrite (md5_buffer m) ?k input" by (rule MD5_digest_part [OF idx])
    have "md5_holds m' (msg @ input)" using cnt [OF m'(1)] m'(2,3) False len rest [OF e] e
      by (simp add: md5_holds_def overwrite_inside)
    then show thesis using m'(1) that by blast
  qed
qed

lemma word_of_nat_byte_mod: "(word_of_nat (v mod (256 * k)) :: byte) = word_of_nat v"
proof -
  have "v mod (256 * k) mod 256 = v mod 256" by (rule mod_mod_cancel) simp
  then show ?thesis by (simp add: word_unat_eq_iff unat_of_nat)
qed

lemma le_bytes_mod: "le_bytes n (v mod 256 ^ n) = le_bytes n v"
proof (induction n arbitrary: v)
  case (Suc n)
  have "v mod 256 ^ Suc n div 256 = v div 256 mod 256 ^ n"
    by (simp add: mod_mult2_eq)
  then show ?case using Suc [of "v div 256"] word_of_nat_byte_mod [of v "256 ^ n"] by simp
qed simp

lemma le32_word_of_nat: "le32 (word_of_nat v) = le_bytes 4 v"
  using le_bytes_mod [of 4 v] by (simp add: le32_def unat_of_nat)

lemma le32_pair: "le32 (word_of_nat v) @ le32 (word_of_nat (v div 2 ^ 32)) = le_bytes 8 v"
  using le_bytes_add [of 4 4 v] by (simp add: le32_word_of_nat)

lemma MD5_close_spec:
  assumes "md5_holds m msg"
  shows "MD5_close m = Some (md5_spec msg)"
proof -
  let ?k = "length msg mod 64"
  define pad where "pad = (if ?k < 56 then 56 - ?k else 120 - ?k)"
  have idx: "unat (drop_bit 3 (count0 m) AND 0x3F) = ?k"
    and cnt: "count0 m = word_of_nat (8 * length msg)"
      "count1 m = word_of_nat (8 * length msg div 2 ^ 32)"
    using assms md5_index [of m "length msg"] by (simp_all add: md5_holds_def del: of_nat_mult)
  have k: "?k < 64" by simp
  have padlen: "0 < pad" "pad \<le> 64" "pad - 1 = (119 - ?k) mod 64"
  proof -
    have z: "(119 - j) mod 64 = (if j < 56 then 55 - j else 119 - j)" if "j < 64" for j :: nat
    proof (cases "j < 56")
      case True
      then have "119 - j = 55 - j + 64" by simp
      then show ?thesis using True by (simp del: add_diff_assoc2)
    next
      case False
      then show ?thesis using that by (simp add: mod_less)
    qed
    have "pad - 1 = (if ?k < 56 then 55 - ?k else 119 - ?k)" by (simp add: pad_def)
    then show "pad - 1 = (119 - ?k) mod 64" using z [OF k] by simp
    have "0 < (if j < 56 then 56 - j else 120 - j) \<and> (if j < 56 then 56 - j else 120 - j) \<le> 64"
      if "j < 64" for j :: nat using that by auto
    from this [OF k] show "0 < pad" "pad \<le> 64" by (simp_all only: pad_def)
  qed
  have pad: "take pad PADDING = 0x80 # replicate ((119 - ?k) mod 64) 0"
    using padlen by (cases pad) (auto simp: PADDING_def)
  have bits: "le32 (count0 m) @ le32 (count1 m) = le_bytes 8 (8 * length msg)"
    unfolding cnt by (rule le32_pair)
  have full: "md5_pad msg = (msg @ take pad PADDING) @ le32 (count0 m) @ le32 (count1 m)"
    unfolding bits pad by (simp add: md5_pad_def)
  have "length (take pad PADDING) + 63 < 2 ^ 32" by (simp add: PADDING_def)
  then obtain m1 where m1: "MD5_digest m (take pad PADDING) = Some m1" "md5_holds m1 (msg @ take pad PADDING)"
    by (rule MD5_digest_holds [OF assms])
  have "length (le32 (count0 m) @ le32 (count1 m)) + 63 < 2 ^ 32" by simp
  then obtain m2 where m2: "MD5_digest m1 (le32 (count0 m) @ le32 (count1 m)) = Some m2" "md5_holds m2 (md5_pad msg)"
    unfolding full by (rule MD5_digest_holds [OF m1(2)])
  have "(length msg + pad + 8) mod 64 = 0"
  proof -
    have "?k + (pad + 8) = (if ?k < 56 then 64 else 128)" using k by (simp add: pad_def)
    then have "(?k + (pad + 8)) mod 64 = 0" by simp
    then show ?thesis by (simp only: mod_add_left_eq add.assoc)
  qed
  moreover have "length (md5_pad msg) = length msg + pad + 8"
    using padlen by (simp add: md5_pad_def)
  ultimately have "length (md5_pad msg) = 64 * (length (md5_pad msg) div 64)"
    by (simp add: mod_eq_0_iff_dvd)
  from digest_blocks_chunks [OF this] m2(2)
  have "md5_state m2 = foldl rfc_block rfc_start (chunks 64 (length (md5_pad msg) div 64) (md5_pad msg))"
    by (simp add: md5_holds_def MD5Transform_rfc md5_init_rfc)
  then show ?thesis
    unfolding MD5_close_def md5_spec_def md5_out_def Let_def idx pad_def [symmetric] using m1(1) m2(1)
    by (simp split: prod.split)
qed

text \<open>Feeding parts one after the other.\<close>

fun digest_parts :: "md5 \<Rightarrow> byte list list \<Rightarrow> md5 option" where
  "digest_parts m [] = Some m"
| "digest_parts m (p # ps) = do { m' \<leftarrow> MD5_digest m p; digest_parts m' ps }"

lemma digest_parts_holds:
  assumes "md5_holds m msg" "\<forall>p \<in> set parts. length p + 63 < 2 ^ 32"
  obtains m' where "digest_parts m parts = Some m'" "md5_holds m' (msg @ concat parts)"
proof -
  have "\<exists>m'. digest_parts m parts = Some m' \<and> md5_holds m' (msg @ concat parts)"
    using assms
  proof (induction parts arbitrary: m msg)
    case (Cons p parts)
    have "length p + 63 < 2 ^ 32" using Cons.prems(2) by simp
    then obtain m1 where m1: "MD5_digest m p = Some m1" "md5_holds m1 (msg @ p)"
      by (rule MD5_digest_holds [OF Cons.prems(1)])
    then show ?case using Cons.IH [OF m1(2)] Cons.prems(2) by simp
  qed simp
  then show thesis using that by blast
qed

text \<open>
  C24: Fed in any number of calls, each of at most 2^32 - 64 bytes, the incremental digest returns,
  and returns what RFC 1321 defines as the digest of the whole message, whatever the cut of the
  message into parts and the content the buffer starts with.
\<close>

theorem MD5_incremental:
  assumes "length (md5_buffer ctx) = 64" "\<forall>p \<in> set parts. length p \<le> 2 ^ 32 - 64"
  shows "do { m \<leftarrow> digest_parts (MD5_open ctx) parts; MD5_close m } = Some (md5_spec (concat parts))"
proof -
  have "\<forall>p \<in> set parts. length p + 63 < 2 ^ 32" using assms(2) by auto
  then obtain m where "digest_parts (MD5_open ctx) parts = Some m" "md5_holds m ([] @ concat parts)"
    by (rule digest_parts_holds [OF md5_open_holds [OF assms(1)]])
  then show ?thesis using MD5_close_spec by simp
qed

theorem MD5_incremental_witness:
  "do { m \<leftarrow> digest_parts (MD5_open \<lparr>md5_state = (0, 0, 0, 0), count0 = 5, count1 = 6,
        md5_buffer = replicate 64 7\<rparr>) [cs ''message'', [], cs '' digest'']; MD5_close m }
    = Some (md5_spec (cs ''message digest''))"
proof -
  have "length (md5_buffer \<lparr>md5_state = (0, 0, 0, 0), count0 = 5, count1 = 6, md5_buffer = replicate 64 7\<rparr>) = 64"
    by (simp only: md5.simps length_replicate)
  from MD5_incremental [OF this, of "[cs ''message'', [], cs '' digest'']"] show ?thesis
    by (simp add: cs_def)
qed

lemma MD5_calc_spec:
  assumes "length (md5_buffer ctx) = 64" "length msg + 63 < 2 ^ 32"
  shows "MD5_calc ctx msg = Some (md5_spec msg)"
proof -
  obtain m where "MD5_digest (MD5_open ctx) msg = Some m" "md5_holds m ([] @ msg)"
    by (rule MD5_digest_holds [OF md5_open_holds [OF assms(1)] assms(2)])
  then show ?thesis using MD5_close_spec by (simp add: MD5_calc_def)
qed

lemma MD5_close_length:
  assumes "MD5_close m = Some d"
  shows "length d = 16"
proof -
  obtain m2 :: md5 where "(case md5_state m2 of (a, b, c, e) \<Rightarrow> Some (le32 a @ le32 b @ le32 c @ le32 e)) = Some d"
    using assms by (auto simp only: MD5_close_def Let_def bind_eq_Some_conv)
  then show ?thesis by (cases "md5_state m2") auto
qed

lemma MD5_calc_length: "MD5_calc ctx msg = Some d \<Longrightarrow> length d = 16"
  by (auto simp: MD5_calc_def bind_eq_Some_conv dest: MD5_close_length)

end
