(* ===== verification/SmbHash.thy ===== *)
theory SmbHash
  imports SmbIndex Crc Md5
begin

text \<open>
  Message fingerprints (smblib/smbhash.c): the records of the hash file (.hash), their
  computation from a message's ids, body and subject, the search for a matching record, and
  the duplicate check that runs when a message is added. The CRC-16s of names and subjects
  that go into the index are here too.

  The NULL-terminated arrays of record pointers are lists; their MARKED flags, which the
  search sets, are returned. Shifting 1 by a source of 32 or more, which C leaves undefined,
  gives no bits here.
\<close>

section \<open>Hash records\<close>

record hash =
  h_number :: u32
  h_time :: u32
  h_length :: u32
  h_source :: byte
  h_flags :: byte
  h_crc16 :: u16
  h_crc32 :: u32
  h_md5 :: "byte list"
  h_reserved :: "byte list"

definition wf_hash :: "hash \<Rightarrow> bool" where
  "wf_hash h \<longleftrightarrow> length (h_md5 h) = 16 \<and> length (h_reserved h) = 28"

definition enc_hash :: "hash \<Rightarrow> byte list" where
  "enc_hash h = le32 (h_number h) @ le32 (h_time h) @ le32 (h_length h) @ [h_source h, h_flags h]
     @ le16 (h_crc16 h) @ le32 (h_crc32 h) @ h_md5 h @ h_reserved h"

definition dec_hash :: "byte list \<Rightarrow> hash" where
  "dec_hash bs = \<lparr>h_number = un_le32 (fld 0 4 bs), h_time = un_le32 (fld 4 4 bs),
     h_length = un_le32 (fld 8 4 bs), h_source = hd (fld 12 1 bs), h_flags = hd (fld 13 1 bs),
     h_crc16 = un_le16 (fld 14 2 bs), h_crc32 = un_le32 (fld 16 4 bs), h_md5 = fld 20 16 bs,
     h_reserved = fld 36 28 bs\<rparr>"

definition zero_hash :: hash where
  "zero_hash = \<lparr>h_number = 0, h_time = 0, h_length = 0, h_source = 0, h_flags = 0, h_crc16 = 0,
     h_crc32 = 0, h_md5 = replicate 16 0, h_reserved = replicate 28 0\<rparr>"

definition SMB_HASH_CRC16 :: byte where "SMB_HASH_CRC16 = 1"
definition SMB_HASH_CRC32 :: byte where "SMB_HASH_CRC32 = 2"
definition SMB_HASH_MD5 :: byte where "SMB_HASH_MD5 = 4"
definition SMB_HASH_MASK :: byte where "SMB_HASH_MASK = 7"
definition SMB_HASH_MARKED :: byte where "SMB_HASH_MARKED = 16"
definition SMB_HASH_STRIP_CTRL_A :: byte where "SMB_HASH_STRIP_CTRL_A = 32"
definition SMB_HASH_STRIP_WSP :: byte where "SMB_HASH_STRIP_WSP = 64"
definition SMB_HASH_LOWERCASE :: byte where "SMB_HASH_LOWERCASE = 128"
definition SMB_HASH_PROC_MASK :: byte where "SMB_HASH_PROC_MASK = 0xe0"
definition SMB_HASH_PROC_COMP_MASK :: byte where "SMB_HASH_PROC_COMP_MASK = 0xc0"

lemmas hash_flags = SMB_HASH_CRC16_def SMB_HASH_CRC32_def SMB_HASH_MD5_def SMB_HASH_MASK_def
  SMB_HASH_MARKED_def SMB_HASH_STRIP_CTRL_A_def SMB_HASH_STRIP_WSP_def SMB_HASH_LOWERCASE_def
  SMB_HASH_PROC_MASK_def SMB_HASH_PROC_COMP_MASK_def

abbreviation (input) "HASH_SOURCE_BODY \<equiv> 0 :: byte"
abbreviation (input) "HASH_SOURCE_MSG_ID \<equiv> 1 :: byte"
abbreviation (input) "HASH_SOURCE_FTN_ID \<equiv> 2 :: byte"
abbreviation (input) "HASH_SOURCE_SUBJECT \<equiv> 3 :: byte"

definition SMB_HASH_SOURCE_DUPE :: ulong where "SMB_HASH_SOURCE_DUPE = 7"

text \<open>The signed value \<open>1 << source\<close>, widened to a long.\<close>

definition source_bit :: "byte \<Rightarrow> ulong" where
  "source_bit s = (if s < 32 then scast (push_bit (unat s) 1 :: u32) else 0)"

section \<open>Searching and adding\<close>

definition hash_matches :: "hash \<Rightarrow> hash \<Rightarrow> bool" where
  "hash_matches h c \<longleftrightarrow>
     h_source c = h_source h \<and> h_length c = h_length h
     \<and> h_flags c AND SMB_HASH_MARKED = 0
     \<and> h_flags c AND SMB_HASH_PROC_COMP_MASK = h_flags h AND SMB_HASH_PROC_COMP_MASK
     \<and> h_flags c AND h_flags h AND SMB_HASH_MASK \<noteq> 0
     \<and> \<not> (h_flags c AND h_flags h AND SMB_HASH_CRC16 \<noteq> 0 \<and> h_crc16 c \<noteq> h_crc16 h)
     \<and> \<not> (h_flags c AND h_flags h AND SMB_HASH_CRC32 \<noteq> 0 \<and> h_crc32 c \<noteq> h_crc32 h)
     \<and> \<not> (h_flags c AND h_flags h AND SMB_HASH_MD5 \<noteq> 0 \<and> h_md5 c \<noteq> h_md5 h)"

text \<open>The scan of the file: the record found last, and the compared hashes with their marks.\<close>

fun findhash_scan ::
  "ulong \<Rightarrow> bool \<Rightarrow> hash list \<Rightarrow> hash option \<Rightarrow> hash list \<Rightarrow> hash option \<times> hash list" where
  "findhash_scan smask mark compare found [] = (found, compare)"
| "findhash_scan smask mark compare found (h # hs) =
     (if h_flags h = 0 \<or> smask AND source_bit (h_source h) = 0
      then findhash_scan smask mark compare found hs
      else case find (\<lambda>c. hash_matches h (compare ! c)) [0..<length compare] of
          None \<Rightarrow> findhash_scan smask mark compare found hs
        | Some c \<Rightarrow>
            if \<not> mark then (Some h, compare)
            else findhash_scan smask mark
              (compare[c := (compare ! c)\<lparr>h_flags := h_flags (compare ! c) OR SMB_HASH_MARKED\<rparr>])
              (Some h) hs)"

definition hash_table :: "smb \<Rightarrow> hash list" where
  "hash_table smb = unpack 64 dec_hash (disk smb HASH)"

definition smb_findhash ::
  "smb \<Rightarrow> hash list \<Rightarrow> ulong \<Rightarrow> bool \<Rightarrow> int \<times> smb \<times> hash list \<times> hash" where
  "smb_findhash smb compare smask mark =
     (case smb_open_fp smb HASH of (r, smb1) \<Rightarrow>
        if r \<noteq> SMB_SUCCESS then (r, smb1, compare, zero_hash)
        else if compare = [] \<or> smask = 0 then (SMB_ERR_NOT_FOUND, smb1, compare, zero_hash)
        else case findhash_scan smask mark compare None (hash_table smb1) of
          (Some h, compare') \<Rightarrow> (SMB_SUCCESS, smb_close_fp smb1 HASH, compare', h)
        | (None, compare') \<Rightarrow> (SMB_ERR_NOT_FOUND, fseek_end smb1 HASH, compare', zero_hash))"

fun addhashes_loop :: "bool \<Rightarrow> hash list \<Rightarrow> smb \<Rightarrow> int \<times> smb" where
  "addhashes_loop skip_marked [] smb = (SMB_SUCCESS, smb)"
| "addhashes_loop skip_marked (h # hs) smb =
     (if skip_marked \<and> h_flags h AND SMB_HASH_MARKED \<noteq> 0 then addhashes_loop skip_marked hs smb
      else case fwrite smb HASH (enc_hash h) of
        (True, smb') \<Rightarrow> addhashes_loop skip_marked hs smb'
      | (False, smb') \<Rightarrow> (SMB_ERR_WRITE, smb'))"

definition smb_addhashes :: "smb \<Rightarrow> hash list \<Rightarrow> bool \<Rightarrow> int \<times> smb" where
  "smb_addhashes smb hashes skip_marked =
     (if hashes = [] then (SMB_SUCCESS, smb)
      else case smb_open_fp smb HASH of (r, smb1) \<Rightarrow>
        if r \<noteq> SMB_SUCCESS then (r, smb1)
        else case addhashes_loop skip_marked hashes (fseek_end smb1 HASH) of
          (retval, smb2) \<Rightarrow> (retval, smb_close_fp smb2 HASH))"

section \<open>Computing the hashes of a message\<close>

definition strip_chars :: "byte list \<Rightarrow> byte list \<Rightarrow> byte list" where
  "strip_chars src chars = filter (\<lambda>c. c \<notin> set chars) src"

fun strip_ctrla :: "byte list \<Rightarrow> byte list" where
  "strip_ctrla [] = []"
| "strip_ctrla [c] = (if c = 1 then [] else [c])"
| "strip_ctrla (c # d # rest) = (if c = 1 then strip_ctrla rest else c # strip_ctrla (d # rest))"

definition strlwr :: "byte list \<Rightarrow> byte list" where
  "strlwr s = map tolower_c s"

text \<open>The digest context is a local variable the code does not initialise.\<close>

definition md5_ctx :: md5 where
  "md5_ctx = \<lparr>md5_state = (0, 0, 0, 0), count0 = 0, count1 = 0, md5_buffer = replicate 64 0\<rparr>"

text \<open>
  The digest of a text. \<open>MD5_calc\<close> has a result for every text of at most 2^32 - 64 bytes, and only
  such texts are hashed: the ids and the subject of a message are at most 65535 bytes each.
  Behind that bound, where the code does not return, this is a list of zeros.
\<close>

definition md5_sum :: "byte list \<Rightarrow> byte list" where
  "md5_sum data = (case MD5_calc md5_ctx data of Some digest \<Rightarrow> digest | None \<Rightarrow> replicate 16 0)"

definition smb_hash :: "u32 \<Rightarrow> u32 \<Rightarrow> byte \<Rightarrow> byte \<Rightarrow> byte list \<Rightarrow> nat \<Rightarrow> hash option" where
  "smb_hash msgnum t source flags data len =
     (if len = 0 then None
      else Some (zero_hash\<lparr>h_number := msgnum, h_time := t, h_length := word_of_nat len,
        h_source := source, h_flags := flags,
        h_crc16 := (if flags AND SMB_HASH_CRC16 \<noteq> 0 then crc16 data len else 0),
        h_crc32 := (if flags AND SMB_HASH_CRC32 \<noteq> 0 then crc32 data len else 0),
        h_md5 := (if flags AND SMB_HASH_MD5 \<noteq> 0 then md5_sum (take len data)
                  else replicate 16 0)\<rparr>))"

definition hash_preprocess :: "byte \<Rightarrow> byte list \<Rightarrow> byte list" where
  "hash_preprocess flags str =
     (let p1 = (if flags AND SMB_HASH_STRIP_CTRL_A \<noteq> 0 then strip_ctrla str else str);
          p2 = (if flags AND SMB_HASH_STRIP_WSP \<noteq> 0 then strip_chars p1 [0x20, 0x09, 0x0D, 0x0A] else p1)
      in if flags AND SMB_HASH_LOWERCASE \<noteq> 0 then strlwr p2 else p2)"

definition smb_hashstr :: "u32 \<Rightarrow> u32 \<Rightarrow> byte \<Rightarrow> byte \<Rightarrow> byte list \<Rightarrow> hash option" where
  "smb_hashstr msgnum t source flags str =
     (let p = (if flags AND SMB_HASH_PROC_MASK \<noteq> 0 then hash_preprocess flags (cstr str) else cstr str)
      in smb_hash msgnum t source flags p (length p))"

text \<open>A subject is hashed without its leading words that end in a colon.\<close>

function skip_re :: "byte list \<Rightarrow> byte list" where
  "skip_re p =
     (let word = takeWhile (\<lambda>c. c \<noteq> 0x3A) p
      in if 0x3A \<in> set p \<and> 0x20 \<notin> set word
         then skip_re (dropWhile isspace_c (drop (Suc (length word)) p)) else p)"
  by pat_completeness auto
termination
proof (relation "measure length")
  fix p word :: "byte list"
  assume "word = takeWhile (\<lambda>c. c \<noteq> 0x3A) p" "0x3A \<in> set p \<and> 0x20 \<notin> set word"
  then have "p \<noteq> []" by auto
  have "length (dropWhile isspace_c (drop (Suc (length word)) p)) \<le> length (drop (Suc (length word)) p)"
    by (rule length_dropWhile_le)
  also have "\<dots> < length p" using \<open>p \<noteq> []\<close> by (cases p) auto
  finally show "(dropWhile isspace_c (drop (Suc (length word)) p), p) \<in> measure length" by simp
qed simp

declare skip_re.simps [simp del]

definition hash_field ::
  "u32 \<Rightarrow> u32 \<Rightarrow> ulong \<Rightarrow> byte \<Rightarrow> byte \<Rightarrow> byte list option \<Rightarrow> hash list" where
  "hash_field number now smask source flags str =
     (case str of None \<Rightarrow> []
      | Some s \<Rightarrow>
          if smask AND source_bit source = 0 then []
          else case smb_hashstr number now source flags s of None \<Rightarrow> [] | Some h \<Rightarrow> [h])"

definition smb_msghashes :: "u32 \<Rightarrow> smbmsg \<Rightarrow> byte list option \<Rightarrow> ulong \<Rightarrow> hash list" where
  "smb_msghashes now msg body smask =
     (let flags = SMB_HASH_CRC16 OR SMB_HASH_CRC32 OR SMB_HASH_MD5;
          field = hash_field (hdr_number (hdr msg)) now smask
      in field HASH_SOURCE_MSG_ID flags (m_id msg)
         @ field HASH_SOURCE_FTN_ID flags (ftn_msgid msg)
         @ field HASH_SOURCE_BODY (flags OR SMB_HASH_STRIP_WSP OR SMB_HASH_STRIP_CTRL_A) body
         @ field HASH_SOURCE_SUBJECT flags (map_option (\<lambda>s. skip_re (cstr s)) (subj msg)))"

definition smb_hashmsg :: "smb \<Rightarrow> smbmsg \<Rightarrow> byte list option \<Rightarrow> bool \<Rightarrow> int \<times> smb \<times> smbmsg" where
  "smb_hashmsg smb msg text update =
     (if st_attr (status smb) AND (SMB_EMAIL OR SMB_NOHASH) \<noteq> 0 then (SMB_SUCCESS, smb, msg)
      else let hashes = smb_msghashes (clock (env smb)) msg text SMB_HASH_SOURCE_DUPE in
        case smb_findhash smb hashes SMB_HASH_SOURCE_DUPE update of (r, smb1, hashes', found) \<Rightarrow>
          if r = SMB_SUCCESS \<and> \<not> update then (SMB_DUPE_MSG, smb1, msg)
          else case smb_addhashes smb1 hashes' True of (retval, smb2) \<Rightarrow>
            (retval, smb2, if retval = SMB_SUCCESS then msg\<lparr>m_hashed := True\<rparr> else msg))"

definition smb_getmsgidx_by_hash ::
  "smb \<Rightarrow> smbmsg \<Rightarrow> byte \<Rightarrow> byte \<Rightarrow> byte list \<Rightarrow> nat \<Rightarrow> (int \<times> smb \<times> smbmsg) option" where
  "smb_getmsgidx_by_hash smb msg source flags data len =
     (case (if len = 0 then smb_hashstr 0 0 source flags data else smb_hash 0 0 source flags data len) of
        None \<Rightarrow> Some (SMB_ERR_MEM, smb, msg)
      | Some h \<Rightarrow>
          case smb_findhash smb [h] (source_bit source) False of (r, smb1, _, found) \<Rightarrow>
            if r \<noteq> SMB_SUCCESS then Some (r, smb1, msg)
            else if h_number found = 0 then Some (SMB_FAILURE, smb1, msg)
            else smb_getmsgidx smb1 (msg\<lparr>hdr := (hdr msg)\<lparr>hdr_number := h_number found\<rparr>\<rparr>))"

section \<open>Checksums of names and subjects\<close>

function skip_reply :: "byte list \<Rightarrow> byte list" where
  "skip_reply s =
     (if strlwr (take 3 s) = cs ''re:'' then skip_reply (dropWhile (\<lambda>c. c = 0x20) (drop 3 s)) else s)"
  by pat_completeness auto
termination
proof (relation "measure length")
  fix s :: "byte list"
  assume "strlwr (take 3 s) = cs ''re:''"
  then have "length (take 3 s) = 3" by (metis cs_def length_map strlwr_def list.size(3,4) One_nat_def add_Suc_right add_0_right numeral_3_eq_3)
  then have "length (drop 3 s) < length s" by simp
  then show "(dropWhile (\<lambda>c. c = 0x20) (drop 3 s), s) \<in> measure length"
    using length_dropWhile_le [of "\<lambda>c. c = 0x20" "drop 3 s"] by simp
qed simp

declare skip_reply.simps [simp del]

definition smb_subject_crc :: "byte list option \<Rightarrow> u16" where
  "smb_subject_crc subject =
     (case subject of None \<Rightarrow> 0 | Some s \<Rightarrow> crc16 (strlwr (skip_reply (cstr s))) 0)"

definition smb_name_crc :: "byte list option \<Rightarrow> u16" where
  "smb_name_crc name = (case name of None \<Rightarrow> 0 | Some s \<Rightarrow> crc16 (strlwr (cstr s)) 0)"

section \<open>Lemmas\<close>

lemma length_enc_hash [simp]: "wf_hash h \<Longrightarrow> length (enc_hash h) = 64"
  by (simp add: wf_hash_def enc_hash_def)

lemma fld_one: "k < length bs \<Longrightarrow> [hd (fld k 1 bs)] = fld k 1 bs"
  by (simp add: fld_def hd_drop_conv_nth take_Suc_conv_app_nth)

interpretation hash_codec: wf_codec enc_hash dec_hash 64 wf_hash
proof
  show "wf_hash h \<Longrightarrow> dec_hash (enc_hash h) = h" for h
    by (simp add: wf_hash_def enc_hash_def dec_hash_def) (simp add: fld_def)
  show "length bs = 64 \<Longrightarrow> enc_hash (dec_hash bs) = bs" for bs
  proof -
    assume l: "length bs = 64"
    have "[hd (fld 12 1 bs), hd (fld 13 1 bs)] = fld 12 2 bs"
      using fld_one [of 12 bs] fld_one [of 13 bs] fld_join [of 13 12 1 bs 1] l
      by (cases "fld 12 1 bs"; cases "fld 13 1 bs") (auto simp: numeral_2_eq_2)
    then show ?thesis using l by (simp add: enc_hash_def dec_hash_def fld_join fld_join_more)
  qed
qed (simp_all add: dec_hash_def wf_hash_def)

section \<open>The search\<close>

definition hash_hit :: "ulong \<Rightarrow> hash list \<Rightarrow> hash \<Rightarrow> bool" where
  "hash_hit smask compare h \<longleftrightarrow> h_flags h \<noteq> 0 \<and> smask AND source_bit (h_source h) \<noteq> 0
     \<and> list_ex (hash_matches h) compare"

lemma find_index_None:
  "find (\<lambda>i. P (xs ! i)) [0..<length xs] = None \<longleftrightarrow> \<not> list_ex P xs"
  unfolding find_None_iff list_ex_iff by (simp, metis in_set_conv_nth)

lemma findhash_scan_nomark:
  "findhash_scan smask False compare None hs = (find (hash_hit smask compare) hs, compare)"
proof (induction hs)
  case (Cons h hs)
  show ?case
  proof (cases "find (\<lambda>c. hash_matches h (compare ! c)) [0..<length compare]")
    case None
    then have "\<not> hash_hit smask compare h"
      using find_index_None [of "hash_matches h" compare] by (simp add: hash_hit_def)
    then show ?thesis using None Cons by simp
  next
    case (Some c)
    then have "list_ex (hash_matches h) compare"
      using find_index_None [of "hash_matches h" compare] by auto
    then show ?thesis using Some Cons by (auto simp: hash_hit_def)
  qed
qed simp

definition can_open :: "smb \<Rightarrow> ext \<Rightarrow> bool" where
  "can_open smb x \<longleftrightarrow> is_open smb x \<or> open_loop (open_tries (env smb) x) = SMB_SUCCESS"

lemma can_open_fp:
  assumes "can_open smb x"
  obtains smb1 where "smb_open_fp smb x = (SMB_SUCCESS, smb1)" "is_open smb1 x"
    "disk smb1 = disk smb" "env smb1 = env smb" "status smb1 = status smb"
    "\<And>y. y \<noteq> x \<Longrightarrow> is_open smb1 y = is_open smb y"
proof (cases "is_open smb x")
  case True
  then show ?thesis by (intro that [of smb]) (simp_all add: smb_open_fp_def)
next
  case False
  then show ?thesis using assms
    by (intro that [of "fseek smb x 0"]) (simp_all add: can_open_def smb_open_fp_def stream_simps)
qed

lemma smb_findhash_run:
  assumes "can_open smb HASH"
  shows "\<exists>smb'. smb_findhash smb compare smask False =
      (case find (hash_hit smask compare) (hash_table smb) of
        Some h \<Rightarrow> (SMB_SUCCESS, smb', compare, h)
      | None \<Rightarrow> (SMB_ERR_NOT_FOUND, smb', compare, zero_hash))
    \<and> disk smb' = disk smb \<and> env smb' = env smb \<and> status smb' = status smb
    \<and> (is_open smb' HASH \<longleftrightarrow> find (hash_hit smask compare) (hash_table smb) = None)"
proof -
  obtain smb1 where o: "smb_open_fp smb HASH = (SMB_SUCCESS, smb1)" "is_open smb1 HASH"
    "disk smb1 = disk smb" "env smb1 = env smb" "status smb1 = status smb"
    using can_open_fp [OF assms] by metis
  have t: "hash_table smb1 = hash_table smb" by (simp add: hash_table_def o)
  show ?thesis
  proof (cases "compare = [] \<or> smask = 0")
    case True
    then have "find (hash_hit smask compare) hs = None" for hs
      by (auto simp: hash_hit_def find_None_iff)
    then show ?thesis using True o by (simp add: smb_findhash_def)
  next
    case False
    then show ?thesis
      by (cases "find (hash_hit smask compare) (hash_table smb)")
        (simp_all add: smb_findhash_def o t findhash_scan_nomark stream_simps)
  qed
qed

text \<open>
  C21: Without marking, \<open>smb_findhash\<close> returns the first record of the hash file that is valid, of
  a wanted source, and agrees with one of the given hashes in source, length, pre-processing
  and every checksum both have, of which there is at least one; without such a record it
  returns \<open>SMB_ERR_NOT_FOUND\<close> and leaves the file open for \<open>smb_addhashes\<close>.
\<close>

theorem smb_findhash_correct:
  assumes "can_open smb HASH"
  shows "\<exists>smb'. smb_findhash smb compare smask False =
      (case find (hash_hit smask compare) (hash_table smb) of
        Some h \<Rightarrow> (SMB_SUCCESS, smb', compare, h)
      | None \<Rightarrow> (SMB_ERR_NOT_FOUND, smb', compare, zero_hash))
    \<and> disk smb' = disk smb
    \<and> (is_open smb' HASH \<longleftrightarrow> find (hash_hit smask compare) (hash_table smb) = None)"
  using smb_findhash_run [OF assms, of compare smask] by metis

section \<open>Adding\<close>

definition unmarked :: "bool \<Rightarrow> hash \<Rightarrow> bool" where
  "unmarked skip_marked h \<longleftrightarrow> \<not> (skip_marked \<and> h_flags h AND SMB_HASH_MARKED \<noteq> 0)"

lemma addhashes_loop_ok:
  assumes "addhashes_loop skip hs smb = (SMB_SUCCESS, smb')"
    "ftell smb HASH = length (disk smb HASH)"
  shows "disk smb' HASH = disk smb HASH @ concat (map enc_hash (filter (unmarked skip) hs))
    \<and> env smb' = env smb \<and> status smb' = status smb"
  using assms
proof (induction hs arbitrary: smb)
  case (Cons h hs)
  show ?case
  proof (cases "unmarked skip h")
    case False
    then have "addhashes_loop skip hs smb = (SMB_SUCCESS, smb')"
      using Cons.prems(1) by (simp add: unmarked_def)
    from Cons.IH [OF this Cons.prems(2)] show ?thesis using False by simp
  next
    case True
    then obtain smb1 where w: "fwrite smb HASH (enc_hash h) = (True, smb1)"
      and l: "addhashes_loop skip hs smb1 = (SMB_SUCCESS, smb')"
      using Cons.prems(1) by (auto simp: unmarked_def smb_codes split: prod.splits bool.splits)
    note e = fwrite_okE [OF w]
    have "ftell smb1 HASH = length (disk smb1 HASH)" using Cons.prems(2) by (simp add: e overwrite_end)
    from Cons.IH [OF l this] show ?thesis
      using True Cons.prems(2) by (simp add: e overwrite_end)
  qed
qed simp

lemma smb_addhashes_ok:
  assumes "can_open smb HASH" "length (disk smb HASH) = 64 * n" "list_all wf_hash hs"
    "smb_addhashes smb hs skip = (SMB_SUCCESS, smb')"
  shows "hash_table smb' = hash_table smb @ filter (unmarked skip) hs
    \<and> env smb' = env smb \<and> status smb' = status smb \<and> 64 dvd length (disk smb' HASH)"
proof (cases "hs = []")
  case False
  obtain smb1 where o: "smb_open_fp smb HASH = (SMB_SUCCESS, smb1)"
    "disk smb1 = disk smb" "env smb1 = env smb" "status smb1 = status smb"
    using can_open_fp [OF assms(1)] by metis
  obtain smb2 where l: "addhashes_loop skip hs (fseek_end smb1 HASH) = (SMB_SUCCESS, smb2)"
    "smb' = smb_close_fp smb2 HASH"
    using assms(4) False o by (auto simp: smb_addhashes_def split: prod.splits)
  have d: "disk smb' HASH = disk smb HASH @ concat (map enc_hash (filter (unmarked skip) hs))"
    "env smb' = env smb" "status smb' = status smb"
    using addhashes_loop_ok [OF l(1)] o l(2) by (simp_all add: stream_simps)
  have "\<forall>h \<in> set (filter (unmarked skip) hs). wf_hash h" using assms(3) by (auto simp: list_all_iff)
  from hash_codec.wf_unpack_append [OF assms(2) this] this show ?thesis
    using d assms(2) by (simp add: hash_table_def hash_codec.length_wf_records)
qed (use assms in \<open>simp add: smb_addhashes_def\<close>)

section \<open>Duplicates\<close>

lemma length_md5_sum [simp]: "length (md5_sum data) = 16"
  by (simp add: md5_sum_def MD5_calc_length split: option.split)

lemma md5_sum_spec: "length data + 63 < 2 ^ 32 \<Longrightarrow> md5_sum data = md5_spec data"
  by (simp add: md5_sum_def MD5_calc_spec md5_ctx_def)

lemma smb_hash_wf: "smb_hash n t s f d l = Some h \<Longrightarrow> wf_hash h"
  by (auto simp: smb_hash_def wf_hash_def zero_hash_def split: if_splits)

lemma smb_hashstr_wf: "smb_hashstr n t s f str = Some h \<Longrightarrow> wf_hash h"
  by (auto simp: smb_hashstr_def Let_def dest: smb_hash_wf)

text \<open>The text a string is reduced to before it is hashed.\<close>

definition hash_text :: "byte \<Rightarrow> byte list \<Rightarrow> byte list" where
  "hash_text flags str = (if flags AND SMB_HASH_PROC_MASK \<noteq> 0 then hash_preprocess flags (cstr str) else cstr str)"

lemma smb_hashstr_eq:
  "smb_hashstr n t s f str = smb_hash n t s f (hash_text f str) (length (hash_text f str))"
  by (simp add: smb_hashstr_def hash_text_def Let_def)

lemma smb_hashstr_matches:
  assumes "hash_text f x = hash_text f y" "hash_text f x \<noteq> []"
    and "f AND SMB_HASH_MARKED = 0" "f AND SMB_HASH_MASK \<noteq> 0"
  shows "\<exists>h c. smb_hashstr n t s f x = Some h \<and> smb_hashstr n' t' s f y = Some c
    \<and> hash_matches h c \<and> h_source h = s \<and> h_flags h = f \<and> unmarked skip h"
  using assms by (auto simp: smb_hashstr_eq smb_hash_def hash_matches_def unmarked_def)

text \<open>Two messages share an id, a FidoNet id, or a body up to white space and Ctrl-A codes.\<close>

definition same_source :: "smbmsg \<Rightarrow> byte list option \<Rightarrow> smbmsg \<Rightarrow> byte list option \<Rightarrow> bool" where
  "same_source m1 t1 m2 t2 \<longleftrightarrow>
     (\<exists>s f x y. hash_text f x = hash_text f y \<and> hash_text f x \<noteq> []
       \<and> (s = HASH_SOURCE_MSG_ID \<and> f = 7 \<and> m_id m1 = Some x \<and> m_id m2 = Some y
          \<or> s = HASH_SOURCE_FTN_ID \<and> f = 7 \<and> ftn_msgid m1 = Some x \<and> ftn_msgid m2 = Some y
          \<or> s = HASH_SOURCE_BODY \<and> f = 0x67 \<and> t1 = Some x \<and> t2 = Some y))"

lemma msghashes_flags: "SMB_HASH_CRC16 OR SMB_HASH_CRC32 OR SMB_HASH_MD5 = 7"
  "(7 :: byte) OR SMB_HASH_STRIP_WSP OR SMB_HASH_STRIP_CTRL_A = 0x67"
  by (simp_all add: hash_flags)

lemma dupe_sources:
  "SMB_HASH_SOURCE_DUPE AND source_bit 0 = 1" "SMB_HASH_SOURCE_DUPE AND source_bit 1 = 2"
  "SMB_HASH_SOURCE_DUPE AND source_bit 2 = 4" "SMB_HASH_SOURCE_DUPE AND source_bit 3 = 0"
  by (simp_all add: SMB_HASH_SOURCE_DUPE_def source_bit_def)

lemma hash_field_wf: "list_all wf_hash (hash_field number now smask source flags str)"
  by (cases str) (auto simp: hash_field_def split: option.splits dest: smb_hashstr_wf)

lemma smb_msghashes_wf: "list_all wf_hash (smb_msghashes now msg body smask)"
  by (simp add: smb_msghashes_def Let_def hash_field_wf)

lemma smb_msghashes_common:
  assumes "same_source m1 t1 m2 t2"
  shows "\<exists>h c. h \<in> set (smb_msghashes now m1 t1 SMB_HASH_SOURCE_DUPE)
    \<and> c \<in> set (smb_msghashes now' m2 t2 SMB_HASH_SOURCE_DUPE)
    \<and> hash_matches h c \<and> h_flags h \<noteq> 0 \<and> SMB_HASH_SOURCE_DUPE AND source_bit (h_source h) \<noteq> 0
    \<and> unmarked True h"
proof -
  obtain s f x y where c: "hash_text f x = hash_text f y" "hash_text f x \<noteq> []"
    and sf: "s = HASH_SOURCE_MSG_ID \<and> f = 7 \<and> m_id m1 = Some x \<and> m_id m2 = Some y
          \<or> s = HASH_SOURCE_FTN_ID \<and> f = 7 \<and> ftn_msgid m1 = Some x \<and> ftn_msgid m2 = Some y
          \<or> s = HASH_SOURCE_BODY \<and> f = 0x67 \<and> t1 = Some x \<and> t2 = Some y"
    using assms unfolding same_source_def by blast
  have f: "f AND SMB_HASH_MARKED = 0" "f AND SMB_HASH_MASK \<noteq> 0" "f \<noteq> 0"
    using sf by (auto simp: hash_flags)
  obtain h k where hk: "smb_hashstr (hdr_number (hdr m1)) now s f x = Some h"
    "smb_hashstr (hdr_number (hdr m2)) now' s f y = Some k" "hash_matches h k"
    "h_source h = s" "h_flags h = f" "unmarked True h"
    using smb_hashstr_matches [OF c f(1,2)] by blast
  have "h \<in> set (smb_msghashes now m1 t1 SMB_HASH_SOURCE_DUPE)"
    "k \<in> set (smb_msghashes now' m2 t2 SMB_HASH_SOURCE_DUPE)"
    using sf hk(1,2) by (auto simp: smb_msghashes_def Let_def hash_field_def msghashes_flags dupe_sources)
  moreover have "SMB_HASH_SOURCE_DUPE AND source_bit s \<noteq> 0"
    using sf by (auto simp: dupe_sources)
  ultimately show ?thesis using hk f by blast
qed

text \<open>The records of a file are there as long as the file only grows.\<close>

lemma unpack_grows:
  assumes "w dvd length a" "0 < w"
  shows "set (unpack w dec a) \<subseteq> set (unpack w dec (a @ b))"
proof
  fix x assume "x \<in> set (unpack w dec a)"
  then obtain i where i: "i < length a div w" "x = unpack w dec a ! i" by (metis in_set_conv_nth length_unpack)
  obtain n where n: "length a = w * n" using assms(1) by (rule dvdE)
  have "length a div w \<le> length (a @ b) div w" by (rule div_le_mono) simp
  then have i': "i < length (a @ b) div w" using i(1) by simp
  have "Suc i * w \<le> n * w" using i(1) n assms(2) by (intro mult_le_mono1) simp
  then have "Suc i * w \<le> length a" unfolding n by (simp add: mult.commute)
  then have "take w (drop (i * w) (a @ b)) = take w (drop (i * w) a)" by simp
  moreover have "x = dec (take w (drop (i * w) a))" using i by (simp add: nth_unpack)
  moreover have "unpack w dec (a @ b) ! i = dec (take w (drop (i * w) (a @ b)))" by (rule nth_unpack [OF i'])
  ultimately have "x = unpack w dec (a @ b) ! i" by (simp only:)
  then show "x \<in> set (unpack w dec (a @ b))" using i' by (metis length_unpack nth_mem)
qed

lemma smb_hashmsg_stored:
  assumes "st_attr (status smb) AND (SMB_EMAIL OR SMB_NOHASH) = 0"
    and "length (disk smb HASH) = 64 * n" "open_loop (open_tries (env smb) HASH) = SMB_SUCCESS"
    and first: "smb_hashmsg smb m1 t1 False = (SMB_SUCCESS, smb', m1')"
  shows "set (filter (unmarked True) (smb_msghashes (clock (env smb)) m1 t1 SMB_HASH_SOURCE_DUPE)) \<subseteq> set (hash_table smb')"
    and "64 dvd length (disk smb' HASH)" "env smb' = env smb" "status smb' = status smb"
proof -
  let ?now = "clock (env smb)"
  let ?h1 = "smb_msghashes ?now m1 t1 SMB_HASH_SOURCE_DUPE"
  have op: "can_open smb HASH" using assms(3) by (simp add: can_open_def)
  obtain r smb1 fnd where f1: "smb_findhash smb ?h1 SMB_HASH_SOURCE_DUPE False = (r, smb1, ?h1, fnd)"
    "r \<noteq> SMB_SUCCESS" "disk smb1 = disk smb" "env smb1 = env smb" "status smb1 = status smb"
  proof -
    obtain smb1 where f: "smb_findhash smb ?h1 SMB_HASH_SOURCE_DUPE False =
      (case find (hash_hit SMB_HASH_SOURCE_DUPE ?h1) (hash_table smb) of
        Some h \<Rightarrow> (SMB_SUCCESS, smb1, ?h1, h)
      | None \<Rightarrow> (SMB_ERR_NOT_FOUND, smb1, ?h1, zero_hash))"
      "disk smb1 = disk smb" "env smb1 = env smb" "status smb1 = status smb"
      using smb_findhash_run [OF op] by blast
    have "find (hash_hit SMB_HASH_SOURCE_DUPE ?h1) (hash_table smb) = None"
      using first assms(1) f(1) by (auto simp: smb_hashmsg_def smb_codes split: option.splits)
    then show thesis using f that [of SMB_ERR_NOT_FOUND smb1 zero_hash] by (simp add: smb_codes)
  qed
  have op1: "can_open smb1 HASH" using assms(3) f1 by (simp add: can_open_def)
  have add: "smb_addhashes smb1 ?h1 True = (SMB_SUCCESS, smb')"
    using first f1(1,2) assms(1) by (auto simp: smb_hashmsg_def Let_def split: prod.splits)
  have "length (disk smb1 HASH) = 64 * n" using assms(2) f1 by simp
  note a = smb_addhashes_ok [OF op1 this smb_msghashes_wf add]
  show "set (filter (unmarked True) ?h1) \<subseteq> set (hash_table smb')" using a by auto
  show "64 dvd length (disk smb' HASH)" "env smb' = env smb" "status smb' = status smb" using a f1 by simp_all
qed

text \<open>
  C20: Once \<open>smb_hashmsg\<close> has stored the hashes of a message, it reports as a duplicate
  (\<open>SMB_DUPE_MSG\<close>, nothing written) every message that shares with it a message id or a FidoNet
  id, or a body up to white space and Ctrl-A codes, in whatever later state of the base, as long
  as the hash file still starts with the records it had, can be opened, and the base hashes. The
  id or the body must not be empty after that reduction, since the code does not hash an empty
  text; and the call is one that does not update (with \<open>update\<close> a known message is accepted).
\<close>

theorem smb_hashmsg_duplicate:
  assumes "st_attr (status smb) AND (SMB_EMAIL OR SMB_NOHASH) = 0"
    and "length (disk smb HASH) = 64 * n" "open_loop (open_tries (env smb) HASH) = SMB_SUCCESS"
    and first: "smb_hashmsg smb m1 t1 False = (SMB_SUCCESS, smb', m1')"
    and same: "same_source m1 t1 m2 t2"
    and later: "disk smb2 HASH = disk smb' HASH @ added"
      "st_attr (status smb2) AND (SMB_EMAIL OR SMB_NOHASH) = 0" "open_loop (open_tries (env smb2) HASH) = SMB_SUCCESS"
  shows "\<exists>smb3. smb_hashmsg smb2 m2 t2 False = (SMB_DUPE_MSG, smb3, m2) \<and> disk smb3 = disk smb2"
proof -
  let ?h2 = "smb_msghashes (clock (env smb2)) m2 t2 SMB_HASH_SOURCE_DUPE"
  note s = smb_hashmsg_stored [OF assms(1-4)]
  have grows: "set (hash_table smb') \<subseteq> set (hash_table smb2)"
    unfolding hash_table_def later(1) using unpack_grows [OF s(2)] by simp
  obtain h c where "h \<in> set (smb_msghashes (clock (env smb)) m1 t1 SMB_HASH_SOURCE_DUPE)" "c \<in> set ?h2"
    "hash_matches h c" "h_flags h \<noteq> 0" "SMB_HASH_SOURCE_DUPE AND source_bit (h_source h) \<noteq> 0" "unmarked True h"
    using smb_msghashes_common [OF same] by blast
  then have "hash_hit SMB_HASH_SOURCE_DUPE ?h2 h" "h \<in> set (hash_table smb2)"
    using s(1) grows by (auto simp: hash_hit_def list_ex_iff)
  then obtain g where g: "find (hash_hit SMB_HASH_SOURCE_DUPE ?h2) (hash_table smb2) = Some g"
    by (metis find_None_iff not_None_eq)
  have "can_open smb2 HASH" using later(3) by (simp add: can_open_def)
  from smb_findhash_run [OF this, of ?h2 SMB_HASH_SOURCE_DUPE] obtain smb3 where
    "smb_findhash smb2 ?h2 SMB_HASH_SOURCE_DUPE False = (SMB_SUCCESS, smb3, ?h2, g)" "disk smb3 = disk smb2"
    using g by auto
  then show ?thesis using later(2) by (simp add: smb_hashmsg_def)
qed

section \<open>Checksums of subjects\<close>

lemma strlwr_re_nonzero: "strlwr p = cs ''re:'' \<Longrightarrow> 0 \<notin> set p \<and> length p = 3"
proof -
  assume e: "strlwr p = cs ''re:''"
  have "length p = 3" using arg_cong [OF e, of length] by (simp add: strlwr_def cs_def)
  moreover have "0 \<notin> set (cs ''re:'')" by (simp add: cs_def)
  moreover have "tolower_c 0 = 0" by (simp add: tolower_c_def)
  ultimately show ?thesis using e by (metis image_eqI list.set_map strlwr_def)
qed

lemma cstr_append: "0 \<notin> set xs \<Longrightarrow> cstr (xs @ ys) = xs @ cstr ys"
  by (auto simp: cstr_def intro: takeWhile_append2)

lemma skip_reply_prefix:
  assumes "strlwr p = cs ''re:''" "s = [] \<or> hd s \<noteq> 0x20"
  shows "skip_reply (p @ replicate k 0x20 @ s) = skip_reply s"
proof -
  have l: "length p = 3" using strlwr_re_nonzero [OF assms(1)] by simp
  have "dropWhile (\<lambda>c. c = 0x20) (replicate k 0x20 @ s) = s"
    using assms(2) by (induction k) (cases s; auto)+
  then show ?thesis using assms(1) l
    by (simp add: skip_reply.simps [of "p @ replicate k 0x20 @ s"])
qed

lemma tolower_low: "e \<le> 0x40 \<Longrightarrow> tolower_c c = e \<longleftrightarrow> c = e"
proof -
  assume e: "e \<le> 0x40"
  have "unat (c + 0x20) = unat c + 32" if "c \<le> 0x5A"
    using that by (simp add: word_le_nat_alt unat_word_ariths)
  then have "c + 0x20 \<noteq> e" if "0x41 \<le> c" "c \<le> 0x5A"
    using that e by (auto simp: word_le_nat_alt)
  moreover have "\<not> 0x41 \<le> e" using e by (simp add: word_le_nat_alt)
  ultimately show ?thesis by (auto simp: tolower_c_def)
qed

lemma map_dropWhile_cong:
  assumes "\<And>c d. f c = f d \<Longrightarrow> P c = P d"
  shows "map f xs = map f ys \<Longrightarrow> map f (dropWhile P xs) = map f (dropWhile P ys)"
proof (induction xs ys rule: list_induct2')
  case (4 x xs y ys)
  then show ?case using assms [of x y] by simp
qed simp_all

lemma map_takeWhile_cong:
  assumes "\<And>c d. f c = f d \<Longrightarrow> P c = P d"
  shows "map f xs = map f ys \<Longrightarrow> map f (takeWhile P xs) = map f (takeWhile P ys)"
proof (induction xs ys rule: list_induct2')
  case (4 x xs y ys)
  then show ?case using assms [of x y] by simp
qed simp_all

lemma skip_reply_case: "strlwr s = strlwr s' \<Longrightarrow> strlwr (skip_reply s) = strlwr (skip_reply s')"
proof (induction s arbitrary: s' rule: skip_reply.induct)
  case (1 s)
  have t: "strlwr (take 3 s) = strlwr (take 3 s')" "strlwr (drop 3 s) = strlwr (drop 3 s')"
    using 1(2) by (simp_all add: strlwr_def take_map [symmetric] drop_map [symmetric])
  have "tolower_c c = tolower_c d \<Longrightarrow> c = 0x20 \<longleftrightarrow> d = 0x20" for c d
    using tolower_low [of "0x20" c] tolower_low [of "0x20" d] by auto
  then have d: "map tolower_c xs = map tolower_c ys \<Longrightarrow> map tolower_c (dropWhile (\<lambda>c. c = 0x20) xs)
      = map tolower_c (dropWhile (\<lambda>c. c = 0x20) ys)" for xs ys
    by (rule map_dropWhile_cong)
  show ?case
  proof (cases "strlwr (take 3 s) = cs ''re:''")
    case True
    then have True': "strlwr (take 3 s') = cs ''re:''" using t(1) by (simp only:)
    have "skip_reply s = skip_reply (dropWhile (\<lambda>c. c = 0x20) (drop 3 s))"
      by (subst skip_reply.simps) (simp only: True if_True refl)
    moreover have "skip_reply s' = skip_reply (dropWhile (\<lambda>c. c = 0x20) (drop 3 s'))"
      by (subst skip_reply.simps) (simp only: True' if_True refl)
    ultimately    show ?thesis
      using 1(1) [OF True] d [OF t(2) [unfolded strlwr_def]] by (simp only: strlwr_def)
  next
    case False
    then have False': "strlwr (take 3 s') \<noteq> cs ''re:''" unfolding t(1) .
    have "skip_reply s = s" by (subst skip_reply.simps) (simp only: False if_False)
    moreover have "skip_reply s' = s'" by (subst skip_reply.simps) (simp only: False' if_False)
    ultimately show ?thesis using 1(2) by (simp only:)
  qed
qed

lemma cstr_case: "strlwr s = strlwr s' \<Longrightarrow> strlwr (cstr s) = strlwr (cstr s')"
proof -
  have z: "tolower_c c = tolower_c d \<Longrightarrow> (c \<noteq> 0) = (d \<noteq> 0)" for c d
    using tolower_low [of 0 c] tolower_low [of 0 d] by auto
  assume "strlwr s = strlwr s'"
  then show "strlwr (cstr s) = strlwr (cstr s')"
    unfolding strlwr_def cstr_def by (rule map_takeWhile_cong [rotated]) (rule z)
qed

text \<open>
  The checksum of a subject that goes into the index ignores upper and lower case, and any
  reply prefix "RE:" in any case with the spaces after it, so that a reply and its original have
  equal checksums.
\<close>

theorem smb_subject_crc_reply:
  assumes "strlwr p = cs ''re:''" "s = [] \<or> hd s \<noteq> 0x20" "strlwr s = strlwr s'"
  shows "smb_subject_crc (Some (p @ replicate k 0x20 @ s)) = smb_subject_crc (Some s')"
proof -
  have "cstr (p @ replicate k 0x20 @ s) = p @ replicate k 0x20 @ cstr s"
    using strlwr_re_nonzero [OF assms(1)] cstr_append [of p] cstr_append [of "replicate k 0x20" s] by simp
  moreover have "cstr s = [] \<or> hd (cstr s) \<noteq> 0x20" using assms(2) by (cases s) (auto simp: cstr_def)
  ultimately have "skip_reply (cstr (p @ replicate k 0x20 @ s)) = skip_reply (cstr s)"
    using skip_reply_prefix [OF assms(1)] by simp
  then show ?thesis
    using skip_reply_case [OF cstr_case [OF assms(3)]] by (simp add: smb_subject_crc_def)
qed

theorem smb_subject_crc_reply_witness:
  "smb_subject_crc (Some (cs ''Re:  Hello'')) = smb_subject_crc (Some (cs ''hELLO''))"
proof -
  have "smb_subject_crc (Some (cs ''Re:'' @ replicate 2 0x20 @ cs ''Hello''))
    = smb_subject_crc (Some (cs ''hELLO''))"
    by (rule smb_subject_crc_reply) (simp_all add: cs_def strlwr_def tolower_c_def)
  then show ?thesis by (simp add: cs_def numeral_2_eq_2)
qed

section \<open>Witnesses on a sample base\<close>

lemma sample_open: "can_open (sample_smb d) x" "open_loop (open_tries (env (sample_smb d)) x) = SMB_SUCCESS"
  by (simp_all add: can_open_def) (simp add: sample_env_def)

definition sample_hash :: "byte \<Rightarrow> u16 \<Rightarrow> hash" where
  "sample_hash source crc = zero_hash\<lparr>h_source := source, h_flags := 1, h_length := 5, h_crc16 := crc\<rparr>"

lemma wf_sample_hash: "wf_hash (sample_hash source crc)"
  by (simp add: sample_hash_def zero_hash_def wf_hash_def)

lemma sample_hash_hit:
  "hash_hit 7 [sample_hash 1 9] (sample_hash 1 9)" "\<not> hash_hit 7 [sample_hash 1 9] (sample_hash 1 8)"
  by (simp_all add: hash_hit_def hash_matches_def sample_hash_def zero_hash_def hash_flags source_bit_def)

theorem smb_findhash_correct_witness:
  "\<exists>smb'. smb_findhash (sample_smb ((\<lambda>_. [])(HASH := enc_hash (sample_hash 1 8) @ enc_hash (sample_hash 1 9))))
     [sample_hash 1 9] 7 False = (SMB_SUCCESS, smb', [sample_hash 1 9], sample_hash 1 9)"
proof -
  let ?s = "sample_smb ((\<lambda>_. [])(HASH := enc_hash (sample_hash 1 8) @ enc_hash (sample_hash 1 9)))"
  have t: "hash_table ?s = [sample_hash 1 8, sample_hash 1 9]"
    using hash_codec.wf_unpack_concat [of "[sample_hash 1 8, sample_hash 1 9]"] wf_sample_hash
    by (simp add: hash_table_def)
  show ?thesis
    using smb_findhash_correct [of ?s "[sample_hash 1 9]" 7] sample_open(1)
    by (auto simp: t sample_hash_hit)
qed

definition msg_id :: "byte list \<Rightarrow> smbmsg" where
  "msg_id i = zero_msg\<lparr>m_id := Some i\<rparr>"

lemma msg_id_hashes:
  "\<exists>h. smb_msghashes now (msg_id [0x61]) None SMB_HASH_SOURCE_DUPE = [h] \<and> wf_hash h \<and> unmarked True h"
proof -
  have n: "hash_text 7 [0x61] \<noteq> []" by (simp add: hash_text_def hash_flags cstr_def)
  obtain h where h: "smb_hashstr 0 now 1 7 [0x61] = Some h" "unmarked True h"
    using smb_hashstr_matches [OF refl n, of 0 now 1 0 now True] by (auto simp: hash_flags)
  then show ?thesis
    using smb_hashstr_wf [OF h(1)]
    by (auto simp: smb_msghashes_def msg_id_def hash_field_def msghashes_flags dupe_sources Let_def zero_msg_def zero_hdr_def)
qed

theorem smb_hashmsg_duplicate_witness:
  "\<exists>smb' smb''. smb_hashmsg (sample_smb (\<lambda>_. [])) (msg_id [0x61]) None False
      = (SMB_SUCCESS, smb', (msg_id [0x61])\<lparr>m_hashed := True\<rparr>)
    \<and> smb_hashmsg smb' (msg_id [0x61]) None False = (SMB_DUPE_MSG, smb'', msg_id [0x61])"
proof -
  let ?s = "sample_smb (\<lambda>_. [])" and ?m = "msg_id [0x61]"
  obtain h where h: "smb_msghashes (clock (env ?s)) ?m None SMB_HASH_SOURCE_DUPE = [h]" "wf_hash h" "unmarked True h"
    using msg_id_hashes by blast
  have t: "hash_table ?s = []" by (simp add: hash_table_def unpack_def)
  obtain s1 where f: "smb_findhash ?s [h] SMB_HASH_SOURCE_DUPE False = (SMB_ERR_NOT_FOUND, s1, [h], zero_hash)"
    "disk s1 = disk ?s" "env s1 = env ?s" "is_open s1 HASH"
    using smb_findhash_run [OF sample_open(1) [of _ HASH], of "\<lambda>_. []" "[h]" SMB_HASH_SOURCE_DUPE] t by auto
  have "fst (smb_addhashes s1 [h] True) = SMB_SUCCESS"
    using f h(2,3) by (simp add: smb_addhashes_def smb_open_fp_def unmarked_def fwrite_def Let_def stream_simps)
  then obtain s' where add: "smb_addhashes s1 [h] True = (SMB_SUCCESS, s')" by (metis prod.collapse)
  have attr: "st_attr (status ?s) AND (SMB_EMAIL OR SMB_NOHASH) = 0" by simp
  have first: "smb_hashmsg ?s ?m None False = (SMB_SUCCESS, s', ?m\<lparr>m_hashed := True\<rparr>)"
    using h f(1) add attr by (simp add: smb_hashmsg_def smb_codes)
  have "same_source ?m None ?m None"
    unfolding same_source_def
    by (intro exI [of _ 1] exI [of _ 7] exI [of _ "[0x61]"])
      (simp add: msg_id_def hash_text_def hash_flags cstr_def)
  moreover have "env s' = env ?s" "status s' = status ?s"
    using smb_hashmsg_stored [OF attr _ sample_open(2) first, of 0] by simp_all
  ultimately show ?thesis
    using smb_hashmsg_duplicate [OF attr _ sample_open(2) first, of 0 ?m None s' "[]"] sample_open(2) attr first by auto
qed

end
