(* ===== verification/CText.thy ===== *)
theory CText
  imports Prelude
begin

text \<open>
  The text functions of the C library the sources call, on C strings without their terminator:
  printing integers in decimal and hexadecimal (\<open>%d\<close>, \<open>%u\<close>, \<open>%02X\<close>), reading them back
  (\<open>atoi\<close>, \<open>strtol\<close> with base 0), comparison without case and searching for a character.
\<close>

section \<open>Decimal\<close>

definition digit_c :: "nat \<Rightarrow> byte" where
  "digit_c d = word_of_nat (0x30 + d)"

fun dec_nat :: "nat \<Rightarrow> byte list" where
  "dec_nat n = (if n < 10 then [digit_c n] else dec_nat (n div 10) @ [digit_c (n mod 10)])"

declare dec_nat.simps [simp del]

definition itoa_c :: "int \<Rightarrow> byte list" where
  "itoa_c i = (if i < 0 then 0x2D # dec_nat (nat (- i)) else dec_nat (nat i))"

definition digits_value :: "byte list \<Rightarrow> nat" where
  "digits_value ds = foldl (\<lambda>v d. v * 10 + (unat d - 0x30)) 0 ds"

definition atoi_c :: "byte list \<Rightarrow> int" where
  "atoi_c s =
     (let t = dropWhile isspace_c s
      in if t = [] then 0
         else if hd t = 0x2D then - int (digits_value (takeWhile isdigit_c (tl t)))
         else if hd t = 0x2B then int (digits_value (takeWhile isdigit_c (tl t)))
         else int (digits_value (takeWhile isdigit_c t)))"

lemma unat_digit_c: "d < 10 \<Longrightarrow> unat (digit_c d) = 0x30 + d"
  by (simp add: digit_c_def unat_of_nat del: of_nat_add)

lemma isdigit_digit_c [simp]: "d < 10 \<Longrightarrow> isdigit_c (digit_c d)"
  by (simp add: isdigit_c_def word_le_nat_alt unat_digit_c)

lemma dec_nat_digits: "\<forall>c \<in> set (dec_nat n). isdigit_c c"
proof (induction n rule: dec_nat.induct)
  case (1 n)
  then show ?case by (subst dec_nat.simps) auto
qed

lemma dec_nat_nonempty [simp]: "dec_nat n \<noteq> []"
  by (subst dec_nat.simps) simp

lemma digits_value_snoc: "digits_value (ds @ [d]) = digits_value ds * 10 + (unat d - 0x30)"
  by (simp add: digits_value_def)

lemma digits_value_dec_nat [simp]: "digits_value (dec_nat n) = n"
proof (induction n rule: dec_nat.induct)
  case (1 n)
  show ?case
  proof (cases "n < 10")
    case True
    then show ?thesis by (subst dec_nat.simps) (simp add: digits_value_def unat_digit_c)
  next
    case False
    then show ?thesis using 1 by (subst dec_nat.simps) (simp add: digits_value_snoc unat_digit_c)
  qed
qed

lemma isdigit_cases: "isdigit_c c \<Longrightarrow> \<not> isspace_c c \<and> c \<noteq> 0x2D \<and> c \<noteq> 0x2B \<and> c \<noteq> 0"
  by (auto simp: isdigit_c_def isspace_c_def word_le_nat_alt)

lemma takeWhile_digits:
  assumes "\<forall>c \<in> set ds. isdigit_c c" "rest = [] \<or> \<not> isdigit_c (hd rest)"
  shows "takeWhile isdigit_c (ds @ rest) = ds"
  using assms by (induction ds) (cases rest; auto)+

lemma atoi_digits:
  assumes "\<forall>c \<in> set ds. isdigit_c c" "ds \<noteq> []" "rest = [] \<or> \<not> isdigit_c (hd rest)"
  shows "atoi_c (ds @ rest) = int (digits_value ds)"
proof -
  obtain c cs where ds: "ds = c # cs" using assms(2) by (cases ds) auto
  then have c: "\<not> isspace_c c" "c \<noteq> 0x2D" "c \<noteq> 0x2B"
    using assms(1) isdigit_cases [of c] by auto
  then have "dropWhile isspace_c (ds @ rest) = ds @ rest" by (simp add: ds)
  then show ?thesis
    using c takeWhile_digits [OF assms(1,3)] by (simp add: atoi_c_def Let_def ds)
qed

lemma atoi_dec_nat:
  "rest = [] \<or> \<not> isdigit_c (hd rest) \<Longrightarrow> atoi_c (dec_nat n @ rest) = int n"
  using atoi_digits [of "dec_nat n" rest] dec_nat_digits by simp

lemma atoi_itoa:
  assumes "rest = [] \<or> \<not> isdigit_c (hd rest)"
  shows "atoi_c (itoa_c i @ rest) = i"
proof (cases "i < 0")
  case True
  have "takeWhile isdigit_c (dec_nat (nat (- i)) @ rest) = dec_nat (nat (- i))"
    using dec_nat_digits assms by (intro takeWhile_digits)
  then show ?thesis using True by (simp add: itoa_c_def atoi_c_def isspace_c_def)
next
  case False
  then show ?thesis using atoi_dec_nat [OF assms] by (simp add: itoa_c_def)
qed

section \<open>Hexadecimal\<close>

definition hexdigit_c :: "nat \<Rightarrow> byte" where
  "hexdigit_c d = (if d < 10 then digit_c d else word_of_nat (0x41 + (d - 10)))"

fun hex_nat :: "nat \<Rightarrow> byte list" where
  "hex_nat n = (if n < 16 then [hexdigit_c n] else hex_nat (n div 16) @ [hexdigit_c (n mod 16)])"

declare hex_nat.simps [simp del]

definition hex02 :: "nat \<Rightarrow> byte list" where
  "hex02 n = (if n < 16 then [0x30, hexdigit_c n] else hex_nat n)"

definition dec02 :: "nat \<Rightarrow> byte list" where
  "dec02 n = (if n < 10 then 0x30 # dec_nat n else dec_nat n)"

definition xdigit_value :: "byte \<Rightarrow> nat option" where
  "xdigit_value c =
     (if isdigit_c c then Some (unat c - 0x30)
      else if 0x41 \<le> c \<and> c \<le> 0x46 then Some (unat c - 0x41 + 10)
      else if 0x61 \<le> c \<and> c \<le> 0x66 then Some (unat c - 0x61 + 10) else None)"

definition base_value :: "nat \<Rightarrow> byte list \<Rightarrow> nat" where
  "base_value b s =
     foldl (\<lambda>v c. v * b + the (xdigit_value c)) 0
       (takeWhile (\<lambda>c. case xdigit_value c of None \<Rightarrow> False | Some d \<Rightarrow> d < b) s)"

text \<open>\<open>strtol\<close> with base 0 on a string that starts with a digit.\<close>

definition strtol0 :: "byte list \<Rightarrow> nat" where
  "strtol0 s =
     (if take 1 s = [0x30]
      then if 2 < length s \<and> tolower_c (s ! 1) = 0x78 \<and> xdigit_value (s ! 2) \<noteq> None
           then base_value 16 (drop 2 s) else base_value 8 s
      else base_value 10 s)"

section \<open>Searching and comparing\<close>

definition stricmp_eq :: "byte list \<Rightarrow> byte list \<Rightarrow> bool" where
  "stricmp_eq a b \<longleftrightarrow> map tolower_c a = map tolower_c b"

text \<open>The text after the first occurrence of a character, as \<open>strchr\<close> plus one points at it.\<close>

definition after_chr :: "byte \<Rightarrow> byte list \<Rightarrow> byte list option" where
  "after_chr c s = (if c \<in> set s then Some (tl (dropWhile (\<lambda>x. x \<noteq> c) s)) else None)"

lemma after_chr_none [simp]: "c \<notin> set s \<Longrightarrow> after_chr c s = None"
  by (simp add: after_chr_def)

lemma after_chr_append: "c \<notin> set xs \<Longrightarrow> after_chr c (xs @ c # ys) = Some ys"
  by (induction xs) (auto simp: after_chr_def)

lemma after_chr_skip: "c \<notin> set xs \<Longrightarrow> after_chr c (xs @ ys) = after_chr c ys"
  by (induction xs) (auto simp: after_chr_def)

section \<open>Trimming (genwrap.c)\<close>

definition truncsp :: "byte list \<Rightarrow> byte list" where
  "truncsp s = rev (dropWhile isspace_c (rev s))"

definition truncnl :: "byte list \<Rightarrow> byte list" where
  "truncnl s = rev (dropWhile (\<lambda>c. c = 0x0D \<or> c = 0x0A) (rev s))"

abbreviation skipsp :: "byte list \<Rightarrow> byte list" where
  "skipsp \<equiv> dropWhile isspace_c"

end
