(* ===== verification/SmbStr.thy ===== *)
theory SmbStr
  imports SmbData CText
begin

text \<open>
  Names and addresses (smblib/smbstr.c, and \<open>smb_tzutc\<close> of smblib.c): the names of field types,
  time zones, and network addresses, with their parsers. The static buffers the code returns
  are the values returned.
\<close>

section \<open>Field types\<close>

definition hfieldtype_names :: "(u16 \<times> string) list" where
  "hfieldtype_names =
    [(0x00, ''Sender''), (0x01, ''SenderAgent''), (0x02, ''SenderNetType''),
     (0x03, ''SenderNetAddr''), (0x04, ''SenderExt''), (0x06, ''Organization''),
     (0x07, ''SenderIpAddr''), (0x08, ''SenderHostName''), (0x09, ''SenderProtocol''),
     (0x0a, ''SenderPortBin''), (0x0b, ''SenderPort''), (0x0c, ''SenderUserID''),
     (0x0d, ''SenderTime''), (0x0e, ''SenderServer''), (0x20, ''Reply-To''),
     (0x21, ''Reply-ToAgent''), (0x22, ''Reply-ToNetType''), (0x23, ''Reply-ToNetAddr''),
     (0x24, ''Reply-ToExt''), (0x30, ''To''), (0x31, ''ToAgent''),
     (0x32, ''ToNetType''), (0x33, ''ToNetAddr''), (0x34, ''ToExt''),
     (0x60, ''Subject''), (0x61, ''Summary''), (0x62, ''Comment''),
     (0x63, ''CC''), (0x64, ''Group''), (0x65, ''Expiration''),
     (0x66, ''Priority''), (0x67, ''Cost''), (0x68, ''Editor''),
     (0x48, ''Forwarded''), (0xa0, ''X-FTN-Kludge''), (0xa1, ''X-FTN-AREA''),
     (0xa2, ''X-FTN-SEEN-BY''), (0xa3, ''X-FTN-PATH''), (0xa4, ''X-FTN-MSGID''),
     (0xa5, ''X-FTN-REPLY''), (0xa6, ''X-FTN-PID''), (0xa7, ''X-FTN-Flags''),
     (0xa8, ''X-FTN-TID''), (0xb0, ''OtherHeader''), (0xb1, ''Message-ID''),
     (0xb2, ''In-Reply-To''), (0xb3, ''RFC822To''), (0xb4, ''RFC822From''),
     (0xb5, ''RFC822ReplyTo''), (0xc0, ''Path''), (0xc1, ''Newsgroups''),
     (0xd0, ''SMTPCommand''), (0xd1, ''Return-Path''), (0xd2, ''SMTPForwardPath''),
     (0xd3, ''Received''), (0xd8, ''SMTPSysMsg''), (0xf1, ''UNKNOWN''),
     (0xf2, ''UNKNOWNASCII''), (0xff, ''UNUSED'')]"

definition type_hex :: "nat \<Rightarrow> byte list" where
  "type_hex t = hex02 t @ [0x68]"

definition smb_hfieldtype :: "u16 \<Rightarrow> byte list" where
  "smb_hfieldtype t =
     (case map_of hfieldtype_names t of Some s \<Rightarrow> cs s | None \<Rightarrow> type_hex (unat t))"

definition smb_hfieldtypelookup :: "byte list \<Rightarrow> u16" where
  "smb_hfieldtypelookup str =
     (if str \<noteq> [] \<and> isdigit_c (hd str) then word_of_nat (strtol0 str)
      else case find (\<lambda>t. stricmp_eq str (smb_hfieldtype (word_of_nat t))) [0..<256] of
          Some t \<Rightarrow> word_of_nat t
        | None \<Rightarrow> 0xf1)"

definition smb_dfieldtype :: "u16 \<Rightarrow> byte list" where
  "smb_dfieldtype t =
     (if t = 0 then cs ''TEXT_BODY'' else if t = 2 then cs ''TEXT_TAIL''
      else if t = 0xff then cs ''UNUSED'' else type_hex (unat t))"

definition smb_hashsourcetype :: "byte \<Rightarrow> byte list" where
  "smb_hashsourcetype t =
     (if t = 0 then smb_dfieldtype TEXT_BODY else if t = 1 then smb_hfieldtype RFC822MSGID
      else if t = 2 then smb_hfieldtype FIDOMSGID else if t = 3 then smb_hfieldtype SUBJECT
      else type_hex (unat t))"

definition smb_hashsource :: "smbmsg \<Rightarrow> int \<Rightarrow> byte list option" where
  "smb_hashsource msg source =
     (if source = 1 then m_id msg else if source = 2 then ftn_msgid msg
      else if source = 3 then subj msg else Some (cs ''hash''))"

section \<open>Time zones\<close>

definition DAYLIGHT :: u16 where "DAYLIGHT = 0x8000"
definition US_ZONE :: u16 where "US_ZONE = 0x4000"
definition WESTERN_ZONE :: u16 where "WESTERN_ZONE = 0x2000"
definition EASTERN_ZONE :: u16 where "EASTERN_ZONE = 0x1000"

lemmas zone_bits = DAYLIGHT_def US_ZONE_def WESTERN_ZONE_def EASTERN_ZONE_def

definition zone_names :: "(u16 \<times> string) list" where
  "zone_names =
    [(0, ''UTC''), (0x40F0, ''AST''), (0x412C, ''EST''),
     (0x4168, ''CST''), (0x41A4, ''MST''), (0x41E0, ''PST''),
     (0x421C, ''YST''), (0x4258, ''HST''), (0x4294, ''BST''),
     (0xC0F0, ''ADT''), (0xC12C, ''EDT''), (0xC168, ''CDT''),
     (0xC1A4, ''MDT''), (0xC1E0, ''PDT''), (0xC21C, ''YDT''),
     (0xC258, ''HDT''), (0xC294, ''BDT''), (0x2294, ''MID''),
     (0x21E0, ''VAN''), (0x21A4, ''EDM''), (0x2168, ''WIN''),
     (0x212C, ''BOG''), (0x20F0, ''CAR''), (0x20B4, ''RIO''),
     (0x2078, ''FER''), (0x203C, ''AZO''), (0x1000, ''LON''),
     (0x103C, ''BER''), (0x1078, ''ATH''), (0x10B4, ''MOS''),
     (0x10F0, ''DUB''), (0x110E, ''KAB''), (0x112C, ''KAR''),
     (0x114A, ''BOM''), (0x1159, ''KAT''), (0x1168, ''DHA''),
     (0x11A4, ''BAN''), (0x11E0, ''HON''), (0x121C, ''TOK''),
     (0x1258, ''SYD''), (0x1294, ''NOU''), (0x12D0, ''WEL'')]"

text \<open>A zone is a signed 16-bit integer; within 1000 of zero it is the offset itself.\<close>

definition other_zone :: "u16 \<Rightarrow> bool" where
  "other_zone zone \<longleftrightarrow> sint zone \<le> 1000 \<and> -1000 \<le> sint zone"

definition smb_tzutc :: "u16 \<Rightarrow> int" where
  "smb_tzutc zone =
     (if other_zone zone then sint zone
      else let tz = uint (zone AND 0xfff)
           in if zone AND (WESTERN_ZONE OR US_ZONE) \<noteq> 0
              then - (if zone AND DAYLIGHT \<noteq> 0 then tz - 60 else tz) else tz)"

definition smb_zonestr :: "u16 \<Rightarrow> byte list" where
  "smb_zonestr zone =
     (case map_of zone_names zone of
        Some s \<Rightarrow> cs s
      | None \<Rightarrow>
          let z = (if other_zone zone then sint zone
                   else if zone AND (WESTERN_ZONE OR US_ZONE) \<noteq> 0 then - uint (zone AND 0xfff)
                   else uint (zone AND 0xfff))
          in cs ''UTC'' @ (if 0 < z then cs ''+'' else [])
             @ itoa_c (if z < 0 then - ((- z) div 60) else z div 60) @ cs '':''
             @ dec02 (nat (if z < 0 then (- z) mod 60 else z mod 60)))"

section \<open>Network addresses\<close>

record fidoaddr =
  fa_zone :: u16
  fa_net :: u16
  fa_node :: u16
  fa_point :: u16

definition enc_faddr :: "fidoaddr \<Rightarrow> byte list" where
  "enc_faddr a = le16 (fa_zone a) @ le16 (fa_net a) @ le16 (fa_node a) @ le16 (fa_point a)"

definition dec_faddr :: "byte list \<Rightarrow> fidoaddr" where
  "dec_faddr bs = \<lparr>fa_zone = un_le16 (fld 0 2 bs), fa_net = un_le16 (fld 2 2 bs),
     fa_node = un_le16 (fld 4 2 bs), fa_point = un_le16 (fld 6 2 bs)\<rparr>"

interpretation faddr_codec: record_codec enc_faddr dec_faddr 8
  by unfold_locales (simp_all add: enc_faddr_def dec_faddr_def fld_join fld_join_more)

definition smb_faddrtoa :: "fidoaddr option \<Rightarrow> byte list" where
  "smb_faddrtoa addr =
     (case addr of
        None \<Rightarrow> cs ''0:0/0''
      | Some a \<Rightarrow>
          dec_nat (unat (fa_zone a)) @ 0x3A # dec_nat (unat (fa_net a)) @ 0x2F # dec_nat (unat (fa_node a))
          @ (if fa_point a \<noteq> 0 then 0x2E # dec_nat (unat (fa_point a)) else []))"

definition atoi16 :: "byte list \<Rightarrow> u16" where
  "atoi16 s = word_of_int (atoi_c s)"

definition smb_atofaddr :: "fidoaddr option \<Rightarrow> byte list \<Rightarrow> fidoaddr" where
  "smb_atofaddr sys_addr str =
     (let sys = (case sys_addr of
            None \<Rightarrow> \<lparr>fa_zone = 1, fa_net = 1, fa_node = 1, fa_point = 0\<rparr> | Some a \<Rightarrow> a);
          (zone0, net0) = (case after_chr 0x3A str of
            Some p \<Rightarrow> (atoi16 str, atoi16 p) | None \<Rightarrow> (fa_zone sys, atoi16 str));
          zone = (if zone0 = 0 then 1 else zone0);
          (net, node) = (case after_chr 0x2F str of
            Some p \<Rightarrow> (net0, atoi16 p)
          | None \<Rightarrow> (if zone = fa_zone sys then fa_net sys else net0, atoi16 str));
          point = (case after_chr 0x2E str of Some p \<Rightarrow> atoi16 p | None \<Rightarrow> 0)
      in \<lparr>fa_zone = zone, fa_net = net, fa_node = node, fa_point = point\<rparr>)"

definition smb_netaddrstr :: "net_t \<Rightarrow> byte list option" where
  "smb_netaddrstr net =
     (if net_type net = NET_FIDO then Some (smb_faddrtoa (map_option dec_faddr (net_addr net)))
      else net_addr net)"

definition smb_netaddr :: "net_t \<Rightarrow> byte list option" where
  "smb_netaddr net = smb_netaddrstr net"

definition isalnum_c :: "byte \<Rightarrow> bool" where
  "isalnum_c c \<longleftrightarrow> isalpha_c c \<or> isdigit_c c"

definition smb_netaddr_type :: "byte list \<Rightarrow> u16" where
  "smb_netaddr_type str =
     (case after_chr 0x40 str of
        None \<Rightarrow> NET_NONE
      | Some q \<Rightarrow>
          let p = dropWhile isspace_c q; dots = length (filter (\<lambda>c. c = 0x2E) p)
          in if p = [] then NET_UNKNOWN
             else if isalpha_c (hd p) \<and> dots = 0 then NET_QWK
             else if isdigit_c (hd p)
               \<and> list_all (\<lambda>c. isdigit_c c \<or> c = 0x3A \<or> c = 0x2F \<or> c = 0x2E) p \<and> dots \<le> 1
             then NET_FIDO
             else if isalnum_c (hd p) then NET_INTERNET else NET_UNKNOWN)"

section \<open>Properties\<close>

lemma digits_no_sep: "\<forall>c \<in> set ds. isdigit_c c \<Longrightarrow> 0x3A \<notin> set ds \<and> 0x2F \<notin> set ds \<and> 0x2E \<notin> set ds"
  by (auto simp: isdigit_c_def word_le_nat_alt)

lemma dec_nat_no_sep: "0x3A \<notin> set (dec_nat n)" "0x2F \<notin> set (dec_nat n)" "0x2E \<notin> set (dec_nat n)"
  using digits_no_sep [OF dec_nat_digits] by blast+

lemma atoi16_dec_nat:
  "rest = [] \<or> \<not> isdigit_c (hd rest) \<Longrightarrow> atoi16 (dec_nat (unat w) @ rest) = w"
  by (simp add: atoi16_def atoi_dec_nat)

lemma sep_not_digit: "\<not> isdigit_c 0x3A" "\<not> isdigit_c 0x2F" "\<not> isdigit_c 0x2E"
  by (simp_all add: isdigit_c_def)

lemma atofaddr_faddrtoa:
  assumes "fa_zone a \<noteq> 0"
  shows "smb_atofaddr sys_addr (smb_faddrtoa (Some a)) = a"
proof -
  let ?p = "if fa_point a \<noteq> 0 then 0x2E # dec_nat (unat (fa_point a)) else []"
  let ?str = "smb_faddrtoa (Some a)"
  have s: "?str = dec_nat (unat (fa_zone a)) @ 0x3A # dec_nat (unat (fa_net a)) @ 0x2F # dec_nat (unat (fa_node a)) @ ?p"
    by (simp add: smb_faddrtoa_def)
  have "after_chr 0x3A ?str = Some (dec_nat (unat (fa_net a)) @ 0x2F # dec_nat (unat (fa_node a)) @ ?p)"
    unfolding s by (rule after_chr_append) (rule dec_nat_no_sep)
  moreover have "after_chr 0x2F ?str = Some (dec_nat (unat (fa_node a)) @ ?p)"
    unfolding s using after_chr_append [of "0x2F" "dec_nat (unat (fa_zone a)) @ 0x3A # dec_nat (unat (fa_net a))"]
    by (simp add: dec_nat_no_sep)
  moreover have "after_chr 0x2E ?str = (if fa_point a \<noteq> 0 then Some (dec_nat (unat (fa_point a))) else None)"
    unfolding s using after_chr_append [of "0x2E" "dec_nat (unat (fa_zone a)) @ 0x3A # dec_nat (unat (fa_net a)) @ 0x2F # dec_nat (unat (fa_node a))"]
    by (simp add: dec_nat_no_sep)
  moreover have "atoi16 ?str = fa_zone a"
    unfolding s by (rule atoi16_dec_nat) (simp add: sep_not_digit)
  moreover have "atoi16 (dec_nat (unat (fa_net a)) @ 0x2F # dec_nat (unat (fa_node a)) @ ?p) = fa_net a"
    by (rule atoi16_dec_nat) (simp add: sep_not_digit)
  moreover have "atoi16 (dec_nat (unat (fa_node a)) @ ?p) = fa_node a"
    by (rule atoi16_dec_nat) (simp add: sep_not_digit)
  moreover have "atoi16 (dec_nat (unat (fa_point a))) = fa_point a"
    using atoi16_dec_nat [of "[]"] by simp
  ultimately show ?thesis
    using assms unfolding smb_atofaddr_def Let_def by simp
qed

lemma faddrtoa_no_zero: "0 \<notin> set (smb_faddrtoa a)"
proof -
  have "0 \<notin> set (dec_nat n)" for n
    using dec_nat_digits [of n] isdigit_cases by blast
  then show ?thesis by (auto simp: smb_faddrtoa_def cs_def split: option.splits)
qed

text \<open>
  C31: A FidoNet address with a zone, printed and parsed again, is the same address, whatever the
  system's own address is.
\<close>

theorem smb_atofaddr_faddrtoa:
  assumes "fa_zone a \<noteq> 0"
  shows "smb_atofaddr sys_addr (smb_faddrtoa (Some a)) = a"
  using assms by (rule atofaddr_faddrtoa)

theorem smb_atofaddr_faddrtoa_witness:
  "smb_atofaddr None (smb_faddrtoa (Some \<lparr>fa_zone = 2, fa_net = 5020, fa_node = 35, fa_point = 1\<rparr>))
     = \<lparr>fa_zone = 2, fa_net = 5020, fa_node = 35, fa_point = 1\<rparr>"
  by (rule smb_atofaddr_faddrtoa) simp

text \<open>
  An e-mail address whose part after the at sign is a printed FidoNet address is recognised
  as a FidoNet address.
\<close>

theorem smb_netaddr_type_faddr:
  assumes "0x40 \<notin> set name"
  shows "smb_netaddr_type (name @ 0x40 # smb_faddrtoa (Some a)) = NET_FIDO"
proof -
  let ?p = "smb_faddrtoa (Some a)"
  obtain c cs where c: "dec_nat (unat (fa_zone a)) = c # cs" by (cases "dec_nat (unat (fa_zone a))") auto
  then have dig: "isdigit_c c" using dec_nat_digits [of "unat (fa_zone a)"] by simp
  have hd: "hd ?p = c" "?p \<noteq> []" by (simp_all add: smb_faddrtoa_def c)
  have na: "\<not> isalpha_c c" using dig by (auto simp: isdigit_c_def isalpha_c_def word_le_nat_alt)
  have sp: "dropWhile isspace_c ?p = ?p"
    using hd isdigit_cases [OF dig] by (cases ?p) auto
  have dd: "list_all (\<lambda>c. isdigit_c c \<or> c = 0x3A \<or> c = 0x2F \<or> c = 0x2E) (dec_nat n)" for n
    using dec_nat_digits [of n] by (auto simp: list_all_iff)
  have "filter (\<lambda>c. c = 0x2E) (dec_nat n) = []" for n
    using dec_nat_no_sep(3) [of n] by (auto simp: filter_empty_conv)
  then have dots: "length (filter (\<lambda>c. c = 0x2E) ?p) \<le> 1"
    by (simp add: smb_faddrtoa_def)
  have ok: "list_all (\<lambda>c. isdigit_c c \<or> c = 0x3A \<or> c = 0x2F \<or> c = 0x2E) ?p"
    using dd by (simp add: smb_faddrtoa_def)
  show ?thesis
    using after_chr_append [OF assms, of ?p] hd na dig sp dots ok
    by (simp add: smb_netaddr_type_def Let_def)
qed

theorem smb_netaddr_type_faddr_witness:
  "smb_netaddr_type (cs ''bob@'' @ smb_faddrtoa (Some \<lparr>fa_zone = 1, fa_net = 103, fa_node = 705, fa_point = 0\<rparr>))
     = NET_FIDO"
  using smb_netaddr_type_faddr [of "cs ''bob''"] by (simp add: cs_def)

subsection \<open>Field type names\<close>

lemma hfieldtype_names_distinct: "distinct (map (\<lambda>(t, s). map tolower_c (cs s)) hfieldtype_names)"
  by (simp add: hfieldtype_names_def cs_def tolower_c_def)

lemma hfieldtype_names_shape:
  "list_all (\<lambda>(t, s). t < 256 \<and> length s \<noteq> 3 \<and> s \<noteq> [] \<and> \<not> isdigit_c (hd (cs s))) hfieldtype_names"
  by (simp add: hfieldtype_names_def cs_def isdigit_c_def)

lemma hfieldtype_names_keys: "distinct (map fst hfieldtype_names)"
  by (simp add: hfieldtype_names_def)

lemma length_type_hex: "n < 256 \<Longrightarrow> length (type_hex n) = 3"
proof -
  assume n: "n < 256"
  have "n div 16 < 16" using n by (simp add: div_less_iff_less_mult)
  then have "length (hex_nat (n div 16)) = 1" by (simp add: hex_nat.simps [of "n div 16"])
  then show ?thesis using n by (simp add: type_hex_def hex02_def hex_nat.simps [of n])
qed

lemma smb_hfieldtype_inj:
  assumes "(t, s) \<in> set hfieldtype_names" "n < 256"
    and eq: "stricmp_eq (smb_hfieldtype t) (smb_hfieldtype (word_of_nat n))"
  shows "word_of_nat n = t"
proof -
  have t: "smb_hfieldtype t = cs s"
    using map_of_is_SomeI [OF hfieldtype_names_keys assms(1)] by (simp add: smb_hfieldtype_def)
  have len: "length (cs u) \<noteq> 3" if "(v, u) \<in> set hfieldtype_names" for v u
    using hfieldtype_names_shape that by (auto simp: list_all_iff cs_def)
  show ?thesis
  proof (cases "map_of hfieldtype_names (word_of_nat n)")
    case None
    then have "smb_hfieldtype (word_of_nat n) = type_hex n"
      using assms(2) by (simp add: smb_hfieldtype_def unat_of_nat)
    then have "length (smb_hfieldtype (word_of_nat n)) = 3" by (simp add: length_type_hex assms(2))
    moreover have "length (smb_hfieldtype t) = length (smb_hfieldtype (word_of_nat n))"
      using eq unfolding stricmp_eq_def by (metis length_map)
    ultimately show ?thesis using len [OF assms(1)] t by simp
  next
    case (Some u)
    then have u: "(word_of_nat n, u) \<in> set hfieldtype_names" by (rule map_of_SomeD)
    have "map tolower_c (cs s) = map tolower_c (cs u)"
      using eq t Some by (simp add: stricmp_eq_def smb_hfieldtype_def)
    moreover have "inj_on (\<lambda>(t, s). map tolower_c (cs s)) (set hfieldtype_names)"
      using hfieldtype_names_distinct by (simp add: distinct_map)
    ultimately have "(word_of_nat n, u) = (t, s)" using assms(1) u inj_onD by fastforce
    then show ?thesis by simp
  qed
qed

text \<open>
  Looking up the name of a named header field type gives the type back: the names are
  pairwise different up to case, none of them is the hexadecimal form of an unnamed type, and
  none starts with a digit.
\<close>

theorem smb_hfieldtypelookup_name:
  "list_all (\<lambda>(t, s). smb_hfieldtypelookup (smb_hfieldtype t) = t) hfieldtype_names"
proof -
  have "smb_hfieldtypelookup (smb_hfieldtype t) = t" if ts: "(t, s) \<in> set hfieldtype_names" for t s
  proof -
    let ?P = "\<lambda>n. stricmp_eq (smb_hfieldtype t) (smb_hfieldtype (word_of_nat n))"
    have t: "smb_hfieldtype t = cs s"
      using map_of_is_SomeI [OF hfieldtype_names_keys ts] by (simp add: smb_hfieldtype_def)
    have "s \<noteq> [] \<and> \<not> isdigit_c (hd (cs s)) \<and> t < 256"
      using hfieldtype_names_shape ts by (auto simp: list_all_iff)
    then have nd: "\<not> (smb_hfieldtype t \<noteq> [] \<and> isdigit_c (hd (smb_hfieldtype t)))"
      and n: "unat t < 256" by (auto simp: t word_less_nat_alt)
    have "?P (unat t)" by (simp add: stricmp_eq_def)
    moreover have "\<not> ?P j" if "j < unat t" for j
    proof
      assume "?P j"
      then have "word_of_nat j = t" using smb_hfieldtype_inj [OF ts] that n by auto
      then have "unat t = j" using that n by (auto simp: unat_of_nat)
      then show False using that by simp
    qed
    ultimately have "find ?P [0..<256] = Some (unat t)"
      using n by (auto simp: find_Some_iff intro!: exI [of _ "unat t"])
    then show ?thesis unfolding smb_hfieldtypelookup_def using nd by auto
  qed
  then show ?thesis by (auto simp: list_all_iff)
qed

text \<open>
  The author field has no name of its own, so it prints as its hexadecimal code "10h", which
  starts with a digit and is read back as the decimal number ten, another field type.
\<close>

theorem smb_hfieldtypelookup_author:
  "smb_hfieldtype AUTHOR = cs ''10h'' \<and> smb_hfieldtypelookup (smb_hfieldtype AUTHOR) = 10"
proof -
  have t: "smb_hfieldtype AUTHOR = cs ''10h''"
    by (simp add: smb_hfieldtype_def hfieldtype_names_def type_hex_def hex02_def hex_nat.simps
      hexdigit_c_def digit_c_def cs_def)
  have "strtol0 (cs ''10h'') = 10"
    by (simp add: strtol0_def cs_def base_value_def xdigit_value_def isdigit_c_def)
  then show ?thesis by (simp add: t smb_hfieldtypelookup_def) (simp add: cs_def isdigit_c_def)
qed

subsection \<open>Zones\<close>

lemma zone_names_small: "list_all (\<lambda>(z, s). z \<le> 0xC294) zone_names"
  by (simp add: zone_names_def)

text \<open>
  An offset of less than an hour west of UTC is printed without its minus sign: half an hour
  west reads "UTC0:30".
\<close>

theorem smb_zonestr_sign_lost:
  assumes "0 < m" "m < 60"
  shows "smb_zonestr (word_of_int (- m)) = cs ''UTC0:'' @ dec02 (nat m)"
proof -
  let ?z = "word_of_int (- m) :: u16"
  have s: "sint ?z = - m"
    using assms by (simp add: signed_of_int signed_take_bit_int_eq_self del: of_int_minus)
  have u: "uint ?z = 65536 - m"
    using assms by (simp add: uint_word_of_int zmod_zminus1_eq_if del: of_int_minus)
  have "\<not> ?z \<le> 0xC294" using u assms by (simp add: word_le_def)
  then have n: "map_of zone_names ?z = None"
    using zone_names_small by (auto simp: map_of_eq_None_iff list_all_iff)
  have "other_zone ?z" using s assms by (simp add: other_zone_def)
  moreover have "m div 60 = 0" "m mod 60 = m" using assms by simp_all
  ultimately show ?thesis using assms n s
    by (simp add: smb_zonestr_def Let_def itoa_c_def dec_nat.simps digit_c_def cs_def)
qed

theorem smb_zonestr_sign_lost_witness: "smb_zonestr (word_of_int (- 30)) = cs ''UTC0:30''"
  using smb_zonestr_sign_lost [of 30] by (simp add: dec02_def dec_nat.simps digit_c_def cs_def)

end
