(* ===== verification/SmbField.thy ===== *)
theory SmbField
  imports SmbHash SmbStr
begin

text \<open>
  The header and data fields of a message in memory (smblib.c, \<open>smb_getmsghdrlen\<close> to
  \<open>smb_copymsgmem\<close> and \<open>smb_hfield_add\<close> to \<open>smb_dfield\<close>). A header field is a type, a 16-bit
  length and its data; the convenience pointers of the message point into that data.

  A pointer argument with its length is the list of those bytes. A pointer kept in the message
  is the data it pointed to when it was set: what the code leaves dangling after a
  reallocation reads as the old data here. Reading a number from a field too short to hold it
  reads the terminator and zeros beyond. A header has at most 65535 bytes, so the sums of
  lengths are exact in an unsigned long and are natural numbers here.
\<close>

section \<open>Lengths\<close>

definition hfield_size :: "hfield \<times> byte list option \<Rightarrow> nat" where
  "hfield_size f = 4 + unat (hf_length (fst f))"

definition smb_getmsghdrlen :: "smbmsg \<Rightarrow> nat" where
  "smb_getmsghdrlen msg = sizeof_msghdr + 10 * unat (total_dfields (hdr msg))
     + sum_list (map hfield_size (hfields msg))"

definition smb_getmsgdatlen :: "smbmsg \<Rightarrow> nat" where
  "smb_getmsgdatlen msg = sum_list (map (\<lambda>d. unat (df_length d)) (live_dfields msg))"

definition smb_getmsgtxtlen :: "smbmsg \<Rightarrow> nat" where
  "smb_getmsgtxtlen msg =
     sum_list (map (\<lambda>(h, _). if hf_type h = SMB_COMMENT \<or> hf_type h = SMTPSYSMSG
       then unat (hf_length h) + 2 else 0) (hfields msg))
     + sum_list (map (\<lambda>d. if df_type d = TEXT_BODY \<or> df_type d = TEXT_TAIL
       then unat (df_length d) else 0) (live_dfields msg))"

section \<open>Convenience pointers\<close>

definition read_u16 :: "byte list \<Rightarrow> u16" where
  "read_u16 d = un_le16 (take 2 (d @ [0, 0]))"

definition read_u32 :: "byte list \<Rightarrow> u32" where
  "read_u32 d = un_le32 (take 4 (d @ [0, 0, 0, 0]))"

definition set_convenience_ptr :: "smbmsg \<Rightarrow> u16 \<Rightarrow> byte list \<Rightarrow> smbmsg" where
  "set_convenience_ptr msg t d =
     (if t = AUTHOR then msg\<lparr>m_from := Some d\<rparr>
      else if t = SENDER
      then (if (case m_from msg of None \<Rightarrow> True | Some s \<Rightarrow> cstr s = [])
            then msg\<lparr>m_from := Some d\<rparr> else msg\<lparr>forwarded := True\<rparr>)
      else if t = FORWARDED then msg\<lparr>forwarded := True\<rparr>
      else if t = SENDERAGENT
      then (if forwarded msg then msg else msg\<lparr>from_agent := read_u16 d\<rparr>)
      else if t = SENDEREXT then (if forwarded msg then msg else msg\<lparr>from_ext := Some d\<rparr>)
      else if t = SENDERORG then (if forwarded msg then msg else msg\<lparr>from_org := Some d\<rparr>)
      else if t = SENDERNETTYPE
      then (if forwarded msg then msg else msg\<lparr>from_net := (from_net msg)\<lparr>net_type := read_u16 d\<rparr>\<rparr>)
      else if t = SENDERNETADDR
      then (if forwarded msg then msg else msg\<lparr>from_net := (from_net msg)\<lparr>net_addr := Some d\<rparr>\<rparr>)
      else if t = SENDERIPADDR then msg\<lparr>from_ip := Some d\<rparr>
      else if t = SENDERHOSTNAME then msg\<lparr>from_host := Some d\<rparr>
      else if t = SENDERPROTOCOL then msg\<lparr>from_prot := Some d\<rparr>
      else if t = REPLYTO then msg\<lparr>replyto := Some d\<rparr>
      else if t = REPLYTOEXT then msg\<lparr>replyto_ext := Some d\<rparr>
      else if t = REPLYTOAGENT then msg\<lparr>replyto_agent := read_u16 d\<rparr>
      else if t = REPLYTONETTYPE then msg\<lparr>replyto_net := (replyto_net msg)\<lparr>net_type := read_u16 d\<rparr>\<rparr>
      else if t = REPLYTONETADDR then msg\<lparr>replyto_net := (replyto_net msg)\<lparr>net_addr := Some d\<rparr>\<rparr>
      else if t = RECIPIENT then msg\<lparr>m_to := Some d\<rparr>
      else if t = RECIPIENTEXT then msg\<lparr>to_ext := Some d\<rparr>
      else if t = RECIPIENTAGENT then msg\<lparr>to_agent := read_u16 d\<rparr>
      else if t = RECIPIENTNETTYPE then msg\<lparr>to_net := (to_net msg)\<lparr>net_type := read_u16 d\<rparr>\<rparr>
      else if t = RECIPIENTNETADDR then msg\<lparr>to_net := (to_net msg)\<lparr>net_addr := Some d\<rparr>\<rparr>
      else if t = SUBJECT then msg\<lparr>subj := Some d\<rparr>
      else if t = SMB_SUMMARY then msg\<lparr>summary := Some d\<rparr>
      else if t = SMB_EXPIRATION then msg\<lparr>expiration := read_u32 d\<rparr>
      else if t = SMB_PRIORITY then msg\<lparr>priority := read_u32 d\<rparr>
      else if t = SMB_COST then msg\<lparr>cost := read_u32 d\<rparr>
      else if t = RFC822MSGID then msg\<lparr>m_id := Some d\<rparr>
      else if t = RFC822REPLYID then msg\<lparr>reply_id := Some d\<rparr>
      else if t = SMTPREVERSEPATH then msg\<lparr>reverse_path := Some d\<rparr>
      else if t = USENETPATH then msg\<lparr>path := Some d\<rparr>
      else if t = USENETNEWSGROUPS then msg\<lparr>newsgroups := Some d\<rparr>
      else if t = FIDOMSGID then msg\<lparr>ftn_msgid := Some d\<rparr>
      else if t = FIDOREPLYID then msg\<lparr>ftn_reply := Some d\<rparr>
      else if t = FIDOAREA then msg\<lparr>ftn_area := Some d\<rparr>
      else if t = FIDOPID then msg\<lparr>ftn_pid := Some d\<rparr>
      else if t = FIDOTID then msg\<lparr>ftn_tid := Some d\<rparr>
      else if t = FIDOFLAGS then msg\<lparr>ftn_flags := Some d\<rparr>
      else msg)"

definition clear_convenience_ptrs :: "smbmsg \<Rightarrow> smbmsg" where
  "clear_convenience_ptrs msg = msg\<lparr>m_from := None, from_ext := None, from_org := None,
     from_ip := None, from_host := None, from_prot := None, from_net := zero_net,
     replyto := None, replyto_ext := None, replyto_net := zero_net,
     m_to := None, to_ext := None, to_net := zero_net,
     subj := None, summary := None, m_id := None, reply_id := None, reverse_path := None,
     path := None, newsgroups := None,
     ftn_msgid := None, ftn_reply := None, ftn_area := None, ftn_pid := None, ftn_tid := None,
     ftn_flags := None\<rparr>"

section \<open>Freeing and copying\<close>

definition smb_freemsghdrmem :: "smbmsg \<Rightarrow> smbmsg" where
  "smb_freemsghdrmem msg = clear_convenience_ptrs (msg\<lparr>hfields := []\<rparr>)"

definition smb_freemsgmem :: "smbmsg \<Rightarrow> smbmsg" where
  "smb_freemsgmem msg =
     smb_freemsghdrmem (msg\<lparr>dfields := [], hdr := (hdr msg)\<lparr>total_dfields := 0\<rparr>\<rparr>)"

text \<open>The bytes of a field's data up to its length, as \<open>memcpy\<close> reads them.\<close>

definition hfield_bytes :: "hfield \<times> byte list option \<Rightarrow> byte list" where
  "hfield_bytes f =
     (case snd f of None \<Rightarrow> [] | Some d \<Rightarrow> take (unat (hf_length (fst f))) d)"

definition smb_copymsgmem :: "smbmsg \<Rightarrow> int \<times> smbmsg" where
  "smb_copymsgmem srcmsg =
     (SMB_SUCCESS, srcmsg\<lparr>
        dfields := (if total_dfields (hdr srcmsg) \<noteq> 0 then live_dfields srcmsg else dfields srcmsg),
        hfields := map (\<lambda>f. (fst f, Some (hfield_bytes f))) (hfields srcmsg)\<rparr>)"

section \<open>Adding, changing and finding header fields\<close>

definition smb_hfield_add :: "smbmsg \<Rightarrow> u16 \<Rightarrow> byte list \<Rightarrow> bool \<Rightarrow> int \<times> smbmsg" where
  "smb_hfield_add msg t data ins =
     (if unat SMB_MAX_HDR_LEN < smb_getmsghdrlen msg + 4 + length data
      then (SMB_ERR_HDR_LEN, msg)
      else let h = \<lparr>hf_type = t, hf_length = word_of_nat (length data)\<rparr>;
               f = (h, if data = [] then None else Some data);
               msg' = msg\<lparr>hfields := (if ins then f # hfields msg else hfields msg @ [f])\<rparr>
           in (SMB_SUCCESS, if data = [] then msg' else set_convenience_ptr msg' t data))"

fun hfield_add_loop :: "smbmsg \<Rightarrow> (hfield \<times> byte list) list \<Rightarrow> bool \<Rightarrow> int \<times> smbmsg" where
  "hfield_add_loop msg [] ins = (SMB_SUCCESS, msg)"
| "hfield_add_loop msg ((h, d) # fs) ins =
     (case smb_hfield_add msg (hf_type h) (take (unat (hf_length h)) d) ins of
        (retval, msg') \<Rightarrow>
          if retval \<noteq> SMB_SUCCESS then (retval, msg') else hfield_add_loop msg' fs ins)"

definition smb_hfield_add_list ::
  "smbmsg \<Rightarrow> (hfield \<times> byte list) list option \<Rightarrow> bool \<Rightarrow> int \<times> smbmsg" where
  "smb_hfield_add_list msg flds ins =
     (case flds of None \<Rightarrow> (SMB_FAILURE, msg) | Some fs \<Rightarrow> hfield_add_loop msg fs ins)"

text \<open>A string argument is a pointer to a zero-terminated buffer, or NULL.\<close>

definition str_data :: "byte list option \<Rightarrow> byte list" where
  "str_data str = (case str of None \<Rightarrow> [] | Some s \<Rightarrow> cstr s)"

definition smb_hfield_add_str :: "smbmsg \<Rightarrow> u16 \<Rightarrow> byte list option \<Rightarrow> bool \<Rightarrow> int \<times> smbmsg" where
  "smb_hfield_add_str msg t str ins = smb_hfield_add msg t (str_data str) ins"

definition smb_hfield_add_netaddr ::
  "smbmsg \<Rightarrow> u16 \<Rightarrow> byte list \<Rightarrow> u16 option \<Rightarrow> bool \<Rightarrow> int \<times> smbmsg \<times> u16 option" where
  "smb_hfield_add_netaddr msg t str nettype ins =
     (let nt0 = (case nettype of None \<Rightarrow> NET_UNKNOWN | Some n \<Rightarrow> n);
          nt = (if nt0 = NET_UNKNOWN then smb_netaddr_type (cstr str) else nt0);
          out = map_option (\<lambda>_. nt) nettype
      in if nt = NET_FIDO
         then case smb_hfield_add msg t (enc_faddr (smb_atofaddr
                (Some \<lparr>fa_zone = 0, fa_net = 0, fa_node = 0, fa_point = 0\<rparr>) (cstr str))) ins of
             (r, msg') \<Rightarrow> (r, msg', out)
         else case smb_hfield_add_str msg t (Some str) ins of (r, msg') \<Rightarrow> (r, msg', out))"

text \<open>The position of the last field of a type.\<close>

definition last_hfield :: "smbmsg \<Rightarrow> u16 \<Rightarrow> nat option" where
  "last_hfield msg t =
     find (\<lambda>i. hf_type (fst (hfields msg ! i)) = t) (rev [0..<length (hfields msg)])"

definition smb_hfield_append :: "smbmsg \<Rightarrow> u16 \<Rightarrow> byte list \<Rightarrow> int \<times> smbmsg" where
  "smb_hfield_append msg t data =
     (if data = [] then (SMB_SUCCESS, msg)
      else case last_hfield msg t of
        None \<Rightarrow> (SMB_ERR_NOT_FOUND, msg)
      | Some i \<Rightarrow>
          if unat SMB_MAX_HDR_LEN < smb_getmsghdrlen msg + length data then (SMB_ERR_HDR_LEN, msg)
          else let f = hfields msg ! i;
                   d = hfield_bytes f @ data;
                   h = (fst f)\<lparr>hf_length := hf_length (fst f) + word_of_nat (length data)\<rparr>
               in (SMB_SUCCESS,
                   set_convenience_ptr (msg\<lparr>hfields := (hfields msg)[i := (h, Some d)]\<rparr>) t d))"

definition smb_hfield_append_str :: "smbmsg \<Rightarrow> u16 \<Rightarrow> byte list option \<Rightarrow> int \<times> smbmsg" where
  "smb_hfield_append_str msg t str = smb_hfield_append msg t (str_data str)"

definition smb_hfield_replace :: "smbmsg \<Rightarrow> u16 \<Rightarrow> byte list \<Rightarrow> int \<times> smbmsg" where
  "smb_hfield_replace msg t data =
     (case last_hfield msg t of
        None \<Rightarrow> (SMB_ERR_NOT_FOUND, msg)
      | Some i \<Rightarrow>
          let h = (fst (hfields msg ! i))\<lparr>hf_length := word_of_nat (length data)\<rparr>
          in (SMB_SUCCESS,
              set_convenience_ptr (msg\<lparr>hfields := (hfields msg)[i := (h, Some data)]\<rparr>) t data))"

definition smb_hfield_replace_str :: "smbmsg \<Rightarrow> u16 \<Rightarrow> byte list option \<Rightarrow> int \<times> smbmsg" where
  "smb_hfield_replace_str msg t str = smb_hfield_replace msg t (str_data str)"

definition smb_get_hfield :: "smbmsg \<Rightarrow> u16 \<Rightarrow> (hfield \<times> byte list option) option" where
  "smb_get_hfield msg t = find (\<lambda>f. hf_type (fst f) = t) (hfields msg)"

definition smb_dfield :: "smbmsg \<Rightarrow> u16 \<Rightarrow> ulong \<Rightarrow> int \<times> smbmsg" where
  "smb_dfield msg t len =
     (let ds = live_dfields msg;
          d = \<lparr>df_type = t, df_offset = sum_list (map df_length ds), df_length = ucast len\<rparr>
      in (SMB_SUCCESS, msg\<lparr>dfields := ds @ [d],
            hdr := (hdr msg)\<lparr>total_dfields := total_dfields (hdr msg) + 1\<rparr>\<rparr>))"

section \<open>The fields and the pointers\<close>

named_theorems ptr_simps \<open>what setting a convenience pointer leaves of a message\<close>

lemma set_convenience_ptr_frame [ptr_simps]:
  "hfields (set_convenience_ptr msg t d) = hfields msg"
  "dfields (set_convenience_ptr msg t d) = dfields msg"
  "hdr (set_convenience_ptr msg t d) = hdr msg"
  "idx (set_convenience_ptr msg t d) = idx msg"
  "m_offset (set_convenience_ptr msg t d) = m_offset msg"
  by (simp_all add: set_convenience_ptr_def)

lemma clear_convenience_ptrs_frame [ptr_simps]:
  "hfields (clear_convenience_ptrs msg) = hfields msg"
  "dfields (clear_convenience_ptrs msg) = dfields msg"
  "hdr (clear_convenience_ptrs msg) = hdr msg"
  "idx (clear_convenience_ptrs msg) = idx msg"
  "m_offset (clear_convenience_ptrs msg) = m_offset msg"
  by (simp_all add: clear_convenience_ptrs_def)

lemma set_convenience_ptr_hdrlen [ptr_simps]:
  "smb_getmsghdrlen (set_convenience_ptr msg t d) = smb_getmsghdrlen msg"
  by (simp add: smb_getmsghdrlen_def ptr_simps)

lemma SMB_MAX_HDR_LEN_nat [simp]: "unat SMB_MAX_HDR_LEN = 65535"
  by (simp add: SMB_MAX_HDR_LEN_def)

lemma last_hfield_cases:
  assumes "last_hfield msg t = Some i"
  shows "i < length (hfields msg)" "hf_type (fst (hfields msg ! i)) = t"
    "\<And>j. i < j \<Longrightarrow> j < length (hfields msg) \<Longrightarrow> hf_type (fst (hfields msg ! j)) \<noteq> t"
proof -
  let ?n = "length (hfields msg)"
  obtain k where k: "k < ?n" "i = rev [0..<?n] ! k" "hf_type (fst (hfields msg ! i)) = t"
    and first: "\<And>j. j < k \<Longrightarrow> hf_type (fst (hfields msg ! (rev [0..<?n] ! j))) \<noteq> t"
    using assms unfolding last_hfield_def find_Some_iff by auto
  then have i: "i = ?n - 1 - k" by (simp add: rev_nth)
  then show "i < ?n" using k(1) by simp
  show "hf_type (fst (hfields msg ! i)) = t" by (rule k(3))
  fix j assume j: "i < j" "j < ?n"
  then have "?n - 1 - j < k" using i by simp
  then have "hf_type (fst (hfields msg ! (rev [0..<?n] ! (?n - 1 - j)))) \<noteq> t" by (rule first)
  then show "hf_type (fst (hfields msg ! j)) \<noteq> t" using j(2) by (simp add: rev_nth)
qed

text \<open>The well-formed messages whose header fits.\<close>

definition hdr_fits :: "smbmsg \<Rightarrow> bool" where
  "hdr_fits msg \<longleftrightarrow> wf_msg msg \<and> smb_getmsghdrlen msg \<le> 65535"

lemma hfield_add_result:
  "smb_hfield_add msg t data ins = (r, msg') \<Longrightarrow>
     r = (if smb_getmsghdrlen msg + 4 + length data \<le> 65535 then SMB_SUCCESS else SMB_ERR_HDR_LEN)"
  by (auto simp: smb_hfield_add_def Let_def split: if_splits)

lemma hdr_fits_add:
  assumes "hdr_fits msg" "smb_hfield_add msg t data ins = (r, msg')"
  shows "hdr_fits msg'"
proof (cases "smb_getmsghdrlen msg + 4 + length data \<le> 65535")
  case True
  let ?f = "(\<lparr>hf_type = t, hf_length = word_of_nat (length data)\<rparr>, if data = [] then None else Some data)"
  have u: "unat (word_of_nat (length data) :: u16) = length data"
    using True by (simp add: unat_of_nat)
  have w: "wf_hfield ?f" by (simp add: wf_hfield_def u)
  have m: "hfields msg' = (if ins then ?f # hfields msg else hfields msg @ [?f])"
    "hdr msg' = hdr msg" "dfields msg' = dfields msg"
    using True assms(2) by (auto simp: smb_hfield_add_def Let_def ptr_simps split: if_splits)
  have "smb_getmsghdrlen msg' = smb_getmsghdrlen msg + 4 + length data"
    by (simp add: smb_getmsghdrlen_def m hfield_size_def u)
  then show ?thesis using assms(1) True w by (simp add: hdr_fits_def wf_msg_def m)
qed (use assms in \<open>simp add: smb_hfield_add_def\<close>)

lemma sum_list_update_nat:
  fixes xs :: "nat list"
  shows "i < length xs \<Longrightarrow> sum_list (xs[i := y]) + xs ! i = sum_list xs + y"
proof (induction xs arbitrary: i)
  case (Cons x xs)
  then show ?case by (cases i) auto
qed simp

lemma wf_hfield_bytes: "wf_hfield f \<Longrightarrow> length (hfield_bytes f) = unat (hf_length (fst f))"
  by (auto simp: wf_hfield_def hfield_bytes_def split: option.splits)

lemma hdr_fits_append:
  assumes "hdr_fits msg" "smb_hfield_append msg t data = (r, msg')"
  shows "hdr_fits msg'"
proof (cases "data \<noteq> [] \<and> (\<exists>i. last_hfield msg t = Some i) \<and> smb_getmsghdrlen msg + length data \<le> 65535")
  case True
  then obtain i where i: "last_hfield msg t = Some i" by blast
  note li = last_hfield_cases(1) [OF i]
  let ?f = "hfields msg ! i"
  let ?h = "(fst ?f)\<lparr>hf_length := hf_length (fst ?f) + word_of_nat (length data)\<rparr>"
  have "sum_list ((map hfield_size (hfields msg))[i := 0]) + hfield_size ?f
      = sum_list (map hfield_size (hfields msg))"
    using sum_list_update_nat [of i "map hfield_size (hfields msg)" 0] li by simp
  then have "hfield_size ?f + length data \<le> 65535" using True by (simp add: smb_getmsghdrlen_def)
  then have u: "unat (hf_length ?h) = unat (hf_length (fst ?f)) + length data"
    by (simp add: hfield_size_def unat_word_ariths unat_of_nat)
  have m: "hfields msg' = (hfields msg)[i := (?h, Some (hfield_bytes ?f @ data))]"
    "hdr msg' = hdr msg" "dfields msg' = dfields msg"
    using True i assms(2) by (auto simp: smb_hfield_append_def Let_def ptr_simps)
  have wf: "wf_hfield ?f"
    using assms(1) li by (simp add: hdr_fits_def wf_msg_def list_all_length)
  have "wf_hfield (?h, Some (hfield_bytes ?f @ data))"
    using wf_hfield_bytes [OF wf] u by (simp add: wf_hfield_def)
  then have "list_all wf_hfield (hfields msg')"
    using assms(1) m(1) li by (auto simp: hdr_fits_def wf_msg_def list_all_length nth_list_update)
  moreover have "smb_getmsghdrlen msg' = smb_getmsghdrlen msg + length data"
    using sum_list_update_nat [of i "map hfield_size (hfields msg)" "hfield_size ?f + length data"] li
    by (simp add: smb_getmsghdrlen_def m map_update hfield_size_def u [simplified] add.assoc)
  ultimately show ?thesis using assms(1) True by (simp add: hdr_fits_def wf_msg_def m)
qed (use assms in \<open>auto simp: smb_hfield_append_def Let_def split: if_splits option.splits\<close>)

section \<open>Properties\<close>

text \<open>
  C28: Adding a header field, at either end, and appending to one keep a message well formed (every
  field's data as long as its length says) and its header within 65535 bytes; adding succeeds
  exactly when the result fits, and is refused without a change otherwise.
\<close>

theorem smb_hfield_add_append_fits:
  assumes "hdr_fits msg"
  shows "hdr_fits (snd (smb_hfield_add msg t data ins))
    \<and> hdr_fits (snd (smb_hfield_append msg t data))
    \<and> (if smb_getmsghdrlen msg + 4 + length data \<le> 65535
       then fst (smb_hfield_add msg t data ins) = SMB_SUCCESS
         \<and> smb_getmsghdrlen (snd (smb_hfield_add msg t data ins))
             = smb_getmsghdrlen msg + 4 + length data
       else smb_hfield_add msg t data ins = (SMB_ERR_HDR_LEN, msg))"
proof -
  have "smb_getmsghdrlen (snd (smb_hfield_add msg t data ins)) = smb_getmsghdrlen msg + 4 + length data"
    if "smb_getmsghdrlen msg + 4 + length data \<le> 65535"
  proof -
    have "unat (word_of_nat (length data) :: u16) = length data" using that by (simp add: unat_of_nat)
    then show ?thesis using that
      by (simp add: smb_hfield_add_def Let_def smb_getmsghdrlen_def ptr_simps hfield_size_def)
  qed
  moreover have "smb_hfield_add msg t data ins = (SMB_ERR_HDR_LEN, msg)"
    if "\<not> smb_getmsghdrlen msg + 4 + length data \<le> 65535"
    using that by (simp add: smb_hfield_add_def)
  ultimately show ?thesis
    using hdr_fits_add [OF assms prod.collapse [symmetric]]
      hdr_fits_append [OF assms prod.collapse [symmetric]]
      hfield_add_result [OF prod.collapse [symmetric], of msg t data ins] by simp
qed

lemma hdr_fits_zero: "hdr_fits zero_msg"
  by (simp add: hdr_fits_def wf_msg_def zero_msg_def zero_hdr_def wf_hdr_def smb_getmsghdrlen_def)

theorem smb_hfield_add_append_fits_witness:
  "hdr_fits (snd (smb_hfield_add zero_msg SUBJECT (cs ''hello'') False))"
  using smb_hfield_add_append_fits [OF hdr_fits_zero, of SUBJECT "cs ''hello''" False] by simp

text \<open>
  After a successful insertion of a header field with data, looking its type up finds that
  data; after a successful addition at the end it finds the field that was there before, if any,
  and otherwise the new one. Other types are found as before.
\<close>

theorem smb_get_hfield_add:
  assumes "smb_hfield_add msg t data ins = (SMB_SUCCESS, msg')" "data \<noteq> []"
  shows "smb_get_hfield msg' u =
    (if u = t \<and> (ins \<or> smb_get_hfield msg u = None)
     then Some (\<lparr>hf_type = t, hf_length = word_of_nat (length data)\<rparr>, Some data)
     else smb_get_hfield msg u)"
proof -
  let ?f = "(\<lparr>hf_type = t, hf_length = word_of_nat (length data)\<rparr>, Some data)"
  have m: "hfields msg' = (if ins then ?f # hfields msg else hfields msg @ [?f])"
    using assms by (auto simp: smb_hfield_add_def Let_def ptr_simps smb_codes split: if_splits)
  have "find P (xs @ [x]) = (case find P xs of Some y \<Rightarrow> Some y | None \<Rightarrow> if P x then Some x else None)"
    for P xs and x :: "hfield \<times> byte list option" by (induction xs) auto
  then show ?thesis by (auto simp: smb_get_hfield_def m split: option.splits)
qed

theorem smb_get_hfield_add_witness:
  "\<exists>msg'. smb_hfield_add zero_msg SUBJECT (cs ''hi'') True = (SMB_SUCCESS, msg')
     \<and> smb_get_hfield msg' SUBJECT = Some (\<lparr>hf_type = SUBJECT, hf_length = 2\<rparr>, Some (cs ''hi''))"
proof -
  have "fst (smb_hfield_add zero_msg SUBJECT (cs ''hi'') True) = SMB_SUCCESS"
    by (simp add: smb_hfield_add_def Let_def smb_getmsghdrlen_def zero_msg_def zero_hdr_def cs_def)
  then have e: "smb_hfield_add zero_msg SUBJECT (cs ''hi'') True
      = (SMB_SUCCESS, snd (smb_hfield_add zero_msg SUBJECT (cs ''hi'') True))"
    by (metis prod.collapse)
  have ne: "cs ''hi'' \<noteq> []" and len: "length (cs ''hi'') = 2" by (simp_all add: cs_def)
  show ?thesis
    using smb_get_hfield_add [OF e ne, of SUBJECT] e len by (intro exI conjI) simp_all
qed

text \<open>
  Replacing a header field's value by one of 64 KiB or more succeeds and stores the length
  modulo 65536: the message is no longer well formed.
\<close>

theorem smb_hfield_replace_truncates:
  assumes "last_hfield msg t = Some i" "length data = 65536 + k" "k < 65536"
  shows "\<exists>msg'. smb_hfield_replace msg t data = (SMB_SUCCESS, msg')
    \<and> unat (hf_length (fst (hfields msg' ! i))) = k \<and> snd (hfields msg' ! i) = Some data
    \<and> \<not> wf_msg msg'"
proof -
  let ?h = "(fst (hfields msg ! i))\<lparr>hf_length := word_of_nat (length data)\<rparr>"
  let ?m = "set_convenience_ptr (msg\<lparr>hfields := (hfields msg)[i := (?h, Some data)]\<rparr>) t data"
  note li = last_hfield_cases(1) [OF assms(1)]
  have k: "unat (word_of_nat (length data) :: u16) = k"
    using assms(2,3) by (simp add: unat_of_nat del: of_nat_add)
  have "\<not> wf_hfield (?h, Some data)" using k assms(2) by (simp add: wf_hfield_def)
  then have "\<not> wf_msg ?m" using li by (auto simp: wf_msg_def ptr_simps list_all_length)
  then show ?thesis
    using assms(1) li k by (simp add: smb_hfield_replace_def Let_def ptr_simps)
qed

definition sample_fields :: smbmsg where
  "sample_fields = zero_msg\<lparr>m_from := Some (cs ''Ann''), subj := Some (cs ''x''),
     hfields := [(\<lparr>hf_type = SENDER, hf_length = 3\<rparr>, Some (cs ''Ann'')),
                 (\<lparr>hf_type = SUBJECT, hf_length = 1\<rparr>, Some (cs ''x''))]\<rparr>"

lemma sample_fields_last: "last_hfield sample_fields SUBJECT = Some 1" "last_hfield sample_fields SENDER = Some 0"
  by (simp_all add: last_hfield_def sample_fields_def upt_rec)

theorem smb_hfield_replace_truncates_witness:
  "\<exists>msg'. smb_hfield_replace sample_fields SUBJECT (replicate 65536 0x41) = (SMB_SUCCESS, msg')
    \<and> unat (hf_length (fst (hfields msg' ! 1))) = 0 \<and> \<not> wf_msg msg'"
proof -
  have "length (replicate 65536 (0x41 :: byte)) = 65536 + 0" by simp
  from smb_hfield_replace_truncates [OF sample_fields_last(1) this] show ?thesis by auto
qed

text \<open>
  Appending to the sender field of a message that has a sender changes the field's data but not
  the sender the message shows, and marks the message as forwarded.
\<close>

theorem smb_hfield_append_sender_stale:
  assumes "last_hfield msg SENDER = Some i" "m_from msg = Some s" "cstr s \<noteq> []" "data \<noteq> []"
    "smb_getmsghdrlen msg + length data \<le> 65535"
  shows "\<exists>msg'. smb_hfield_append msg SENDER data = (SMB_SUCCESS, msg')
    \<and> snd (hfields msg' ! i) = Some (hfield_bytes (hfields msg ! i) @ data)
    \<and> m_from msg' = Some s \<and> forwarded msg'"
  using assms last_hfield_cases(1) [OF assms(1)]
  by (simp add: smb_hfield_append_def Let_def set_convenience_ptr_def)

theorem smb_hfield_append_sender_stale_witness:
  "\<exists>msg'. smb_hfield_append sample_fields SENDER (cs ''a'') = (SMB_SUCCESS, msg')
    \<and> snd (hfields msg' ! 0) = Some (cs ''Anna'') \<and> m_from msg' = Some (cs ''Ann'') \<and> forwarded msg'"
proof -
  have "m_from sample_fields = Some (cs ''Ann'')" by (simp add: sample_fields_def)
  moreover have "cstr (cs ''Ann'') \<noteq> []" "cs ''a'' \<noteq> []" by (simp_all add: cs_def cstr_def)
  moreover have "smb_getmsghdrlen sample_fields + length (cs ''a'') \<le> 65535"
    by (simp add: smb_getmsghdrlen_def sample_fields_def zero_msg_def zero_hdr_def hfield_size_def cs_def)
  moreover have "hfield_bytes (hfields sample_fields ! 0) @ cs ''a'' = cs ''Anna''"
    by (simp add: sample_fields_def hfield_bytes_def cs_def)
  ultimately show ?thesis
    using smb_hfield_append_sender_stale [OF sample_fields_last(2)] by metis
qed

text \<open>
  A FidoNet address added as a network address field is stored as its four 16-bit numbers, and
  printing the stored field gives the address text back.
\<close>

theorem smb_hfield_add_netaddr_fido:
  assumes "fa_zone a \<noteq> 0" "smb_getmsghdrlen msg \<le> 65523"
  shows "\<exists>msg' h d. smb_hfield_add_netaddr msg t (smb_faddrtoa (Some a)) (Some NET_FIDO) True
      = (SMB_SUCCESS, msg', Some NET_FIDO)
    \<and> smb_get_hfield msg' t = Some (h, Some d)
    \<and> smb_netaddrstr \<lparr>net_type = NET_FIDO, net_addr = Some d\<rparr> = Some (smb_faddrtoa (Some a))"
proof -
  let ?d = "enc_faddr a"
  have d: "length ?d = 8" "?d \<noteq> []" using faddr_codec.length_enc [of a] by auto
  have c: "cstr (smb_faddrtoa (Some a)) = smb_faddrtoa (Some a)"
    by (rule cstr_id) (rule faddrtoa_no_zero)
  obtain msg' where m: "smb_hfield_add msg t ?d True = (SMB_SUCCESS, msg')"
    using assms(2) d by (simp add: smb_hfield_add_def Let_def)
  then have "smb_get_hfield msg' t = Some (\<lparr>hf_type = t, hf_length = 8\<rparr>, Some ?d)"
    using d by (auto simp: smb_hfield_add_def smb_get_hfield_def Let_def ptr_simps smb_codes split: if_splits)
  then show ?thesis using m
    by (simp add: smb_hfield_add_netaddr_def Let_def c atofaddr_faddrtoa [OF assms(1)]
      smb_netaddrstr_def faddr_codec.dec_enc)
qed

theorem smb_hfield_add_netaddr_fido_witness:
  "\<exists>msg' h d. smb_hfield_add_netaddr zero_msg SENDERNETADDR
      (smb_faddrtoa (Some \<lparr>fa_zone = 1, fa_net = 103, fa_node = 705, fa_point = 0\<rparr>)) (Some NET_FIDO) True
      = (SMB_SUCCESS, msg', Some NET_FIDO)
    \<and> smb_get_hfield msg' SENDERNETADDR = Some (h, Some d)
    \<and> smb_netaddrstr \<lparr>net_type = NET_FIDO, net_addr = Some d\<rparr>
      = Some (smb_faddrtoa (Some \<lparr>fa_zone = 1, fa_net = 103, fa_node = 705, fa_point = 0\<rparr>))"
  by (rule smb_hfield_add_netaddr_fido)
    (simp_all add: smb_getmsghdrlen_def zero_msg_def zero_hdr_def)

end
