(* ===== verification/SmbMsg.thy ===== *)
theory SmbMsg
  imports SmbField
begin

text \<open>
  Message headers on disk (smblib.c): reading and writing the header record of a message,
  adding a message to a base, updating one, and the CRC history. A header record is the fixed
  part, the data fields and the header fields one after another, padded with zeros to whole
  blocks.

  The duplicate history (.sch) is read whole into a heap buffer; \<open>beyond\<close> is what lies in
  memory after that buffer, which the code copies from when the history is full.
\<close>

section \<open>Reading a header\<close>

fun read_dfields :: "nat \<Rightarrow> nat \<Rightarrow> nat \<Rightarrow> smb \<Rightarrow> dfield list \<Rightarrow> int \<times> nat \<times> smb \<times> dfield list" where
  "read_dfields hlen 0 l smb ds = (SMB_SUCCESS, l, smb, ds)"
| "read_dfields hlen (Suc n) l smb ds =
     (if hlen \<le> l then (SMB_ERR_READ, l, smb, ds)
      else case fread smb SHD 10 of (bs, smb') \<Rightarrow>
        if length bs \<noteq> 10 then (SMB_ERR_READ, l, smb', ds)
        else read_dfields hlen n (l + 10) smb' (ds @ [dec_dfield bs]))"

function read_hfields :: "nat \<Rightarrow> nat \<Rightarrow> smb \<Rightarrow> smbmsg \<Rightarrow> int \<times> smb \<times> smbmsg" where
  "read_hfields hlen l smb msg =
     (if hlen \<le> l then (SMB_SUCCESS, smb, msg)
      else let (bs, smb1) = fread smb SHD 4
           in if length bs \<noteq> 4 then (SMB_ERR_READ, smb1, smb_freemsgmem msg)
              else let h = dec_hfield bs; n = unat (hf_length h);
                       (d, smb2) = (if n = 0 then ([], smb1) else fread smb1 SHD n)
                   in if length d \<noteq> n then (SMB_ERR_READ, smb2, smb_freemsgmem msg)
                      else read_hfields hlen (l + 4 + n) smb2
                        (set_convenience_ptr (msg\<lparr>hfields := hfields msg @ [(h, Some d)]\<rparr>)
                           (hf_type h) d))"
  by pat_completeness auto
termination by (relation "measure (\<lambda>(hlen, l, _). hlen - l)") auto

declare read_hfields.simps [simp del]

text \<open>The pointers that must point to something, and the default reverse path.\<close>

definition default_ptrs :: "smbmsg \<Rightarrow> smbmsg" where
  "default_ptrs msg =
     (let dflt = (\<lambda>p. case p of None \<Rightarrow> Some [] | Some s \<Rightarrow> Some s);
          m = msg\<lparr>m_from := dflt (m_from msg), m_to := dflt (m_to msg), subj := dflt (subj msg)\<rparr>
      in if reverse_path m = None \<and> net_type (from_net m) = NET_INTERNET
         then m\<lparr>reverse_path := net_addr (from_net m)\<rparr> else m)"

definition smb_getmsghdr :: "smb \<Rightarrow> smbmsg \<Rightarrow> int \<times> smb \<times> smbmsg" where
  "smb_getmsghdr smb msg0 =
     (if \<not> is_open smb SHD then (SMB_ERR_NOT_OPEN, smb, msg0)
      else if \<not> smb_valid_hdr_offset smb (ucast (idx_offset (idx msg0)))
      then (SMB_ERR_HDR_OFFSET, smb, msg0)
      else case fread (fseek smb SHD (unat (idx_offset (idx msg0)))) SHD sizeof_msghdr of (bs, smb1) \<Rightarrow>
        let msg = zero_msg\<lparr>idx := idx msg0, m_offset := m_offset msg0,
              hdr := dec_hdr (bs @ drop (length bs) (enc_hdr zero_hdr))\<rparr>
        in if length bs \<noteq> sizeof_msghdr then (SMB_ERR_READ, smb1, msg)
           else if hdr_id (hdr msg) \<noteq> SHD_HEADER_ID then (SMB_ERR_HDR_ID, smb1, msg)
           else if hdr_version (hdr msg) < 0x110 then (SMB_ERR_HDR_VER, smb1, msg)
           else case read_dfields (unat (hdr_length (hdr msg))) (unat (total_dfields (hdr msg)))
                       sizeof_msghdr smb1 [] of (r, l, smb2, ds) \<Rightarrow>
             if r \<noteq> SMB_SUCCESS then (r, smb2, smb_freemsgmem msg)
             else case read_hfields (unat (hdr_length (hdr msg))) l smb2 (msg\<lparr>dfields := ds\<rparr>) of
               (r', smb3, msg') \<Rightarrow>
                 if r' \<noteq> SMB_SUCCESS then (r', smb3, msg')
                 else (SMB_SUCCESS, smb3, default_ptrs msg'))"

section \<open>Writing a header\<close>

definition hfield_record :: "hfield \<times> byte list option \<Rightarrow> byte list list" where
  "hfield_record f = enc_hfield (fst f) # (if hf_length (fst f) = 0 then [] else [hfield_bytes f])"

definition smb_putmsghdr :: "smb \<Rightarrow> smbmsg \<Rightarrow> int \<times> smb \<times> smbmsg" where
  "smb_putmsghdr smb msg =
     (if \<not> is_open smb SHD then (SMB_ERR_NOT_OPEN, smb, msg)
      else if \<not> smb_valid_hdr_offset smb (ucast (idx_offset (idx msg)))
      then (SMB_ERR_HDR_OFFSET, smb, msg)
      else let smb1 = fseek smb SHD (unat (idx_offset (idx msg)));
               hdrlen = smb_getmsghdrlen msg
           in if unat SMB_MAX_HDR_LEN < hdrlen then (SMB_ERR_HDR_LEN, smb1, msg)
              else if smb_hdrblocks (ucast (hdr_length (hdr msg))) < smb_hdrblocks (of_nat hdrlen)
              then (SMB_ERR_HDR_LEN, smb1, msg)
              else let msg' = msg\<lparr>hdr := (hdr msg)\<lparr>hdr_length := word_of_nat hdrlen,
                         hdr_id := SHD_HEADER_ID\<rparr>\<rparr>;
                       pad = (if hdrlen mod 256 = 0 then 0 else 256 - hdrlen mod 256)
                   in case fwrite_all smb1 SHD
                        (enc_hdr (hdr msg') # map enc_dfield (live_dfields msg')
                         @ concat (map hfield_record (hfields msg')) @ replicate pad [0]) of
                     (ok, smb2) \<Rightarrow> (if ok then SMB_SUCCESS else SMB_ERR_WRITE, smb2, msg'))"

definition smb_init_idx :: "smb \<Rightarrow> smbmsg \<Rightarrow> smbmsg" where
  "smb_init_idx smb msg =
     (let user = (\<lambda>p. case p of None \<Rightarrow> 0 | Some s \<Rightarrow> word_of_int (atoi_c (cstr s)));
          email = st_attr (status smb) AND SMB_EMAIL \<noteq> 0
      in msg\<lparr>idx := (idx msg)\<lparr>
           idx_subj := smb_subject_crc (subj msg),
           idx_to := (if email then user (to_ext msg) else smb_name_crc (m_to msg)),
           idx_from := (if email then user (from_ext msg) else smb_name_crc (m_from msg)),
           idx_number := hdr_number (hdr msg), idx_attr := hdr_attr (hdr msg),
           idx_time := wtime (when_imported (hdr msg))\<rparr>\<rparr>)"

definition smb_putmsg :: "smb \<Rightarrow> smbmsg \<Rightarrow> int \<times> smb \<times> smbmsg" where
  "smb_putmsg smb msg0 =
     (let msg = smb_init_idx smb msg0
      in case smb_putmsghdr smb msg of (i, smb1, msg1) \<Rightarrow>
        if i \<noteq> SMB_SUCCESS then (i, smb1, msg1)
        else case smb_putmsgidx smb1 msg1 of (j, smb2) \<Rightarrow> (j, smb2, msg1))"

section \<open>Adding a message\<close>

datatype storage = SELFPACK | FASTALLOC | HYPERALLOC

definition smb_addmsghdr :: "smb \<Rightarrow> smbmsg \<Rightarrow> storage \<Rightarrow> int \<times> smb \<times> smbmsg" where
  "smb_addmsghdr smb msg storage =
     (if \<not> is_open smb SHD then (SMB_ERR_NOT_OPEN, smb, msg)
      else case (if locked smb then (SMB_SUCCESS, smb) else smb_locksmbhdr smb) of (r, smb1) \<Rightarrow>
        if r \<noteq> SMB_SUCCESS then (SMB_ERR_LOCK, smb1, msg)
        else let hdrlen = smb_getmsghdrlen msg; unlock = (\<lambda>s. snd (smb_unlocksmbhdr s))
        in if unat SMB_MAX_HDR_LEN < hdrlen then (SMB_ERR_HDR_LEN, unlock smb1, msg)
        else case smb_getstatus smb1 of (i, smb2) \<Rightarrow>
          if i \<noteq> SMB_SUCCESS then (i, unlock smb2, msg)
          else let n = last_msg (status smb2) + 1;
                   msg1 = msg\<lparr>hdr := (hdr msg)\<lparr>hdr_number := n,
                     thread_id := (if thread_id (hdr msg) = 0 then n else thread_id (hdr msg))\<rparr>\<rparr>
          in case (if m_hashed msg1 then (SMB_SUCCESS, smb2, msg1)
                   else smb_hashmsg smb2 msg1 None True) of (j, smb3, msg2) \<Rightarrow>
            if j \<noteq> SMB_SUCCESS then (j, unlock smb3, msg2)
            else case (if storage = HYPERALLOC then (SMB_SUCCESS, smb3)
                       else smb_open_fp smb3 SHA) of (k, smb4) \<Rightarrow>
              if k \<noteq> SMB_SUCCESS then (k, unlock smb4, msg2)
              else let msg3 = msg2\<lparr>hdr := (hdr msg2)\<lparr>hdr_length := word_of_nat hdrlen,
                         hdr_version := (if hdr_version (hdr msg2) = 0 then SMB_VERSION
                           else hdr_version (hdr msg2))\<rparr>\<rparr>
              in case (case storage of
                   HYPERALLOC \<Rightarrow> smb_hallochdr smb4
                 | FASTALLOC \<Rightarrow> smb_fallochdr smb4 (ucast (hdr_length (hdr msg3)))
                 | SELFPACK \<Rightarrow> smb_allochdr smb4 (ucast (hdr_length (hdr msg3)))) of (l, smb5) \<Rightarrow>
                let smb6 = (if storage = HYPERALLOC then smb5 else smb_close_fp smb5 SHA)
                in if l < 0 then (l, unlock smb6, msg3)
                else let msg4 = msg3\<lparr>idx := (idx msg3)\<lparr>
                           idx_offset := header_offset (status smb6) + word_of_int l\<rparr>,
                           m_offset := sint (total_msgs (status smb6))\<rparr>
                in case smb_putmsg smb6 msg4 of (m, smb7, msg5) \<Rightarrow>
                  let smb8 = (if m = SMB_SUCCESS
                        then snd (smb_putstatus (smb7\<lparr>status := (status smb7)\<lparr>
                               last_msg := last_msg (status smb7) + 1,
                               total_msgs := total_msgs (status smb7) + 1\<rparr>\<rparr>))
                        else smb7)
                  in (m, unlock smb8, msg5))"

definition smb_unlockmsghdr :: "smb \<Rightarrow> smbmsg \<Rightarrow> int" where
  "smb_unlockmsghdr smb msg =
     (if \<not> is_open smb SHD then SMB_ERR_NOT_OPEN
      else if \<not> smb_valid_hdr_offset smb (ucast (idx_offset (idx msg))) then SMB_ERR_HDR_OFFSET
      else if unlock_ok (env smb) then SMB_SUCCESS else SMB_FAILURE)"

definition smb_updatemsg :: "smb \<Rightarrow> smbmsg \<Rightarrow> (int \<times> smb \<times> smbmsg) option" where
  "smb_updatemsg smb msg =
     (case smb_locksmbhdr smb of (r, smb1) \<Rightarrow>
        if r \<noteq> SMB_SUCCESS then Some (r, smb1, msg)
        else map_option (\<lambda>(r1, smb2, msg1).
          case (if r1 \<noteq> SMB_SUCCESS then (r1, smb2, msg1)
                else let r2 = smb_lockmsghdr smb2 (idx_offset (idx msg1))
                     in if r2 \<noteq> SMB_SUCCESS then (r2, smb2, msg1) else smb_putmsg smb2 msg1) of
            (r3, smb3, msg2) \<Rightarrow> (r3, snd (smb_unlocksmbhdr smb3), msg2))
          (smb_getmsgidx smb1 msg))"

definition smb_getmsghdr_by_hash ::
  "smb \<Rightarrow> smbmsg \<Rightarrow> byte \<Rightarrow> byte \<Rightarrow> byte list \<Rightarrow> nat \<Rightarrow> (int \<times> smb \<times> smbmsg) option" where
  "smb_getmsghdr_by_hash smb msg source flags data len =
     map_option (\<lambda>(r, smb1, msg1).
       if r \<noteq> SMB_SUCCESS then (r, smb1, msg1)
       else let r1 = smb_lockmsghdr smb1 (idx_offset (idx msg1))
            in if r1 \<noteq> SMB_SUCCESS then (r1, smb1, msg1) else smb_getmsghdr smb1 msg1)
       (smb_getmsgidx_by_hash smb msg source flags data len)"

section \<open>Threads\<close>

text \<open>The walk along the chain of replies has no bound of its own.\<close>

partial_function (option) updatethread_walk :: "u32 \<Rightarrow> u32 \<Rightarrow> smb \<Rightarrow> (int \<times> smb) option" where
  "updatethread_walk newmsgnum nextmsgnum smb =
     (case smb_getmsgidx smb (zero_msg\<lparr>hdr := zero_hdr\<lparr>hdr_number := nextmsgnum\<rparr>\<rparr>) of
        None \<Rightarrow> None
      | Some (r, smb1, msg1) \<Rightarrow>
          if r \<noteq> SMB_SUCCESS \<or> smb_lockmsghdr smb1 (idx_offset (idx msg1)) \<noteq> SMB_SUCCESS
          then Some (SMB_ERR_NOT_FOUND, smb1)
          else case smb_getmsghdr smb1 msg1 of (r1, smb2, msg2) \<Rightarrow>
            if r1 \<noteq> SMB_SUCCESS then Some (SMB_ERR_NOT_FOUND, smb2)
            else if thread_next (hdr msg2) \<noteq> 0 \<and> thread_next (hdr msg2) \<noteq> nextmsgnum
            then updatethread_walk newmsgnum (thread_next (hdr msg2)) smb2
            else case smb_putmsghdr smb2 (msg2\<lparr>hdr := (hdr msg2)\<lparr>thread_next := newmsgnum\<rparr>\<rparr>) of
              (r2, smb3, _) \<Rightarrow> Some (r2, smb3))"

definition smb_updatethread :: "smb \<Rightarrow> smbmsg \<Rightarrow> u32 \<Rightarrow> (int \<times> smb \<times> smbmsg) option" where
  "smb_updatethread smb remsg newmsgnum =
     (if thread_first (hdr remsg) = 0
      then case (if idx_offset (idx remsg) = 0 then smb_getmsgidx smb remsg
                 else Some (SMB_SUCCESS, smb, remsg)) of
          None \<Rightarrow> None
        | Some (r, smb1, m1) \<Rightarrow>
            if r \<noteq> SMB_SUCCESS then Some (r, smb1, m1)
            else let r1 = smb_lockmsghdr smb1 (idx_offset (idx m1))
                 in if r1 \<noteq> SMB_SUCCESS then Some (r1, smb1, m1)
                 else case (if hdr_length (hdr m1) = 0 then smb_getmsghdr smb1 m1
                            else (SMB_SUCCESS, smb1, m1)) of (r2, smb2, m2) \<Rightarrow>
                   if r2 \<noteq> SMB_SUCCESS then Some (r2, smb2, m2)
                   else Some (smb_putmsghdr smb2 (m2\<lparr>hdr := (hdr m2)\<lparr>thread_first := newmsgnum\<rparr>\<rparr>))
      else map_option (\<lambda>(r, smb1). (r, smb1, remsg))
        (updatethread_walk newmsgnum (thread_first (hdr remsg)) smb))"

section \<open>The CRC history\<close>

definition sch_write :: "smb \<Rightarrow> byte list \<Rightarrow> bool \<times> smb" where
  "sch_write smb bs =
     (if length (sch_file smb) + length bs \<le> medium (env smb)
      then (True, smb\<lparr>sch_file := sch_file smb @ bs\<rparr>) else (False, smb))"

definition smb_addcrc :: "(nat \<Rightarrow> byte) \<Rightarrow> smb \<Rightarrow> u32 \<Rightarrow> int \<times> smb" where
  "smb_addcrc beyond smb crc =
     (if max_crcs (status smb) = 0 then (SMB_SUCCESS, smb)
      else let r = open_loop (sch_tries (env smb)); buf = sch_file smb; len = length buf
        in if r \<noteq> SMB_SUCCESS then (r, smb)
        else if len mod 4 \<noteq> 0 then (SMB_ERR_FILE_LEN, smb)
        else if crc \<in> set (unpack 4 un_le32 buf) then (SMB_DUPE_MSG, smb)
        else let newlen = (unat (max_crcs (status smb)) - 1) * 4;
                 from = (len - newlen) * 4;
                 smb1 = (if len \<noteq> 0 \<and> unat (max_crcs (status smb)) * 4 \<le> len
                         then snd (sch_write (smb\<lparr>sch_file := []\<rparr>)
                           (map (\<lambda>i. if from + i < len then buf ! (from + i) else beyond (from + i - len))
                              [0..<newlen]))
                         else smb)
        in case sch_write smb1 (le32 crc) of
          (ok, smb2) \<Rightarrow> (if ok then SMB_SUCCESS else SMB_ERR_WRITE, smb2))"

end
