(* ===== verification/SmbHeader.thy ===== *)
theory SmbHeader
  imports SmbMsg
begin

text \<open>
  Writing a message header and reading it back: what \<open>smb_putmsghdr\<close> leaves on disk, and that
  \<open>smb_getmsghdr\<close> reads the same message from it. The lemmas say what a stored header is
  (\<open>stored\<close>) and what an operation leaves alone (\<open>untouched\<close>).
\<close>

section \<open>Writing and reading runs of bytes\<close>

lemma fwrite_all_ok:
  assumes "ftell smb x + length (b @ concat bss) \<le> max (length (disk smb x)) (medium (env smb))"
  shows "\<exists>smb'. fwrite_all smb x (b # bss) = (True, smb')
    \<and> disk smb' = (disk smb)(x := overwrite (disk smb x) (ftell smb x) (b @ concat bss))"
  using assms
proof (induction bss arbitrary: smb b)
  case Nil
  then show ?case by (simp add: fwrite_def Let_def fun_eq_iff)
next
  case (Cons c bss)
  obtain smb1 where w: "fwrite smb x b = (True, smb1)"
    using Cons.prems by (cases "fwrite smb x b") (auto simp: fwrite_def Let_def split: if_splits)
  note e = fwrite_okE [OF w]
  have "ftell smb1 x + length (c @ concat bss) \<le> max (length (disk smb1 x)) (medium (env smb1))"
    using Cons.prems by (auto simp: e)
  from Cons.IH [OF this] obtain smb' where
    "fwrite_all smb1 x (c # bss) = (True, smb')"
    "disk smb' = (disk smb1)(x := overwrite (disk smb1 x) (ftell smb1 x) (c @ concat bss))" by blast
  then show ?case using w by (simp add: e overwrite_overwrite_next fun_eq_iff)
qed

lemma fwrite_all_disk:
  assumes "fwrite_all smb x (b # bss) = (True, smb')"
  shows "disk smb' = (disk smb)(x := overwrite (disk smb x) (ftell smb x) (b @ concat bss))"
  using assms
proof (induction bss arbitrary: smb b)
  case Nil
  then show ?case by (auto dest: fwrite_okE split: prod.splits bool.splits)
next
  case (Cons c bss)
  then obtain smb1 where w: "fwrite smb x b = (True, smb1)"
    and r: "fwrite_all smb1 x (c # bss) = (True, smb')"
    by (auto split: prod.splits bool.splits)
  from Cons.IH [OF r] show ?case by (simp add: fwrite_okE [OF w] overwrite_overwrite_next fun_eq_iff)
qed

text \<open>Whatever happens, writing changes one file, and not before the position.\<close>

definition untouched :: "ext set \<Rightarrow> smb \<Rightarrow> smb \<Rightarrow> bool" where
  "untouched A smb smb' \<longleftrightarrow> env smb' = env smb \<and> status smb' = status smb
     \<and> (\<forall>y. y \<notin> A \<longrightarrow> disk smb' y = disk smb y \<and> is_open smb' y = is_open smb y)"

named_theorems untouched_intros \<open>what the operations leave untouched\<close>

lemma untouched_refl [intro, simp]: "untouched A smb smb"
  by (simp add: untouched_def)

lemma untouched_trans: "untouched A s t \<Longrightarrow> untouched B t u \<Longrightarrow> untouched (A \<union> B) s u"
  by (auto simp: untouched_def)

lemma untouched_mono: "untouched A s t \<Longrightarrow> A \<subseteq> B \<Longrightarrow> untouched B s t"
  by (auto simp: untouched_def)

lemma untouched_step: "untouched A s t \<Longrightarrow> untouched A t u \<Longrightarrow> untouched A s u"
  by (auto simp: untouched_def)

lemma untouched_fseek [untouched_intros]: "x \<in> A \<Longrightarrow> untouched A smb (fseek smb x p)"
  by (auto simp: untouched_def stream_simps)

lemma untouched_fseek_end [untouched_intros]: "x \<in> A \<Longrightarrow> untouched A smb (fseek_end smb x)"
  by (auto simp: untouched_def stream_simps)

lemma untouched_fwrite [untouched_intros]: "fwrite smb x bs = (ok, smb') \<Longrightarrow> x \<in> A \<Longrightarrow> untouched A smb smb'"
  by (auto simp: untouched_def fwrite_def Let_def is_open_def split: if_splits)

lemma untouched_fwrite_rep [untouched_intros]:
  "fwrite_rep n smb x bs = (ok, smb') \<Longrightarrow> x \<in> A \<Longrightarrow> untouched A smb smb'"
proof (induction n arbitrary: smb)
  case (Suc n)
  then show ?case
    by (auto split: prod.splits bool.splits dest: untouched_fwrite intro: untouched_step)
qed simp

lemma untouched_fwrite_all [untouched_intros]:
  "fwrite_all smb x bss = (ok, smb') \<Longrightarrow> x \<in> A \<Longrightarrow> untouched A smb smb'"
proof (induction bss arbitrary: smb)
  case (Cons b bss)
  then show ?case
    by (auto split: prod.splits bool.splits dest: untouched_fwrite intro: untouched_step)
qed simp

lemma fwrite_open: "fwrite smb x b = (ok, smb') \<Longrightarrow> is_open smb y \<Longrightarrow> is_open smb' y"
  by (auto simp: fwrite_def Let_def is_open_def split: if_splits)

lemma fwrite_all_open: "fwrite_all smb x bss = (ok, smb') \<Longrightarrow> is_open smb y \<Longrightarrow> is_open smb' y"
proof (induction bss arbitrary: smb)
  case (Cons b bss)
  then show ?case by (auto split: prod.splits bool.splits dest: fwrite_open)
qed simp

lemma untouched_open_fp [untouched_intros]:
  "smb_open_fp smb x = (r, smb') \<Longrightarrow> x \<in> A \<Longrightarrow> untouched A smb smb'"
  by (auto simp: smb_open_fp_def Let_def intro: untouched_fseek split: if_splits)

lemma untouched_close_fp [untouched_intros]: "x \<in> A \<Longrightarrow> untouched A smb (smb_close_fp smb x)"
  by (auto simp: untouched_def smb_close_fp_def is_open_def)

text \<open>A read moves a position and leaves everything else.\<close>

definition same_base :: "smb \<Rightarrow> smb \<Rightarrow> bool" where
  "same_base s s' \<longleftrightarrow> disk s' = disk s \<and> env s' = env s \<and> status s' = status s
     \<and> (\<forall>y. is_open s y \<longrightarrow> is_open s' y)"

lemma same_base_refl [simp]: "same_base s s"
  by (simp add: same_base_def)

lemma same_base_trans: "same_base s t \<Longrightarrow> same_base t u \<Longrightarrow> same_base s u"
  by (simp add: same_base_def)

lemma same_base_disk: "same_base s t \<Longrightarrow> disk t = disk s"
  by (simp add: same_base_def)

lemma same_base_fseek: "same_base s (fseek s x p)"
  by (simp add: same_base_def stream_simps)

lemma fread_run:
  assumes "drop (ftell smb x) (disk smb x) = bs @ rest" "length bs = n"
  obtains smb' where "fread smb x n = (bs, smb')" "same_base smb smb'"
    "drop (ftell smb' x) (disk smb' x) = rest"
proof -
  have "drop (ftell smb x + n) (disk smb x) = drop n (drop (ftell smb x) (disk smb x))"
    by (simp add: add.commute)
  then show ?thesis
    using assms by (intro that [of "fseek smb x (ftell smb x + n)"]) (simp_all add: fread_eq stream_simps same_base_fseek)
qed

section \<open>The header record\<close>

definition hdr_bytes :: "smbmsg \<Rightarrow> byte list" where
  "hdr_bytes msg = enc_hdr (hdr msg) @ concat (map enc_dfield (live_dfields msg))
     @ concat (concat (map hfield_record (hfields msg)))"

lemma read_dfields_run:
  assumes "drop (ftell smb SHD) (disk smb SHD) = concat (map enc_dfield ds) @ rest"
    "l + 10 * length ds \<le> hlen"
  shows "\<exists>smb'. read_dfields hlen (length ds) l smb acc
      = (SMB_SUCCESS, l + 10 * length ds, smb', acc @ ds)
    \<and> same_base smb smb' \<and> drop (ftell smb' SHD) (disk smb' SHD) = rest"
  using assms
proof (induction ds arbitrary: l smb acc)
  case (Cons d ds)
  have "drop (ftell smb SHD) (disk smb SHD) = enc_dfield d @ (concat (map enc_dfield ds) @ rest)"
    using Cons.prems(1) by simp
  from fread_run [OF this dfield_codec.length_enc] obtain smb1 where
    r: "fread smb SHD 10 = (enc_dfield d, smb1)" "same_base smb smb1"
    "drop (ftell smb1 SHD) (disk smb1 SHD) = concat (map enc_dfield ds) @ rest" by blast
  have "l + 10 + 10 * length ds \<le> hlen" using Cons.prems(2) by simp
  from Cons.IH [OF r(3) this, of "acc @ [d]"] show ?case
    using r Cons.prems(2) same_base_trans [OF r(2)]
    by (auto simp: dfield_codec.length_enc dfield_codec.dec_enc ac_simps)
qed simp

definition read_field :: "smbmsg \<Rightarrow> hfield \<times> byte list option \<Rightarrow> smbmsg" where
  "read_field m f = set_convenience_ptr
     (m\<lparr>hfields := hfields m @ [(fst f, Some (hfield_bytes f))]\<rparr>) (hf_type (fst f)) (hfield_bytes f)"

lemma foldl_read_field [simp]:
  "hfields (foldl read_field m fs) = hfields m @ map (\<lambda>f. (fst f, Some (hfield_bytes f))) fs"
  "dfields (foldl read_field m fs) = dfields m" "hdr (foldl read_field m fs) = hdr m"
  "idx (foldl read_field m fs) = idx m" "m_offset (foldl read_field m fs) = m_offset m"
  by (induction fs arbitrary: m) (auto simp: read_field_def ptr_simps)

lemma read_hfields_run:
  assumes "drop (ftell smb SHD) (disk smb SHD) = concat (concat (map hfield_record fs)) @ rest"
    "list_all wf_hfield fs" "hlen = l + sum_list (map hfield_size fs)"
  shows "\<exists>smb'. read_hfields hlen l smb msg = (SMB_SUCCESS, smb', foldl read_field msg fs)
    \<and> same_base smb smb'"
  using assms
proof (induction fs arbitrary: l smb msg)
  case Nil
  then show ?case by (simp add: read_hfields.simps [of l l])
next
  case (Cons f fs)
  let ?h = "fst f" and ?d = "hfield_bytes f" and ?rest = "concat (concat (map hfield_record fs)) @ rest"
  have len: "length ?d = unat (hf_length ?h)" using Cons.prems(2) by (simp add: wf_hfield_bytes)
  then have "drop (ftell smb SHD) (disk smb SHD) = enc_hfield ?h @ (?d @ ?rest)"
    using Cons.prems(1) by (auto simp: hfield_record_def [of f] split: if_splits)
  from fread_run [OF this hfield_codec.length_enc] obtain smb1 where
    r: "fread smb SHD 4 = (enc_hfield ?h, smb1)" "same_base smb smb1"
    "drop (ftell smb1 SHD) (disk smb1 SHD) = ?d @ ?rest" by blast
  obtain smb2 where d: "fread smb1 SHD (unat (hf_length ?h)) = (?d, smb2)" "same_base smb1 smb2"
    "drop (ftell smb2 SHD) (disk smb2 SHD) = ?rest"
    using fread_run [OF r(3) len] by blast
  let ?smb2 = "if unat (hf_length ?h) = 0 then smb1 else smb2"
  have s2: "same_base smb ?smb2" "drop (ftell ?smb2 SHD) (disk ?smb2 SHD) = ?rest"
    using r d len same_base_trans [OF r(2) d(2)] by auto
  have hl: "hlen = l + 4 + unat (hf_length ?h) + sum_list (map hfield_size fs)"
    using Cons.prems(3) by (simp add: hfield_size_def [of f])
  have "read_hfields hlen l smb msg
      = read_hfields hlen (l + 4 + unat (hf_length ?h)) ?smb2 (read_field msg f)"
    using r(1) d(1) len hl
    by (subst read_hfields.simps)
      (auto simp: hfield_codec.length_enc hfield_codec.dec_enc read_field_def Let_def)
  moreover have "list_all wf_hfield fs" using Cons.prems(2) by simp
  from Cons.IH [OF s2(2) this hl, of "read_field msg f"] obtain smb' where
    "read_hfields hlen (l + 4 + unat (hf_length ?h)) ?smb2 (read_field msg f)
      = (SMB_SUCCESS, smb', foldl read_field (read_field msg f) fs)" "same_base ?smb2 smb'" by blast
  ultimately show ?case using same_base_trans [OF s2(1), of smb'] by (intro exI [of _ smb']) simp
qed

definition stored :: "smb \<Rightarrow> u32 \<Rightarrow> smbmsg \<Rightarrow> bool" where
  "stored smb off m \<longleftrightarrow> hdr_fits m \<and> 0x110 \<le> hdr_version (hdr m) \<and> hdr_id (hdr m) = SHD_HEADER_ID
     \<and> unat (hdr_length (hdr m)) = smb_getmsghdrlen m
     \<and> (\<exists>rest. drop (unat off) (disk smb SHD) = hdr_bytes m @ rest)"

lemma wf_zero_hdr: "wf_hdr zero_hdr"
  by (simp add: wf_hdr_def zero_hdr_def)

lemma length_live_dfields: "wf_msg m \<Longrightarrow> length (live_dfields m) = unat (total_dfields (hdr m))"
  by (simp add: wf_msg_def live_dfields_def)

definition read_msg :: "smbmsg \<Rightarrow> smbmsg \<Rightarrow> smbmsg" where
  "read_msg m0 m = default_ptrs (foldl read_field
     (zero_msg\<lparr>idx := idx m0, m_offset := m_offset m0, hdr := hdr m, dfields := live_dfields m\<rparr>)
     (hfields m))"

lemma default_ptrs_frame [ptr_simps]:
  "hfields (default_ptrs msg) = hfields msg" "dfields (default_ptrs msg) = dfields msg"
  "hdr (default_ptrs msg) = hdr msg" "idx (default_ptrs msg) = idx msg"
  "m_offset (default_ptrs msg) = m_offset msg"
  by (simp_all add: default_ptrs_def Let_def)

lemma read_msg_fields [simp]:
  "hfields (read_msg m0 m) = map (\<lambda>f. (fst f, Some (hfield_bytes f))) (hfields m)"
  "dfields (read_msg m0 m) = live_dfields m" "hdr (read_msg m0 m) = hdr m"
  "idx (read_msg m0 m) = idx m0" "m_offset (read_msg m0 m) = m_offset m0"
  by (simp_all add: read_msg_def ptr_simps zero_msg_def)

lemma getmsghdr_stored:
  assumes op: "is_open smb SHD" and off: "smb_valid_hdr_offset smb (ucast (idx_offset (idx m0)))"
    and st: "stored smb (idx_offset (idx m0)) m"
  shows "\<exists>smb'. smb_getmsghdr smb m0 = (SMB_SUCCESS, smb', read_msg m0 m) \<and> same_base smb smb'"
proof -
  let ?smb0 = "fseek smb SHD (unat (idx_offset (idx m0)))"
  let ?hl = "unat (hdr_length (hdr m))" and ?n = "unat (total_dfields (hdr m))"
  obtain rest where "drop (ftell ?smb0 SHD) (disk ?smb0 SHD) = enc_hdr (hdr m)
      @ (concat (map enc_dfield (live_dfields m)) @ concat (concat (map hfield_record (hfields m))) @ rest)"
    using st by (auto simp: stored_def hdr_bytes_def stream_simps)
  note run = this
  have wf: "wf_msg m" "wf_hdr (hdr m)" using st by (auto simp: stored_def hdr_fits_def wf_msg_def)
  obtain smb1 where r1: "fread ?smb0 SHD 70 = (enc_hdr (hdr m), smb1)" "same_base ?smb0 smb1"
    "drop (ftell smb1 SHD) (disk smb1 SHD) = concat (map enc_dfield (live_dfields m))
      @ concat (concat (map hfield_record (hfields m))) @ rest"
    using fread_run [OF run length_enc_hdr [OF wf(2)]] by blast
  have b1: "same_base smb smb1" using same_base_fseek r1(2) by (rule same_base_trans)
  have ln: "length (live_dfields m) = ?n" using wf(1) by (rule length_live_dfields)
  have hl: "?hl = 70 + 10 * length (live_dfields m) + sum_list (map hfield_size (hfields m))"
    using st ln by (simp add: stored_def smb_getmsghdrlen_def)
  then have "70 + 10 * length (live_dfields m) \<le> ?hl" by simp
  from read_dfields_run [OF r1(3) this, of "[]"] obtain smb2 where
    r2: "read_dfields ?hl ?n 70 smb1 [] = (SMB_SUCCESS, 70 + 10 * length (live_dfields m), smb2, live_dfields m)"
    "same_base smb1 smb2"
    "drop (ftell smb2 SHD) (disk smb2 SHD) = concat (concat (map hfield_record (hfields m))) @ rest"
    unfolding ln by auto
  have "list_all wf_hfield (hfields m)" using wf(1) by (simp add: wf_msg_def)
  from read_hfields_run [OF r2(3) this hl] obtain smb3 where
    r3: "\<And>msg. read_hfields ?hl (70 + 10 * length (live_dfields m)) smb2 msg
        = (SMB_SUCCESS, smb3 msg, foldl read_field msg (hfields m)) \<and> same_base smb2 (smb3 msg)"
    by metis
  have b3: "same_base smb (smb3 msg)" for msg
    using b1 r2(2) r3 [of msg] by (auto intro: same_base_trans)
  have v: "\<not> hdr_version (hdr m) < 0x110" and i: "hdr_id (hdr m) = SHD_HEADER_ID"
    using st by (auto simp: stored_def)
  have e: "length (enc_hdr (hdr m)) = 70" "dec_hdr (enc_hdr (hdr m)) = hdr m"
      "drop 70 (enc_hdr zero_hdr) = []"
    using wf(2) by (simp_all add: length_enc_hdr dec_enc_hdr wf_zero_hdr)
  show ?thesis
    using op off v i
    by (simp add: smb_getmsghdr_def Let_def r1 r2 r3 e b3 read_msg_def)
qed

lemma drop_overwrite: "drop p (overwrite data p bs) = bs @ drop (p + length bs) data"
  by (auto simp: overwrite_def min_def)

definition put_hdr :: "smbmsg \<Rightarrow> smbmsg" where
  "put_hdr msg = msg\<lparr>hdr := (hdr msg)\<lparr>hdr_length := word_of_nat (smb_getmsghdrlen msg),
     hdr_id := SHD_HEADER_ID\<rparr>\<rparr>"

lemma put_hdr_fields [simp]:
  "hfields (put_hdr m) = hfields m" "dfields (put_hdr m) = dfields m" "idx (put_hdr m) = idx m"
  "m_offset (put_hdr m) = m_offset m" "live_dfields (put_hdr m) = live_dfields m"
  "smb_getmsghdrlen (put_hdr m) = smb_getmsghdrlen m"
  "hdr_version (hdr (put_hdr m)) = hdr_version (hdr m)" "hdr_id (hdr (put_hdr m)) = SHD_HEADER_ID"
  "hdr_number (hdr (put_hdr m)) = hdr_number (hdr m)"
  "thread_next (hdr (put_hdr m)) = thread_next (hdr m)"
  by (simp_all add: put_hdr_def live_dfields_def smb_getmsghdrlen_def)

lemma hdr_fits_put_hdr: "hdr_fits m \<Longrightarrow> hdr_fits (put_hdr m)"
  by (simp add: hdr_fits_def wf_msg_def wf_hdr_def) (simp add: put_hdr_def SHD_HEADER_ID_def)

lemma put_hdr_length: "hdr_fits m \<Longrightarrow> unat (hdr_length (hdr (put_hdr m))) = smb_getmsghdrlen m"
  by (simp add: put_hdr_def hdr_fits_def unat_of_nat)

text \<open>The blocks a header needs, and the room it has.\<close>

definition hdr_room :: "smbmsg \<Rightarrow> bool" where
  "hdr_room m \<longleftrightarrow> (smb_getmsghdrlen m + 255) div 256 \<le> (unat (hdr_length (hdr m)) + 255) div 256"

lemma hdr_room_blocks:
  assumes "hdr_fits m"
  shows "smb_hdrblocks (ucast (hdr_length (hdr m))) < smb_hdrblocks (of_nat (smb_getmsghdrlen m))
    \<longleftrightarrow> \<not> hdr_room m"
proof -
  have "unat (of_nat (smb_getmsghdrlen m) :: ulong) = smb_getmsghdrlen m"
    using assms by (simp add: hdr_fits_def unat_of_nat)
  moreover have "unat (ucast (hdr_length (hdr m)) :: ulong) = unat (hdr_length (hdr m))"
    using unat_u16_bound [of "hdr_length (hdr m)"] by (simp add: unsigned_ucast_eq take_bit_nat_eq_self)
  ultimately show ?thesis
    by (simp add: word_less_nat_alt unat_smb_hdrblocks hdr_room_def not_le)
qed

abbreviation pad256 :: "nat \<Rightarrow> nat" where
  "pad256 n \<equiv> (if n mod 256 = 0 then 0 else 256 - n mod 256)"

lemma concat_replicate_one [simp]: "concat (replicate n [x]) = replicate n x"
  by (induction n) auto

lemma length_hdr_bytes:
  assumes "wf_msg m"
  shows "length (hdr_bytes m) = smb_getmsghdrlen m"
proof -
  have "length (concat (concat (map hfield_record fs))) = sum_list (map hfield_size fs)"
    if "list_all wf_hfield fs" for fs
    using that
    by (induction fs)
      (auto simp: hfield_record_def hfield_codec.length_enc hfield_size_def wf_hfield_bytes)
  moreover have "length (enc_hdr (hdr m)) = 70" using assms by (simp add: wf_msg_def length_enc_hdr)
  moreover have "length (concat (map enc_dfield (live_dfields m))) = 10 * unat (total_dfields (hdr m))"
    using dfield_codec.length_wf_records [of "live_dfields m"] length_live_dfields [OF assms] by simp
  ultimately show ?thesis
    using assms by (simp add: hdr_bytes_def smb_getmsghdrlen_def wf_msg_def)
qed

lemma putmsghdr_cases:
  assumes "is_open smb SHD" "smb_valid_hdr_offset smb (ucast (idx_offset (idx m)))"
    "hdr_fits m" "hdr_room m"
  shows "smb_putmsghdr smb m =
    (case fwrite_all (fseek smb SHD (unat (idx_offset (idx m)))) SHD
        (enc_hdr (hdr (put_hdr m)) # map enc_dfield (live_dfields m)
          @ concat (map hfield_record (hfields m)) @ replicate (pad256 (smb_getmsghdrlen m)) [0]) of
      (ok, smb2) \<Rightarrow> (if ok then SMB_SUCCESS else SMB_ERR_WRITE, smb2, put_hdr m))"
  using assms hdr_room_blocks [OF assms(3)]
  by (simp add: smb_putmsghdr_def Let_def hdr_fits_def put_hdr_def [symmetric] del: fwrite_all.simps)

lemma put_bytes:
  "enc_hdr (hdr (put_hdr m)) @ concat (map enc_dfield (live_dfields m)
      @ concat (map hfield_record (hfields m)) @ replicate n [0]) = hdr_bytes (put_hdr m) @ replicate n 0"
  by (simp add: hdr_bytes_def)

text \<open>What a successful write leaves: the new header at the offset, everything before it as it was.\<close>

lemma stored_overwrite:
  assumes "hdr_fits m" "0x110 \<le> hdr_version (hdr m)"
    "disk smb' SHD = overwrite d (unat off) (hdr_bytes (put_hdr m) @ rest)"
  shows "stored smb' off (put_hdr m)"
  using assms hdr_fits_put_hdr [OF assms(1)] put_hdr_length [OF assms(1)]
  by (simp add: stored_def drop_overwrite)

lemma putmsghdr_success:
  assumes "smb_putmsghdr smb m = (SMB_SUCCESS, smb', m')" "hdr_fits m"
  shows "is_open smb SHD" "smb_valid_hdr_offset smb (ucast (idx_offset (idx m)))" "hdr_room m"
    "m' = put_hdr m" "untouched {SHD} smb smb'" "is_open smb' SHD"
    "disk smb' SHD = overwrite (disk smb SHD) (unat (idx_offset (idx m)))
      (hdr_bytes (put_hdr m) @ replicate (pad256 (smb_getmsghdrlen m)) 0)"
proof -
  show a: "is_open smb SHD" "smb_valid_hdr_offset smb (ucast (idx_offset (idx m)))" "hdr_room m"
    using assms hdr_room_blocks [OF assms(2)]
    by (auto simp: smb_putmsghdr_def Let_def smb_codes split: if_splits)
  obtain smb2 where w: "fwrite_all (fseek smb SHD (unat (idx_offset (idx m)))) SHD
        (enc_hdr (hdr (put_hdr m)) # map enc_dfield (live_dfields m)
          @ concat (map hfield_record (hfields m)) @ replicate (pad256 (smb_getmsghdrlen m)) [0])
      = (True, smb2)" and e: "smb' = smb2" "m' = put_hdr m"
    using assms(1) unfolding putmsghdr_cases [OF a(1,2) assms(2) a(3)]
    by (auto simp: smb_codes simp del: fwrite_all.simps split: prod.splits if_splits)
  show "m' = put_hdr m" by (rule e)
  show "untouched {SHD} smb smb'"
    using untouched_fwrite_all [OF w, of "{SHD}"] untouched_fseek [of SHD "{SHD}" smb]
    unfolding e by (auto intro: untouched_step)
  show "is_open smb' SHD" using fwrite_all_open [OF w] unfolding e by (simp add: stream_simps)
  show "disk smb' SHD = overwrite (disk smb SHD) (unat (idx_offset (idx m)))
      (hdr_bytes (put_hdr m) @ replicate (pad256 (smb_getmsghdrlen m)) 0)"
    using fwrite_all_disk [OF w] unfolding e put_bytes by (simp add: stream_simps)
qed

lemma putmsghdr_runs:
  assumes "is_open smb SHD" "smb_valid_hdr_offset smb (ucast (idx_offset (idx m)))"
    "hdr_fits m" "hdr_room m"
    "unat (idx_offset (idx m)) + smb_getmsghdrlen m + 255 \<le> medium (env smb)"
  shows "\<exists>smb'. smb_putmsghdr smb m = (SMB_SUCCESS, smb', put_hdr m)"
proof -
  let ?s = "fseek smb SHD (unat (idx_offset (idx m)))"
  let ?bss = "map enc_dfield (live_dfields m) @ concat (map hfield_record (hfields m))
    @ replicate (pad256 (smb_getmsghdrlen m)) [0 :: byte]"
  have "wf_msg (put_hdr m)" using hdr_fits_put_hdr [OF assms(3)] by (simp add: hdr_fits_def)
  from length_hdr_bytes [OF this] have
    "length (enc_hdr (hdr (put_hdr m)) @ concat ?bss) = smb_getmsghdrlen m + pad256 (smb_getmsghdrlen m)"
    unfolding put_bytes by simp
  moreover have "pad256 (smb_getmsghdrlen m) \<le> 255" by auto
  ultimately have "ftell ?s SHD + length (enc_hdr (hdr (put_hdr m)) @ concat ?bss)
      \<le> max (length (disk ?s SHD)) (medium (env ?s))"
    using assms(5) by (simp only: stream_simps ftell_fseek) linarith
  from fwrite_all_ok [OF this] obtain smb' where
    "fwrite_all ?s SHD (enc_hdr (hdr (put_hdr m)) # ?bss) = (True, smb')" by blast
  then show ?thesis unfolding putmsghdr_cases [OF assms(1-4)] by simp
qed

text \<open>
  C27: Writing the header of a message that fits its allocated blocks succeeds where there is room
  on the medium, and reading it back at the same offset gives the same fixed part (with the
  identifier and the actual length filled in), the same data fields and the same header fields
  with their data, and changes no file.
\<close>

theorem smb_putmsghdr_getmsghdr:
  assumes "is_open smb SHD" "smb_valid_hdr_offset smb (ucast (idx_offset (idx m)))"
    "hdr_fits m" "hdr_room m" "0x110 \<le> hdr_version (hdr m)"
    "unat (idx_offset (idx m)) + smb_getmsghdrlen m + 255 \<le> medium (env smb)"
    "idx_offset (idx m0) = idx_offset (idx m)"
  shows "\<exists>smb1 smb2 m1 m2. smb_putmsghdr smb m = (SMB_SUCCESS, smb1, m1)
    \<and> smb_getmsghdr smb1 m0 = (SMB_SUCCESS, smb2, m2) \<and> disk smb2 = disk smb1
    \<and> hdr m2 = hdr m1
    \<and> hdr m1 = (hdr m)\<lparr>hdr_length := word_of_nat (smb_getmsghdrlen m), hdr_id := SHD_HEADER_ID\<rparr>
    \<and> dfields m2 = live_dfields m
    \<and> map (\<lambda>f. (fst f, hfield_bytes f)) (hfields m2) = map (\<lambda>f. (fst f, hfield_bytes f)) (hfields m)"
proof -
  obtain smb1 where put: "smb_putmsghdr smb m = (SMB_SUCCESS, smb1, put_hdr m)"
    using putmsghdr_runs [OF assms(1-4,6)] by blast
  note p = putmsghdr_success [OF put assms(3)]
  have st: "status smb1 = status smb" using p(5) by (simp add: untouched_def)
  have "stored smb1 (idx_offset (idx m)) (put_hdr m)"
    using stored_overwrite [OF assms(3,5) p(7)] by simp
  then have "stored smb1 (idx_offset (idx m0)) (put_hdr m)" using assms(7) by simp
  moreover have "smb_valid_hdr_offset smb1 (ucast (idx_offset (idx m0)))"
    using assms(2,7) st by (simp add: smb_valid_hdr_offset_def)
  ultimately obtain smb2 where
    g: "smb_getmsghdr smb1 m0 = (SMB_SUCCESS, smb2, read_msg m0 (put_hdr m))" "disk smb2 = disk smb1"
    using getmsghdr_stored [OF p(6)] same_base_disk by blast
  have "list_all wf_hfield (hfields m)" using assms(3) by (simp add: hdr_fits_def wf_msg_def)
  then have "map (\<lambda>f. (fst f, hfield_bytes f)) (hfields (read_msg m0 (put_hdr m)))
      = map (\<lambda>f. (fst f, hfield_bytes f)) (hfields m)"
    by (auto simp: list_all_iff hfield_bytes_def split: option.splits)
  moreover have "hdr (put_hdr m) = (hdr m)\<lparr>hdr_length := word_of_nat (smb_getmsghdrlen m),
      hdr_id := SHD_HEADER_ID\<rparr>" by (simp add: put_hdr_def)
  ultimately show ?thesis using put g by (intro exI conjI) (assumption | simp)+
qed

definition sample_put :: smbmsg where
  "sample_put = sample_fields\<lparr>idx := zero_idx\<lparr>idx_offset := 32\<rparr>,
     hdr := zero_hdr\<lparr>hdr_version := 0x121, hdr_length := 82\<rparr>\<rparr>"

lemma sample_put_facts:
  "smb_getmsghdrlen sample_put = 82" "hdr_fits sample_put" "hdr_room sample_put"
  "idx_offset (idx sample_put) = 32" "hdr_version (hdr sample_put) = 0x121"
  by (simp_all add: sample_put_def sample_fields_def zero_msg_def zero_hdr_def smb_getmsghdrlen_def
    hfield_size_def hdr_fits_def wf_msg_def wf_hdr_def wf_hfield_def hdr_room_def cs_def)

theorem smb_putmsghdr_getmsghdr_witness:
  "\<exists>smb1 smb2 m1 m2. smb_putmsghdr (sample_smb (\<lambda>_. [])) sample_put = (SMB_SUCCESS, smb1, m1)
    \<and> smb_getmsghdr smb1 sample_put = (SMB_SUCCESS, smb2, m2) \<and> hdr m2 = hdr m1
    \<and> hdr_length (hdr m1) = 82"
proof -
  have "is_open (sample_smb (\<lambda>_. [])) SHD" "medium (env (sample_smb (\<lambda>_. []))) = 65536"
    "smb_valid_hdr_offset (sample_smb (\<lambda>_. [])) (ucast (idx_offset (idx sample_put)))"
    by (simp_all add: sample_smb_def sample_env_def is_open_def smb_valid_hdr_offset_def
      sample_put_facts empty_status_def)
  from smb_putmsghdr_getmsghdr [OF this(1,3) sample_put_facts(2,3), of sample_put] this(2)
  show ?thesis by (auto simp: sample_put_facts)
qed

end
