(* ===== verification/SmbAddHdr.thy ===== *)
theory SmbAddHdr
  imports SmbHeader
begin

text \<open>
  Adding a message keeps the index sorted by message number and in step with the status header,
  whatever happens on the way.
\<close>

section \<open>Adding a message\<close>

definition disk_status :: "smb \<Rightarrow> smbstatus" where
  "disk_status smb = dec_status (fld 8 24 (disk smb SHD))"

text \<open>Where a message's text is.\<close>

definition text_of :: "smbmsg \<Rightarrow> u32 \<times> dfield list" where
  "text_of m = (hdr_offset (hdr m), live_dfields m)"

text \<open>The index and the status header of a base in step: as many records as the status says,
  their numbers strictly increasing and none above the last number given out.\<close>

definition index_ok :: "smb \<Rightarrow> bool" where
  "index_ok smb \<longleftrightarrow> 32 \<le> length (disk smb SHD)
     \<and> length (disk smb SID) = 20 * unat (total_msgs (disk_status smb))
     \<and> sorted_wrt (\<lambda>a b. idx_number a < idx_number b) (sid_table smb)
     \<and> (\<forall>r \<in> set (sid_table smb). idx_number r \<le> last_msg (disk_status smb))"

text \<open>A step that keeps the index, the texts, the status and the first 32 bytes of the header file.\<close>

definition kept :: "smb \<Rightarrow> smb \<Rightarrow> bool" where
  "kept s s' \<longleftrightarrow> disk s' SID = disk s SID \<and> disk s' SDT = disk s SDT \<and> take 32 (disk s' SHD) = take 32 (disk s SHD)
     \<and> (32 \<le> length (disk s SHD) \<longrightarrow> 32 \<le> length (disk s' SHD))"

lemma kept_refl [simp]: "kept s s"
  by (simp add: kept_def)

lemma kept_trans: "kept s t \<Longrightarrow> kept t u \<Longrightarrow> kept s u"
  by (auto simp: kept_def)

lemma kept_disk: "disk s' = disk s \<Longrightarrow> kept s s'"
  by (simp add: kept_def)

lemma kept_untouched: "untouched A s s' \<Longrightarrow> SHD \<notin> A \<Longrightarrow> SID \<notin> A \<Longrightarrow> SDT \<notin> A \<Longrightarrow> kept s s'"
  by (simp add: untouched_def kept_def)

lemma untouched_status: "untouched A s s' \<Longrightarrow> status s' = status s"
  by (simp add: untouched_def)

lemma kept_disk_status:
  assumes "kept s s'" "32 \<le> length (disk s SHD)"
  shows "disk_status s' = disk_status s"
proof -
  have "fld 8 24 d = drop 8 (take 32 d)" for d by (simp add: fld_def drop_take)
  then show ?thesis using assms by (simp add: disk_status_def kept_def)
qed

lemma kept_index_ok:
  assumes "kept s s'" "index_ok s"
  shows "index_ok s'" "disk_status s' = disk_status s" "sid_table s' = sid_table s"
proof -
  have l: "32 \<le> length (disk s SHD)" using assms(2) by (simp add: index_ok_def)
  show e: "disk_status s' = disk_status s" using assms(1) l by (rule kept_disk_status)
  show t: "sid_table s' = sid_table s" using assms(1) by (simp add: sid_table_def kept_def)
  show "index_ok s'" using assms l unfolding index_ok_def e t by (simp add: kept_def)
qed

lemma disk_locksmbhdr: "smb_locksmbhdr smb = (r, smb') \<Longrightarrow> disk smb' = disk smb \<and> status smb' = status smb"
proof -
  have "locksmbhdr_loop ts smb = (r, smb') \<Longrightarrow> disk smb' = disk smb \<and> status smb' = status smb" for ts
    by (induction ts arbitrary: smb) (fastforce split: if_splits)+
  then show "smb_locksmbhdr smb = (r, smb') \<Longrightarrow> disk smb' = disk smb \<and> status smb' = status smb"
    by (auto simp: smb_locksmbhdr_def split: if_splits)
qed

lemma disk_unlocksmbhdr [simp]: "disk (snd (smb_unlocksmbhdr smb)) = disk smb"
  by (simp add: smb_unlocksmbhdr_def)

lemma getstatus_disk:
  assumes "smb_getstatus smb = (r, smb')"
  shows "disk smb' = disk smb"
    and "r = SMB_SUCCESS \<Longrightarrow> 32 \<le> length (disk smb SHD) \<Longrightarrow> status smb' = disk_status smb"
  using assms
  by (auto simp: smb_getstatus_def fread_eq stream_simps Let_def disk_status_def fld_def smb_codes split: if_splits)

lemma findhash_untouched:
  assumes "smb_findhash smb c smask mark = (r, smb', c', h)"
  shows "untouched {HASH} smb smb'"
proof -
  obtain r1 smb1 where o: "smb_open_fp smb HASH = (r1, smb1)" by fastforce
  have u: "untouched {HASH} smb smb1" using o by (rule untouched_open_fp) simp
  have "smb' \<in> {smb1, smb_close_fp smb1 HASH, fseek_end smb1 HASH}"
    using assms by (auto simp: smb_findhash_def o split: if_splits prod.splits option.splits)
  then show ?thesis
    using u untouched_close_fp [of HASH "{HASH}" smb1] untouched_fseek_end [of HASH "{HASH}" smb1]
    by (auto intro: untouched_step)
qed

lemma addhashes_untouched:
  assumes "smb_addhashes smb hs skip = (r, smb')"
  shows "untouched {HASH} smb smb'"
proof -
  have loop: "addhashes_loop skip hs s = (r', s') \<Longrightarrow> untouched {HASH} s s'" for s r' s'
  proof (induction hs arbitrary: s)
    case (Cons h hs)
    then show ?case
      by (auto split: prod.splits bool.splits if_splits dest: untouched_fwrite intro: untouched_step)
  qed simp
  obtain r1 smb1 where o: "smb_open_fp smb HASH = (r1, smb1)" by fastforce
  obtain r2 smb2 where l: "addhashes_loop skip hs (fseek_end smb1 HASH) = (r2, smb2)" by fastforce
  have u: "untouched {HASH} smb smb1" using o by (rule untouched_open_fp) simp
  have u2: "untouched {HASH} smb smb2"
    using u untouched_fseek_end [of HASH "{HASH}" smb1] loop [OF l] by (auto intro: untouched_step)
  have "smb' \<in> {smb, smb1, smb_close_fp smb2 HASH}"
    using assms by (auto simp: smb_addhashes_def o l split: if_splits)
  then show ?thesis
    using u u2 untouched_close_fp [of HASH "{HASH}" smb2] by (auto intro: untouched_step)
qed

lemma hashmsg_untouched:
  assumes "smb_hashmsg smb msg text update = (r, smb', msg')"
  shows "untouched {HASH} smb smb'"
    "hdr msg' = hdr msg \<and> hfields msg' = hfields msg \<and> dfields msg' = dfields msg"
proof -
  let ?hs = "smb_msghashes (clock (env smb)) msg text SMB_HASH_SOURCE_DUPE"
  obtain r1 smb1 c h where f: "smb_findhash smb ?hs SMB_HASH_SOURCE_DUPE update = (r1, smb1, c, h)"
    by (metis prod_cases4)
  obtain r2 smb2 where a: "smb_addhashes smb1 c True = (r2, smb2)" by fastforce
  have "smb' \<in> {smb, smb1, smb2}"
    "hdr msg' = hdr msg \<and> hfields msg' = hfields msg \<and> dfields msg' = dfields msg"
    using assms by (auto simp: smb_hashmsg_def Let_def f a split: if_splits)
  then show "untouched {HASH} smb smb'"
    "hdr msg' = hdr msg \<and> hfields msg' = hfields msg \<and> dfields msg' = dfields msg"
    using findhash_untouched [OF f] addhashes_untouched [OF a] by (auto intro: untouched_step)
qed

lemma allochdr_kept:
  "smb_allochdr smb len = (l, smb') \<Longrightarrow> kept smb smb' \<and> status smb' = status smb"
  "smb_fallochdr smb len = (l, smb') \<Longrightarrow> kept smb smb' \<and> status smb' = status smb"
  "smb_hallochdr smb = (l, smb') \<Longrightarrow> kept smb smb' \<and> status smb' = status smb"
proof -
  have rep: "kept smb smb'" "status smb' = status smb"
    if "fwrite_rep n (fseek smb SHA p) SHA bs = (ok, smb')" for n p bs ok
  proof -
    have "untouched {SHA} smb smb'"
      using untouched_fseek [of SHA "{SHA}" smb p] untouched_fwrite_rep [OF that, of "{SHA}"]
      by (auto intro: untouched_step)
    then show "kept smb smb'" "status smb' = status smb"
      by (auto intro: kept_untouched untouched_status)
  qed
  show "kept smb smb' \<and> status smb' = status smb" if a: "smb_allochdr smb len = (l, smb')"
  proof (cases "is_open smb SHA")
    case True
    then obtain n p bs ok where "fwrite_rep n (fseek smb SHA p) SHA bs = (ok, smb')"
      using a by (auto simp: smb_allochdr_def Let_def split: prod.splits)
    then show ?thesis using rep by blast
  qed (use a in \<open>simp add: smb_allochdr_def\<close>)
  show "kept smb smb' \<and> status smb' = status smb" if a: "smb_fallochdr smb len = (l, smb')"
  proof (cases "is_open smb SHA")
    case True
    then obtain n p bs ok where "fwrite_rep n (fseek smb SHA p) SHA bs = (ok, smb')"
      using a by (auto simp: smb_fallochdr_def fseek_end_def Let_def split: prod.splits)
    then show ?thesis using rep by blast
  qed (use a in \<open>simp add: smb_fallochdr_def\<close>)
  show "smb_hallochdr smb = (l, smb') \<Longrightarrow> kept smb smb' \<and> status smb' = status smb"
    by (auto simp: smb_hallochdr_def Let_def stream_simps intro!: kept_disk split: if_splits)
qed

lemma text_of_put_hdr [simp]: "text_of (put_hdr m) = text_of m"
  by (simp add: text_of_def) (simp add: put_hdr_def)

lemma fwrite_all_low:
  assumes "fwrite_all smb x bss = (ok, smb')" "k \<le> ftell smb x" "k \<le> length (disk smb x)"
  shows "take k (disk smb' x) = take k (disk smb x) \<and> length (disk smb x) \<le> length (disk smb' x)"
  using assms
proof (induction bss arbitrary: smb)
  case (Cons b bss)
  show ?case
  proof (cases "fwrite smb x b")
    case (Pair w smb1)
    show ?thesis
    proof (cases w)
      case True
      have w: "fwrite smb x b = (True, smb1)" using Pair True by simp
      note e = fwrite_okE [OF w]
      have r: "fwrite_all smb1 x bss = (ok, smb')" using Cons.prems(1) Pair True by simp
      have "k \<le> ftell smb1 x" "k \<le> length (disk smb1 x)" using Cons.prems by (auto simp: e)
      from Cons.IH [OF r this] show ?thesis
        using Cons.prems(2,3) by (auto simp: e overwrite_def)
    next
      case False
      then show ?thesis using Cons.prems(1) Pair fwrite_refused [of smb x b smb1] by auto
    qed
  qed
qed simp

lemma unat_ucast_32_64: "unat (ucast (w :: u32) :: ulong) = unat w"
  using unat_u32_bound [of w] by (simp add: unsigned_ucast_eq take_bit_nat_eq_self)

lemma valid_offset_32: "smb_valid_hdr_offset smb (ucast (off :: u32)) \<Longrightarrow> 32 \<le> unat off"
  by (simp add: smb_valid_hdr_offset_def word_less_nat_alt unat_ucast_32_64)

lemma putmsghdr_kept:
  assumes "smb_putmsghdr smb m = (r, smb', m')" "32 \<le> length (disk smb SHD)"
  shows "kept smb smb' \<and> status smb' = status smb \<and> idx m' = idx m \<and> m_offset m' = m_offset m
    \<and> hdr_number (hdr m') = hdr_number (hdr m) \<and> (\<forall>y. is_open smb y \<longrightarrow> is_open smb' y)
    \<and> text_of m' = text_of m"
proof -
  let ?s = "fseek smb SHD (unat (idx_offset (idx m)))"
  have s: "kept smb ?s" "status ?s = status smb" by (simp_all add: kept_disk stream_simps)
  consider "smb' \<in> {smb, ?s}" "m' = m"
    | bss ok where "fwrite_all ?s SHD bss = (ok, smb')" "32 \<le> unat (idx_offset (idx m))"
      "idx m' = idx m" "m_offset m' = m_offset m" "hdr_number (hdr m') = hdr_number (hdr m)"
      "text_of m' = text_of m"
  proof (cases "is_open smb SHD \<and> smb_valid_hdr_offset smb (ucast (idx_offset (idx m)))
      \<and> smb_getmsghdrlen m \<le> 65535
      \<and> \<not> smb_hdrblocks (ucast (hdr_length (hdr m))) < smb_hdrblocks (of_nat (smb_getmsghdrlen m))")
    case True
    then have "32 \<le> unat (idx_offset (idx m))" by (auto intro: valid_offset_32)
    moreover obtain ok where "fwrite_all ?s SHD (enc_hdr (hdr (put_hdr m)) # map enc_dfield (live_dfields m)
          @ concat (map hfield_record (hfields m)) @ replicate (pad256 (smb_getmsghdrlen m)) [0]) = (ok, smb')"
      "m' = put_hdr m"
      using assms(1) True
      by (simp add: smb_putmsghdr_def Let_def put_hdr_def [symmetric] del: fwrite_all.simps split: prod.splits)
    ultimately show ?thesis using that(2) by (simp del: fwrite_all.simps)
  next
    case False
    then have "smb' \<in> {smb, ?s} \<and> m' = m"
      using assms(1) by (auto simp: smb_putmsghdr_def Let_def simp del: fwrite_all.simps split: if_splits)
    then show ?thesis using that(1) by blast
  qed
  then show ?thesis
  proof cases
    case 1
    then show ?thesis using s by (auto simp: stream_simps)
  next
    case 2
    have "kept smb smb'"
      using fwrite_all_low [OF 2(1), of 32] 2(2) assms(2) untouched_fwrite_all [OF 2(1), of "{SHD}"]
      by (auto simp: kept_def untouched_def stream_simps)
    moreover have "status smb' = status smb"
      using untouched_fwrite_all [OF 2(1), of "{SHD}"] by (simp add: untouched_def stream_simps)
    moreover have "\<forall>y. is_open smb y \<longrightarrow> is_open smb' y"
      using fwrite_all_open [OF 2(1)] by (simp add: stream_simps)
    ultimately show ?thesis using 2 by blast
  qed
qed

lemma putmsg_kept:
  assumes put: "smb_putmsg smb m = (r, smb', m')"
    and len: "32 \<le> length (disk smb SHD)" "length (disk smb SID) = 20 * k" "m_offset m = int k"
  shows "take 32 (disk smb' SHD) = take 32 (disk smb SHD)" "32 \<le> length (disk smb' SHD)"
    "status smb' = status smb" "disk smb' SDT = disk smb SDT" "text_of m' = text_of m"
    "r \<noteq> SMB_SUCCESS \<Longrightarrow> disk smb' SID = disk smb SID"
    "r = SMB_SUCCESS \<Longrightarrow> sid_table smb' = sid_table smb @ [idx m']
      \<and> length (disk smb' SID) = 20 * (k + 1) \<and> idx_number (idx m') = hdr_number (hdr m)
      \<and> is_open smb' SHD \<and> is_open smb' SID"
    "r = SMB_SUCCESS \<Longrightarrow> hdr_fits m \<Longrightarrow> 0x110 \<le> hdr_version (hdr m) \<Longrightarrow>
      stored smb' (idx_offset (idx m')) m' \<and> hfields m' = hfields m \<and> live_dfields m' = live_dfields m
      \<and> smb_valid_hdr_offset smb (ucast (idx_offset (idx m')))"
proof -
  let ?m = "smb_init_idx smb m"
  have im: "m_offset ?m = int k" "idx_number (idx ?m) = hdr_number (hdr m)" "text_of ?m = text_of m"
    using len(3) by (simp_all add: smb_init_idx_def Let_def text_of_def live_dfields_def)
  obtain r1 smb1 m1 where p: "smb_putmsghdr smb ?m = (r1, smb1, m1)" by (metis prod_cases3)
  note pk = putmsghdr_kept [OF p len(1)]
  obtain r2 smb2 where x: "smb_putmsgidx smb1 m1 = (r2, smb2)" by fastforce
  have m1: "m_offset m1 = int k" "idx_number (idx m1) = hdr_number (hdr m)" using pk im by simp_all
  have d1: "length (disk smb1 SID) = 20 * k" "sid_table smb1 = sid_table smb"
    using pk len(2) by (simp_all add: kept_def sid_table_def)
  have res: "(r, smb', m') = (if r1 \<noteq> SMB_SUCCESS then (r1, smb1, m1) else (r2, smb2, m1))"
    using put p x by (cases "r1 = SMB_SUCCESS") (simp_all add: smb_putmsg_def Let_def)
  have fail: "disk smb2 = disk smb1 \<and> status smb2 = status smb1" if "r2 \<noteq> SMB_SUCCESS"
    using x that
    by (auto simp: smb_putmsgidx_def Let_def stream_simps smb_codes
      dest!: fwrite_refused split: if_splits prod.splits)
  have s2: "status smb2 = status smb1" "disk smb2 SHD = disk smb1 SHD" "disk smb2 SDT = disk smb1 SDT"
  proof -
    have "status smb2 = status smb1 \<and> disk smb2 SHD = disk smb1 SHD \<and> disk smb2 SDT = disk smb1 SDT"
    proof (cases "r2 = SMB_SUCCESS")
      case True
      then have "smb_putmsgidx smb1 m1 = (SMB_SUCCESS, smb2)" using x by simp
      note q = putmsgidx_success [OF d1(1) m1(1) this]
      show ?thesis by (simp add: q(4,5))
    qed (simp add: fail)
    then show "status smb2 = status smb1" "disk smb2 SHD = disk smb1 SHD" "disk smb2 SDT = disk smb1 SDT"
      by simp_all
  qed
  show "take 32 (disk smb' SHD) = take 32 (disk smb SHD)" "32 \<le> length (disk smb' SHD)"
    "status smb' = status smb" "disk smb' SDT = disk smb SDT" "text_of m' = text_of m"
    using res s2 pk len(1) im(3) by (auto simp: kept_def split: if_splits)
  show "disk smb' SID = disk smb SID" if "r \<noteq> SMB_SUCCESS"
    using res fail pk that by (auto simp: kept_def split: if_splits)
  assume ok: "r = SMB_SUCCESS"
  then have e: "smb' = smb2" "m' = m1" "r2 = SMB_SUCCESS" "r1 = SMB_SUCCESS"
    using res by (auto simp: smb_codes split: if_splits)
  note q = putmsgidx_success [OF d1(1) m1(1) x [unfolded e(3)]]
  have "length (disk smb2 SID) = 20 * (k + 1)"
    using d1(1) by (simp add: q idx_codec.length_enc)
  moreover have "is_open smb SHD"
    using p e(4) by (auto simp: smb_putmsghdr_def smb_codes split: if_splits)
  then have "is_open smb2 SHD" using pk q(8) by simp
  ultimately show "sid_table smb' = sid_table smb @ [idx m']
      \<and> length (disk smb' SID) = 20 * (k + 1) \<and> idx_number (idx m') = hdr_number (hdr m)
      \<and> is_open smb' SHD \<and> is_open smb' SID"
    using q(3,9) m1 d1(2) e by simp
  assume fits: "hdr_fits m" and ver: "0x110 \<le> hdr_version (hdr m)"
  have "hdr_fits ?m" using fits
    by (simp add: smb_init_idx_def Let_def hdr_fits_def wf_msg_def smb_getmsghdrlen_def)
  moreover have "hdr_version (hdr ?m) = hdr_version (hdr m)" by (simp add: smb_init_idx_def Let_def)
  moreover note w = putmsghdr_success [OF p [unfolded e(4)] calculation(1)]
  ultimately have "stored smb1 (idx_offset (idx ?m)) (put_hdr ?m)"
    using ver by (intro stored_overwrite [OF _ _ w(7)]) simp_all
  then show "stored smb' (idx_offset (idx m')) m' \<and> hfields m' = hfields m
      \<and> live_dfields m' = live_dfields m \<and> smb_valid_hdr_offset smb (ucast (idx_offset (idx m')))"
    using w(2,4) e s2(2)
    by (simp add: stored_def) (simp add: smb_init_idx_def Let_def live_dfields_def)
qed

text \<open>The last step: the new status goes over the old one.\<close>

lemma putstatus_disk:
  assumes "is_open smb SHD" "32 \<le> length (disk smb SHD)"
  shows "disk (snd (smb_putstatus smb)) SID = disk smb SID \<and> disk (snd (smb_putstatus smb)) SDT = disk smb SDT"
    and "disk_status (snd (smb_putstatus smb)) = status smb"
    and "32 \<le> length (disk (snd (smb_putstatus smb)) SHD)"
    and putstatus_tail: "\<And>n. 32 \<le> n \<Longrightarrow> drop n (disk (snd (smb_putstatus smb)) SHD) = drop n (disk smb SHD)"
proof -
  have "fst (fwrite (fseek smb SHD 8) SHD (enc_status (status smb)))"
    using assms(2) by (simp add: fwrite_ok_iff stream_simps)
  then obtain smb' where w: "fwrite (fseek smb SHD 8) SHD (enc_status (status smb)) = (True, smb')"
    by (metis prod.collapse)
  have s: "snd (smb_putstatus smb) = smb'" using assms(1) by (simp add: smb_putstatus_def w)
  note e = fwrite_okE [OF w]
  have "drop n (disk smb' SHD) = drop n (disk smb SHD)" if "32 \<le> n" for n
    using that assms(2) by (simp add: e stream_simps overwrite_inside)
  then show "\<And>n. 32 \<le> n \<Longrightarrow> drop n (disk (snd (smb_putstatus smb)) SHD) = drop n (disk smb SHD)"
    by (simp add: s)
  have "take 24 (drop 8 (disk smb' SHD)) = enc_status (status smb)"
    using take_drop_overwrite [of "enc_status (status smb)" 8 "disk smb SHD"] by (simp add: e stream_simps)
  then show "disk_status (snd (smb_putstatus smb)) = status smb"
    by (simp add: s disk_status_def fld_def status_codec.dec_enc)
  show "disk (snd (smb_putstatus smb)) SID = disk smb SID \<and> disk (snd (smb_putstatus smb)) SDT = disk smb SDT"
    "32 \<le> length (disk (snd (smb_putstatus smb)) SHD)"
    using assms(2) by (simp_all add: s e stream_simps)
qed

lemma putstatus_frame:
  assumes "is_open smb SHD"
  shows "status (snd (smb_putstatus smb)) = status smb"
    and "is_open smb y \<Longrightarrow> is_open (snd (smb_putstatus smb)) y"
proof -
  obtain ok smb1 where w: "fwrite (fseek smb SHD 8) SHD (enc_status (status smb)) = (ok, smb1)" by fastforce
  have s: "snd (smb_putstatus smb) = smb1" using assms by (simp add: smb_putstatus_def w)
  show "status (snd (smb_putstatus smb)) = status smb"
    using untouched_status [OF untouched_fwrite [OF w, of "{SHD}"]] by (simp add: s stream_simps)
  show "is_open smb y \<Longrightarrow> is_open (snd (smb_putstatus smb)) y"
    using fwrite_open [OF w, of y] by (simp add: s stream_simps)
qed

lemma is_open_status [simp]: "is_open (s\<lparr>status := x\<rparr>) y = is_open s y"
  by (simp add: is_open_def)

lemma unlock_frame:
  "status (snd (smb_unlocksmbhdr s)) = status s" "is_open (snd (smb_unlocksmbhdr s)) y = is_open s y"
  by (simp_all add: smb_unlocksmbhdr_def is_open_def)

definition bump :: "smbstatus \<Rightarrow> smbstatus" where
  "bump st = st\<lparr>last_msg := last_msg st + 1, total_msgs := total_msgs st + 1\<rparr>"

lemma index_ok_append:
  assumes "index_ok smb" "st = disk_status smb"
    "unat (last_msg st) + 1 < 2 ^ 32" "unat (total_msgs st) + 1 < 2 ^ 32"
    and "32 \<le> length (disk smb' SHD)" "disk_status smb' = bump st"
    "sid_table smb' = sid_table smb @ [r]" "idx_number r = last_msg st + 1"
    "length (disk smb' SID) = 20 * (unat (total_msgs st) + 1)"
  shows "index_ok smb'"
proof -
  have t: "unat (total_msgs st + 1) = unat (total_msgs st) + 1"
    and l: "unat (last_msg st + 1) = unat (last_msg st) + 1"
    using assms(3,4) by (simp_all add: unat_word_ariths)
  have up: "x < last_msg st + 1" if "x \<le> last_msg st" for x
    using that l by (simp add: word_less_nat_alt word_le_nat_alt)
  then show ?thesis
    using assms t by (auto simp: index_ok_def bump_def sorted_wrt_append intro: less_imp_le)
qed

lemma sint_eq_uint_u32:
  assumes "unat w < 2 ^ 31"
  shows "sint (w :: u32) = int (unat w)"
proof -
  have "uint w < 2 ^ 31" using assms unfolding uint_nat by (metis of_nat_less_iff of_nat_numeral of_nat_power)
  then show ?thesis
    using signed_of_nat [of "unat w", where ?'a = int and ?'b = 32]
      signed_take_bit_int_eq_self [of 31 "uint w"] order_trans [of "- (2 ^ 31)" 0 "uint w"]
    by simp
qed

lemma addmsghdr_index:
  assumes ok: "index_ok smb" and st: "st = disk_status smb"
    and room: "unat (last_msg st) + 1 < 2 ^ 32" "unat (total_msgs st) + 1 < 2 ^ 31"
    and add: "smb_addmsghdr smb msg storage = (r, smb', msg')"
  shows "index_ok smb' \<and> disk smb' SDT = disk smb SDT \<and> text_of msg' = text_of msg
    \<and> (if r = SMB_SUCCESS
      then disk_status smb' = bump st \<and> sid_table smb' = sid_table smb @ [idx msg']
        \<and> idx_number (idx msg') = last_msg st + 1
        \<and> (hdr_fits msg \<and> (hdr_version (hdr msg) = 0 \<or> 0x110 \<le> hdr_version (hdr msg)) \<longrightarrow>
             stored smb' (idx_offset (idx msg')) msg' \<and> hfields msg' = hfields msg
             \<and> live_dfields msg' = live_dfields msg
             \<and> smb_valid_hdr_offset smb' (ucast (idx_offset (idx msg')))
             \<and> is_open smb' SHD \<and> is_open smb' SID)
      else disk_status smb' = st \<and> sid_table smb' = sid_table smb)"
    (is ?goal)
proof -
  let ?unlock = "\<lambda>s. snd (smb_unlocksmbhdr s)"
  have fail: ?goal if "kept smb s" "disk smb' = disk s" "r \<noteq> SMB_SUCCESS" "text_of msg' = text_of msg" for s
    using kept_index_ok [OF kept_trans [OF that(1) kept_disk [OF that(2)]] ok] that st
    by (simp add: kept_def)
  have len: "32 \<le> length (disk smb SHD)" "length (disk smb SID) = 20 * unat (total_msgs st)"
    using ok st by (simp_all add: index_ok_def)
  show ?goal
  proof (cases "is_open smb SHD")
    case False
    then show ?thesis using add fail [of smb] by (simp add: smb_addmsghdr_def smb_codes)
  next
    case op: True
    obtain r1 smb1 where s1: "(if locked smb then (SMB_SUCCESS, smb) else smb_locksmbhdr smb) = (r1, smb1)"
      by fastforce
    then have k1: "kept smb smb1" by (auto intro!: kept_disk dest: disk_locksmbhdr split: if_splits)
    obtain i smb2 where s2: "smb_getstatus smb1 = (i, smb2)" by fastforce
    have k2: "kept smb smb2" using k1 kept_disk [OF getstatus_disk(1) [OF s2]] by (rule kept_trans)
    let ?n = "last_msg (status smb2) + 1"
    let ?m1 = "msg\<lparr>hdr := (hdr msg)\<lparr>hdr_number := ?n,
      thread_id := (if thread_id (hdr msg) = 0 then ?n else thread_id (hdr msg))\<rparr>\<rparr>"
    obtain j smb3 m2 where s3: "(if m_hashed ?m1 then (SMB_SUCCESS, smb2, ?m1)
      else smb_hashmsg smb2 ?m1 None True) = (j, smb3, m2)" by (metis prod_cases3)
    have h3: "untouched {HASH} smb2 smb3" "hdr m2 = hdr ?m1" "hfields m2 = hfields msg"
      "dfields m2 = dfields msg"
      using s3 hashmsg_untouched [of smb2 ?m1 None True j smb3 m2] by (auto split: if_splits)
    have k3: "kept smb smb3" using k2 kept_untouched [OF h3(1)] by (auto intro: kept_trans)
    obtain k smb4 where s4: "(if storage = HYPERALLOC then (SMB_SUCCESS, smb3)
      else smb_open_fp smb3 SHA) = (k, smb4)" by fastforce
    have h4: "untouched {SHA} smb3 smb4"
      using s4 untouched_open_fp [of smb3 SHA k smb4 "{SHA}"] by (auto split: if_splits)
    have k4: "kept smb smb4" using k3 kept_untouched [OF h4] by (auto intro: kept_trans)
    let ?m3 = "m2\<lparr>hdr := (hdr m2)\<lparr>hdr_length := word_of_nat (smb_getmsghdrlen msg),
      hdr_version := (if hdr_version (hdr m2) = 0 then SMB_VERSION else hdr_version (hdr m2))\<rparr>\<rparr>"
    obtain l smb5 where s5: "(case storage of
                   HYPERALLOC \<Rightarrow> smb_hallochdr smb4
                 | FASTALLOC \<Rightarrow> smb_fallochdr smb4 (ucast (hdr_length (hdr ?m3)))
                 | SELFPACK \<Rightarrow> smb_allochdr smb4 (ucast (hdr_length (hdr ?m3)))) = (l, smb5)"
      by fastforce
    have h5: "kept smb4 smb5" "status smb5 = status smb4"
      using s5 allochdr_kept by (cases storage; simp; blast)+
    let ?smb6 = "if storage = HYPERALLOC then smb5 else smb_close_fp smb5 SHA"
    have h6: "untouched {SHA} smb5 ?smb6" by (simp add: untouched_close_fp)
    have k6: "kept smb ?smb6"
      using k4 h5(1) kept_untouched [OF h6] by (auto intro: kept_trans)
    let ?m4 = "?m3\<lparr>idx := (idx ?m3)\<lparr>idx_offset := header_offset (status ?smb6) + word_of_int l\<rparr>,
      m_offset := sint (total_msgs (status ?smb6))\<rparr>"
    obtain m smb7 m5 where s7: "smb_putmsg ?smb6 ?m4 = (m, smb7, m5)" by (metis prod_cases3)
    let ?smb8 = "if m = SMB_SUCCESS then snd (smb_putstatus (smb7\<lparr>status := bump (status smb7)\<rparr>)) else smb7"
    have run: "(r, smb', msg') =
      (if r1 \<noteq> SMB_SUCCESS then (SMB_ERR_LOCK, smb1, msg)
       else if 65535 < smb_getmsghdrlen msg then (SMB_ERR_HDR_LEN, ?unlock smb1, msg)
       else if i \<noteq> SMB_SUCCESS then (i, ?unlock smb2, msg)
       else if j \<noteq> SMB_SUCCESS then (j, ?unlock smb3, m2)
       else if k \<noteq> SMB_SUCCESS then (k, ?unlock smb4, m2)
       else if l < 0 then (l, ?unlock ?smb6, ?m3)
       else (m, ?unlock ?smb8, m5))"
      using add
      by (simp only: smb_addmsghdr_def Let_def op s1 s2 s3 s4 s5 s7 prod.case bump_def
        SMB_MAX_HDR_LEN_nat not_True_eq_False if_False cong: if_cong)
    show ?thesis
    proof (cases "r1 \<noteq> SMB_SUCCESS \<or> 65535 < smb_getmsghdrlen msg \<or> i \<noteq> SMB_SUCCESS
        \<or> j \<noteq> SMB_SUCCESS \<or> k \<noteq> SMB_SUCCESS \<or> l < 0")
      case True
      have "text_of m2 = text_of msg" "text_of ?m3 = text_of m2"
        using h3(2-4) by (simp_all add: text_of_def live_dfields_def)
      then have "r \<noteq> SMB_SUCCESS \<and> (\<exists>s \<in> {smb1, smb2, smb3, smb4, ?smb6}. disk smb' = disk s)
          \<and> text_of msg' = text_of msg"
        using run True by (auto simp: smb_codes split: if_splits)
      then show ?thesis using fail k1 k2 k3 k4 k6 by blast
    next
      case False
      then have e: "r = m" "smb' = ?unlock ?smb8" "msg' = m5" and i: "i = SMB_SUCCESS"
        using run by simp_all
      have d1: "disk smb1 = disk smb" using s1 by (auto dest: disk_locksmbhdr split: if_splits)
      have "status smb2 = st"
        using getstatus_disk(2) [OF s2 i] len(1) st by (simp add: d1 disk_status_def)
      then have st6: "status ?smb6 = st"
        using untouched_status [OF h3(1)] untouched_status [OF h4] h5(2) untouched_status [OF h6] by simp
      have n: "hdr_number (hdr ?m4) = last_msg st + 1" using h3(2) \<open>status smb2 = st\<close> by simp
      have tot: "m_offset ?m4 = int (unat (total_msgs st))"
        using room(2) st6 by (simp add: sint_eq_uint_u32)
      have len6: "32 \<le> length (disk ?smb6 SHD)" "length (disk ?smb6 SID) = 20 * unat (total_msgs st)"
        "sid_table ?smb6 = sid_table smb"
        using k6 len unfolding kept_def sid_table_def by simp_all
      note pk = putmsg_kept [OF s7 len6(1,2) tot]
      have k7: "kept smb smb7" if "m \<noteq> SMB_SUCCESS"
        using k6 pk(1,2,4) pk(6) [OF that] len6 unfolding kept_def by simp
      have tx: "text_of msg' = text_of msg"
        using pk(5) e(3) h3(2-4) by (simp add: text_of_def live_dfields_def)
      show ?thesis
      proof (cases "m = SMB_SUCCESS")
        case False
        then show ?thesis using fail [OF k7] e tx by simp
      next
        case True
        let ?s = "smb7\<lparr>status := bump (status smb7)\<rparr>"
        note q = pk(7) [OF True]
        have s: "is_open ?s SHD" "32 \<le> length (disk ?s SHD)" using q pk(2) by (simp_all add: is_open_def)
        have d: "disk smb' = disk (snd (smb_putstatus ?s))" using e True by simp
        note ps = putstatus_disk [OF s]
        have stat: "disk_status smb' = bump st"
          using ps(2) pk(3) st6 d by (simp add: disk_status_def)
        have tab: "sid_table smb' = sid_table smb @ [idx msg']"
          "length (disk smb' SID) = 20 * (unat (total_msgs st) + 1)"
          "idx_number (idx msg') = last_msg st + 1"
          using q ps(1) d e len6(3) n by (simp_all add: sid_table_def)
        have sdt: "disk smb' SDT = disk smb SDT"
          using d ps(1) pk(4) k6 by (simp add: kept_def)
        have "index_ok smb'"
          using index_ok_append [OF ok st room(1) _ _ stat tab(1,3,2)] room(2) ps(3) d by simp
        moreover have "stored smb' (idx_offset (idx msg')) msg' \<and> hfields msg' = hfields msg
             \<and> live_dfields msg' = live_dfields msg
             \<and> smb_valid_hdr_offset smb' (ucast (idx_offset (idx msg')))
             \<and> is_open smb' SHD \<and> is_open smb' SID"
          if fits: "hdr_fits msg" and ver: "hdr_version (hdr msg) = 0 \<or> 0x110 \<le> hdr_version (hdr msg)"
        proof -
          have "hdr_fits ?m4" using fits h3(2-4)
            by (simp add: hdr_fits_def wf_msg_def wf_hdr_def smb_getmsghdrlen_def)
          moreover have "0x110 \<le> hdr_version (hdr ?m4)" using ver h3(2) by (auto simp: SMB_VERSION_def)
          ultimately have st7: "stored smb7 (idx_offset (idx m5)) m5" "hfields m5 = hfields msg"
            "live_dfields m5 = live_dfields msg" "smb_valid_hdr_offset ?smb6 (ucast (idx_offset (idx m5)))"
            using pk(8) [OF True] h3(2-4) by (simp_all add: live_dfields_def)
          note off = valid_offset_32 [OF st7(4)]
          have sid: "is_open ?s SID" using q by (simp add: is_open_def)
          have sm: "status smb' = bump st" "is_open smb' SHD \<and> is_open smb' SID"
            using putstatus_frame(1) [OF s(1)] putstatus_frame(2) [OF s(1), of SID] putstatus_frame(2) [OF s(1), of SHD] pk(3) st6 e True sid s(1)
            by (simp_all add: unlock_frame)
          have "drop n (disk smb' SHD) = drop n (disk smb7 SHD)" if "32 \<le> n" for n
            using putstatus_tail [OF s that] d by simp
          then have "stored smb' (idx_offset (idx m5)) m5" using st7(1) off by (simp add: stored_def)
          moreover have "smb_valid_hdr_offset smb' (ucast (idx_offset (idx m5)))"
            using st7(4) st6 sm(1) by (simp add: smb_valid_hdr_offset_def bump_def)
          ultimately show ?thesis using st7 sm e by simp
        qed
        ultimately show ?thesis using stat tab e True sdt tx by simp
      qed
    qed
  qed
qed

section \<open>Properties\<close>

definition sample_hdr_file :: "byte list" where
  "sample_hdr_file = enc_smbhdr @ enc_status (empty_status\<lparr>header_offset := 32\<rparr>)"

definition sample_base :: smb where
  "sample_base = sample_smb ((\<lambda>_. [])(SHD := sample_hdr_file))"

lemma sample_base_status: "disk_status sample_base = empty_status\<lparr>header_offset := 32\<rparr>"
proof -
  have "length enc_smbhdr = 8" by (simp add: enc_smbhdr_def SMB_HEADER_ID_def)
  then have "fld 8 24 (disk sample_base SHD) = enc_status (empty_status\<lparr>header_offset := 32\<rparr>)"
    by (simp add: sample_base_def sample_smb_def sample_hdr_file_def)
  then show ?thesis by (simp only: disk_status_def status_codec.dec_enc)
qed

lemma sample_base_ok: "index_ok sample_base"
proof -
  have "length (disk sample_base SHD) = 32"
    by (simp add: sample_base_def sample_smb_def sample_hdr_file_def enc_smbhdr_def SMB_HEADER_ID_def)
  moreover have "disk sample_base SID = []" by (simp add: sample_base_def sample_smb_def)
  ultimately show ?thesis
    by (simp add: index_ok_def sample_base_status empty_status_def sid_table_def unpack_def)
qed

text \<open>
  C25: Adding a message keeps the base consistent whatever happens on the way (a lock refused, no
  room on the medium, a bad header): the index stays strictly increasing in message numbers,
  with exactly as many records as the status header says and none above the last number. When
  it succeeds, the index grows by one record, numbered one above the last, and the status header
  counts it; when it fails, index and status header are as before.
\<close>

theorem smb_addmsghdr_invariant:
  assumes "index_ok smb" "unat (last_msg (disk_status smb)) + 1 < 2 ^ 32"
    "unat (total_msgs (disk_status smb)) + 1 < 2 ^ 31"
    "smb_addmsghdr smb msg storage = (r, smb', msg')"
  shows "index_ok smb' \<and> (if r = SMB_SUCCESS
      then disk_status smb' = bump (disk_status smb) \<and> sid_table smb' = sid_table smb @ [idx msg']
        \<and> idx_number (idx msg') = last_msg (disk_status smb) + 1
      else disk_status smb' = disk_status smb \<and> sid_table smb' = sid_table smb)"
  using addmsghdr_index [OF assms(1) refl assms(2-4)] by (simp split: if_splits)

theorem smb_addmsghdr_invariant_witness:
  "index_ok (fst (snd (smb_addmsghdr sample_base sample_fields HYPERALLOC)))"
proof -
  obtain r smb' msg' where a: "smb_addmsghdr sample_base sample_fields HYPERALLOC = (r, smb', msg')"
    by (metis prod_cases3)
  have "unat (last_msg (disk_status sample_base)) + 1 < 2 ^ 32"
    "unat (total_msgs (disk_status sample_base)) + 1 < 2 ^ 31"
    by (simp_all add: sample_base_status empty_status_def)
  from smb_addmsghdr_invariant [OF sample_base_ok this a] a show ?thesis by simp
qed

text \<open>
  C26: A message that was added is found again by its number, and its header reads back as it was
  written: the same fixed part, data fields and header fields.
\<close>

theorem smb_addmsghdr_getmsghdr:
  assumes "index_ok smb" "unat (last_msg (disk_status smb)) + 1 < 2 ^ 32"
    "unat (total_msgs (disk_status smb)) + 1 < 2 ^ 31"
    and "hdr_fits msg" "hdr_version (hdr msg) = 0 \<or> 0x110 \<le> hdr_version (hdr msg)"
    and add: "smb_addmsghdr smb msg storage = (SMB_SUCCESS, smb1, msg1)"
    and look: "hdr_number (hdr m) = last_msg (disk_status smb) + 1"
  shows "\<exists>smb2 smb3 m2 m3. smb_getmsgidx smb1 m = Some (SMB_SUCCESS, smb2, m2)
    \<and> idx m2 = idx msg1 \<and> smb_getmsghdr smb2 m2 = (SMB_SUCCESS, smb3, m3)
    \<and> hdr m3 = hdr msg1 \<and> dfields m3 = live_dfields msg
    \<and> map (\<lambda>f. (fst f, hfield_bytes f)) (hfields m3) = map (\<lambda>f. (fst f, hfield_bytes f)) (hfields msg)"
proof -
  let ?st = "disk_status smb"
  have a: "index_ok smb1" "disk_status smb1 = bump ?st" "sid_table smb1 = sid_table smb @ [idx msg1]"
    "idx_number (idx msg1) = last_msg ?st + 1" "stored smb1 (idx_offset (idx msg1)) msg1"
    "hfields msg1 = hfields msg" "live_dfields msg1 = live_dfields msg"
    "smb_valid_hdr_offset smb1 (ucast (idx_offset (idx msg1)))" "is_open smb1 SHD" "is_open smb1 SID"
    using addmsghdr_index [OF assms(1) refl assms(2,3) add] assms(4,5) by simp_all
  let ?t = "sid_table smb @ [idx msg1]"
  have len: "length ?t < 2 ^ 31"
    using assms(1,3) by (simp add: index_ok_def)
  have "unat (last_msg ?st + 1) = unat (last_msg ?st) + 1" using assms(2) by (simp add: unat_word_ariths)
  then have nz: "last_msg ?st + 1 \<noteq> 0" by auto
  have sorted: "sorted_wrt (\<lambda>a b. idx_number a < idx_number b) ?t"
    using a(1,3) by (simp add: index_ok_def)
  have "idx_number (?t ! j) \<noteq> last_msg ?st + 1" if "j < length (sid_table smb)" for j
    using sorted_wrt_nth_less [OF sorted that] a(4) by (auto simp: nth_append)
  then have "find (\<lambda>i. idx_number (?t ! i) = last_msg ?st + 1) [0..<length ?t] = Some (length (sid_table smb))"
    using a(4) by (auto simp: find_Some_iff nth_append intro!: exI [of _ "length (sid_table smb)"])
  note fnd = this
  obtain n where n: "n = length (sid_table smb)" by blast
  have tn: "?t ! n = idx msg1" by (simp add: n nth_append)
  let ?m2 = "m\<lparr>idx := idx msg1, m_offset := int n\<rparr>"
  obtain smb2 where g: "smb_getmsgidx smb1 m = Some (SMB_SUCCESS, smb2, ?m2)"
    and s2: "disk smb2 = disk smb1" "status smb2 = status smb1" "is_open smb2 SHD"
    using getmsgidx_finds [OF a(10) a(3) [symmetric] _ len sorted look nz] a(9)
    unfolding fnd n [symmetric] option.case tn by blast
  have "smb_valid_hdr_offset smb2 (ucast (idx_offset (idx ?m2)))"
    using a(8) s2 by (simp add: smb_valid_hdr_offset_def)
  moreover have "stored smb2 (idx_offset (idx ?m2)) msg1" using a(5) s2 by (simp add: stored_def)
  ultimately obtain smb3 where "smb_getmsghdr smb2 ?m2 = (SMB_SUCCESS, smb3, read_msg ?m2 msg1)"
    using getmsghdr_stored [OF s2(3)] by blast
  moreover have "list_all wf_hfield (hfields msg)" using assms(4) by (simp add: hdr_fits_def wf_msg_def)
  then have "map (\<lambda>f. (fst f, hfield_bytes f)) (hfields (read_msg ?m2 msg1))
      = map (\<lambda>f. (fst f, hfield_bytes f)) (hfields msg)"
    by (auto simp: a(6) list_all_iff hfield_bytes_def split: option.splits)
  ultimately show ?thesis using g a(7) by (intro exI conjI) (assumption | simp)+
qed

definition sample_new :: smbmsg where
  "sample_new = sample_fields\<lparr>m_hashed := True\<rparr>"

lemma sample_new_facts:
  "smb_getmsghdrlen sample_new = 82" "hdr_fits sample_new" "hdr_version (hdr sample_new) = 0"
  "m_hashed sample_new" "hdr sample_new = zero_hdr" "dfields sample_new = []"
  by (simp_all add: sample_new_def sample_fields_def zero_msg_def zero_hdr_def smb_getmsghdrlen_def
    hfield_size_def hdr_fits_def wf_msg_def wf_hdr_def wf_hfield_def cs_def)

lemma sample_add: "\<exists>smb1 msg1. smb_addmsghdr sample_base sample_new HYPERALLOC = (SMB_SUCCESS, smb1, msg1)"
proof -
  let ?s1 = "sample_base\<lparr>locked := True\<rparr>"
  have lock: "smb_locksmbhdr sample_base = (SMB_SUCCESS, ?s1)" "\<not> locked sample_base"
    by (simp_all add: smb_locksmbhdr_def sample_base_def sample_smb_def sample_env_def is_open_def)
  have len: "length (disk sample_base SHD) = 32"
    by (simp add: sample_base_def sample_smb_def sample_hdr_file_def enc_smbhdr_def SMB_HEADER_ID_def)
  have op: "is_open ?s1 y" "is_open sample_base y" for y by (simp_all add: sample_base_def sample_smb_def is_open_def)
  obtain i s2 where g: "smb_getstatus ?s1 = (i, s2)" by fastforce
  have g2: "i = SMB_SUCCESS" "disk s2 = disk sample_base" "env s2 = sample_env" "is_open s2 y"
    "status s2 = disk_status ?s1" for y
    using g op len
    by (auto simp: smb_getstatus_def fread_eq stream_simps Let_def sample_base_def sample_smb_def
      disk_status_def fld_def split: if_splits)
  have st: "status s2 = empty_status\<lparr>header_offset := 32\<rparr>"
    using g2(5) sample_base_status by (simp add: disk_status_def)
  have l: "smb_hallochdr s2 = (0, fseek_end s2 SHD)"
    using g2(1-4) st len
    by (simp add: smb_hallochdr_def Let_def stream_simps pad_length_for_alignment_def)
  let ?s3 = "fseek_end s2 SHD"
  have s3: "is_open ?s3 y" "status ?s3 = status s2" "env ?s3 = sample_env" "disk ?s3 = disk s2" for y
    using g2 by (simp_all add: stream_simps)
  have p: "fst (smb_putmsg ?s3 m) = SMB_SUCCESS"
    if a: "hfields m = hfields sample_new" "total_dfields (hdr m) = 0" "wf_hdr (hdr m)"
      "idx_offset (idx m) = 32" "m_offset m = 0" "hdr_length (hdr m) = 82" for m
  proof -
    have that: "smb_getmsghdrlen m = 82" "hdr_fits m" "idx_offset (idx m) = 32" "m_offset m = 0"
      "hdr_length (hdr m) = 82"
      using a sample_new_facts(1,2,5)
      by (simp_all add: hdr_fits_def wf_msg_def smb_getmsghdrlen_def zero_hdr_def)
    let ?mi = "smb_init_idx ?s3 m"
    have mi: "smb_getmsghdrlen ?mi = 82" "hdr_fits ?mi" "hdr_room ?mi" "idx_offset (idx ?mi) = 32"
      "m_offset ?mi = 0"
      using that by (simp_all add: smb_init_idx_def Let_def hdr_room_def smb_getmsghdrlen_def
        hdr_fits_def wf_msg_def)
    have "smb_valid_hdr_offset ?s3 (ucast (idx_offset (idx ?mi)))"
      by (simp add: mi s3 st smb_valid_hdr_offset_def)
    from putmsghdr_runs [OF s3(1) this mi(2,3)] obtain s4 where
      w: "smb_putmsghdr ?s3 ?mi = (SMB_SUCCESS, s4, put_hdr ?mi)"
      by (auto simp: mi s3 sample_env_def)
    have "untouched {SHD} ?s3 s4" using putmsghdr_success(5) [OF w mi(2)] .
    then have s4: "is_open s4 SID" "disk s4 SID = []" "env s4 = sample_env"
      using s3 g2(2) by (simp_all add: untouched_def sample_base_def sample_smb_def)
    have "fst (smb_putmsgidx s4 (put_hdr ?mi)) = SMB_SUCCESS"
      using s4 mi(5)
      by (simp add: smb_putmsgidx_def Let_def split_beta fwrite_ok_iff stream_simps
        idx_codec.length_enc sample_env_def)
    then show ?thesis by (simp add: smb_putmsg_def Let_def w split_beta)
  qed
  have "fst (smb_addmsghdr sample_base sample_new HYPERALLOC) = SMB_SUCCESS"
    using sample_new_facts op
    by (simp add: smb_addmsghdr_def Let_def lock g g2(1) l split_beta st p zero_hdr_def wf_hdr_def
      empty_status_def stream_simps)
  then show ?thesis by (metis prod.collapse)
qed

theorem smb_addmsghdr_getmsghdr_witness:
  "\<exists>smb1 msg1 smb2 smb3 m2 m3. smb_addmsghdr sample_base sample_new HYPERALLOC = (SMB_SUCCESS, smb1, msg1)
    \<and> smb_getmsgidx smb1 (msg_number 1) = Some (SMB_SUCCESS, smb2, m2)
    \<and> smb_getmsghdr smb2 m2 = (SMB_SUCCESS, smb3, m3) \<and> hdr m3 = hdr msg1"
proof -
  obtain smb1 msg1 where a: "smb_addmsghdr sample_base sample_new HYPERALLOC = (SMB_SUCCESS, smb1, msg1)"
    using sample_add by blast
  have "unat (last_msg (disk_status sample_base)) + 1 < 2 ^ 32"
    "unat (total_msgs (disk_status sample_base)) + 1 < 2 ^ 31"
    "hdr_number (hdr (msg_number 1)) = last_msg (disk_status sample_base) + 1"
    by (simp_all add: sample_base_status empty_status_def msg_number_def)
  from smb_addmsghdr_getmsghdr [OF sample_base_ok this(1,2) sample_new_facts(2) _ a this(3)]
    sample_new_facts(3) a show ?thesis by blast
qed

end
