(* ===== verification/SmbThread.thy ===== *)
theory SmbThread
  imports SmbAddHdr
begin

text \<open>
  Chains of replies and the CRC history. The replies to a message are linked by their
  \<open>thread_next\<close> numbers from the message's \<open>thread_first\<close>; a new reply goes to the end. A header
  that is on disk and in the index is \<open>filed\<close>.
\<close>

section \<open>Chains\<close>

definition filed :: "smb \<Rightarrow> smbmsg \<Rightarrow> bool" where
  "filed smb m \<longleftrightarrow> stored smb (idx_offset (idx m)) m
     \<and> smb_valid_hdr_offset smb (ucast (idx_offset (idx m)))
     \<and> lockmsghdr_loop (msglock_tries (env smb) (unat (idx_offset (idx m)))) = SMB_SUCCESS
     \<and> idx m \<in> set (sid_table smb) \<and> idx_number (idx m) = hdr_number (hdr m) \<and> hdr_number (hdr m) \<noteq> 0"

definition walkable :: "smb \<Rightarrow> bool" where
  "walkable smb \<longleftrightarrow> is_open smb SHD \<and> is_open smb SID \<and> length (sid_table smb) < 2 ^ 31
     \<and> sorted_wrt (\<lambda>a b. idx_number a < idx_number b) (sid_table smb)"

lemma same_base_filed: "same_base s s' \<Longrightarrow> filed s m \<Longrightarrow> filed s' m"
  by (simp add: same_base_def filed_def stored_def smb_valid_hdr_offset_def sid_table_def)

lemma same_base_walkable: "same_base s s' \<Longrightarrow> walkable s \<Longrightarrow> walkable s'"
  by (simp add: same_base_def walkable_def sid_table_def)

text \<open>One step of the walk reads the header of the message with the given number.\<close>

lemma walk_reads:
  assumes "walkable smb" "filed smb m"
  obtains smb1 smb2 m0 where "same_base smb smb2" "idx m0 = idx m"
    "smb_getmsgidx smb (zero_msg\<lparr>hdr := zero_hdr\<lparr>hdr_number := hdr_number (hdr m)\<rparr>\<rparr>) = Some (SMB_SUCCESS, smb1, m0)"
    "smb_lockmsghdr smb1 (idx_offset (idx m)) = SMB_SUCCESS"
    "smb_getmsghdr smb1 m0 = (SMB_SUCCESS, smb2, read_msg m0 m)"
proof -
  let ?n = "hdr_number (hdr m)"
  let ?q = "zero_msg\<lparr>hdr := zero_hdr\<lparr>hdr_number := ?n\<rparr>\<rparr>"
  let ?t = "sid_table smb"
  have w: "is_open smb SHD" "is_open smb SID" "length ?t < 2 ^ 31"
    "sorted_wrt (\<lambda>a b. idx_number a < idx_number b) ?t"
    and f: "stored smb (idx_offset (idx m)) m" "smb_valid_hdr_offset smb (ucast (idx_offset (idx m)))"
    "lockmsghdr_loop (msglock_tries (env smb) (unat (idx_offset (idx m)))) = SMB_SUCCESS"
    "idx m \<in> set ?t" "idx_number (idx m) = ?n" "?n \<noteq> 0"
    using assms by (auto simp: walkable_def filed_def)
  obtain k where k: "k < length ?t" "?t ! k = idx m" using f(4) by (auto simp: in_set_conv_nth)
  have "idx_number (?t ! j) \<noteq> ?n" if "j < k" for j
    using sorted_wrt_nth_less [OF w(4) that k(1)] k(2) f(5) by auto
  then have fnd: "find (\<lambda>i. idx_number (?t ! i) = ?n) [0..<length ?t] = Some k"
    using k f(5) by (auto simp: find_Some_iff intro!: exI [of _ k])
  have ne: "?t \<noteq> []" using f(4) by auto
  let ?m0 = "?q\<lparr>idx := idx m, m_offset := int k\<rparr>"
  have "hdr_number (hdr ?q) = ?n" by simp
  from getmsgidx_finds [OF w(2) refl ne w(3,4) this f(6)] obtain smb1 where
    g: "smb_getmsgidx smb ?q = Some (SMB_SUCCESS, smb1, ?m0)" and b1: "same_base smb smb1"
    unfolding fnd option.case k(2) by (auto simp: same_base_def)
  have f1: "filed smb1 m" and o1: "is_open smb1 SHD"
    using same_base_filed [OF b1 assms(2)] b1 w(1) by (auto simp: same_base_def)
  have lck: "smb_lockmsghdr smb1 (idx_offset (idx m)) = SMB_SUCCESS"
    using f1 o1 by (simp add: smb_lockmsghdr_def filed_def)
  have "smb_valid_hdr_offset smb1 (ucast (idx_offset (idx ?m0)))" "stored smb1 (idx_offset (idx ?m0)) m"
    using f1 by (simp_all add: filed_def)
  from getmsghdr_stored [OF o1 this] obtain smb2 where
    h: "smb_getmsghdr smb1 ?m0 = (SMB_SUCCESS, smb2, read_msg ?m0 m)" and b2: "same_base smb1 smb2" by blast
  show thesis
    by (rule that [OF same_base_trans [OF b1 b2] _ g lck h]) simp
qed

lemma updatethread_walk_step:
  assumes "walkable smb" "filed smb m"
  obtains smb' m0 where "same_base smb smb'" "idx m0 = idx m"
    "updatethread_walk new (hdr_number (hdr m)) smb =
      (if thread_next (hdr m) \<noteq> 0 \<and> thread_next (hdr m) \<noteq> hdr_number (hdr m)
       then updatethread_walk new (thread_next (hdr m)) smb'
       else case smb_putmsghdr smb' ((read_msg m0 m)\<lparr>hdr := (hdr m)\<lparr>thread_next := new\<rparr>\<rparr>) of
         (r2, smb3, _) \<Rightarrow> Some (r2, smb3))"
  by (rule walk_reads [OF assms], rule that, assumption, assumption,
    subst updatethread_walk.simps) simp

text \<open>A chain that ends: the walk reaches its last message and writes the new number there.\<close>

fun chained :: "smbmsg list \<Rightarrow> bool" where
  "chained [] = False"
| "chained [m] = (thread_next (hdr m) = 0 \<or> thread_next (hdr m) = hdr_number (hdr m))"
| "chained (m # m' # ms) \<longleftrightarrow> thread_next (hdr m) = hdr_number (hdr m')
     \<and> hdr_number (hdr m') \<noteq> hdr_number (hdr m) \<and> chained (m' # ms)"

lemma updatethread_walk_chain:
  assumes "chained ms" "walkable smb" "\<forall>m \<in> set ms. filed smb m"
  shows "\<exists>smb' m0. same_base smb smb' \<and> idx m0 = idx (last ms)
    \<and> updatethread_walk new (hdr_number (hdr (hd ms))) smb =
      (case smb_putmsghdr smb' ((read_msg m0 (last ms))\<lparr>hdr := (hdr (last ms))\<lparr>thread_next := new\<rparr>\<rparr>) of
         (r, smb3, _) \<Rightarrow> Some (r, smb3))"
  using assms
proof (induction ms arbitrary: smb rule: chained.induct)
  case (2 m)
  then show ?case
    by (elim updatethread_walk_step [of smb m new]) auto
next
  case (3 m m' ms)
  have fm: "filed smb m" and nz: "hdr_number (hdr m') \<noteq> 0" using "3.prems"(3) by (auto simp: filed_def)
  obtain smb1 where b: "same_base smb smb1" and
    s: "updatethread_walk new (hdr_number (hdr m)) smb = updatethread_walk new (hdr_number (hdr m')) smb1"
    using updatethread_walk_step [OF "3.prems"(2) fm, of new] "3.prems"(1) nz by (metis chained.simps(3))
  have "\<forall>x \<in> set (m' # ms). filed smb1 x" using "3.prems"(3) same_base_filed [OF b] by auto
  then obtain smb' m0 where "same_base smb1 smb'" "idx m0 = idx (last (m' # ms))"
    "updatethread_walk new (hdr_number (hdr m')) smb1 =
      (case smb_putmsghdr smb' ((read_msg m0 (last (m' # ms)))\<lparr>hdr := (hdr (last (m' # ms)))\<lparr>thread_next := new\<rparr>\<rparr>) of
         (r, smb3, _) \<Rightarrow> Some (r, smb3))"
    using "3.IH" [of smb1] "3.prems"(1) same_base_walkable [OF b "3.prems"(2)] by auto
  then show ?case using s same_base_trans [OF b] by (intro exI [of _ smb'] exI [of _ m0]) simp
qed simp

text \<open>A cycle of two messages: the walk never ends.\<close>

lemma updatethread_walk_cycle:
  assumes "walkable smb" "filed smb a" "filed smb b"
    "thread_next (hdr a) = hdr_number (hdr b)" "thread_next (hdr b) = hdr_number (hdr a)"
    "hdr_number (hdr a) \<noteq> hdr_number (hdr b)"
  shows "updatethread_walk new (hdr_number (hdr a)) smb = None"
proof -
  define cyc where "cyc n s \<longleftrightarrow> walkable s \<and> (\<exists>a b. filed s a \<and> filed s b
    \<and> thread_next (hdr a) = hdr_number (hdr b) \<and> thread_next (hdr b) = hdr_number (hdr a)
    \<and> hdr_number (hdr a) \<noteq> hdr_number (hdr b) \<and> n = hdr_number (hdr a))" for n s
  have "\<not> cyc n s" if run: "updatethread_walk new n s = Some y" for n s y
  proof (rule updatethread_walk.raw_induct [where P = "\<lambda>_ n s _. \<not> cyc n s", OF _ run])
    fix f :: "u32 \<Rightarrow> u32 \<Rightarrow> smb \<Rightarrow> (int \<times> smb) option" and new n s y
    assume IH: "\<And>new n s y. f new n s = Some y \<Longrightarrow> \<not> cyc n s"
      and body: "(case smb_getmsgidx s (zero_msg\<lparr>hdr := zero_hdr\<lparr>hdr_number := n\<rparr>\<rparr>) of
        None \<Rightarrow> None
      | Some (r, smb1, msg1) \<Rightarrow>
          if r \<noteq> SMB_SUCCESS \<or> smb_lockmsghdr smb1 (idx_offset (idx msg1)) \<noteq> SMB_SUCCESS
          then Some (SMB_ERR_NOT_FOUND, smb1)
          else case smb_getmsghdr smb1 msg1 of (r1, smb2, msg2) \<Rightarrow>
            if r1 \<noteq> SMB_SUCCESS then Some (SMB_ERR_NOT_FOUND, smb2)
            else if thread_next (hdr msg2) \<noteq> 0 \<and> thread_next (hdr msg2) \<noteq> n
            then f new (thread_next (hdr msg2)) smb2
            else case smb_putmsghdr smb2 (msg2\<lparr>hdr := (hdr msg2)\<lparr>thread_next := new\<rparr>\<rparr>) of
              (r2, smb3, _) \<Rightarrow> Some (r2, smb3)) = Some y"
    show "\<not> cyc n s"
    proof
      assume "cyc n s"
      then obtain a b where c: "walkable s" "filed s a" "filed s b"
        "thread_next (hdr a) = hdr_number (hdr b)" "thread_next (hdr b) = hdr_number (hdr a)"
        "hdr_number (hdr a) \<noteq> hdr_number (hdr b)" "n = hdr_number (hdr a)"
        by (auto simp: cyc_def)
      obtain s1 s2 m0 where w: "same_base s s2" "idx m0 = idx a"
        "smb_getmsgidx s (zero_msg\<lparr>hdr := zero_hdr\<lparr>hdr_number := hdr_number (hdr a)\<rparr>\<rparr>) = Some (SMB_SUCCESS, s1, m0)"
        "smb_lockmsghdr s1 (idx_offset (idx a)) = SMB_SUCCESS"
        "smb_getmsghdr s1 m0 = (SMB_SUCCESS, s2, read_msg m0 a)"
        using walk_reads [OF c(1,2)] by metis
      have "hdr_number (hdr b) \<noteq> 0" using c(3) by (simp add: filed_def)
      then have "f new (hdr_number (hdr b)) s2 = Some y"
        using body w c(4,6,7) by simp
      then have "\<not> cyc (hdr_number (hdr b)) s2" by (rule IH)
      moreover have "cyc (hdr_number (hdr b)) s2"
        using c same_base_walkable [OF w(1)] same_base_filed [OF w(1)] unfolding cyc_def by metis
      ultimately show False by blast
    qed
  qed
  moreover have "cyc (hdr_number (hdr a)) smb" using assms unfolding cyc_def by blast
  ultimately show ?thesis by (metis not_None_eq)
qed

lemma filed_stored: "filed smb m \<Longrightarrow> stored smb (idx_offset (idx m)) m"
  by (simp add: filed_def)

text \<open>What the walk writes back is the message it read with one number changed.\<close>

lemma reread_fits:
  assumes "stored smb off m" "m1 = (read_msg m0 m)\<lparr>hdr := (hdr m)\<lparr>thread_next := new\<rparr>\<rparr>"
  shows "hdr_fits m1" "hdr_room m1" "0x110 \<le> hdr_version (hdr m1)" "live_dfields m1 = live_dfields m"
    "smb_getmsghdrlen m1 = smb_getmsghdrlen m"
    "map (\<lambda>f. (fst f, hfield_bytes f)) (hfields m1) = map (\<lambda>f. (fst f, hfield_bytes f)) (hfields m)"
proof -
  have m: "wf_msg m" "smb_getmsghdrlen m \<le> 65535" "0x110 \<le> hdr_version (hdr m)"
    "unat (hdr_length (hdr m)) = smb_getmsghdrlen m"
    using assms(1) by (simp_all add: stored_def hdr_fits_def)
  have l: "hfields m1 = map (\<lambda>f. (fst f, Some (hfield_bytes f))) (hfields m)"
    "dfields m1 = live_dfields m" "hdr m1 = (hdr m)\<lparr>thread_next := new\<rparr>"
    by (simp_all add: assms(2))
  show len: "smb_getmsghdrlen m1 = smb_getmsghdrlen m"
    by (simp add: smb_getmsghdrlen_def l comp_def hfield_size_def [abs_def])
  have w: "\<forall>f \<in> set (hfields m). wf_hfield f" using m(1) by (simp add: wf_msg_def list_all_iff)
  show "hdr_fits m1"
    using m(1,2) w length_live_dfields [OF m(1)] unfolding hdr_fits_def wf_msg_def len
    by (auto simp: l wf_hdr_def list_all_iff wf_hfield_def [of "(_, Some _)"] wf_hfield_bytes)
  show "hdr_room m1" using m(4) by (simp add: hdr_room_def len) (simp add: l)
  show "0x110 \<le> hdr_version (hdr m1)" using m(3) by (simp add: l)
  show "live_dfields m1 = live_dfields m" by (simp add: live_dfields_def l)
  show "map (\<lambda>f. (fst f, hfield_bytes f)) (hfields m1) = map (\<lambda>f. (fst f, hfield_bytes f)) (hfields m)"
    using w by (auto simp: l hfield_bytes_def [of "(_, Some _)"] wf_hfield_bytes)
qed

text \<open>
  C29: A new reply goes to the end of the chain: for a message whose first reply starts a chain that
  ends, \<open>smb_updatethread\<close> returns, and the header of the last message of the chain names the
  new message as its successor and is otherwise the same; the index is as before.
\<close>

theorem smb_updatethread_chain:
  assumes "thread_first (hdr remsg) = hdr_number (hdr (hd ms))" "chained ms" "walkable smb"
    "\<forall>m \<in> set ms. filed smb m"
    "unat (idx_offset (idx (last ms))) + smb_getmsghdrlen (last ms) + 255 \<le> medium (env smb)"
  shows "\<exists>smb' m'. smb_updatethread smb remsg new = Some (SMB_SUCCESS, smb', remsg)
    \<and> stored smb' (idx_offset (idx (last ms))) m'
    \<and> hdr m' = (hdr (last ms))\<lparr>thread_next := new\<rparr> \<and> live_dfields m' = live_dfields (last ms)
    \<and> map (\<lambda>f. (fst f, hfield_bytes f)) (hfields m') = map (\<lambda>f. (fst f, hfield_bytes f)) (hfields (last ms))
    \<and> disk smb' SID = disk smb SID"
proof -
  have ne: "ms \<noteq> []" using assms(2) by auto
  let ?l = "last ms"
  have fl: "filed smb ?l" and "filed smb (hd ms)" using assms(4) ne by simp_all
  then have nz: "thread_first (hdr remsg) \<noteq> 0" using assms(1) by (simp add: filed_def)
  obtain smb1 m0 where b: "same_base smb smb1" and i: "idx m0 = idx ?l" and
    w: "updatethread_walk new (hdr_number (hdr (hd ms))) smb =
      (case smb_putmsghdr smb1 ((read_msg m0 ?l)\<lparr>hdr := (hdr ?l)\<lparr>thread_next := new\<rparr>\<rparr>) of
         (r, smb3, _) \<Rightarrow> Some (r, smb3))"
    using updatethread_walk_chain [OF assms(2-4)] by blast
  define m1 where "m1 = (read_msg m0 ?l)\<lparr>hdr := (hdr ?l)\<lparr>thread_next := new\<rparr>\<rparr>"
  note fits = reread_fits [OF filed_stored [OF same_base_filed [OF b fl]] m1_def]
  have off: "idx_offset (idx m1) = idx_offset (idx ?l)" by (simp add: m1_def i)
  have "is_open smb1 SHD" using b assms(3) by (simp add: same_base_def walkable_def)
  moreover have "smb_valid_hdr_offset smb1 (ucast (idx_offset (idx m1)))"
    using same_base_filed [OF b fl] by (simp add: filed_def off)
  moreover have "unat (idx_offset (idx m1)) + smb_getmsghdrlen m1 + 255 \<le> medium (env smb1)"
    using assms(5) b by (simp add: off fits(5) same_base_def)
  ultimately obtain smb' where p: "smb_putmsghdr smb1 m1 = (SMB_SUCCESS, smb', put_hdr m1)"
    using putmsghdr_runs fits(1,2) by blast
  note ps = putmsghdr_success [OF p fits(1)]
  have s: "stored smb' (idx_offset (idx ?l)) (put_hdr m1)"
    using stored_overwrite [OF fits(1,3) ps(7)] by (simp add: off)
  have st: "stored smb (idx_offset (idx ?l)) ?l" using fl by (rule filed_stored)
  have h: "hdr (put_hdr m1) = (hdr ?l)\<lparr>thread_next := new\<rparr>"
  proof -
    have "word_of_nat (smb_getmsghdrlen m1) = hdr_length (hdr ?l)"
      using st by (simp add: fits(5) stored_def word_unat_eq_iff unat_of_nat hdr_fits_def)
    then show ?thesis using st by (simp add: put_hdr_def m1_def stored_def)
  qed
  have "disk smb' SID = disk smb SID"
    using ps(5) same_base_disk [OF b] by (simp add: untouched_def)
  moreover have "smb_updatethread smb remsg new = Some (SMB_SUCCESS, smb', remsg)"
    using nz w p by (simp add: smb_updatethread_def assms(1) m1_def)
  ultimately show ?thesis using s h fits(4,6) by (intro exI conjI) (assumption | simp)+
qed

text \<open>Two replies of one thread, the second with a successor of its own or none.\<close>

definition sample_reply :: "u32 \<Rightarrow> u32 \<Rightarrow> u32 \<Rightarrow> smbmsg" where
  "sample_reply n off nxt = sample_fields\<lparr>idx := zero_idx\<lparr>idx_offset := off, idx_number := n\<rparr>,
     hdr := zero_hdr\<lparr>hdr_id := SHD_HEADER_ID, hdr_version := 0x121, hdr_length := 82,
       hdr_number := n, thread_next := nxt\<rparr>\<rparr>"

definition sample_thread :: "u32 \<Rightarrow> smb" where
  "sample_thread nxt = sample_smb ((\<lambda>_. [])(
     SHD := replicate 32 0 @ hdr_bytes (sample_reply 1 32 2) @ replicate 174 0 @ hdr_bytes (sample_reply 2 288 nxt),
     SID := concat (map enc_idx [idx (sample_reply 1 32 2), idx (sample_reply 2 288 nxt)])))"

lemma sample_reply_facts:
  "smb_getmsghdrlen (sample_reply n off nxt) = 82" "hdr_fits (sample_reply n off nxt)"
  "hdr_number (hdr (sample_reply n off nxt)) = n" "thread_next (hdr (sample_reply n off nxt)) = nxt"
  "idx_offset (idx (sample_reply n off nxt)) = off" "idx_number (idx (sample_reply n off nxt)) = n"
  "hdr_version (hdr (sample_reply n off nxt)) = 0x121" "hdr_length (hdr (sample_reply n off nxt)) = 82"
  "hdr_id (hdr (sample_reply n off nxt)) = SHD_HEADER_ID"
  by (simp_all add: sample_reply_def sample_fields_def zero_msg_def zero_hdr_def smb_getmsghdrlen_def
    hfield_size_def hdr_fits_def wf_msg_def wf_hdr_def wf_hfield_def cs_def SHD_HEADER_ID_def)

lemma sample_thread_table:
  "sid_table (sample_thread nxt) = [idx (sample_reply 1 32 2), idx (sample_reply 2 288 nxt)]"
  using idx_codec.unpack_concat [of "[idx (sample_reply 1 32 2), idx (sample_reply 2 288 nxt)]"]
  by (simp add: sample_thread_def sample_smb_def sid_table_def)

lemma sample_thread_walkable: "walkable (sample_thread nxt)"
  unfolding walkable_def sample_thread_table
  by (simp add: sample_reply_facts) (simp add: sample_thread_def sample_smb_def is_open_def)

lemma sample_thread_filed:
  "filed (sample_thread nxt) (sample_reply 1 32 2)" "filed (sample_thread nxt) (sample_reply 2 288 nxt)"
proof -
  have len: "length (hdr_bytes (sample_reply n off nx)) = 82" for n off nx
    using length_hdr_bytes [of "sample_reply n off nx"] sample_reply_facts(1,2) by (simp add: hdr_fits_def)
  let ?d = "disk (sample_thread nxt) SHD"
  have d: "?d = replicate 32 0 @ hdr_bytes (sample_reply 1 32 2) @ replicate 174 0 @ hdr_bytes (sample_reply 2 288 nxt)"
    by (simp add: sample_thread_def sample_smb_def)
  have "drop 32 ?d = hdr_bytes (sample_reply 1 32 2) @ replicate 174 0 @ hdr_bytes (sample_reply 2 288 nxt)"
    by (simp add: d)
  moreover have "drop 288 ?d = hdr_bytes (sample_reply 2 288 nxt) @ []" by (simp add: d len)
  moreover have "smb_valid_hdr_offset (sample_thread nxt) (ucast (32 :: u32))"
    "smb_valid_hdr_offset (sample_thread nxt) (ucast (288 :: u32))" "env (sample_thread nxt) = sample_env"
    by (simp_all add: sample_thread_def sample_smb_def smb_valid_hdr_offset_def empty_status_def)
  ultimately show "filed (sample_thread nxt) (sample_reply 1 32 2)"
    "filed (sample_thread nxt) (sample_reply 2 288 nxt)"
    by (auto simp: filed_def stored_def sample_reply_facts sample_thread_table sample_env_def)
qed

theorem smb_updatethread_chain_witness:
  "\<exists>smb' m'. smb_updatethread (sample_thread 0)
      (zero_msg\<lparr>hdr := zero_hdr\<lparr>thread_first := 1\<rparr>\<rparr>) 3
      = Some (SMB_SUCCESS, smb', zero_msg\<lparr>hdr := zero_hdr\<lparr>thread_first := 1\<rparr>\<rparr>)
    \<and> stored smb' 288 m' \<and> thread_next (hdr m') = 3"
proof -
  let ?ms = "[sample_reply 1 32 2, sample_reply 2 288 0]"
  let ?re = "zero_msg\<lparr>hdr := zero_hdr\<lparr>thread_first := 1\<rparr>\<rparr>"
  have "thread_first (hdr ?re) = hdr_number (hdr (hd ?ms))" "chained ?ms"
    by (simp_all add: sample_reply_facts)
  moreover have "\<forall>m \<in> set ?ms. filed (sample_thread 0) m" using sample_thread_filed by simp
  moreover have "unat (idx_offset (idx (last ?ms))) + smb_getmsghdrlen (last ?ms) + 255
      \<le> medium (env (sample_thread 0))"
    by (simp add: sample_reply_facts sample_thread_def sample_smb_def sample_env_def)
  ultimately obtain smb' m' where "smb_updatethread (sample_thread 0) ?re 3 = Some (SMB_SUCCESS, smb', ?re)"
    "stored smb' 288 m'" "hdr m' = (hdr (sample_reply 2 288 0))\<lparr>thread_next := 3\<rparr>"
    using smb_updatethread_chain [of ?re ?ms "sample_thread 0" 3] sample_thread_walkable [of 0]
    by (auto simp: sample_reply_facts)
  then show ?thesis by (intro exI [of _ smb'] exI [of _ m']) simp
qed

text \<open>
  C30: When two messages of a thread name each other as successors, \<open>smb_updatethread\<close> never
  returns: the walk only stops at a message that names itself or none.
\<close>

theorem smb_updatethread_cycle:
  assumes "walkable smb" "filed smb a" "filed smb b" "thread_first (hdr remsg) = hdr_number (hdr a)"
    "thread_next (hdr a) = hdr_number (hdr b)" "thread_next (hdr b) = hdr_number (hdr a)"
    "hdr_number (hdr a) \<noteq> hdr_number (hdr b)"
  shows "smb_updatethread smb remsg new = None"
proof -
  have "hdr_number (hdr a) \<noteq> 0" using assms(2) by (simp add: filed_def)
  then show ?thesis
    using updatethread_walk_cycle [OF assms(1-3,5-7)] by (simp add: smb_updatethread_def assms(4))
qed

theorem smb_updatethread_cycle_witness:
  "smb_updatethread (sample_thread 1) (zero_msg\<lparr>hdr := zero_hdr\<lparr>thread_first := 1\<rparr>\<rparr>) 3 = None"
  by (rule smb_updatethread_cycle [OF sample_thread_walkable sample_thread_filed])
    (simp_all add: sample_reply_facts)

section \<open>The CRC history\<close>

definition sch_table :: "smb \<Rightarrow> u32 list" where
  "sch_table smb = unpack 4 un_le32 (sch_file smb)"

text \<open>
  While the CRC history holds fewer than its maximum, \<open>smb_addcrc\<close> reports a checksum it
  holds as a duplicate and changes nothing, and puts any other at its end.
\<close>

theorem smb_addcrc_below_max:
  assumes "open_loop (sch_tries (env smb)) = SMB_SUCCESS" "length (sch_file smb) = 4 * n"
    "n < unat (max_crcs (status smb))" "4 * n + 4 \<le> medium (env smb)"
  shows "if crc \<in> set (sch_table smb) then smb_addcrc beyond smb crc = (SMB_DUPE_MSG, smb)
    else \<exists>smb'. smb_addcrc beyond smb crc = (SMB_SUCCESS, smb')
      \<and> sch_table smb' = sch_table smb @ [crc]"
proof -
  have "max_crcs (status smb) \<noteq> 0" using assms(3) by auto
  moreover have "\<not> unat (max_crcs (status smb)) \<le> n" using assms(3) by simp
  ultimately show ?thesis
    using assms u32_codec.unpack_append [OF assms(2), of crc]
    by (simp add: smb_addcrc_def Let_def sch_table_def sch_write_def)
qed

definition sample_sch :: smb where
  "sample_sch = (sample_smb (\<lambda>_. []))\<lparr>sch_file := le32 7 @ le32 9,
     status := empty_status\<lparr>max_crcs := 3\<rparr>\<rparr>"

lemma sample_sch_facts:
  "sch_table sample_sch = [7, 9]" "length (sch_file sample_sch) = 4 * 2"
  "open_loop (sch_tries (env sample_sch)) = SMB_SUCCESS" "unat (max_crcs (status sample_sch)) = 3"
  "medium (env sample_sch) = 65536"
  using u32_codec.unpack_concat [of "[7, 9]"]
  by (simp_all add: sample_sch_def sch_table_def sample_smb_def sample_env_def)

theorem smb_addcrc_below_max_witness:
  "smb_addcrc (\<lambda>_. 0) sample_sch 9 = (SMB_DUPE_MSG, sample_sch)
    \<and> (\<exists>smb'. smb_addcrc (\<lambda>_. 0) sample_sch 8 = (SMB_SUCCESS, smb') \<and> sch_table smb' = [7, 9, 8])"
  using smb_addcrc_below_max [OF sample_sch_facts(3,2), of 9 "\<lambda>_. 0"]
    smb_addcrc_below_max [OF sample_sch_facts(3,2), of 8 "\<lambda>_. 0"]
  by (simp add: sample_sch_facts)

text \<open>
  When the CRC history is full, making room for one checksum drops the four oldest and puts
  twelve bytes from outside the buffer in the place of three: the offset into the buffer, an
  array of 32-bit words, is counted in bytes.
\<close>

theorem smb_addcrc_full:
  assumes "open_loop (sch_tries (env smb)) = SMB_SUCCESS"
    "length (sch_file smb) = 4 * unat (max_crcs (status smb))" "4 \<le> unat (max_crcs (status smb))"
    "4 * unat (max_crcs (status smb)) \<le> medium (env smb)" "crc \<notin> set (sch_table smb)"
  shows "\<exists>smb'. smb_addcrc beyond smb crc = (SMB_SUCCESS, smb')
    \<and> sch_file smb' = drop 16 (sch_file smb) @ map beyond [0..<12] @ le32 crc"
proof -
  let ?n = "unat (max_crcs (status smb))" and ?buf = "sch_file smb"
  let ?keep = "map (\<lambda>i. if 16 + i < 4 * ?n then ?buf ! (16 + i) else beyond (16 + i - 4 * ?n)) [0..<(?n - 1) * 4]"
  have nz: "max_crcs (status smb) \<noteq> 0" using assms(3) by auto
  have fr: "(4 * ?n - (?n - 1) * 4) * 4 = 16" using assms(3) by simp
  have "?keep = drop 16 ?buf @ map beyond [0..<12]"
  proof (rule nth_equalityI)
    show "length ?keep = length (drop 16 ?buf @ map beyond [0..<12])" using assms(2,3) by simp
    fix i assume "i < length ?keep"
    then show "?keep ! i = (drop 16 ?buf @ map beyond [0..<12]) ! i"
      using assms(2,3) by (auto simp: nth_append add.commute)
  qed
  then have k: "map (\<lambda>i. if (4 * ?n - (?n - 1) * 4) * 4 + i < 4 * ?n then ?buf ! ((4 * ?n - (?n - 1) * 4) * 4 + i)
      else beyond ((4 * ?n - (?n - 1) * 4) * 4 + i - 4 * ?n)) [0..<(?n - 1) * 4]
    = drop 16 ?buf @ map beyond [0..<12]"
    unfolding fr .
  have "length (drop 16 ?buf @ map beyond [0..<12]) + 4 = 4 * ?n" using assms(2,3) by simp
  then show ?thesis
    using assms nz unfolding smb_addcrc_def Let_def assms(2) k sch_table_def
    by (simp add: sch_write_def)
qed

theorem smb_addcrc_full_witness:
  "\<exists>smb'. smb_addcrc (\<lambda>_. 0xAA) (sample_sch\<lparr>sch_file := le32 1 @ le32 2 @ le32 3 @ le32 4,
      status := empty_status\<lparr>max_crcs := 4\<rparr>\<rparr>) 5 = (SMB_SUCCESS, smb')
    \<and> sch_file smb' = replicate 12 0xAA @ le32 5"
proof -
  let ?s = "sample_sch\<lparr>sch_file := le32 1 @ le32 2 @ le32 3 @ le32 4, status := empty_status\<lparr>max_crcs := 4\<rparr>\<rparr>"
  have "sch_table ?s = [1, 2, 3, 4]"
    using u32_codec.unpack_concat [of "[1, 2, 3, 4]"] by (simp add: sch_table_def)
  then have "5 \<notin> set (sch_table ?s)" by simp
  moreover have "map (\<lambda>_. 0xAA :: byte) [0..<12] = replicate 12 0xAA" by (simp add: map_replicate_const)
  ultimately show ?thesis
    using smb_addcrc_full [of ?s 5 "\<lambda>_. 0xAA"] sample_sch_facts(3,5) by (simp add: sample_sch_def)
qed

end
