(* ===== verification/SmbAdd.thy ===== *)
theory SmbAdd
  imports SmbThread
begin

text \<open>
  Adding a message with its text (smbadd.c) and reading the text back (smbtxt.c). The text goes
  to the data file as a list of translations (16-bit codes, ended by zero) and the bytes; the
  body may be LZH compressed. The compressor and decompressor of lzh.c are the arguments
  \<open>lzh_encode\<close> and \<open>lzh_decode\<close>, which give the bytes they produce; \<open>beyond\<close> is as in
  \<open>smb_addcrc\<close>. None stands for a call that does not return. The data stream of an open base
  is open, as \<open>smb_open\<close> leaves it.

  The variable \<open>xlat\<close> of \<open>smb_getmsgtxt\<close> starts uninitialised in the code and at zero here; a
  read that falls short leaves the bytes it did not reach.
\<close>

section \<open>Adding\<close>

abbreviation (input) "XLAT_NONE \<equiv> 0 :: u16"
abbreviation (input) "XLAT_LZH \<equiv> 9 :: u16"

text \<open>The text without trailing white space and control characters, for its checksum.\<close>

definition chk_text :: "byte list \<Rightarrow> byte list" where
  "chk_text body = rev (dropWhile (\<lambda>c. c \<le> 0x20) (rev body))"

definition addmsg_crc :: "(nat \<Rightarrow> byte) \<Rightarrow> smb \<Rightarrow> ulong \<Rightarrow> byte list \<Rightarrow> int \<times> smb" where
  "addmsg_crc beyond smb dupechk body =
     (if body \<noteq> [] \<and> max_crcs (status smb) \<noteq> 0 \<and> dupechk AND source_bit HASH_SOURCE_BODY \<noteq> 0
      then smb_addcrc beyond smb
        (NOT (foldl (\<lambda>crc ch. ucrc32 ch crc) 0xffffffff (chk_text body)))
      else (SMB_SUCCESS, smb))"

text \<open>Whether the body is stored compressed, and the bytes stored.\<close>

definition addmsg_xlat :: "(byte list \<Rightarrow> byte list) \<Rightarrow> byte list \<Rightarrow> u16 \<Rightarrow> nat \<Rightarrow> bool \<times> byte list" where
  "addmsg_xlat lzh_encode body xlat taillen =
     (let bodylen = length body + 2; lzhbuf = lzh_encode body
      in if xlat = XLAT_LZH \<and> unat SDT_BLOCK_LEN \<le> bodylen + taillen \<and> 1 < length lzhbuf
           \<and> smb_datblocks (of_nat (length lzhbuf + 4 + taillen)) < smb_datblocks (of_nat (bodylen + taillen))
         then (True, lzhbuf) else (False, body))"

definition body_record :: "bool \<times> byte list \<Rightarrow> byte list list" where
  "body_record bx = (if fst bx then [le16 XLAT_LZH] else []) @ [le16 XLAT_NONE, snd bx]"

definition tail_record :: "byte list \<Rightarrow> byte list list" where
  "tail_record tail = [le16 XLAT_NONE, tail]"

definition addmsg_alloc :: "smb \<Rightarrow> storage \<Rightarrow> nat \<Rightarrow> int \<times> int \<times> storage \<times> smb" where
  "addmsg_alloc smb storage len =
     (if st_attr (status smb) AND SMB_HYPERALLOC \<noteq> 0
      then case smb_hallocdat smb of (offset, smb1) \<Rightarrow> (SMB_SUCCESS, offset, HYPERALLOC, smb1)
      else case smb_open_fp smb SDA of (r, smb1) \<Rightarrow>
        if r \<noteq> SMB_SUCCESS then (r, 0, storage, smb1)
        else if storage = FASTALLOC
        then case smb_fallocdat smb1 (of_nat len) 1 of (offset, smb2) \<Rightarrow>
          (SMB_SUCCESS, offset, FASTALLOC, smb_close_fp smb2 SDA)
        else case smb_allocdat smb1 (of_nat len) 1 of (offset, smb2) \<Rightarrow>
          (SMB_SUCCESS, offset, SELFPACK, smb_close_fp smb2 SDA))"

text \<open>One text: its data field, then its bytes.\<close>

definition addmsg_write :: "smb \<Rightarrow> smbmsg \<Rightarrow> u16 \<Rightarrow> byte list list \<Rightarrow> int \<times> smb \<times> smbmsg" where
  "addmsg_write smb msg t pieces =
     (if pieces = [] then (SMB_SUCCESS, smb, msg)
      else let msg1 = snd (smb_dfield msg t (of_nat (length (concat pieces))))
           in case fwrite_all smb SDT pieces of
             (ok, smb1) \<Rightarrow> (if ok then SMB_SUCCESS else SMB_ERR_WRITE, smb1, msg1))"

definition addmsg_text ::
  "smb \<Rightarrow> smbmsg \<Rightarrow> storage \<Rightarrow> byte list list \<Rightarrow> byte list list \<Rightarrow> int \<times> smb \<times> smbmsg \<times> storage" where
  "addmsg_text smb msg storage body tail =
     (let len = length (concat body) + length (concat tail)
      in if len = 0 then (SMB_SUCCESS, smb, msg, storage)
         else if 0x80000000 \<le> len then (SMB_ERR_DAT_LEN, smb, msg, storage)
         else case addmsg_alloc smb storage len of (r, offset, storage1, smb1) \<Rightarrow>
           if r \<noteq> SMB_SUCCESS then (r, smb1, msg, storage1)
           else if offset < 0 then (offset, smb1, msg, storage1)
           else let msg1 = msg\<lparr>hdr := (hdr msg)\<lparr>hdr_offset := word_of_int offset\<rparr>\<rparr>
           in case addmsg_write (fseek smb1 SDT (nat offset)) msg1 TEXT_BODY body of (r2, smb2, msg2) \<Rightarrow>
             if r2 \<noteq> SMB_SUCCESS then (r2, smb2, msg2, storage1)
             else case addmsg_write smb2 msg2 TEXT_TAIL tail of (r3, smb3, msg3) \<Rightarrow>
               if r3 \<noteq> SMB_SUCCESS then (r3, smb3, msg3, storage1)
               else case fwrite_rep (if len mod 256 = 0 then 0 else 256 - len mod 256) smb3 SDT [0] of
                 (ok, smb4) \<Rightarrow> (if ok then SMB_SUCCESS else SMB_ERR_WRITE, smb4, msg3, storage1))"

definition addmsg_times :: "smb \<Rightarrow> smbmsg \<Rightarrow> smbmsg" where
  "addmsg_times smb msg =
     (let imported = (if wtime (when_imported (hdr msg)) = 0
            then \<lparr>wtime = clock (env smb), wzone = 0\<rparr> else when_imported (hdr msg));
          written = (if wtime (when_written (hdr msg)) = 0 then imported else when_written (hdr msg))
      in msg\<lparr>hdr := (hdr msg)\<lparr>when_imported := imported, when_written := written\<rparr>\<rparr>)"

text \<open>The message replied to, looked up by its id.\<close>

definition addmsg_back :: "smb \<Rightarrow> smbmsg \<Rightarrow> byte \<Rightarrow> byte list option \<Rightarrow> (smb \<times> smbmsg) option" where
  "addmsg_back smb msg source reply =
     (case reply of
        None \<Rightarrow> Some (smb, msg)
      | Some mid \<Rightarrow>
          if thread_back (hdr msg) \<noteq> 0 then Some (smb, msg)
          else map_option (\<lambda>(r, smb1, remsg).
            if r = SMB_SUCCESS
            then (smb1, msg\<lparr>hdr := (hdr msg)\<lparr>thread_back := idx_number (idx remsg)\<rparr>\<rparr>)
            else (smb1, msg))
            (smb_getmsgidx_by_hash smb zero_msg source SMB_HASH_MASK mid 0))"

text \<open>What a reply takes over from the message it replies to; the flag tells whether to go on.\<close>

definition addmsg_reply :: "smbmsg \<Rightarrow> smbmsg \<Rightarrow> bool \<times> smbmsg" where
  "addmsg_reply remsg msg0 =
     (let msg1 = (if thread_id (hdr msg0) = 0
            then msg0\<lparr>hdr := (hdr msg0)\<lparr>thread_id :=
              (if thread_id (hdr remsg) = 0 then hdr_number (hdr remsg) else thread_id (hdr remsg))\<rparr>\<rparr>
            else msg0);
          (r2, msg2) = (if reply_id msg1 = None \<and> m_id remsg \<noteq> None
            then smb_hfield_add_str msg1 RFC822REPLYID (m_id remsg) False else (SMB_SUCCESS, msg1))
      in if r2 \<noteq> SMB_SUCCESS then (False, msg2)
         else let (r3, msg3) = (if ftn_reply msg2 = None \<and> ftn_msgid remsg \<noteq> None
                then smb_hfield_add_str msg2 FIDOREPLYID (ftn_msgid remsg) False else (SMB_SUCCESS, msg2))
              in (r3 = SMB_SUCCESS, msg3))"

definition addmsg_thread :: "smb \<Rightarrow> smbmsg \<Rightarrow> (smb \<times> smbmsg) option" where
  "addmsg_thread smb msg =
     (if thread_back (hdr msg) = 0 then Some (smb, msg)
      else case smb_getmsgidx smb (zero_msg\<lparr>hdr := zero_hdr\<lparr>hdr_number := thread_back (hdr msg)\<rparr>\<rparr>) of
        None \<Rightarrow> None
      | Some (r, smb1, remsg) \<Rightarrow>
          if r \<noteq> SMB_SUCCESS \<or> smb_lockmsghdr smb1 (idx_offset (idx remsg)) \<noteq> SMB_SUCCESS
          then Some (smb1, msg)
          else case smb_getmsghdr smb1 remsg of (r1, smb2, remsg1) \<Rightarrow>
            if r1 \<noteq> SMB_SUCCESS then Some (smb2, msg)
            else case addmsg_reply remsg1 msg of (ok, msg1) \<Rightarrow>
              if \<not> ok then Some (smb2, msg1)
              else map_option (\<lambda>(_, smb3, _). (smb3, msg1))
                (smb_updatethread smb2 remsg1 (hdr_number (hdr msg1))))"

text \<open>The part between the locking and the clean-up.\<close>

definition addmsg_try ::
  "(byte list \<Rightarrow> byte list) \<Rightarrow> (nat \<Rightarrow> byte) \<Rightarrow> smb \<Rightarrow> smbmsg \<Rightarrow> storage \<Rightarrow> ulong \<Rightarrow> u16
    \<Rightarrow> byte list option \<Rightarrow> byte list option \<Rightarrow> (int \<times> smb \<times> smbmsg) option" where
  "addmsg_try lzh_encode beyond smb0 msg00 storage dupechk xlat body tail =
     (case smb_getstatus smb0 of (r0, smb) \<Rightarrow>
        if r0 \<noteq> SMB_SUCCESS then Some (r0, smb, msg00)
        else let msg0 = msg00\<lparr>hdr := (hdr msg00)\<lparr>hdr_number := last_msg (status smb) + 1\<rparr>\<rparr>;
                 hashed = (st_attr (status smb) AND (SMB_EMAIL OR SMB_NOHASH) = 0);
                 hashes = (if hashed then smb_msghashes (clock (env smb)) msg0 body SMB_HASH_SOURCE_DUPE else [])
        in case (if hashed then smb_findhash smb hashes dupechk False
                 else (SMB_ERR_NOT_FOUND, smb, [], zero_hash)) of (rf, smb1, _, _) \<Rightarrow>
          if rf = SMB_SUCCESS then Some (SMB_DUPE_MSG, smb1, msg0)
          else let b = str_data body; t = str_data tail
          in case addmsg_crc beyond smb1 dupechk b of (rc, smb2) \<Rightarrow>
            if rc \<noteq> SMB_SUCCESS then Some (rc, smb2, msg0)
            else let taillen = (if t = [] then 0 else length t + 2);
                     bp = (if b = [] then [] else body_record (addmsg_xlat lzh_encode b xlat taillen));
                     tp = (if t = [] then [] else tail_record t)
            in case addmsg_text smb2 msg0 storage bp tp of (rt, smb3, msg1, storage1) \<Rightarrow>
              if rt \<noteq> SMB_SUCCESS then Some (rt, smb3, msg1)
              else let msg2 = addmsg_times smb3 msg1
              in case addmsg_back smb3 msg2 HASH_SOURCE_MSG_ID (reply_id msg2) of
                None \<Rightarrow> None
              | Some (smb4, msg3) \<Rightarrow>
                  case addmsg_back smb4 msg3 HASH_SOURCE_FTN_ID (ftn_reply msg3) of
                    None \<Rightarrow> None
                  | Some (smb5, msg4) \<Rightarrow>
                      case addmsg_thread smb5 msg4 of
                        None \<Rightarrow> None
                      | Some (smb6, msg5) \<Rightarrow>
                          case (if st_attr (status smb6) AND (SMB_EMAIL OR SMB_NOHASH) = 0
                                then smb_addhashes smb6 hashes False else (SMB_FAILURE, smb6)) of
                            (rh, smb7) \<Rightarrow>
                            let msg6 = (if rh = SMB_SUCCESS then msg5\<lparr>m_hashed := True\<rparr> else msg5)
                            in if m_to msg6 = None then Some (SMB_SUCCESS, smb7, msg6)
                               else Some (smb_addmsghdr smb7 msg6 storage1))"

definition smb_addmsg ::
  "(byte list \<Rightarrow> byte list) \<Rightarrow> (nat \<Rightarrow> byte) \<Rightarrow> smb \<Rightarrow> smbmsg \<Rightarrow> storage \<Rightarrow> ulong \<Rightarrow> u16
    \<Rightarrow> byte list option \<Rightarrow> byte list option \<Rightarrow> (int \<times> smb \<times> smbmsg) option" where
  "smb_addmsg lzh_encode beyond smb0 msg storage dupechk xlat body tail =
     (if \<not> is_open smb0 SHD then Some (SMB_ERR_NOT_OPEN, smb0, msg)
      else case (if length (disk smb0 SHD) < 1 then smb_create smb0 else (SMB_SUCCESS, smb0)) of (rc, smb1) \<Rightarrow>
        if rc \<noteq> SMB_SUCCESS then Some (rc, smb1, msg)
        else case (if locked smb1 then (SMB_SUCCESS, smb1) else smb_locksmbhdr smb1) of (rl, smb2) \<Rightarrow>
          if rl \<noteq> SMB_SUCCESS then Some (SMB_ERR_LOCK, smb2, msg)
          else map_option (\<lambda>(retval, smb3, msg1).
            let smb4 = (if retval \<noteq> SMB_SUCCESS then snd (smb_freemsg_dfields smb3 msg1 1) else smb3)
            in (retval, snd (smb_unlocksmbhdr smb4), msg1))
            (addmsg_try lzh_encode beyond smb2
              (msg\<lparr>hdr := (hdr msg)\<lparr>total_dfields := 0\<rparr>\<rparr>) storage dupechk xlat body tail))"

section \<open>Reading the text\<close>

definition GETMSGTXT_TAILS :: ulong where "GETMSGTXT_TAILS = 1"
definition GETMSGTXT_NO_BODY :: ulong where "GETMSGTXT_NO_BODY = 2"
definition GETMSGTXT_NO_HFIELDS :: ulong where "GETMSGTXT_NO_HFIELDS = 4"

definition wanted_dfield :: "ulong \<Rightarrow> dfield \<Rightarrow> bool" where
  "wanted_dfield mode d \<longleftrightarrow> 2 < df_length d
     \<and> (df_type d = TEXT_BODY \<and> mode AND GETMSGTXT_NO_BODY = 0
        \<or> df_type d = TEXT_TAIL \<and> mode AND GETMSGTXT_TAILS \<noteq> 0)"

definition read_xlat :: "smb \<Rightarrow> u16 \<Rightarrow> u16 \<times> smb" where
  "read_xlat smb xlat =
     (case fread smb SDT 2 of (bs, smb1) \<Rightarrow> (un_le16 (bs @ drop (length bs) (le16 xlat)), smb1))"

text \<open>The text so far without trailing zeros (but not shorter than one byte), and a line end.\<close>

definition end_text :: "byte list \<Rightarrow> byte list" where
  "end_text buf =
     (if buf = [] then []
      else let b = rev (dropWhile (\<lambda>c. c = 0) (rev buf))
           in (if b = [] then take 1 buf else b) @ [0x0D, 0x0A])"

fun getmsgtxt_loop ::
  "(byte list \<Rightarrow> byte list) \<Rightarrow> ulong \<Rightarrow> u32 \<Rightarrow> u16 \<Rightarrow> dfield list \<Rightarrow> smb \<Rightarrow> byte list \<Rightarrow> byte list \<times> smb" where
  "getmsgtxt_loop lzh_decode mode offset xlat [] smb buf = (buf, smb)"
| "getmsgtxt_loop lzh_decode mode offset xlat (d # ds) smb buf =
     (if \<not> wanted_dfield mode d then getmsgtxt_loop lzh_decode mode offset xlat ds smb buf
      else case read_xlat (fseek smb SDT (unat (offset + df_offset d))) xlat of (x1, smb1) \<Rightarrow>
        let lzh = (x1 = XLAT_LZH)
        in case (if lzh then read_xlat smb1 x1 else (x1, smb1)) of (x2, smb2) \<Rightarrow>
          if x2 \<noteq> XLAT_NONE then getmsgtxt_loop lzh_decode mode offset x2 ds smb2 buf
          else let len = unat (df_length d) - 2
          in if lzh
             then if len - 2 < 1 then getmsgtxt_loop lzh_decode mode offset x2 ds smb2 buf
                  else case fread smb2 SDT (len - 2) of (bs, smb3) \<Rightarrow>
                    getmsgtxt_loop lzh_decode mode offset x2 ds smb3 (end_text (buf @ lzh_decode bs))
             else case fread smb2 SDT len of (bs, smb3) \<Rightarrow>
               getmsgtxt_loop lzh_decode mode offset x2 ds smb3 (end_text (buf @ bs)))"

definition smb_getmsgtxt :: "(byte list \<Rightarrow> byte list) \<Rightarrow> smb \<Rightarrow> smbmsg \<Rightarrow> ulong \<Rightarrow> byte list \<times> smb" where
  "smb_getmsgtxt lzh_decode smb msg mode =
     getmsgtxt_loop lzh_decode mode (hdr_offset (hdr msg)) 0 (live_dfields msg) smb
       (if mode AND GETMSGTXT_NO_HFIELDS \<noteq> 0 then []
        else concat (map (\<lambda>(h, d). if hf_type h = SMB_COMMENT \<or> hf_type h = SMTPSYSMSG
          then str_data d @ [0x0D, 0x0A] else []) (hfields msg)))"

end
