(* ===== verification/SmbAddProps.thy ===== *)
theory SmbAddProps
  imports SmbAdd
begin

text \<open>
  Properties of adding a message with its text: the base stays consistent, a duplicate is
  refused without a change, and the text read back is the text given.
\<close>

section \<open>What the steps keep\<close>

lemma kept_step: "kept s t \<Longrightarrow> kept t u \<Longrightarrow> kept s u"
  by (rule kept_trans)

lemma fread_disk: "fread s x n = (bs, s') \<Longrightarrow> disk s' = disk s"
  by (auto simp: fread_eq stream_simps)

lemma read_dfields_disk: "read_dfields hlen n l s acc = (r, l', s', ds) \<Longrightarrow> disk s' = disk s"
  by (induction n arbitrary: l s acc) (auto split: if_splits prod.splits dest: fread_disk)

lemma read_hfields_disk: "read_hfields hlen l s msg = (r, s', msg') \<Longrightarrow> disk s' = disk s"
proof (induction hlen l s msg rule: read_hfields.induct)
  case (1 hlen l s msg)
  show ?case
  proof (cases "hlen \<le> l")
    case True
    then show ?thesis using "1.prems" by (simp add: read_hfields.simps [of hlen l])
  next
    case False
    obtain bs s1 where f1: "fread s SHD 4 = (bs, s1)" by fastforce
    let ?n = "unat (hf_length (dec_hfield bs))"
    obtain d s2 where f2: "(if ?n = 0 then ([], s1) else fread s1 SHD ?n) = (d, s2)" by fastforce
    have d: "disk s1 = disk s" "disk s2 = disk s1"
      using fread_disk [OF f1] f2 by (auto dest: fread_disk split: if_splits)
    have step: "read_hfields hlen l s msg = (if length bs \<noteq> 4 then (SMB_ERR_READ, s1, smb_freemsgmem msg)
        else if length d \<noteq> ?n then (SMB_ERR_READ, s2, smb_freemsgmem msg)
        else read_hfields hlen (l + 4 + ?n) s2 (set_convenience_ptr
          (msg\<lparr>hfields := hfields msg @ [(dec_hfield bs, Some d)]\<rparr>) (hf_type (dec_hfield bs)) d))"
      using False by (subst read_hfields.simps) (simp add: f1 f2 Let_def)
    show ?thesis
    proof (cases "length bs = 4 \<and> length d = ?n")
      case True
      then have "disk s' = disk s2"
        using "1.IH" [OF False f1 [symmetric] refl _ refl refl f2 [symmetric] refl] "1.prems" step by simp
      then show ?thesis using d by simp
    next
      case False
      then show ?thesis using "1.prems" step d by (auto split: if_splits)
    qed
  qed
qed

lemma getmsghdr_disk: "smb_getmsghdr smb m = (r, smb', m') \<Longrightarrow> disk smb' = disk smb"
  by (auto simp: smb_getmsghdr_def Let_def stream_simps
    dest!: fread_disk read_dfields_disk read_hfields_disk split: if_splits prod.splits)

lemma updatethread_walk_kept:
  assumes "updatethread_walk new n s = Some y" "32 \<le> length (disk s SHD)"
  shows "kept s (snd y)"
proof -
  have "32 \<le> length (disk s SHD) \<longrightarrow> kept s (snd y)"
  proof (rule updatethread_walk.raw_induct [where P = "\<lambda>_ _ s y. 32 \<le> length (disk s SHD) \<longrightarrow> kept s (snd y)",
      OF _ assms(1)])
    fix f :: "u32 \<Rightarrow> u32 \<Rightarrow> smb \<Rightarrow> (int \<times> smb) option" and new n s y
    assume IH: "\<And>new n s y. f new n s = Some y \<Longrightarrow> 32 \<le> length (disk s SHD) \<longrightarrow> kept s (snd y)"
      and body: "(case smb_getmsgidx s (zero_msg\<lparr>hdr := zero_hdr\<lparr>hdr_number := n\<rparr>\<rparr>) of
        None \<Rightarrow> None
      | Some (r, smb1, msg1) \<Rightarrow>
          if r \<noteq> SMB_SUCCESS \<or> smb_lockmsghdr smb1 (idx_offset (idx msg1)) \<noteq> SMB_SUCCESS
          then Some (SMB_ERR_NOT_FOUND, smb1)
          else case smb_getmsghdr smb1 msg1 of (r1, smb2, msg2) \<Rightarrow>
            if r1 \<noteq> SMB_SUCCESS then Some (SMB_ERR_NOT_FOUND, smb2)
            else if thread_next (hdr msg2) \<noteq> 0 \<and> thread_next (hdr msg2) \<noteq> n
            then f new (thread_next (hdr msg2)) smb2
            else case smb_putmsghdr smb2 (msg2\<lparr>hdr := (hdr msg2)\<lparr>thread_next := new\<rparr>\<rparr>) of
              (r2, smb3, _) \<Rightarrow> Some (r2, smb3)) = Some y"
    obtain r smb1 msg1 where g: "smb_getmsgidx s (zero_msg\<lparr>hdr := zero_hdr\<lparr>hdr_number := n\<rparr>\<rparr>) = Some (r, smb1, msg1)"
      using body by (auto split: option.splits)
    obtain r1 smb2 msg2 where h: "smb_getmsghdr smb1 msg1 = (r1, smb2, msg2)" by (metis prod_cases3)
    obtain r2 smb3 msg3 where p: "smb_putmsghdr smb2 (msg2\<lparr>hdr := (hdr msg2)\<lparr>thread_next := new\<rparr>\<rparr>) = (r2, smb3, msg3)"
      by (metis prod_cases3)
    have d: "disk smb1 = disk s" "disk smb2 = disk s"
      using getmsgidx_disk [OF g] getmsghdr_disk [OF h] by simp_all
    show "32 \<le> length (disk s SHD) \<longrightarrow> kept s (snd y)"
    proof
      assume len: "32 \<le> length (disk s SHD)"
      have k2: "kept s smb2" using d(2) by (rule kept_disk)
      then have k3: "kept s smb3" using putmsghdr_kept [OF p] len d(2) by (auto intro: kept_trans)
      have "snd y = smb1 \<or> snd y = smb2 \<or> snd y = smb3 \<or> f new (thread_next (hdr msg2)) smb2 = Some y"
        using body by (auto simp: g h p split: if_splits)
      then show "kept s (snd y)"
        using kept_disk [OF d(1)] k2 k3 IH [of new "thread_next (hdr msg2)" smb2 y] len d(2)
        by (auto intro: kept_trans)
    qed
  qed
  then show ?thesis using assms(2) by simp
qed

lemma updatethread_kept:
  assumes u: "smb_updatethread smb remsg new = Some (r, smb', m')" and len: "32 \<le> length (disk smb SHD)"
  shows "kept smb smb'"
proof (cases "thread_first (hdr remsg) = 0")
  case False
  then show ?thesis
    using u updatethread_walk_kept [OF _ len, of new "thread_first (hdr remsg)"]
    by (fastforce simp: smb_updatethread_def)
next
  case True
  obtain r1 s1 m1 where g: "(if idx_offset (idx remsg) = 0 then smb_getmsgidx smb remsg
      else Some (SMB_SUCCESS, smb, remsg)) = Some (r1, s1, m1)"
    using u True by (auto simp: smb_updatethread_def split: option.splits)
  have d1: "disk s1 = disk smb" using g by (auto dest: getmsgidx_disk split: if_splits)
  obtain r2 s2 m2 where h: "(if hdr_length (hdr m1) = 0 then smb_getmsghdr s1 m1
      else (SMB_SUCCESS, s1, m1)) = (r2, s2, m2)" by (metis prod_cases3)
  have d2: "disk s2 = disk smb" using h d1 by (auto dest: getmsghdr_disk split: if_splits)
  obtain r3 s3 m3 where p: "smb_putmsghdr s2 (m2\<lparr>hdr := (hdr m2)\<lparr>thread_first := new\<rparr>\<rparr>) = (r3, s3, m3)"
    by (metis prod_cases3)
  have "smb' = s1 \<or> smb' = s2 \<or> smb' = s3"
    using u True by (auto simp: smb_updatethread_def g h p Let_def split: if_splits)
  moreover have "kept smb s3"
    using putmsghdr_kept [OF p] len d2 kept_disk [OF d2] by (auto intro: kept_trans)
  ultimately show ?thesis using kept_disk [OF d1] kept_disk [OF d2] by auto
qed

lemma addmsg_crc_disk: "addmsg_crc beyond smb dc b = (r, smb') \<Longrightarrow> disk smb' = disk smb \<and> status smb' = status smb \<and> env smb' = env smb"
  by (auto simp: addmsg_crc_def smb_addcrc_def Let_def sch_write_def split: if_splits)

lemma by_hash_kept:
  assumes "smb_getmsgidx_by_hash smb m src fl data n = Some (r, smb', m')"
  shows "kept smb smb'"
proof (cases "if n = 0 then smb_hashstr 0 0 src fl data else smb_hash 0 0 src fl data n")
  case None
  then show ?thesis using assms by (simp add: smb_getmsgidx_by_hash_def)
next
  case (Some h)
  obtain r1 smb1 c1 found where f: "smb_findhash smb [h] (source_bit src) False = (r1, smb1, c1, found)"
    by (metis prod_cases4)
  have k: "kept smb smb1" using findhash_untouched [OF f] by (rule kept_untouched) simp_all
  show ?thesis
    using assms k kept_disk [OF getmsgidx_disk] Some
    by (auto simp: smb_getmsgidx_by_hash_def f split: if_splits intro: kept_trans)
qed

definition text_to :: "smbmsg \<Rightarrow> (u32 \<times> dfield list) \<times> byte list option" where
  "text_to m = (text_of m, m_to m)"

lemma addmsg_back_kept:
  assumes "addmsg_back smb msg src reply = Some (smb', msg')"
  shows "kept smb smb'" "text_to msg' = text_to msg"
  using assms by_hash_kept
  by (auto simp: addmsg_back_def text_to_def text_of_def live_dfields_def split: option.splits if_splits)

lemma addmsg_reply_text: "addmsg_reply remsg msg = (ok, msg') \<Longrightarrow> text_to msg' = text_to msg"
proof -
  have "m_to (set_convenience_ptr m t d) = m_to m" if "t = RFC822REPLYID \<or> t = FIDOREPLYID" for m t d
    using that by (auto simp: set_convenience_ptr_def)
  then have add: "text_to (snd (smb_hfield_add_str m t s False)) = text_to m"
    if "t = RFC822REPLYID \<or> t = FIDOREPLYID" for m t s
    using that
    by (simp add: smb_hfield_add_str_def smb_hfield_add_def Let_def text_to_def text_of_def live_dfields_def ptr_simps)
  have add': "smb_hfield_add_str m RFC822REPLYID s False = (r, m') \<Longrightarrow> text_to m' = text_to m"
    "smb_hfield_add_str m FIDOREPLYID s False = (r, m') \<Longrightarrow> text_to m' = text_to m" for m s r m'
    using add [of RFC822REPLYID m s] add [of FIDOREPLYID m s] by simp_all
  show "addmsg_reply remsg msg = (ok, msg') \<Longrightarrow> text_to msg' = text_to msg"
    unfolding addmsg_reply_def Let_def
    by (auto dest!: add' split: prod.splits if_splits simp: text_to_def text_of_def live_dfields_def)
qed

lemma addmsg_thread_kept:
  assumes t: "addmsg_thread smb msg = Some (smb', msg')" and len: "32 \<le> length (disk smb SHD)"
  shows "kept smb smb'" "text_to msg' = text_to msg"
proof -
  have "kept smb smb' \<and> text_to msg' = text_to msg"
  proof (cases "thread_back (hdr msg) = 0")
    case True
    then show ?thesis using t by (simp add: addmsg_thread_def)
  next
    case False
    obtain r s1 m1 where g: "smb_getmsgidx smb (zero_msg\<lparr>hdr := zero_hdr\<lparr>hdr_number := thread_back (hdr msg)\<rparr>\<rparr>)
        = Some (r, s1, m1)"
      using t False by (auto simp: addmsg_thread_def split: option.splits)
    note d1 = getmsgidx_disk [OF g]
    obtain r2 s2 m2 where h: "smb_getmsghdr s1 m1 = (r2, s2, m2)" by (metis prod_cases3)
    have d2: "disk s2 = disk smb" using getmsghdr_disk [OF h] d1 by simp
    obtain ok m3 where y: "addmsg_reply m2 msg = (ok, m3)" by fastforce
    note tx = addmsg_reply_text [OF y]
    have "(smb' = s1 \<or> smb' = s2 \<or> (\<exists>r x. smb_updatethread s2 m2 (hdr_number (hdr m3)) = Some (r, smb', x)))
        \<and> (msg' = msg \<or> msg' = m3)"
      using t False by (auto simp: addmsg_thread_def g h y split: if_splits)
    moreover have "kept smb s" if "smb_updatethread s2 m2 (hdr_number (hdr m3)) = Some (r, s, x)" for r s x
      using updatethread_kept [OF that] len d2 kept_disk [OF d2] by (auto intro: kept_trans)
    ultimately show ?thesis using kept_disk [OF d1] kept_disk [OF d2] tx by blast
  qed
  then show "kept smb smb'" "text_to msg' = text_to msg" by simp_all
qed

section \<open>The text stage\<close>

lemma sda_loop_untouched: "sda_loop f n k s = (r, s') \<Longrightarrow> untouched {SDA} s s'"
proof (induction n arbitrary: k s)
  case (Suc n)
  obtain bs s1 where f1: "fread (fseek s SDA (k * 2)) SDA 2 = (bs, s1)" by fastforce
  have u1: "untouched {SDA} s s1"
    using f1 by (auto simp: fread_eq untouched_def stream_simps)
  obtain ok s2 where f2: "fwrite (fseek s1 SDA (k * 2)) SDA (le16 (f (un_le16 bs))) = (ok, s2)" by fastforce
  have u2: "untouched {SDA} s s2"
    using u1 untouched_fseek [of SDA "{SDA}" s1 "k * 2"] untouched_fwrite [OF f2, of "{SDA}"]
    by (auto intro: untouched_step)
  show ?case
    using Suc.prems Suc.IH [of "Suc k" s2] u1 u2
    by (auto simp: f1 f2 split: if_splits bool.splits intro: untouched_step)
qed simp

lemma freemsgdat_untouched: "smb_freemsgdat s off len refs = (r, s') \<Longrightarrow> untouched {SDA} s s'"
  by (auto simp: smb_freemsgdat_def Let_def split: if_splits prod.splits
      dest!: sda_loop_untouched untouched_open_fp [of _ _ _ _ "{SDA}"]
      intro: untouched_step untouched_close_fp)

lemma freemsg_dfields_kept: "kept s (snd (smb_freemsg_dfields s m refs))"
proof -
  have "freemsg_loop off rf ds s = (r, s') \<Longrightarrow> untouched {SDA} s s'" for off rf ds r s s'
    by (induction ds arbitrary: s)
      (auto split: prod.splits if_splits dest!: freemsgdat_untouched intro: untouched_step)
  then show ?thesis
    unfolding smb_freemsg_dfields_def
    by (intro kept_untouched [of "{SDA}"]) (blast intro: prod.collapse [symmetric], simp_all)
qed

text \<open>As \<open>kept\<close>, except for the texts.\<close>

definition meta_kept :: "smb \<Rightarrow> smb \<Rightarrow> bool" where
  "meta_kept s s' \<longleftrightarrow> kept s (s'\<lparr>disk := (disk s')(SDT := disk s SDT)\<rparr>)"

lemma kept_meta: "kept s s' \<Longrightarrow> meta_kept s s'"
  by (simp add: meta_kept_def kept_def)

lemma meta_kept_trans: "meta_kept s t \<Longrightarrow> meta_kept t u \<Longrightarrow> meta_kept s u"
  by (auto simp: meta_kept_def kept_def)

lemma meta_kept_untouched: "untouched A s s' \<Longrightarrow> SHD \<notin> A \<Longrightarrow> SID \<notin> A \<Longrightarrow> meta_kept s s'"
  by (simp add: untouched_def meta_kept_def kept_def)

lemma meta_kept_index_ok:
  assumes "meta_kept s s'" "index_ok s"
  shows "index_ok s'" "disk_status s' = disk_status s" "sid_table s' = sid_table s"
proof -
  let ?t = "s'\<lparr>disk := (disk s')(SDT := disk s SDT)\<rparr>"
  have "disk_status ?t = disk_status s'" "sid_table ?t = sid_table s'"
    by (simp_all add: disk_status_def sid_table_def)
  then show "index_ok s'" "disk_status s' = disk_status s" "sid_table s' = sid_table s"
    using kept_index_ok [OF assms(1) [unfolded meta_kept_def] assms(2)] by (simp_all add: index_ok_def)
qed

lemma allocdat_untouched:
  "smb_allocdat s len refs = (off, s') \<Longrightarrow> untouched {SDA} s s'"
  "smb_fallocdat s len refs = (off, s') \<Longrightarrow> untouched {SDA} s s'"
proof -
  have rep: "fwrite_rep n (fseek s SDA p) SDA bs = (ok, s') \<Longrightarrow> untouched {SDA} s s'" for n p bs ok
    using untouched_fseek [of SDA "{SDA}" s p] untouched_fwrite_rep [of n "fseek s SDA p" SDA bs ok s' "{SDA}"]
    by (auto intro: untouched_step)
  show "smb_allocdat s len refs = (off, s') \<Longrightarrow> untouched {SDA} s s'"
    by (auto simp: smb_allocdat_def Let_def split: if_splits prod.splits dest: rep)
  show "smb_fallocdat s len refs = (off, s') \<Longrightarrow> untouched {SDA} s s'"
    by (auto simp: smb_fallocdat_def fseek_end_def Let_def split: if_splits prod.splits
      dest: rep intro: untouched_fseek)
qed

lemma hallocdat_same: "smb_hallocdat s = (off, s') \<Longrightarrow> disk s' = disk s"
  by (auto simp: smb_hallocdat_def Let_def stream_simps split: if_splits)

lemma addmsg_alloc_kept:
  assumes a: "addmsg_alloc smb st len = (r, off, st', smb')"
  shows "kept smb smb'"
proof (cases "st_attr (status smb) AND SMB_HYPERALLOC = 0")
  case False
  then show ?thesis
    using a hallocdat_same by (auto simp: addmsg_alloc_def split: prod.splits intro: kept_disk)
next
  case True
  obtain r1 s1 where o: "smb_open_fp smb SDA = (r1, s1)" by fastforce
  have u1: "untouched {SDA} smb s1" using o by (rule untouched_open_fp) simp
  have "smb' = s1 \<or> (\<exists>off' s2. (smb_fallocdat s1 (of_nat len) 1 = (off', s2)
      \<or> smb_allocdat s1 (of_nat len) 1 = (off', s2)) \<and> smb' = smb_close_fp s2 SDA)"
    using a True by (auto simp: addmsg_alloc_def o split: if_splits prod.splits)
  then have "untouched {SDA} smb smb'"
    using u1 allocdat_untouched untouched_close_fp [of SDA "{SDA}"]
    by (metis untouched_step insertI1)
  then show ?thesis by (rule kept_untouched) simp_all
qed

lemma fwrite_all_ftell:
  "fwrite_all s x bss = (True, s') \<Longrightarrow> ftell s' x = ftell s x + length (concat bss)"
  by (induction bss arbitrary: s) (auto split: prod.splits bool.splits dest: fwrite_okE(2))

lemma fwrite_rep_low:
  "fwrite_rep n s x bs = (ok, s') \<Longrightarrow> k \<le> ftell s x \<Longrightarrow> k \<le> length (disk s x) \<Longrightarrow>
     take k (disk s' x) = take k (disk s x) \<and> length (disk s x) \<le> length (disk s' x)"
proof (induction n arbitrary: s)
  case (Suc n)
  obtain w s1 where W: "fwrite s x bs = (w, s1)" by fastforce
  show ?case
  proof (cases w)
    case True
    have W': "fwrite s x bs = (True, s1)" using W True by simp
    note e = fwrite_okE [OF W']
    have r: "fwrite_rep n s1 x bs = (ok, s')" using Suc.prems(1) W True by simp
    have "k \<le> ftell s1 x" "k \<le> length (disk s1 x)" using Suc.prems by (auto simp: e)
    from Suc.IH [OF r this] show ?thesis using Suc.prems(2,3) by (auto simp: e overwrite_def)
  next
    case False
    then show ?thesis using Suc.prems(1) W fwrite_refused [of s x bs s1] by auto
  qed
qed simp

lemma addmsg_write_untouched:
  "addmsg_write s m t ps = (r, s', m') \<Longrightarrow> untouched {SDT} s s'"
  by (auto simp: addmsg_write_def Let_def split: if_splits prod.splits
    dest!: untouched_fwrite_all [of _ _ _ _ _ "{SDT}"])

lemma addmsg_write_to: "addmsg_write s m t ps = (r, s', m') \<Longrightarrow> m_to m' = m_to m"
  by (auto simp: addmsg_write_def smb_dfield_def Let_def split: if_splits prod.splits)

lemma addmsg_text_to: "addmsg_text smb msg st body tail = (r, smb', msg', st') \<Longrightarrow> m_to msg' = m_to msg"
  by (auto simp: addmsg_text_def Let_def split: if_splits prod.splits dest!: addmsg_write_to)

lemma addmsg_text_kept:
  assumes a: "addmsg_text smb msg st body tail = (r, smb', msg', st')"
  shows "meta_kept smb smb'"
proof -
  let ?len = "length (concat body) + length (concat tail)"
  obtain r1 off st1 s1 where al: "addmsg_alloc smb st ?len = (r1, off, st1, s1)" by (metis prod_cases4)
  have k1: "meta_kept smb s1" using addmsg_alloc_kept [OF al] by (rule kept_meta)
  let ?m1 = "msg\<lparr>hdr := (hdr msg)\<lparr>hdr_offset := word_of_int off\<rparr>\<rparr>"
  obtain r2 s2 m2 where w2: "addmsg_write (fseek s1 SDT (nat off)) ?m1 TEXT_BODY body = (r2, s2, m2)"
    by (metis prod_cases3)
  obtain r3 s3 m3 where w3: "addmsg_write s2 m2 TEXT_TAIL tail = (r3, s3, m3)" by (metis prod_cases3)
  obtain ok s4 where w4: "fwrite_rep (if ?len mod 256 = 0 then 0 else 256 - ?len mod 256) s3 SDT [0] = (ok, s4)"
    by fastforce
  have u2: "untouched {SDT} s1 s2"
    using untouched_fseek [of SDT "{SDT}" s1 "nat off"] addmsg_write_untouched [OF w2] by (auto intro: untouched_step)
  have u3: "untouched {SDT} s1 s3" using u2 addmsg_write_untouched [OF w3] by (rule untouched_step)
  have u4: "untouched {SDT} s1 s4" using u3 untouched_fwrite_rep [OF w4, of "{SDT}"] by (auto intro: untouched_step)
  have m: "untouched {SDT} s1 s \<Longrightarrow> meta_kept smb s" for s
    using meta_kept_trans [OF k1 meta_kept_untouched] by simp
  have "smb' = smb \<or> smb' = s1 \<or> smb' = s2 \<or> smb' = s3 \<or> smb' = s4"
    using a by (auto simp: addmsg_text_def Let_def al w2 w3 w4 split: if_splits)
  then show ?thesis using k1 m u2 u3 u4 by (auto intro: kept_meta)
qed

section \<open>The whole call\<close>

text \<open>The bytes stored for the body and for the tail.\<close>

definition body_pieces :: "(byte list \<Rightarrow> byte list) \<Rightarrow> u16 \<Rightarrow> byte list \<Rightarrow> byte list \<Rightarrow> byte list list" where
  "body_pieces lzh_encode xlat b t =
     (if b = [] then []
      else body_record (addmsg_xlat lzh_encode b xlat (if t = [] then 0 else length t + 2)))"

definition tail_pieces :: "byte list \<Rightarrow> byte list list" where
  "tail_pieces t = (if t = [] then [] else tail_record t)"

definition text_done :: "smbmsg \<Rightarrow> byte list list \<Rightarrow> byte list list \<Rightarrow> smb \<Rightarrow> smbmsg \<Rightarrow> bool" where
  "text_done msg00 bp tp smb' msg' \<longleftrightarrow> (\<exists>s2 m0 st s3 m1 st1.
     addmsg_text s2 m0 st bp tp = (SMB_SUCCESS, s3, m1, st1)
     \<and> total_dfields (hdr m0) = total_dfields (hdr msg00)
     \<and> disk smb' SDT = disk s3 SDT \<and> text_of msg' = text_of m1)"

lemma addmsg_try_trace:
  assumes tr: "addmsg_try lzh_encode beyond smb0 msg00 storage dc xlat body tail = Some (r, smb', msg')"
    and len: "32 \<le> length (disk smb0 SHD)"
  shows "(meta_kept smb0 smb' \<and> r \<noteq> SMB_SUCCESS)
    \<or> (\<exists>s m st. meta_kept smb0 s
        \<and> text_done msg00 (body_pieces lzh_encode xlat (str_data body) (str_data tail)) (tail_pieces (str_data tail)) s m
        \<and> m_to m = m_to msg00
        \<and> ((r, smb', msg') = (SMB_SUCCESS, s, m) \<and> m_to m = None \<or> m_to m \<noteq> None \<and> smb_addmsghdr s m st = (r, smb', msg')))"
proof -
  obtain r0 smb where s0: "smb_getstatus smb0 = (r0, smb)" by fastforce
  have k0: "meta_kept smb0 smb" using getstatus_disk(1) [OF s0] by (intro kept_meta kept_disk)
  let ?m0 = "msg00\<lparr>hdr := (hdr msg00)\<lparr>hdr_number := last_msg (status smb) + 1\<rparr>\<rparr>"
  let ?hashed = "st_attr (status smb) AND (SMB_EMAIL OR SMB_NOHASH) = 0"
  let ?hs = "if ?hashed then smb_msghashes (clock (env smb)) ?m0 body SMB_HASH_SOURCE_DUPE else []"
  obtain rf smb1 x1 x2 where s1: "(if ?hashed then smb_findhash smb ?hs dc False
      else (SMB_ERR_NOT_FOUND, smb, [], zero_hash)) = (rf, smb1, x1, x2)" by (metis prod_cases4)
  have "untouched {HASH} smb smb1"
    using s1 findhash_untouched [of smb ?hs dc False rf smb1 x1 x2] by (auto split: if_splits)
  then have k1: "meta_kept smb0 smb1" using k0 meta_kept_untouched by (auto intro: meta_kept_trans)
  let ?b = "str_data body" and ?t = "str_data tail"
  obtain rc smb2 where s2: "addmsg_crc beyond smb1 dc ?b = (rc, smb2)" by fastforce
  have k2: "meta_kept smb0 smb2"
    using k1 addmsg_crc_disk [OF s2] by (auto intro: meta_kept_trans kept_meta kept_disk)
  let ?bp = "body_pieces lzh_encode xlat ?b ?t" and ?tp = "tail_pieces ?t"
  obtain rt smb3 m1 st1 where s3: "addmsg_text smb2 ?m0 storage ?bp ?tp = (rt, smb3, m1, st1)"
    by (metis prod_cases4)
  have k3: "meta_kept smb0 smb3" using k2 addmsg_text_kept [OF s3] by (rule meta_kept_trans)
  let ?m2 = "addmsg_times smb3 m1"
  have t2: "text_to ?m2 = text_to m1" by (simp add: addmsg_times_def Let_def text_to_def text_of_def live_dfields_def)
  have to1: "m_to m1 = m_to msg00" using addmsg_text_to [OF s3] by simp
  have run: "addmsg_try lzh_encode beyond smb0 msg00 storage dc xlat body tail =
    (if r0 \<noteq> SMB_SUCCESS then Some (r0, smb, msg00)
     else if rf = SMB_SUCCESS then Some (SMB_DUPE_MSG, smb1, ?m0)
     else if rc \<noteq> SMB_SUCCESS then Some (rc, smb2, ?m0)
     else if rt \<noteq> SMB_SUCCESS then Some (rt, smb3, m1)
     else case addmsg_back smb3 ?m2 HASH_SOURCE_MSG_ID (reply_id ?m2) of
                None \<Rightarrow> None
              | Some (smb4, msg3) \<Rightarrow>
                  case addmsg_back smb4 msg3 HASH_SOURCE_FTN_ID (ftn_reply msg3) of
                    None \<Rightarrow> None
                  | Some (smb5, msg4) \<Rightarrow>
                      case addmsg_thread smb5 msg4 of
                        None \<Rightarrow> None
                      | Some (smb6, msg5) \<Rightarrow>
                          case (if st_attr (status smb6) AND (SMB_EMAIL OR SMB_NOHASH) = 0
                                then smb_addhashes smb6 ?hs False else (SMB_FAILURE, smb6)) of
                            (rh, smb7) \<Rightarrow>
                            let msg6 = (if rh = SMB_SUCCESS then msg5\<lparr>m_hashed := True\<rparr> else msg5)
                            in if m_to msg6 = None then Some (SMB_SUCCESS, smb7, msg6)
                               else Some (smb_addmsghdr smb7 msg6 st1))"
    by (simp only: addmsg_try_def Let_def s0 s1 s2 s3 body_pieces_def [symmetric]
      tail_pieces_def [symmetric] prod.case cong del: if_weak_cong)
  show ?thesis
  proof (cases "r0 \<noteq> SMB_SUCCESS \<or> rf = SMB_SUCCESS \<or> rc \<noteq> SMB_SUCCESS \<or> rt \<noteq> SMB_SUCCESS")
    case True
    then have "r \<noteq> SMB_SUCCESS \<and> smb' \<in> {smb, smb1, smb2, smb3}"
      using tr unfolding run by (auto simp: smb_codes split: if_splits)
    then show ?thesis using k0 k1 k2 k3 by auto
  next
    case False
    then obtain smb4 msg3 smb5 msg4 smb6 msg5 where
      b1: "addmsg_back smb3 ?m2 HASH_SOURCE_MSG_ID (reply_id ?m2) = Some (smb4, msg3)" and
      b2: "addmsg_back smb4 msg3 HASH_SOURCE_FTN_ID (ftn_reply msg3) = Some (smb5, msg4)" and
      th: "addmsg_thread smb5 msg4 = Some (smb6, msg5)"
      using tr unfolding run by (auto split: option.splits)
    obtain rh smb7 where ah: "(if st_attr (status smb6) AND (SMB_EMAIL OR SMB_NOHASH) = 0
                                then smb_addhashes smb6 ?hs False else (SMB_FAILURE, smb6)) = (rh, smb7)"
      by fastforce
    have l3: "32 \<le> length (disk smb3 SHD)" using k3 len by (simp add: meta_kept_def kept_def)
    note kb1 = addmsg_back_kept [OF b1] and kb2 = addmsg_back_kept [OF b2]
    have k5: "kept smb3 smb5" using kb1(1) kb2(1) by (rule kept_trans)
    then have "32 \<le> length (disk smb5 SHD)" using l3 by (simp add: kept_def)
    note kt = addmsg_thread_kept [OF th this]
    have "untouched {HASH} smb6 smb7" using ah addhashes_untouched by (auto split: if_splits)
    then have k7: "kept smb3 smb7"
      using kept_trans [OF kept_trans [OF k5 kt(1)] kept_untouched] by simp
    let ?m6 = "if rh = SMB_SUCCESS then msg5\<lparr>m_hashed := True\<rparr> else msg5"
    have "text_to ?m6 = text_to m1"
      using t2 kb1(2) kb2(2) kt(2) by (simp add: text_to_def text_of_def live_dfields_def)
    then have t6: "text_of ?m6 = text_of m1" "m_to ?m6 = m_to msg00" using to1 by (simp_all only: text_to_def prod.inject)
    have "rt = SMB_SUCCESS" using False by simp
    then have dn: "text_done msg00 ?bp ?tp smb7 ?m6"
      using s3 k7 t6 unfolding text_done_def
      by (intro exI [of _ smb2] exI [of _ ?m0] exI [of _ storage] exI [of _ smb3] exI [of _ m1] exI [of _ st1])
        (simp add: kept_def)
    have "meta_kept smb0 smb7" using k3 kept_meta [OF k7] by (rule meta_kept_trans)
    moreover have "(r, smb', msg') = (SMB_SUCCESS, smb7, ?m6) \<and> m_to ?m6 = None \<or> m_to ?m6 \<noteq> None \<and> smb_addmsghdr smb7 ?m6 st1 = (r, smb', msg')"
      using tr False unfolding run
      by (simp add: b1 b2 th ah Let_def split del: if_split) (auto split: if_splits)
    ultimately show ?thesis using dn t6(2) by blast
  qed
qed

section \<open>The stored text\<close>

definition piece_field :: "u16 \<Rightarrow> nat \<Rightarrow> byte list list \<Rightarrow> dfield list" where
  "piece_field t off ps = (if ps = [] then []
     else [\<lparr>df_type = t, df_offset = word_of_nat off, df_length = word_of_nat (length (concat ps))\<rparr>])"

lemma addmsg_write_done:
  assumes "addmsg_write s m t ps = (SMB_SUCCESS, s', m')"
    "ps \<noteq> [] \<longrightarrow> unat (total_dfields (hdr m)) < 65535"
    "sum_list (map df_length (live_dfields m)) = word_of_nat k" "unat (total_dfields (hdr m)) \<le> length (dfields m)"
  shows "disk s' SDT = (if ps = [] then disk s SDT else overwrite (disk s SDT) (ftell s SDT) (concat ps))"
    "ftell s' SDT = ftell s SDT + length (concat ps)"
    "hdr_offset (hdr m') = hdr_offset (hdr m)"
    "live_dfields m' = live_dfields m @ piece_field t k ps"
    "unat (total_dfields (hdr m')) = unat (total_dfields (hdr m)) + length (piece_field t k ps)"
    "unat (total_dfields (hdr m')) \<le> length (dfields m')"
proof -
  have d: "smb_dfield m t (of_nat n) = (SMB_SUCCESS, m\<lparr>dfields := live_dfields m @
      [\<lparr>df_type = t, df_offset = word_of_nat k, df_length = word_of_nat n\<rparr>],
      hdr := (hdr m)\<lparr>total_dfields := total_dfields (hdr m) + 1\<rparr>\<rparr>)" for n
  proof -
    have "(ucast (of_nat n :: ulong) :: u32) = word_of_nat n"
      by (rule bit_word_eqI) (simp add: bit_simps)
    then show ?thesis by (simp add: smb_dfield_def Let_def assms(3))
  qed
  have l: "length (live_dfields m) = unat (total_dfields (hdr m))"
    using assms(4) by (simp add: live_dfields_def)
  have "disk s' SDT = (if ps = [] then disk s SDT else overwrite (disk s SDT) (ftell s SDT) (concat ps))
    \<and> ftell s' SDT = ftell s SDT + length (concat ps)
    \<and> hdr_offset (hdr m') = hdr_offset (hdr m)
    \<and> live_dfields m' = live_dfields m @ piece_field t k ps
    \<and> unat (total_dfields (hdr m')) = unat (total_dfields (hdr m)) + length (piece_field t k ps)
    \<and> unat (total_dfields (hdr m')) \<le> length (dfields m')"
  proof (cases ps)
    case Nil
    then show ?thesis using assms(1,4) by (simp add: addmsg_write_def piece_field_def)
  next
    case (Cons p qs)
    let ?m1 = "m\<lparr>dfields := live_dfields m @
      [\<lparr>df_type = t, df_offset = word_of_nat k, df_length = word_of_nat (length (concat ps))\<rparr>],
      hdr := (hdr m)\<lparr>total_dfields := total_dfields (hdr m) + 1\<rparr>\<rparr>"
    obtain ok s1 where w: "fwrite_all s SDT ps = (ok, s1)" by fastforce
    have r: "ok" "s' = s1" "m' = ?m1"
      using assms(1) Cons w d [of "length (concat ps)"]
      by (simp_all add: addmsg_write_def Let_def smb_codes del: fwrite_all.simps split: if_splits)
    have w': "fwrite_all s SDT (p # qs) = (True, s1)" using w r(1) Cons by simp
    have n: "unat (total_dfields (hdr m) + 1) = unat (total_dfields (hdr m)) + 1"
      using assms(2) Cons by (simp add: unat_word_ariths)
    show ?thesis
      using fwrite_all_disk [OF w'] fwrite_all_ftell [OF w'] Cons n l
      unfolding r(2,3) by (simp add: piece_field_def live_dfields_def [of "_\<lparr>hdr := _\<rparr>"])
  qed
  then show "disk s' SDT = (if ps = [] then disk s SDT else overwrite (disk s SDT) (ftell s SDT) (concat ps))"
    "ftell s' SDT = ftell s SDT + length (concat ps)"
    "hdr_offset (hdr m') = hdr_offset (hdr m)"
    "live_dfields m' = live_dfields m @ piece_field t k ps"
    "unat (total_dfields (hdr m')) = unat (total_dfields (hdr m)) + length (piece_field t k ps)"
    "unat (total_dfields (hdr m')) \<le> length (dfields m')"
    by simp_all
qed

lemma addmsg_text_done:
  assumes a: "addmsg_text smb msg st bp tp = (SMB_SUCCESS, s', m', st')"
    and z: "total_dfields (hdr msg) = 0"
    and ne: "bp \<noteq> [] \<longrightarrow> concat bp \<noteq> []" "tp \<noteq> [] \<longrightarrow> concat tp \<noteq> []"
  shows "\<exists>off rest. (bp = [] \<and> tp = [] \<or> drop off (disk s' SDT) = concat bp @ concat tp @ rest
        \<and> hdr_offset (hdr m') = word_of_nat off)
    \<and> live_dfields m' = piece_field TEXT_BODY 0 bp @ piece_field TEXT_TAIL (length (concat bp)) tp"
proof (cases "bp = [] \<and> tp = []")
  case True
  then show ?thesis using a z by (simp add: addmsg_text_def piece_field_def live_dfields_def)
next
  case False
  let ?B = "concat bp" and ?T = "concat tp"
  let ?len = "length ?B + length ?T"
  have len: "?len \<noteq> 0" using False ne by auto
  obtain r1 o1 st1 s1 where al: "addmsg_alloc smb st ?len = (r1, o1, st1, s1)" by (metis prod_cases4)
  let ?m1 = "msg\<lparr>hdr := (hdr msg)\<lparr>hdr_offset := word_of_int o1\<rparr>\<rparr>"
  obtain r2 s2 m2 where w2: "addmsg_write (fseek s1 SDT (nat o1)) ?m1 TEXT_BODY bp = (r2, s2, m2)"
    by (metis prod_cases3)
  obtain r3 s3 m3 where w3: "addmsg_write s2 m2 TEXT_TAIL tp = (r3, s3, m3)" by (metis prod_cases3)
  obtain ok s4 where w4: "fwrite_rep (if ?len mod 256 = 0 then 0 else 256 - ?len mod 256) s3 SDT [0] = (ok, s4)"
    by fastforce
  have e: "0 \<le> o1" "r2 = SMB_SUCCESS" "r3 = SMB_SUCCESS" "s' = s4" "m' = m3"
    using a len by (auto simp: addmsg_text_def Let_def al w2 w3 w4 smb_codes split: if_splits)
  define off where "off = nat o1"
  have z1: "sum_list (map df_length (live_dfields ?m1)) = word_of_nat 0" "unat (total_dfields (hdr ?m1)) = 0"
    using z by (simp_all add: live_dfields_def)
  then have c1: "bp \<noteq> [] \<longrightarrow> unat (total_dfields (hdr ?m1)) < 65535"
    "unat (total_dfields (hdr ?m1)) \<le> length (dfields ?m1)" by simp_all
  note W2 = addmsg_write_done [OF w2 [unfolded e(2)] c1(1) z1(1) c1(2)]
  have lf: "length (piece_field t k ps) \<le> 1" for t k ps by (simp add: piece_field_def)
  have l1: "live_dfields ?m1 = []" using z by (simp add: live_dfields_def)
  have z2: "sum_list (map df_length (live_dfields m2)) = word_of_nat (length ?B)"
    using W2(4) l1 by (simp add: piece_field_def)
  have c2: "tp \<noteq> [] \<longrightarrow> unat (total_dfields (hdr m2)) < 65535"
    using W2(5) z1(2) lf [of TEXT_BODY 0 bp] by simp
  note W3 = addmsg_write_done [OF w3 [unfolded e(3)] c2 z2 W2(6)]
  have pos: "ftell s3 SDT = off + ?len" using W2(2) W3(2) by (simp add: off_def)
  have "\<exists>D. disk s3 SDT = overwrite D off (?B @ ?T) \<and> off + ?len \<le> length (disk s3 SDT)"
  proof (cases "tp = []")
    case True
    then show ?thesis using W2(1) W3(1) False by (auto simp: off_def stream_simps)
  next
    case tp: False
    show ?thesis
    proof (cases "bp = []")
      case True
      then show ?thesis using W2(1,2) W3(1) tp by (auto simp: off_def stream_simps)
    next
      case bp: False
      then have "disk s3 SDT = overwrite (disk s1 SDT) off (?B @ ?T)"
        using W2(1,2) W3(1) tp by (simp add: off_def stream_simps overwrite_overwrite_next)
      then show ?thesis by auto
    qed
  qed
  then obtain D where D: "disk s3 SDT = overwrite D off (?B @ ?T)" "off + ?len \<le> length (disk s3 SDT)"
    by blast
  have low: "take (off + ?len) (disk s4 SDT) = take (off + ?len) (disk s3 SDT)"
    using fwrite_rep_low [OF w4, of "off + ?len"] pos D(2) by simp
  have "drop off (take (off + ?len) (disk s3 SDT)) = take ?len (drop off (disk s3 SDT))"
    by (simp add: drop_take)
  also have "\<dots> = ?B @ ?T" by (simp add: D(1) drop_overwrite)
  finally have "drop off (take (off + ?len) (disk s4 SDT)) = ?B @ ?T" by (simp add: low)
  then have "drop off (disk s4 SDT) = ?B @ ?T @ drop (off + ?len) (disk s4 SDT)"
    by (metis append.assoc add.commute append_take_drop_id drop_drop drop_take diff_add_inverse)
  moreover have "hdr_offset (hdr m') = word_of_nat off"
    using W2(3) W3(3) e(1,5) by (simp add: off_def)
  moreover have "live_dfields m' = piece_field TEXT_BODY 0 bp @ piece_field TEXT_TAIL (length ?B) tp"
    using W2(4) W3(4) l1 e(5) by simp
  ultimately show ?thesis unfolding e(4) by blast
qed

section \<open>Reading the text back\<close>

lemma read_xlat_run:
  assumes "drop (ftell s SDT) (disk s SDT) = le16 x @ rest"
  obtains s' where "read_xlat s y = (x, s')" "same_base s s'" "drop (ftell s' SDT) (disk s' SDT) = rest"
proof -
  obtain s' where "fread s SDT 2 = (le16 x, s')" "same_base s s'" "drop (ftell s' SDT) (disk s' SDT) = rest"
    using fread_run [OF assms length_le16] by blast
  then show ?thesis by (intro that [of s']) (simp_all add: read_xlat_def)
qed

lemma getmsgtxt_piece:
  assumes at: "drop (unat (offset + df_offset d)) (disk s SDT) = concat (body_record bx) @ rest"
    and len: "df_length d = word_of_nat (length (concat (body_record bx)))"
      "length (concat (body_record bx)) < 2 ^ 32"
    and ne: "snd bx \<noteq> []" and want: "wanted_dfield mode d"
  obtains s' where "same_base s s'"
    "getmsgtxt_loop lzh_decode mode offset xlat (d # ds) s buf = getmsgtxt_loop lzh_decode mode offset 0 ds s'
      (end_text (buf @ (if fst bx then lzh_decode (snd bx) else snd bx)))"
proof -
  let ?s0 = "fseek s SDT (unat (offset + df_offset d))"
  have u: "unat (df_length d) = length (concat (body_record bx))"
    using len by (simp add: unat_of_nat)
  have b0: "same_base s ?s0" by (rule same_base_fseek)
  have a0: "drop (ftell ?s0 SDT) (disk ?s0 SDT) = concat (body_record bx) @ rest"
    using at by (simp add: stream_simps)
  show thesis
  proof (cases "fst bx")
    case False
    then have "concat (body_record bx) = le16 XLAT_NONE @ snd bx" by (simp add: body_record_def)
    then have a: "drop (ftell ?s0 SDT) (disk ?s0 SDT) = le16 XLAT_NONE @ (snd bx @ rest)"
      and n: "unat (df_length d) - 2 = length (snd bx)"
      using a0 u by simp_all
    obtain s1 where r1: "read_xlat ?s0 xlat = (XLAT_NONE, s1)" "same_base ?s0 s1"
      "drop (ftell s1 SDT) (disk s1 SDT) = snd bx @ rest" using read_xlat_run [OF a] by blast
    obtain s2 where r2: "fread s1 SDT (length (snd bx)) = (snd bx, s2)" "same_base s1 s2"
      using fread_run [OF r1(3) refl] by blast
    show thesis
      using False want
      by (intro that [OF same_base_trans [OF same_base_trans [OF b0 r1(2)] r2(2)]])
        (simp add: Let_def r1(1) n r2(1))
  next
    case True
    then have "concat (body_record bx) = le16 XLAT_LZH @ le16 XLAT_NONE @ snd bx" by (simp add: body_record_def)
    then have a: "drop (ftell ?s0 SDT) (disk ?s0 SDT) = le16 XLAT_LZH @ (le16 XLAT_NONE @ (snd bx @ rest))"
      and n: "unat (df_length d) - 2 - 2 = length (snd bx)"
      using a0 u by simp_all
    obtain s1 where r1: "read_xlat ?s0 xlat = (XLAT_LZH, s1)" "same_base ?s0 s1"
      "drop (ftell s1 SDT) (disk s1 SDT) = le16 XLAT_NONE @ (snd bx @ rest)" using read_xlat_run [OF a] by blast
    obtain s2 where r2: "read_xlat s1 XLAT_LZH = (XLAT_NONE, s2)" "same_base s1 s2"
      "drop (ftell s2 SDT) (disk s2 SDT) = snd bx @ rest" using read_xlat_run [OF r1(3)] by blast
    obtain s3 where r3: "fread s2 SDT (length (snd bx)) = (snd bx, s3)" "same_base s2 s3"
      using fread_run [OF r2(3) refl] by blast
    have "0 < length (snd bx)" using ne by simp
    then have nz: "\<not> unat (df_length d) - 2 \<le> 2" "unat (df_length d) - 4 = length (snd bx)"
      using n by linarith+
    show thesis
      using True want nz
      by (intro that [OF same_base_trans [OF same_base_trans [OF same_base_trans [OF b0 r1(2)] r2(2)] r3(2)]])
        (simp add: Let_def r1(1) r2(1) r3(1))
  qed
qed

definition text_line :: "byte list \<Rightarrow> byte list" where
  "text_line t = (if t = [] then [] else t @ [0x0D, 0x0A])"

lemma end_text_line: "t \<noteq> [] \<Longrightarrow> 0 \<notin> set t \<Longrightarrow> end_text (buf @ t) = buf @ text_line t"
  by (cases t rule: rev_exhaust) (auto simp: end_text_def text_line_def)

lemma str_data_no_zero: "0 \<notin> set (str_data s)"
  by (simp add: str_data_def split: option.split)

lemma wanted_all: "2 < df_length d \<Longrightarrow> df_type d = TEXT_BODY \<or> df_type d = TEXT_TAIL \<Longrightarrow>
    wanted_dfield (GETMSGTXT_TAILS OR GETMSGTXT_NO_HFIELDS) d"
  by (auto simp: wanted_dfield_def GETMSGTXT_TAILS_def GETMSGTXT_NO_HFIELDS_def GETMSGTXT_NO_BODY_def)

lemma getmsgtxt_done:
  assumes dn: "text_done msg00 (body_pieces lzh_encode xlat b t) (tail_pieces t) s m"
    and z: "total_dfields (hdr msg00) = 0"
    and tx: "text_of m' = text_of m" "disk s' SDT = disk s SDT"
    and small: "length (disk s SDT) < 2 ^ 32"
    and nz: "0 \<notin> set b" "0 \<notin> set t"
    and dec: "xlat = XLAT_LZH \<longrightarrow> lzh_decode (lzh_encode b) = b"
  shows "fst (smb_getmsgtxt lzh_decode s' m' (GETMSGTXT_TAILS OR GETMSGTXT_NO_HFIELDS))
    = text_line b @ text_line t"
proof -
  let ?bp = "body_pieces lzh_encode xlat b t" and ?tp = "tail_pieces t"
  let ?mode = "GETMSGTXT_TAILS OR GETMSGTXT_NO_HFIELDS"
  obtain s2 m0 st s3 m1 st1 where a: "addmsg_text s2 m0 st ?bp ?tp = (SMB_SUCCESS, s3, m1, st1)"
    "total_dfields (hdr m0) = 0" "disk s SDT = disk s3 SDT" "text_of m = text_of m1"
    using dn z by (auto simp: text_done_def)
  have lz: "le16 w \<noteq> []" for w using length_le16 [of w] by (cases "le16 w") simp_all
  have ne: "?bp \<noteq> [] \<longrightarrow> concat ?bp \<noteq> []" "?tp \<noteq> [] \<longrightarrow> concat ?tp \<noteq> []"
    by (auto simp: body_pieces_def body_record_def tail_pieces_def tail_record_def lz)
  obtain off rest where o: "?bp = [] \<and> ?tp = [] \<or> drop off (disk s' SDT) = concat ?bp @ concat ?tp @ rest
        \<and> hdr_offset (hdr m') = word_of_nat off"
    and l: "live_dfields m' = piece_field TEXT_BODY 0 ?bp @ piece_field TEXT_TAIL (length (concat ?bp)) ?tp"
    using addmsg_text_done [OF a(1,2) ne] a(3,4) tx by (auto simp: text_of_def)
  define bx where "bx = addmsg_xlat lzh_encode b xlat (if t = [] then 0 else length t + 2)"
  have bp: "?bp = (if b = [] then [] else body_record bx)" by (simp add: body_pieces_def bx_def)
  have tp: "?tp = (if t = [] then [] else body_record (False, t))"
    by (simp add: tail_pieces_def tail_record_def body_record_def)
  have bx: "b \<noteq> [] \<Longrightarrow> snd bx \<noteq> []" "(if fst bx then lzh_decode (snd bx) else snd bx) = b"
    using dec by (auto simp: bx_def addmsg_xlat_def Let_def split: if_splits)
  have lenrec: "2 < length (concat (body_record (c, x)))" if "x \<noteq> []" for c x
    using that by (cases x) (simp_all add: body_record_def)
  have w2: "2 < (word_of_nat n :: u32)" if "2 < n" "n < 2 ^ 32" for n
    using that by (simp add: word_less_nat_alt unat_of_nat)
  have start: "smb_getmsgtxt lzh_decode s' m' ?mode
      = getmsgtxt_loop lzh_decode ?mode (hdr_offset (hdr m')) 0 (live_dfields m') s' []"
    by (simp add: smb_getmsgtxt_def GETMSGTXT_TAILS_def GETMSGTXT_NO_HFIELDS_def)
  show ?thesis
  proof (cases "b = [] \<and> t = []")
    case True
    then show ?thesis using start l by (simp add: body_pieces_def tail_pieces_def piece_field_def text_line_def)
  next
    case False
    then have o': "drop off (disk s' SDT) = concat ?bp @ concat ?tp @ rest"
      "hdr_offset (hdr m') = word_of_nat off"
      using o bp tp lenrec by (auto simp: body_record_def split: if_splits)
    have "length (drop off (disk s' SDT)) = length (concat ?bp) + length (concat ?tp) + length rest"
      unfolding o'(1) by simp
    then have sz: "off + length (concat ?bp) + length (concat ?tp) < 2 ^ 32"
      using small tx(2) False bp tp lenrec [of b "fst bx"] lenrec [of t False] bx(1) ne
      by (cases "b = []"; cases "t = []") (auto simp: body_record_def)
    have uo: "unat (word_of_nat off + word_of_nat k :: u32) = off + k" if "off + k < 2 ^ 32" for k
      using that by (simp add: unat_of_nat flip: of_nat_add)
    let ?db = "\<lparr>df_type = TEXT_BODY, df_offset = word_of_nat 0, df_length = word_of_nat (length (concat ?bp))\<rparr>"
    let ?dt = "\<lparr>df_type = TEXT_TAIL, df_offset = word_of_nat (length (concat ?bp)), df_length = word_of_nat (length (concat ?tp))\<rparr>"
    have tail: "fst (getmsgtxt_loop lzh_decode ?mode (hdr_offset (hdr m')) 0 (piece_field TEXT_TAIL (length (concat ?bp)) ?tp) s4 buf)
        = buf @ text_line t" if s4: "disk s4 SDT = disk s' SDT" for s4 buf
    proof (cases "t = []")
      case True
      then show ?thesis by (simp add: tail_pieces_def piece_field_def text_line_def)
    next
      case t: False
      have T: "?tp = body_record (False, t)" using tp t by simp
      have "unat (hdr_offset (hdr m') + df_offset ?dt) = off + length (concat ?bp)"
        using uo [of "length (concat ?bp)"] sz o'(2) by simp
      moreover have "drop (off + length (concat ?bp)) (disk s4 SDT)
          = drop (length (concat ?bp)) (drop off (disk s' SDT))" by (simp add: s4 add.commute)
      ultimately have at: "drop (unat (hdr_offset (hdr m') + df_offset ?dt)) (disk s4 SDT)
          = concat (body_record (False, t)) @ rest" using o'(1) T by simp
      have sz': "length (concat (body_record (False, t))) < 2 ^ 32" using sz T by simp
      have wd: "wanted_dfield ?mode ?dt"
        using w2 [OF lenrec [OF t] sz'] T by (intro wanted_all) simp_all
      have e: "df_length ?dt = word_of_nat (length (concat (body_record (False, t))))" "snd (False, t) \<noteq> []"
        using t by (simp_all add: T)
      obtain s5 where "getmsgtxt_loop lzh_decode ?mode (hdr_offset (hdr m')) 0 [?dt] s4 buf
          = getmsgtxt_loop lzh_decode ?mode (hdr_offset (hdr m')) 0 [] s5
            (end_text (buf @ (if fst (False, t) then lzh_decode (snd (False, t)) else snd (False, t))))"
        using getmsgtxt_piece [OF at e(1) sz' e(2) wd] by blast
      then have g: "getmsgtxt_loop lzh_decode ?mode (hdr_offset (hdr m')) 0 [?dt] s4 buf
          = (end_text (buf @ t), s5)" by (simp only: getmsgtxt_loop.simps(1) fst_conv snd_conv if_False)
      have "?tp \<noteq> []" by (simp add: T body_record_def)
      then have "piece_field TEXT_TAIL (length (concat ?bp)) ?tp = [?dt]" by (simp add: piece_field_def)
      then show ?thesis by (simp only: g end_text_line [OF t nz(2)] fst_conv)
    qed
    show ?thesis
    proof (cases "b = []")
      case True
      then show ?thesis using tail [of s' "[]"] start l by (simp add: body_pieces_def piece_field_def text_line_def)
    next
      case b: False
      have B: "?bp = body_record bx" using bp b by simp
      have "unat (hdr_offset (hdr m') + df_offset ?db) = off"
        using uo [of 0] sz o'(2) by simp
      then have at: "drop (unat (hdr_offset (hdr m') + df_offset ?db)) (disk s' SDT)
          = concat (body_record bx) @ (concat ?tp @ rest)" using o'(1) B by simp
      have sz': "length (concat (body_record bx)) < 2 ^ 32" using sz B by simp
      have "2 < length (concat (body_record bx))" using lenrec [OF bx(1) [OF b], of "fst bx"] by simp
      then have wd: "wanted_dfield ?mode ?db"
        using w2 [OF _ sz'] B by (intro wanted_all) simp_all
      have e: "df_length ?db = word_of_nat (length (concat (body_record bx)))" by (simp add: B)
      obtain s5 where s5: "same_base s' s5" and
        "getmsgtxt_loop lzh_decode ?mode (hdr_offset (hdr m')) 0
            (?db # piece_field TEXT_TAIL (length (concat ?bp)) ?tp) s' []
          = getmsgtxt_loop lzh_decode ?mode (hdr_offset (hdr m')) 0
            (piece_field TEXT_TAIL (length (concat ?bp)) ?tp) s5
              (end_text ([] @ (if fst bx then lzh_decode (snd bx) else snd bx)))"
        using getmsgtxt_piece [OF at e sz' bx(1) [OF b] wd] by blast
      then have g: "getmsgtxt_loop lzh_decode ?mode (hdr_offset (hdr m')) 0
            (?db # piece_field TEXT_TAIL (length (concat ?bp)) ?tp) s' []
          = getmsgtxt_loop lzh_decode ?mode (hdr_offset (hdr m')) 0
            (piece_field TEXT_TAIL (length (concat ?bp)) ?tp) s5 (end_text b)"
        by (simp only: bx(2) append_Nil)
      have lb: "live_dfields m' = ?db # piece_field TEXT_TAIL (length (concat ?bp)) ?tp"
        using l B ne(1) b bp by (auto simp: piece_field_def body_record_def)
      show ?thesis
        unfolding start lb g using tail [of s5 "end_text b"] same_base_disk [OF s5]
          end_text_line [OF b nz(1), of "[]"] by simp
    qed
  qed
qed

section \<open>Consistency\<close>

lemma addmsg_index:
  assumes ok: "index_ok smb" and st: "st = disk_status smb"
    and room: "unat (last_msg st) + 1 < 2 ^ 32" "unat (total_msgs st) + 1 < 2 ^ 31"
    and add: "smb_addmsg lzh_encode beyond smb msg storage dc xlat body tail = Some (r, smb', msg')"
  shows "index_ok smb'
    \<and> (if r = SMB_SUCCESS \<and> m_to msg \<noteq> None
      then disk_status smb' = bump st \<and> sid_table smb' = sid_table smb @ [idx msg']
        \<and> idx_number (idx msg') = last_msg st + 1
      else disk_status smb' = st \<and> sid_table smb' = sid_table smb)
    \<and> (r = SMB_SUCCESS \<longrightarrow> (\<exists>s m msg00. total_dfields (hdr msg00) = 0
        \<and> text_done msg00 (body_pieces lzh_encode xlat (str_data body) (str_data tail)) (tail_pieces (str_data tail)) s m
        \<and> text_of msg' = text_of m \<and> disk smb' SDT = disk s SDT))" (is ?goal)
proof -
  have len: "32 \<le> length (disk smb SHD)" using ok by (simp add: index_ok_def)
  have fail: ?goal if "meta_kept smb smb'" "r \<noteq> SMB_SUCCESS"
    using meta_kept_index_ok [OF that(1) ok] that(2) st by simp
  show ?goal
  proof (cases "is_open smb SHD")
    case False
    then show ?thesis using add fail by (simp add: smb_addmsg_def smb_codes kept_meta)
  next
    case True
    obtain rl smb2 where lk: "(if locked smb then (SMB_SUCCESS, smb) else smb_locksmbhdr smb) = (rl, smb2)"
      by fastforce
    have d2: "disk smb2 = disk smb" using lk by (auto dest: disk_locksmbhdr split: if_splits)
    have k2: "meta_kept smb smb2" using d2 by (intro kept_meta kept_disk)
    let ?m0 = "msg\<lparr>hdr := (hdr msg)\<lparr>total_dfields := 0\<rparr>\<rparr>"
    let ?attempt = "addmsg_try lzh_encode beyond smb2 ?m0 storage dc xlat body tail"
    have run: "smb_addmsg lzh_encode beyond smb msg storage dc xlat body tail =
      (if rl \<noteq> SMB_SUCCESS then Some (SMB_ERR_LOCK, smb2, msg)
       else map_option (\<lambda>(retval, smb3, msg1).
            let smb4 = (if retval \<noteq> SMB_SUCCESS then snd (smb_freemsg_dfields smb3 msg1 1) else smb3)
            in (retval, snd (smb_unlocksmbhdr smb4), msg1)) ?attempt)"
      using True len lk
      by (cases "disk smb SHD") (simp_all add: smb_addmsg_def del: length_greater_0_conv)
    show ?thesis
    proof (cases "rl = SMB_SUCCESS")
      case False
      then show ?thesis using add fail k2 unfolding run by (simp add: smb_codes)
    next
      case True
      then obtain smb3 where t: "?attempt = Some (r, smb3, msg')"
        and e: "smb' = snd (smb_unlocksmbhdr (if r \<noteq> SMB_SUCCESS then snd (smb_freemsg_dfields smb3 msg' 1) else smb3))"
        using add unfolding run by (auto simp: Let_def)
      have k3: "meta_kept smb3 smb'" if "r \<noteq> SMB_SUCCESS"
        using freemsg_dfields_kept [of smb3 msg' 1] that
        by (auto simp: e meta_kept_def kept_def)
      have d3: "disk smb' = disk smb3" if "r = SMB_SUCCESS" using that by (simp add: e)
      have "32 \<le> length (disk smb2 SHD)" using len d2 by simp
      from addmsg_try_trace [OF t this] show ?thesis
      proof (elim disjE conjE exE)
        assume "meta_kept smb2 smb3" "r \<noteq> SMB_SUCCESS"
        then show ?thesis using fail k2 k3 meta_kept_trans by blast
      next
        fix s m st1
        assume k: "meta_kept smb2 s" and
          dn: "text_done ?m0 (body_pieces lzh_encode xlat (str_data body) (str_data tail)) (tail_pieces (str_data tail)) s m"
          and to: "m_to m = m_to ?m0" and "(r, smb3, msg') = (SMB_SUCCESS, s, m)" "m_to m = None"
        then have eq: "r = SMB_SUCCESS" "smb3 = s" "msg' = m" "m_to msg = None" by simp_all
        have "meta_kept smb smb'"
          using meta_kept_trans [OF meta_kept_trans [OF k2 k]] kept_meta [OF kept_disk [OF d3 [OF eq(1)]]] eq(2)
          by simp
        note mk = meta_kept_index_ok [OF this ok]
        have "\<exists>s m msg00. total_dfields (hdr msg00) = 0
          \<and> text_done msg00 (body_pieces lzh_encode xlat (str_data body) (str_data tail)) (tail_pieces (str_data tail)) s m
          \<and> text_of msg' = text_of m \<and> disk smb' SDT = disk s SDT"
          using dn eq d3 by (intro exI [of _ s] exI [of _ m] exI [of _ ?m0]) simp
        then show ?thesis using mk eq st by simp
      next
        fix s m st1
        assume k: "meta_kept smb2 s" and
          dn: "text_done ?m0 (body_pieces lzh_encode xlat (str_data body) (str_data tail)) (tail_pieces (str_data tail)) s m"
          and to: "m_to m = m_to ?m0" "m_to m \<noteq> None" and a: "smb_addmsghdr s m st1 = (r, smb3, msg')"
        note mk = meta_kept_index_ok [OF meta_kept_trans [OF k2 k] ok]
        note ai = addmsghdr_index [OF mk(1) refl _ _ a]
        have "index_ok smb3 \<and> disk smb3 SDT = disk s SDT \<and> text_of msg' = text_of m
          \<and> (if r = SMB_SUCCESS then disk_status smb3 = bump st \<and> sid_table smb3 = sid_table smb @ [idx msg']
            \<and> idx_number (idx msg') = last_msg st + 1
            else disk_status smb3 = st \<and> sid_table smb3 = sid_table smb)"
          using ai mk st room by (auto split: if_splits)
        note A = this
        show ?thesis
        proof (cases "r = SMB_SUCCESS")
          case False
          have "meta_kept smb3 smb'" using k3 False by simp
          note mk3 = meta_kept_index_ok [OF this]
          show ?thesis using mk3 A False by simp
        next
          case rs: True
          note mk3 = meta_kept_index_ok [OF kept_meta [OF kept_disk [OF d3 [OF rs]]]]
          have "\<exists>s m msg00. total_dfields (hdr msg00) = 0
            \<and> text_done msg00 (body_pieces lzh_encode xlat (str_data body) (str_data tail)) (tail_pieces (str_data tail)) s m
            \<and> text_of msg' = text_of m \<and> disk smb' SDT = disk s SDT"
            using dn A d3 [OF rs] by (intro exI [of _ s] exI [of _ m] exI [of _ ?m0]) simp
          then show ?thesis using mk3 A rs to by simp
        qed
      qed
    qed
  qed
qed

section \<open>The properties\<close>

lemma locksmbhdr_frame:
  "smb_locksmbhdr smb = (r, smb') \<Longrightarrow> disk smb' = disk smb \<and> env smb' = env smb \<and> fpos smb' = fpos smb"
proof -
  have "locksmbhdr_loop ts smb = (r, smb') \<Longrightarrow> disk smb' = disk smb \<and> env smb' = env smb \<and> fpos smb' = fpos smb" for ts
    by (induction ts arbitrary: smb) (fastforce split: if_splits)+
  then show "smb_locksmbhdr smb = (r, smb') \<Longrightarrow> disk smb' = disk smb \<and> env smb' = env smb \<and> fpos smb' = fpos smb"
    by (auto simp: smb_locksmbhdr_def split: if_splits)
qed

text \<open>The message as it is when its hashes are computed.\<close>

definition numbered :: "smbmsg \<Rightarrow> u32 \<Rightarrow> smbmsg" where
  "numbered msg n = msg\<lparr>hdr := (hdr msg)\<lparr>total_dfields := 0, hdr_number := n\<rparr>\<rparr>"

text \<open>
  C1: Adding a message with its text keeps the base consistent on every path: duplicate, full
  disk, refused lock, bad reply id, or success. On success the index has one record more,
  numbered one above the last, and the status header counts it (or nothing is indexed, when the
  message has no recipient); on failure index and status header are as before. The base must have
  room for one more message number (32 bits) and one more message (31 bits).
\<close>

theorem smb_addmsg_invariant:
  assumes "index_ok smb" "unat (last_msg (disk_status smb)) + 1 < 2 ^ 32"
    "unat (total_msgs (disk_status smb)) + 1 < 2 ^ 31"
    "smb_addmsg lzh_encode beyond smb msg storage dupechk xlat body tail = Some (r, smb', msg')"
  shows "index_ok smb' \<and> (if r = SMB_SUCCESS \<and> m_to msg \<noteq> None
      then disk_status smb' = bump (disk_status smb) \<and> sid_table smb' = sid_table smb @ [idx msg']
        \<and> idx_number (idx msg') = last_msg (disk_status smb) + 1
      else disk_status smb' = disk_status smb \<and> sid_table smb' = sid_table smb)"
  using addmsg_index [OF assms(1) refl assms(2-4)] by blast

text \<open>
  C2: The text of an added message reads back as it was given, the body and the tail each
  followed by a line end, stored plainly or compressed, provided the decompressor undoes the
  compressor on that body and the data file stays below 4 GB.
\<close>

theorem smb_addmsg_getmsgtxt:
  assumes "index_ok smb" "unat (last_msg (disk_status smb)) + 1 < 2 ^ 32"
    "unat (total_msgs (disk_status smb)) + 1 < 2 ^ 31"
    "smb_addmsg lzh_encode beyond smb msg storage dupechk xlat body tail = Some (SMB_SUCCESS, smb', msg')"
    and "length (disk smb' SDT) < 2 ^ 32"
    and "xlat = XLAT_LZH \<longrightarrow> lzh_decode (lzh_encode (str_data body)) = str_data body"
  shows "fst (smb_getmsgtxt lzh_decode smb' msg' (GETMSGTXT_TAILS OR GETMSGTXT_NO_HFIELDS))
    = text_line (str_data body) @ text_line (str_data tail)"
proof -
  obtain s m msg00 where d: "total_dfields (hdr msg00) = 0"
    "text_done msg00 (body_pieces lzh_encode xlat (str_data body) (str_data tail)) (tail_pieces (str_data tail)) s m"
    "text_of msg' = text_of m" "disk smb' SDT = disk s SDT"
    using addmsg_index [OF assms(1) refl assms(2-4)] by blast
  then have "length (disk s SDT) < 2 ^ 32" using assms(5) by simp
  then show ?thesis
    by (intro getmsgtxt_done [of msg00 lzh_encode xlat "str_data body" "str_data tail" s m msg' smb' lzh_decode]
      d str_data_no_zero assms(6))
qed

text \<open>
  C3: A message one of whose hashes matches a stored one, in a source that is checked, is refused
  with \<open>SMB_DUPE_MSG\<close>, and no file is changed.
\<close>

theorem smb_addmsg_duplicate:
  assumes "32 \<le> length (disk smb SHD)" "is_open smb SHD"
    and "locked smb \<or> fst (smb_locksmbhdr smb) = SMB_SUCCESS" "can_open smb HASH"
    and "st_attr (disk_status smb) AND (SMB_EMAIL OR SMB_NOHASH) = 0"
    and "h \<in> set (hash_table smb)"
    and "hash_hit dupechk (smb_msghashes (clock (env smb))
      (numbered msg (last_msg (disk_status smb) + 1)) body SMB_HASH_SOURCE_DUPE) h"
  shows "\<exists>smb'. smb_addmsg lzh_encode beyond smb msg storage dupechk xlat body tail
      = Some (SMB_DUPE_MSG, smb', numbered msg (last_msg (disk_status smb) + 1))
    \<and> disk smb' = disk smb"
proof -
  obtain s1 where lk: "(if locked smb then (SMB_SUCCESS, smb) else smb_locksmbhdr smb) = (SMB_SUCCESS, s1)"
    using assms(3) by (metis prod.collapse)
  then have d1: "disk s1 = disk smb" "env s1 = env smb" "fpos s1 = fpos smb"
    using locksmbhdr_frame by (auto split: if_splits)
  have op: "is_open s1 x = is_open smb x" for x by (simp add: is_open_def d1)
  obtain r s2 where g: "smb_getstatus s1 = (r, s2)" by fastforce
  have g2: "r = SMB_SUCCESS" "disk s2 = disk smb" "env s2 = env smb" "can_open s2 HASH"
    "status s2 = disk_status smb"
    using g assms(1,2,4) d1 op
    by (auto simp: smb_getstatus_def fread_eq stream_simps Let_def can_open_def
      disk_status_def fld_def split: if_splits)
  let ?n = "last_msg (disk_status smb) + 1"
  let ?m = "numbered msg ?n"
  let ?hs = "smb_msghashes (clock (env smb)) ?m body SMB_HASH_SOURCE_DUPE"
  have "find (hash_hit dupechk ?hs) (hash_table s2) \<noteq> None"
    using assms(6,7) g2(2) by (auto simp: find_None_iff hash_table_def)
  then obtain s3 c f where h: "smb_findhash s2 ?hs dupechk False = (SMB_SUCCESS, s3, c, f)" "disk s3 = disk smb"
    using smb_findhash_run [OF g2(4), of ?hs dupechk] g2(2) by auto
  have m: "msg\<lparr>hdr := (hdr msg)\<lparr>total_dfields := 0\<rparr>,
    hdr := (hdr (msg\<lparr>hdr := (hdr msg)\<lparr>total_dfields := 0\<rparr>\<rparr>))\<lparr>hdr_number := ?n\<rparr>\<rparr> = ?m"
    by (simp add: numbered_def)
  have t: "addmsg_try lzh_encode beyond s1 (msg\<lparr>hdr := (hdr msg)\<lparr>total_dfields := 0\<rparr>\<rparr>) storage dupechk xlat body tail
    = Some (SMB_DUPE_MSG, s3, ?m)"
    using assms(5) by (simp add: addmsg_try_def g g2 h(1) m [simplified] Let_def)
  have "live_dfields ?m = []" by (simp add: live_dfields_def numbered_def)
  then have f: "smb_freemsg_dfields s3 ?m 1 = (SMB_SUCCESS, s3)" by (simp add: smb_freemsg_dfields_def)
  have "disk smb SHD \<noteq> []" using assms(1) by auto
  then show ?thesis
    using assms(2) lk t f h(2) by (simp add: smb_addmsg_def smb_codes)
qed

section \<open>Samples\<close>

definition mail_status :: smbstatus where
  "mail_status = empty_status\<lparr>header_offset := 32, st_attr := SMB_EMAIL OR SMB_HYPERALLOC\<rparr>"

definition mail_base :: smb where
  "mail_base = sample_smb ((\<lambda>_. [])(SHD := enc_smbhdr @ enc_status mail_status))"

lemma mail_base_facts:
  "length (disk mail_base SHD) = 32" "disk mail_base SID = []" "disk mail_base SDT = []"
  "is_open mail_base x" "locked mail_base = False" "env mail_base = sample_env"
  "disk_status mail_base = mail_status" "index_ok mail_base"
proof -
  have l: "length enc_smbhdr = 8" by (simp add: enc_smbhdr_def SMB_HEADER_ID_def)
  show f: "length (disk mail_base SHD) = 32" "disk mail_base SID = []" "disk mail_base SDT = []"
    "is_open mail_base x" "locked mail_base = False" "env mail_base = sample_env"
    by (simp_all add: mail_base_def sample_smb_def is_open_def l)
  have "fld 8 24 (disk mail_base SHD) = enc_status mail_status"
    using l by (simp add: mail_base_def sample_smb_def)
  then show s: "disk_status mail_base = mail_status"
    by (simp only: disk_status_def status_codec.dec_enc)
  show "index_ok mail_base"
    using f by (simp add: index_ok_def s mail_status_def empty_status_def sid_table_def unpack_def)
qed

lemma fwrite_all_room:
  "ftell s x + length (concat bss) \<le> medium (env s) \<Longrightarrow> length (disk s x) \<le> medium (env s) \<Longrightarrow>
    \<exists>s'. fwrite_all s x bss = (True, s') \<and> env s' = env s \<and> length (disk s' x) \<le> medium (env s)
      \<and> ftell s' x = ftell s x + length (concat bss)"
proof (induction bss arbitrary: s)
  case (Cons b bss)
  obtain ok s1 where w: "fwrite s x b = (ok, s1)" by fastforce
  have "ok" using fwrite_ok_iff [of s x b] w Cons.prems by simp
  then have w: "fwrite s x b = (True, s1)" using w by simp
  note e = fwrite_okE [OF w]
  have "env s1 = env s" "length (disk s1 x) \<le> medium (env s)" using e Cons.prems by (auto simp: overwrite_def)
  then show ?case using Cons.IH [of s1] Cons.prems e(2) w by auto
qed simp

lemma fwrite_rep_all: "fwrite_rep n s x bs = fwrite_all s x (replicate n bs)"
  by (induction n arbitrary: s) (auto split: prod.splits bool.splits)

lemma mail_sample:
  "\<exists>smb' msg'. smb_addmsg id beyond mail_base zero_msg HYPERALLOC 0 XLAT_NONE (Some [0x48, 0x69]) None
    = Some (SMB_SUCCESS, smb', msg') \<and> length (disk smb' SDT) < 2 ^ 32"
proof -
  let ?s1 = "mail_base\<lparr>locked := True\<rparr>"
  have lock: "smb_locksmbhdr mail_base = (SMB_SUCCESS, ?s1)"
    by (simp add: smb_locksmbhdr_def mail_base_facts) (simp add: sample_env_def)
  have ne: "disk mail_base SHD \<noteq> []" using mail_base_facts(1) by auto
  have op: "is_open ?s1 y" for y using mail_base_facts(4) by (simp add: is_open_def)
  obtain i s2 where g: "smb_getstatus ?s1 = (i, s2)" by fastforce
  have g2: "i = SMB_SUCCESS" "disk s2 = disk mail_base" "env s2 = sample_env" "is_open s2 y"
    "status s2 = disk_status mail_base" for y
    using g mail_base_facts(1,6) op
    by (auto simp: smb_getstatus_def fread_eq stream_simps Let_def disk_status_def fld_def split: if_splits)
  have st: "st_attr (status s2) = SMB_EMAIL OR SMB_HYPERALLOC" "max_crcs (status s2) = 0"
    by (simp_all add: g2(5) mail_base_facts(7) mail_status_def empty_status_def)
  have bits: "(SMB_EMAIL OR SMB_HYPERALLOC) AND (SMB_EMAIL OR SMB_NOHASH) \<noteq> 0"
    "(SMB_EMAIL OR SMB_HYPERALLOC) AND SMB_HYPERALLOC \<noteq> 0"
    by (simp_all add: SMB_EMAIL_def SMB_HYPERALLOC_def SMB_NOHASH_def)
  let ?s3 = "fseek_end s2 SDT"
  have al: "smb_hallocdat s2 = (0, ?s3)"
    using g2 by (simp add: smb_hallocdat_def Let_def mail_base_facts stream_simps pad_length_for_alignment_def)
  define bp where "bp = body_record (False, [0x48, 0x69])"
  have ln: "length (concat bp) = 4" "bp \<noteq> []" by (simp_all add: body_record_def bp_def)
  let ?s4 = "fseek ?s3 SDT 0"
  obtain s5 where w5: "fwrite_all ?s4 SDT bp = (True, s5)" "env s5 = sample_env"
    "length (disk s5 SDT) \<le> 65536" "ftell s5 SDT = 4"
    using fwrite_all_room [of ?s4 SDT bp] ln g2
    by (auto simp: stream_simps mail_base_facts simp del: fwrite_all.simps)
  obtain s6 where w6: "fwrite_rep 252 s5 SDT [0] = (True, s6)" "env s6 = sample_env"
    "length (disk s6 SDT) \<le> 65536"
    using fwrite_all_room [of s5 SDT "replicate 252 [0]"] w5
    by (auto simp: fwrite_rep_all sum_list_replicate simp del: fwrite_all.simps)
  have xl: "addmsg_xlat id [0x48, 0x69] XLAT_NONE 0 = (False, [0x48, 0x69])"
    by (simp add: addmsg_xlat_def Let_def)
  define m6 where "m6 m0 = snd (smb_dfield (m0\<lparr>hdr := (hdr m0)\<lparr>hdr_offset := 0\<rparr>\<rparr>) TEXT_BODY 4)" for m0
  have aa: "addmsg_alloc s2 HYPERALLOC 4 = (SMB_SUCCESS, 0, HYPERALLOC, ?s3)"
    using al bits(2) st(1) by (simp add: addmsg_alloc_def)
  have aw: "addmsg_write ?s4 m TEXT_BODY bp = (SMB_SUCCESS, s5, snd (smb_dfield m TEXT_BODY 4))"
    "addmsg_write s m TEXT_TAIL [] = (SMB_SUCCESS, s, m)" for m s
    using w5(1) ln by (simp_all add: addmsg_write_def Let_def)
  have t: "addmsg_text s2 m0 HYPERALLOC bp [] = (SMB_SUCCESS, s6, m6 m0, HYPERALLOC)" for m0
    using w6(1) by (simp add: addmsg_text_def Let_def ln(1) aa aw smb_codes m6_def)
  have "untouched {SDT} s2 s6"
    using untouched_fwrite_all [OF w5(1), of "{SDT}"] untouched_fwrite_rep [OF w6(1), of "{SDT}"]
    by (auto simp: untouched_def fseek_end_def fseek_def is_open_def)
  then have st6: "st_attr (status s6) = SMB_EMAIL OR SMB_HYPERALLOC" using st by (simp add: untouched_def)
  have sd: "str_data (Some [0x48, 0x69]) = [0x48, 0x69]" "str_data None = []"
    by (simp_all add: str_data_def cstr_def)
  have z: "reply_id (addmsg_times s6 (m6 m)) = reply_id m" "ftn_reply (addmsg_times s6 (m6 m)) = ftn_reply m"
    "thread_back (hdr (addmsg_times s6 (m6 m))) = thread_back (hdr m)" "m_to (addmsg_times s6 (m6 m)) = m_to m" for m
    by (simp_all add: addmsg_times_def m6_def smb_dfield_def Let_def)
  have crc: "addmsg_crc beyond s2 0 b = (SMB_SUCCESS, s2)" for b by (simp add: addmsg_crc_def)
  let ?m0 = "zero_msg\<lparr>hdr := (hdr zero_msg)\<lparr>total_dfields := 0\<rparr>\<rparr>"
  have "\<exists>m. addmsg_try id beyond ?s1 ?m0 HYPERALLOC 0 XLAT_NONE (Some [0x48, 0x69]) None = Some (SMB_SUCCESS, s6, m)"
    using bits(1)
    by (simp add: addmsg_try_def g g2(1) st st6 sd xl [simplified] bp_def [symmetric] t z crc smb_codes Let_def
      addmsg_back_def addmsg_thread_def zero_msg_def zero_hdr_def)
  then show ?thesis
    using w6(3) lock ne mail_base_facts(4,5)
    by (auto simp: smb_addmsg_def smb_codes Let_def)
qed

lemma mail_room:
  "unat (last_msg (disk_status mail_base)) + 1 < 2 ^ 32" "unat (total_msgs (disk_status mail_base)) + 1 < 2 ^ 31"
  by (simp_all add: mail_base_facts mail_status_def empty_status_def)

theorem smb_addmsg_invariant_witness:
  "\<exists>smb' msg'. smb_addmsg id (\<lambda>_. 0) mail_base zero_msg HYPERALLOC 0 XLAT_NONE (Some [0x48, 0x69]) None
    = Some (SMB_SUCCESS, smb', msg') \<and> index_ok smb'"
  using mail_sample smb_addmsg_invariant [OF mail_base_facts(8) mail_room] by blast

theorem smb_addmsg_getmsgtxt_witness:
  "\<exists>smb' msg'. smb_addmsg id (\<lambda>_. 0) mail_base zero_msg HYPERALLOC 0 XLAT_NONE (Some [0x48, 0x69]) None
    = Some (SMB_SUCCESS, smb', msg')
    \<and> fst (smb_getmsgtxt id smb' msg' (GETMSGTXT_TAILS OR GETMSGTXT_NO_HFIELDS)) = [0x48, 0x69, 0x0D, 0x0A]"
proof -
  obtain smb' msg' where a: "smb_addmsg id (\<lambda>_. 0) mail_base zero_msg HYPERALLOC 0 XLAT_NONE (Some [0x48, 0x69]) None
    = Some (SMB_SUCCESS, smb', msg')" "length (disk smb' SDT) < 2 ^ 32"
    using mail_sample by blast
  have "fst (smb_getmsgtxt id smb' msg' (GETMSGTXT_TAILS OR GETMSGTXT_NO_HFIELDS))
    = text_line (str_data (Some [0x48, 0x69])) @ text_line (str_data None)"
    by (rule smb_addmsg_getmsgtxt [OF mail_base_facts(8) mail_room a]) simp
  then show ?thesis using a by (auto simp: str_data_def cstr_def text_line_def)
qed

theorem smb_addmsg_duplicate_witness:
  "\<exists>smb smb' msg'. disk smb SID = [] \<and> smb_addmsg id (\<lambda>_. 0) smb (msg_id [0x61]) HYPERALLOC SMB_HASH_SOURCE_DUPE XLAT_NONE None None
    = Some (SMB_DUPE_MSG, smb', msg') \<and> disk smb' = disk smb"
proof -
  have n: "hash_text 7 [0x61] \<noteq> []" by (simp add: hash_text_def hash_flags cstr_def)
  obtain h c where h: "smb_hashstr 0 0 1 7 [0x61] = Some h" "smb_hashstr 1 0x50000000 1 7 [0x61] = Some c"
    "hash_matches h c" "h_source h = 1" "h_flags h = 7"
    using smb_hashstr_matches [OF refl n, where n = 0 and t = 0 and s = 1 and n' = 1 and t' = "0x50000000" and skip = False] by (auto simp: hash_flags)
  define s where "s = sample_base\<lparr>disk := (disk sample_base)(HASH := enc_hash h)\<rparr>"
  have len: "32 \<le> length (disk s SHD)" and st: "disk_status s = empty_status\<lparr>header_offset := 32\<rparr>"
    using sample_base_ok sample_base_status by (simp_all add: s_def index_ok_def disk_status_def)
  have op: "is_open s y" "disk s SID = []" "env s = sample_env" "locked s = False" for y
    by (simp_all add: s_def sample_base_def sample_smb_def is_open_def)
  then have lk: "fst (smb_locksmbhdr s) = SMB_SUCCESS"
    by (simp add: smb_locksmbhdr_def) (simp add: sample_env_def)
  have hit: "h \<in> set (hash_table s)"
    using hash_codec.wf_unpack_concat [of "[h]"] smb_hashstr_wf [OF h(1)] by (simp add: s_def hash_table_def)
  have ck: "clock sample_env = 0x50000000" by (simp add: sample_env_def)
  have attr: "st_attr (disk_status s) AND (SMB_EMAIL OR SMB_NOHASH) = 0"
    "last_msg (disk_status s) + 1 = 1" by (simp_all add: st empty_status_def)
  have "hash_hit SMB_HASH_SOURCE_DUPE (smb_msghashes (clock (env s)) (numbered (msg_id [0x61]) 1) None SMB_HASH_SOURCE_DUPE) h"
    using h by (simp add: hash_hit_def smb_msghashes_def op ck numbered_def msg_id_def hash_field_def
      msghashes_flags dupe_sources Let_def zero_msg_def zero_hdr_def)
  then have *: "hash_hit SMB_HASH_SOURCE_DUPE (smb_msghashes (clock (env s))
      (numbered (msg_id [0x61]) (last_msg (disk_status s) + 1)) None SMB_HASH_SOURCE_DUPE) h"
    by (simp only: attr(2))
  have "can_open s HASH" by (simp add: can_open_def op)
  from smb_addmsg_duplicate [OF len op(1) disjI2 [OF lk] this attr(1) hit *] obtain smb' where
    "smb_addmsg id (\<lambda>_. 0) s (msg_id [0x61]) HYPERALLOC SMB_HASH_SOURCE_DUPE XLAT_NONE None None
      = Some (SMB_DUPE_MSG, smb', numbered (msg_id [0x61]) (last_msg (disk_status s) + 1))"
    "disk smb' = disk s" by blast
  then show ?thesis using op(2) by blast
qed

end
