(* ===== verification/Fifo.thy ===== *)
theory Fifo
  imports Prelude
begin

text \<open>
  The contract of a first-in first-out queue, the interface between the transfer code and its
  ring buffers and between threads and their message queues. A put takes a chunk and a get a
  request; \<open>items\<close> gives the elements of a chunk and \<open>wanted\<close> how many elements a request takes
  from the queue. None stands for an access outside the storage of the queue.
\<close>

datatype ('c, 'd) fifo_op = Put 'c | Get 'd

fun fifo_run ::
  "('s \<Rightarrow> 'c \<Rightarrow> 's option) \<Rightarrow> ('s \<Rightarrow> 'd \<Rightarrow> ('a list \<times> 's) option) \<Rightarrow> ('c, 'd) fifo_op list \<Rightarrow> 's
    \<Rightarrow> ('a list \<times> 's) option" where
  "fifo_run put get [] s = Some ([], s)"
| "fifo_run put get (Put c # ops) s = Option.bind (put s c) (fifo_run put get ops)"
| "fifo_run put get (Get d # ops) s =
     Option.bind (get s d) (\<lambda>(xs, s1). map_option (apfst ((@) xs)) (fifo_run put get ops s1))"

text \<open>The operations that find room, given the number of elements in the queue.\<close>

fun fifo_fits ::
  "('c \<Rightarrow> 'a list) \<Rightarrow> ('d \<Rightarrow> nat) \<Rightarrow> nat \<Rightarrow> ('c, 'd) fifo_op list \<Rightarrow> nat \<Rightarrow> bool" where
  "fifo_fits items wanted limit [] n \<longleftrightarrow> True"
| "fifo_fits items wanted limit (Put c # ops) n \<longleftrightarrow>
     n + length (items c) \<le> limit \<and> fifo_fits items wanted limit ops (n + length (items c))"
| "fifo_fits items wanted limit (Get d # ops) n \<longleftrightarrow> fifo_fits items wanted limit ops (n - wanted d)"

fun fifo_input :: "('c \<Rightarrow> 'a list) \<Rightarrow> ('c, 'd) fifo_op list \<Rightarrow> 'a list" where
  "fifo_input items [] = []"
| "fifo_input items (Put c # ops) = items c @ fifo_input items ops"
| "fifo_input items (Get d # ops) = fifo_input items ops"

locale fifo =
  fixes ok :: "'s \<Rightarrow> bool" and contents :: "'s \<Rightarrow> 'a list" and limit :: "'s \<Rightarrow> nat"
    and items :: "'c \<Rightarrow> 'a list" and wanted :: "'d \<Rightarrow> nat"
    and put :: "'s \<Rightarrow> 'c \<Rightarrow> 's option" and get :: "'s \<Rightarrow> 'd \<Rightarrow> ('a list \<times> 's) option"
  assumes put_law: "ok s \<Longrightarrow> length (contents s) + length (items c) \<le> limit s \<Longrightarrow>
      \<exists>s'. put s c = Some s' \<and> ok s' \<and> contents s' = contents s @ items c \<and> limit s' = limit s"
    and get_law: "ok s \<Longrightarrow> \<exists>s'. get s d = Some (take (wanted d) (contents s), s') \<and> ok s'
      \<and> contents s' = drop (wanted d) (contents s) \<and> limit s' = limit s"
begin

text \<open>What goes in comes out in the same order, whatever the sizes of the pieces.\<close>

lemma fifo_order:
  "ok s \<Longrightarrow> fifo_fits items wanted (limit s) ops (length (contents s)) \<Longrightarrow>
    \<exists>out s'. fifo_run put get ops s = Some (out, s') \<and> ok s' \<and> limit s' = limit s
      \<and> out @ contents s' = contents s @ fifo_input items ops"
proof (induction ops arbitrary: s)
  case (Cons x ops)
  show ?case
  proof (cases x)
    case (Put c)
    obtain s1 where "put s c = Some s1" "ok s1" "contents s1 = contents s @ items c" "limit s1 = limit s"
      using put_law [OF Cons.prems(1)] Cons.prems(2) Put by auto
    then show ?thesis using Cons.IH [of s1] Cons.prems(2) Put by simp
  next
    case (Get d)
    obtain s1 where g: "get s d = Some (take (wanted d) (contents s), s1)" "ok s1"
      "contents s1 = drop (wanted d) (contents s)" "limit s1 = limit s"
      using get_law [OF Cons.prems(1)] by blast
    then obtain out s' where r: "fifo_run put get ops s1 = Some (out, s')" "ok s'" "limit s' = limit s"
      "out @ contents s' = contents s1 @ fifo_input items ops"
      using Cons.IH [of s1] Cons.prems(2) Get by auto
    then have "(take (wanted d) (contents s) @ out) @ contents s' = contents s @ fifo_input items ops"
      by (simp add: g(3))
    then show ?thesis using Get g(1) r(1-3) by simp
  qed
qed simp

end

end
