(* ===== verification/RingBuf.thy ===== *)
theory RingBuf
  imports Fifo
begin

text \<open>
  The ring buffer of the transfer and terminal code (sbbs3/ringbuf.c), built as the project
  builds it, with semaphores, the empty event and the mutex. Pointers into the block are offsets
  from its start; the block is the list of its bytes, \<open>None\<close> when there is none. A semaphore is
  its count and the event is whether it is signalled. The mutex is held over each operation, so
  an operation is one step. None as a result is an access outside a block.
\<close>

section \<open>The buffer\<close>

record RingBuf =
  pStart :: "byte list option"
  pHead :: nat
  pTail :: nat
  pEnd :: nat
  rb_size :: u32
  rb_sem :: nat
  highwater_sem :: nat
  highwater_mark :: u32
  empty_event :: "bool option"

definition zero_RingBuf :: RingBuf where
  "zero_RingBuf = \<lparr>pStart = None, pHead = 0, pTail = 0, pEnd = 0, rb_size = 0, rb_sem = 0,
     highwater_sem = 0, highwater_mark = 0, empty_event = None\<rparr>"

text \<open>Copying from a block and to a block.\<close>

definition mem_read :: "byte list \<Rightarrow> nat \<Rightarrow> nat \<Rightarrow> byte list option" where
  "mem_read block off n = (if off + n \<le> length block then Some (take n (drop off block)) else None)"

definition mem_write :: "byte list \<Rightarrow> nat \<Rightarrow> byte list \<Rightarrow> byte list option" where
  "mem_write block off bs =
     (if off + length bs \<le> length block then Some (overwrite block off bs) else None)"

text \<open>\<open>malloc\<close> gives a block of that many bytes, or none; \<open>event\<close> is the new event, signalled.\<close>

definition RingBufInit :: "(nat \<Rightarrow> byte list option) \<Rightarrow> bool option \<Rightarrow> u32 \<Rightarrow> int \<times> RingBuf" where
  "RingBufInit malloc event sz =
     (case malloc (unat (sz + 1)) of
        None \<Rightarrow> (- 1, zero_RingBuf)
      | Some block \<Rightarrow>
          (0, zero_RingBuf\<lparr>pStart := Some block, pEnd := unat sz, rb_size := sz, empty_event := event\<rparr>))"

definition RingBufDispose :: "RingBuf \<Rightarrow> RingBuf" where
  "RingBufDispose rb = zero_RingBuf"

definition RINGBUF_FILL_LEVEL :: "RingBuf \<Rightarrow> int" where
  "RINGBUF_FILL_LEVEL rb =
     (if pTail rb \<le> pHead rb then int (pHead rb) - int (pTail rb)
      else uint (rb_size rb) - (int (pTail rb) - (int (pHead rb) + 1)))"

definition RingBufFull :: "RingBuf \<Rightarrow> u32" where
  "RingBufFull rb = word_of_int (RINGBUF_FILL_LEVEL rb)"

definition RingBufFree :: "RingBuf \<Rightarrow> u32" where
  "RingBufFree rb = rb_size rb - RingBufFull rb"

text \<open>How a transfer of \<open>cnt\<close> bytes from position \<open>p\<close> is split at the end of the block.\<close>

definition ring_split :: "RingBuf \<Rightarrow> nat \<Rightarrow> u32 \<Rightarrow> nat \<times> nat" where
  "ring_split rb p cnt =
     (let mx = word_of_int (int (pEnd rb) - int p + 1) :: u32
      in if cnt \<le> mx then (unat cnt, 0) else (unat mx, unat (cnt - mx)))"

definition ring_next :: "RingBuf \<Rightarrow> nat \<Rightarrow> nat \<Rightarrow> nat \<Rightarrow> nat" where
  "ring_next rb p first remain =
     (let q = (if remain \<noteq> 0 then remain else p + first) in if pEnd rb < q then 0 else q)"

definition RingBufWrite :: "RingBuf \<Rightarrow> byte list \<Rightarrow> u32 \<Rightarrow> (u32 \<times> RingBuf) option" where
  "RingBufWrite rb src cnt =
     (if cnt = 0 then Some (cnt, rb)
      else case pStart rb of
        None \<Rightarrow> Some (0, rb)
      | Some block \<Rightarrow>
          (case ring_split rb (pHead rb) cnt of (first, remain) \<Rightarrow>
           Option.bind (mem_read src 0 first) (\<lambda>bs1.
           Option.bind (mem_write block (pHead rb) bs1) (\<lambda>block1.
           Option.bind (mem_read src first remain) (\<lambda>bs2.
           Option.bind (if remain \<noteq> 0 then mem_write block1 0 bs2 else Some block1) (\<lambda>block2.
           let rb1 = rb\<lparr>pStart := Some block2, pHead := ring_next rb (pHead rb) first remain,
                        rb_sem := rb_sem rb + 1\<rparr>;
               rb2 = (if highwater_mark rb1 \<noteq> 0 \<and> uint (highwater_mark rb1) \<le> RINGBUF_FILL_LEVEL rb1
                      then rb1\<lparr>highwater_sem := highwater_sem rb1 + 1\<rparr> else rb1)
           in Some (cnt, rb2\<lparr>empty_event := map_option (\<lambda>_. False) (empty_event rb2)\<rparr>)))))))"

text \<open>The bytes of a transfer out of the buffer.\<close>

definition ring_take :: "RingBuf \<Rightarrow> nat \<Rightarrow> nat \<Rightarrow> byte list option" where
  "ring_take rb first remain =
     (let block = (case pStart rb of None \<Rightarrow> [] | Some b \<Rightarrow> b)
      in Option.bind (if first = 0 then Some [] else mem_read block (pTail rb) first) (\<lambda>bs1.
         map_option ((@) bs1) (if remain = 0 then Some [] else mem_read block 0 remain)))"

text \<open>\<open>dst\<close> tells whether there is a destination; without one the bytes are skipped.\<close>

definition RingBufRead :: "RingBuf \<Rightarrow> bool \<Rightarrow> u32 \<Rightarrow> (u32 \<times> byte list \<times> RingBuf) option" where
  "RingBufRead rb dst cnt0 =
     (let len = word_of_int (RINGBUF_FILL_LEVEL rb); cnt = (if len < cnt0 then len else cnt0)
      in case ring_split rb (pTail rb) cnt of (first, remain) \<Rightarrow>
         Option.bind (if dst then ring_take rb first remain else Some []) (\<lambda>bs.
         let rb1 = rb\<lparr>pTail := ring_next rb (pTail rb) first remain\<rparr>;
             rb2 = (if RINGBUF_FILL_LEVEL rb1 = 0 then rb1\<lparr>rb_sem := 0\<rparr> else rb1);
             rb3 = (if RINGBUF_FILL_LEVEL rb2 < uint (highwater_mark rb2) then rb2\<lparr>highwater_sem := 0\<rparr> else rb2);
             rb4 = (if RINGBUF_FILL_LEVEL rb3 = 0
                    then rb3\<lparr>empty_event := map_option (\<lambda>_. True) (empty_event rb3)\<rparr> else rb3)
         in Some (cnt, bs, rb4)))"

definition RingBufPeek :: "RingBuf \<Rightarrow> u32 \<Rightarrow> (u32 \<times> byte list) option" where
  "RingBufPeek rb cnt0 =
     (let len = RingBufFull rb
      in if len = 0 then Some (0, [])
         else let cnt = (if len < cnt0 then len else cnt0)
         in case ring_split rb (pTail rb) cnt of (first, remain) \<Rightarrow>
           map_option (\<lambda>bs. (cnt, bs)) (ring_take rb first remain))"

definition RingBufReInit :: "RingBuf \<Rightarrow> RingBuf" where
  "RingBufReInit rb = rb\<lparr>pHead := 0, pTail := 0, rb_sem := 0, highwater_sem := 0\<rparr>"

section \<open>The queue of bytes it stands for\<close>

definition rb_ok :: "RingBuf \<Rightarrow> bool" where
  "rb_ok rb \<longleftrightarrow> (\<exists>block. pStart rb = Some block \<and> length block = pEnd rb + 1)
     \<and> pEnd rb = unat (rb_size rb) \<and> pEnd rb < 2 ^ 32 - 1 \<and> pHead rb \<le> pEnd rb \<and> pTail rb \<le> pEnd rb"

definition rb_fill :: "RingBuf \<Rightarrow> nat" where
  "rb_fill rb = (if pTail rb \<le> pHead rb then pHead rb - pTail rb else pEnd rb + 1 - pTail rb + pHead rb)"

definition rb_contents :: "RingBuf \<Rightarrow> byte list" where
  "rb_contents rb = (let block = the (pStart rb) in
     if pTail rb \<le> pHead rb then take (pHead rb - pTail rb) (drop (pTail rb) block)
     else drop (pTail rb) block @ take (pHead rb) block)"

lemma rb_okE:
  assumes "rb_ok rb"
  obtains block where "pStart rb = Some block" "length block = pEnd rb + 1"
    "unat (rb_size rb) = pEnd rb" "uint (rb_size rb) = int (pEnd rb)" "pEnd rb < 2 ^ 32 - 1"
    "pHead rb \<le> pEnd rb" "pTail rb \<le> pEnd rb"
proof -
  have "uint (rb_size rb) = int (pEnd rb)" using assms by (simp add: rb_ok_def)
  then show ?thesis using assms that unfolding rb_ok_def by metis
qed

lemma fill_level: "rb_ok rb \<Longrightarrow> RINGBUF_FILL_LEVEL rb = int (rb_fill rb)"
proof -
  assume "rb_ok rb"
  then obtain block where u: "uint (rb_size rb) = int (pEnd rb)" and le: "pHead rb \<le> pEnd rb" "pTail rb \<le> pEnd rb"
    by (rule rb_okE)
  show ?thesis
  proof (cases "pTail rb \<le> pHead rb")
    case True
    then show ?thesis by (simp add: RINGBUF_FILL_LEVEL_def rb_fill_def)
  next
    case False
    then have "RINGBUF_FILL_LEVEL rb = int (pEnd rb) - (int (pTail rb) - (int (pHead rb) + 1))"
      by (simp only: RINGBUF_FILL_LEVEL_def u if_False)
    also have "\<dots> = int (pEnd rb + 1 - pTail rb + pHead rb)" using le by linarith
    finally show ?thesis using False by (simp only: rb_fill_def if_False)
  qed
qed

lemma rb_fill_le: "rb_ok rb \<Longrightarrow> rb_fill rb \<le> pEnd rb"
  by (erule rb_okE) (auto simp: rb_fill_def)

lemma rb_fill_size: "rb_ok rb \<Longrightarrow> rb_fill rb \<le> unat (rb_size rb)"
  using rb_fill_le by (auto simp: rb_ok_def)

lemma length_rb_contents: "rb_ok rb \<Longrightarrow> length (rb_contents rb) = rb_fill rb"
  by (erule rb_okE) (simp add: rb_contents_def rb_fill_def Let_def)

lemma rb_full: "rb_ok rb \<Longrightarrow> RingBufFull rb = word_of_nat (rb_fill rb)"
  by (simp add: RingBufFull_def fill_level)

lemma unat_rb_full: "rb_ok rb \<Longrightarrow> unat (RingBufFull rb) = rb_fill rb"
  using rb_fill_size [of rb] unsigned_less [of "rb_size rb", where ?'a = nat]
  by (simp add: rb_full unat_of_nat)

lemma unat_rb_free: "rb_ok rb \<Longrightarrow> unat (RingBufFree rb) = unat (rb_size rb) - rb_fill rb"
  using unat_rb_full [of rb] rb_fill_size [of rb]
  by (simp add: RingBufFree_def unat_sub word_le_nat_alt)

text \<open>Positions seen as a circle of \<open>pEnd + 1\<close> cells: where the i-th byte from p is.\<close>

definition ring_at :: "nat \<Rightarrow> nat \<Rightarrow> nat \<Rightarrow> nat" where
  "ring_at e p i = (if p + i \<le> e then p + i else p + i - (e + 1))"

lemma ring_split_eq:
  assumes "p \<le> pEnd rb" "pEnd rb < 2 ^ 32 - 1"
  shows "ring_split rb p cnt = (if unat cnt \<le> pEnd rb - p + 1 then (unat cnt, 0)
    else (pEnd rb - p + 1, unat cnt - (pEnd rb - p + 1)))"
proof -
  define m where "m = pEnd rb - p + 1"
  have m: "int (pEnd rb) - int p + 1 = int m" "m < 2 ^ 32" using assms by (simp_all add: m_def)
  have u: "unat (word_of_nat m :: u32) = m" using m(2) by (simp add: unat_of_nat)
  have "ring_split rb p cnt = (if unat cnt \<le> m then (unat cnt, 0) else (m, unat cnt - m))"
    unfolding ring_split_def m(1) Let_def by (simp add: word_le_nat_alt u unat_sub)
  then show ?thesis by (simp add: m_def)
qed


text \<open>Taking bytes out and putting bytes in, with the wrap-around.\<close>

lemma ring_take_eq:
  assumes "rb_ok rb" "n \<le> rb_fill rb"
  shows "ring_take rb (min n (pEnd rb - pTail rb + 1)) (n - (pEnd rb - pTail rb + 1)) = Some (take n (rb_contents rb))"
proof -
  obtain block where b: "pStart rb = Some block" "length block = pEnd rb + 1"
    "pHead rb \<le> pEnd rb" "pTail rb \<le> pEnd rb" using assms(1) by (rule rb_okE)
  let ?m = "pEnd rb - pTail rb + 1"
  have 1: "(if min n ?m = 0 then Some [] else mem_read block (pTail rb) (min n ?m))
    = Some (take n (drop (pTail rb) block))"
    using b by (auto simp: mem_read_def min_def)
  have 2: "(if n - ?m = 0 then Some [] else mem_read block 0 (n - ?m)) = Some (take (n - ?m) block)"
    using b assms(2) by (auto simp: mem_read_def rb_fill_def split: if_splits)
  have "take n (drop (pTail rb) block) @ take (n - ?m) block = take n (rb_contents rb)"
    using b assms(2) by (auto simp: rb_contents_def rb_fill_def Let_def min_def split: if_splits)
  then show ?thesis by (simp only: ring_take_def b(1) option.case Let_def 1 2 bind.bind_lunit option.map)
qed

lemma ring_split_min:
  assumes "rb_ok rb" "p \<le> pEnd rb"
  shows "ring_split rb p cnt = (min (unat cnt) (pEnd rb - p + 1), unat cnt - (pEnd rb - p + 1))"
proof -
  obtain block where "pEnd rb < 2 ^ 32 - 1" using assms(1) by (rule rb_okE)
  from ring_split_eq [OF assms(2) this] show ?thesis by (simp add: min_def)
qed

lemma ring_next_eq:
  assumes "p \<le> pEnd rb" "n \<le> pEnd rb"
  shows "ring_next rb p (min n (pEnd rb - p + 1)) (n - (pEnd rb - p + 1)) = ring_at (pEnd rb) p n"
  using assms by (auto simp: ring_next_def ring_at_def min_def Let_def)

lemma advance_tail:
  assumes "rb_ok rb" "n \<le> rb_fill rb"
  shows "rb_contents (rb\<lparr>pTail := ring_at (pEnd rb) (pTail rb) n\<rparr>) = drop n (rb_contents rb)"
    "rb_ok (rb\<lparr>pTail := ring_at (pEnd rb) (pTail rb) n\<rparr>)"
proof -
  obtain block where b: "pStart rb = Some block" "length block = pEnd rb + 1"
    "pHead rb \<le> pEnd rb" "pTail rb \<le> pEnd rb" using assms(1) by (rule rb_okE)
  show "rb_contents (rb\<lparr>pTail := ring_at (pEnd rb) (pTail rb) n\<rparr>) = drop n (rb_contents rb)"
    using b assms(2)
    by (auto simp: rb_contents_def rb_fill_def ring_at_def Let_def drop_take drop_drop add.commute split: if_splits)
  show "rb_ok (rb\<lparr>pTail := ring_at (pEnd rb) (pTail rb) n\<rparr>)"
    using assms b by (auto simp: rb_ok_def ring_at_def rb_fill_def split: if_splits)
qed

text \<open>What the semaphores and the event play no part in.\<close>

lemma rb_frame [simp]:
  "rb_contents (rb\<lparr>rb_sem := x\<rparr>) = rb_contents rb" "rb_contents (rb\<lparr>highwater_sem := x\<rparr>) = rb_contents rb"
  "rb_contents (rb\<lparr>empty_event := e\<rparr>) = rb_contents rb"
  "rb_contents (rb\<lparr>highwater_mark := w\<rparr>) = rb_contents rb" "rb_ok (rb\<lparr>highwater_mark := w\<rparr>) = rb_ok rb"
  "rb_ok (rb\<lparr>rb_sem := x\<rparr>) = rb_ok rb" "rb_ok (rb\<lparr>highwater_sem := x\<rparr>) = rb_ok rb"
  "rb_ok (rb\<lparr>empty_event := e\<rparr>) = rb_ok rb"
  "RINGBUF_FILL_LEVEL (rb\<lparr>rb_sem := x\<rparr>) = RINGBUF_FILL_LEVEL rb"
  "RINGBUF_FILL_LEVEL (rb\<lparr>highwater_sem := x\<rparr>) = RINGBUF_FILL_LEVEL rb"
  "RINGBUF_FILL_LEVEL (rb\<lparr>empty_event := e\<rparr>) = RINGBUF_FILL_LEVEL rb"
  by (simp_all add: rb_contents_def rb_ok_def RINGBUF_FILL_LEVEL_def Let_def)

lemma int_less_uint: "int k < uint (w :: u32) \<longleftrightarrow> k < unat w"
  unfolding uint_nat by (rule of_nat_less_iff)

lemma uint_pos: "0 < uint (w :: u32) \<longleftrightarrow> 0 < unat w"
  using int_less_uint [of 0 w] by simp

lemma int_le_uint: "uint (w :: u32) \<le> int k \<longleftrightarrow> unat w \<le> k"
  unfolding uint_nat by (rule of_nat_le_iff)

lemma int_eq_0: "int (length xs) = 0 \<longleftrightarrow> xs = []"
  by simp

lemma RingBufRead_run:
  assumes ok: "rb_ok rb"
  shows "\<exists>rb'. RingBufRead rb dst cnt = Some (word_of_nat (min (unat cnt) (rb_fill rb)),
      (if dst then take (unat cnt) (rb_contents rb) else []), rb') \<and> rb_ok rb'
    \<and> rb_contents rb' = drop (unat cnt) (rb_contents rb) \<and> rb_size rb' = rb_size rb
    \<and> highwater_mark rb' = highwater_mark rb
    \<and> rb_sem rb' = (if rb_contents rb' = [] then 0 else rb_sem rb)
    \<and> highwater_sem rb' = (if length (rb_contents rb') < unat (highwater_mark rb) then 0 else highwater_sem rb)
    \<and> empty_event rb' = (if rb_contents rb' = [] then map_option (\<lambda>_. True) (empty_event rb) else empty_event rb)"
proof -
  let ?len = "word_of_int (RINGBUF_FILL_LEVEL rb) :: u32"
  define n where "n = min (unat cnt) (rb_fill rb)"
  obtain block where b: "pEnd rb < 2 ^ 32 - 1" "pTail rb \<le> pEnd rb" using ok by (rule rb_okE)
  have nf: "n \<le> rb_fill rb" "n \<le> pEnd rb" using rb_fill_le [OF ok] by (simp_all add: n_def)
  have "unat ?len = rb_fill rb" using unat_rb_full [OF ok] by (simp add: RingBufFull_def)
  then have "n = unat (if ?len < cnt then ?len else cnt)" by (simp add: n_def word_less_nat_alt)
  then have c: "(if ?len < cnt then ?len else cnt) = word_of_nat n" by simp
  have u: "unat (word_of_nat n :: u32) = n" using nf(2) b(1) by (simp add: unat_of_nat)
  have tk: "take (unat cnt) (rb_contents rb) = take n (rb_contents rb)"
    "drop (unat cnt) (rb_contents rb) = drop n (rb_contents rb)"
    using length_rb_contents [OF ok] by (auto simp: n_def min_def)
  let ?rb1 = "rb\<lparr>pTail := ring_at (pEnd rb) (pTail rb) n\<rparr>"
  note adv = advance_tail [OF ok nf(1)]
  have fl: "RINGBUF_FILL_LEVEL ?rb1 = int (length (drop n (rb_contents rb)))"
    using fill_level [OF adv(2)] length_rb_contents [OF adv(2)] adv(1) by simp
  have sp: "ring_split rb (pTail rb) (word_of_nat n) = (min n (pEnd rb - pTail rb + 1), n - (pEnd rb - pTail rb + 1))"
    using ring_split_min [OF ok b(2), of "word_of_nat n"] u by simp
  show ?thesis
    unfolding RingBufRead_def Let_def c sp prod.case ring_next_eq [OF b(2) nf(2)] ring_take_eq [OF ok nf(1)] tk
    using adv by (simp add: n_def [symmetric] fl int_less_uint uint_pos int_eq_0 del: drop_eq_Nil length_drop)
qed


lemma rb_contents_map:
  assumes "rb_ok rb" "pStart rb = Some block"
  shows "rb_contents rb = map (\<lambda>i. block ! ring_at (pEnd rb) (pTail rb) i) [0..<rb_fill rb]"
proof -
  obtain b where "pStart rb = Some b" "length b = pEnd rb + 1" "pHead rb \<le> pEnd rb" "pTail rb \<le> pEnd rb"
    using assms(1) by (rule rb_okE)
  with assms show ?thesis
    by (intro nth_equalityI)
      (auto simp: length_rb_contents rb_contents_def rb_fill_def ring_at_def nth_append Let_def ac_simps split: if_splits)
qed

text \<open>The block after a write, cell by cell, counted from the tail.\<close>

lemma ring_put_nth:
  assumes "rb_ok rb" "pStart rb = Some block" "rb_fill rb + n \<le> pEnd rb" "n \<le> length src" "0 < n"
    and "block1 = overwrite block (pHead rb) (take n (take (pEnd rb - pHead rb + 1) src))"
    and "block2 = (if n - (pEnd rb - pHead rb + 1) \<noteq> 0
      then overwrite block1 0 (take (n - (pEnd rb - pHead rb + 1)) (drop (pEnd rb - pHead rb + 1) src)) else block1)"
    and "k < rb_fill rb + n"
  shows "block2 ! ring_at (pEnd rb) (pTail rb) k =
    (if k < rb_fill rb then block ! ring_at (pEnd rb) (pTail rb) k else src ! (k - rb_fill rb))"
    and "length block2 = length block"
proof -
  obtain b where b: "pStart rb = Some b" "length b = pEnd rb + 1" "pHead rb \<le> pEnd rb" "pTail rb \<le> pEnd rb"
    using assms(1) by (rule rb_okE)
  have len: "length block = pEnd rb + 1" using b assms(2) by simp
  show "length block2 = length block" using assms len b by (auto simp: rb_fill_def split: if_splits)
  define m where "m = pEnd rb - pHead rb + 1"
  have m: "m + pHead rb = pEnd rb + 1" using b(3) by (simp add: m_def)
  have A1: "block1 ! j = (if pHead rb \<le> j \<and> j < pHead rb + min n m then src ! (j - pHead rb) else block ! j)"
    if "j \<le> pEnd rb" for j
  proof -
    have "take (min n m) src ! (j - pHead rb) = src ! (j - pHead rb)"
      if "pHead rb \<le> j" "j < pHead rb + min n m"
      by (rule nth_take) (use that in linarith)
    then show ?thesis
      using that assms(4) len b(3) m unfolding assms(6) m_def [symmetric]
      by (subst nth_overwrite) auto
  qed
  have "length block1 = pEnd rb + 1" using assms(6) len b(3) by auto
  then have A2: "block2 ! j = (if j < n - m then src ! (m + j) else block1 ! j)" if "j \<le> pEnd rb" for j
    using that assms(3,4) m unfolding assms(7) m_def [symmetric]
    by (cases "n - m \<noteq> 0") (simp_all add: nth_overwrite)
  have f: "rb_fill rb \<le> pEnd rb" using assms(1) by (rule rb_fill_le)
  define j where "j = ring_at (pEnd rb) (pTail rb) k"
  have j: "j \<le> pEnd rb" using assms(3,8) b(4) by (auto simp: j_def ring_at_def)
  have eq: "block2 ! j = (if j < n - m then src ! (m + j)
    else if pHead rb \<le> j \<and> j < pHead rb + min n m then src ! (j - pHead rb) else block ! j)"
    using A1 [OF j] A2 [OF j] by simp
  show "block2 ! ring_at (pEnd rb) (pTail rb) k =
    (if k < rb_fill rb then block ! ring_at (pEnd rb) (pTail rb) k else src ! (k - rb_fill rb))"
  proof (cases "k < rb_fill rb")
    case True
    have "\<not> j < n - m" "\<not> (pHead rb \<le> j \<and> j < pHead rb + min n m)"
      using True b assms(3) m by (auto simp: j_def ring_at_def rb_fill_def split: if_splits)
    then have "block2 ! j = block ! j" using eq by (simp only: if_False)
    then show ?thesis using True by (simp only: j_def if_True)
  next
    case False
    have t: "pTail rb \<le> pHead rb \<and> pTail rb + rb_fill rb = pHead rb
      \<or> pHead rb < pTail rb \<and> pTail rb + rb_fill rb = pHead rb + pEnd rb + 1"
      using b(3,4) by (simp add: rb_fill_def)
    have j': "pTail rb + k \<le> pEnd rb \<and> j = pTail rb + k \<or> pEnd rb < pTail rb + k \<and> j + pEnd rb + 1 = pTail rb + k"
      by (auto simp: j_def ring_at_def)
    have "j < n - m \<and> m + j = k - rb_fill rb
      \<or> \<not> j < n - m \<and> pHead rb \<le> j \<and> j < pHead rb + min n m \<and> j - pHead rb = k - rb_fill rb"
      using t j' False assms(3,8) m b(3,4) by (elim disjE conjE) linarith+
    then consider "j < n - m" "m + j = k - rb_fill rb"
      | "\<not> j < n - m" "pHead rb \<le> j" "j < pHead rb + min n m" "j - pHead rb = k - rb_fill rb"
      by blast
    then show ?thesis using eq False unfolding j_def [symmetric] by cases simp_all
  qed
qed


lemma RingBufWrite_run:
  assumes ok: "rb_ok rb" and src: "unat cnt \<le> length src" and room: "rb_fill rb + unat cnt \<le> unat (rb_size rb)"
    and pos: "cnt \<noteq> 0"
  shows "\<exists>rb'. RingBufWrite rb src cnt = Some (cnt, rb') \<and> rb_ok rb'
    \<and> rb_contents rb' = rb_contents rb @ take (unat cnt) src \<and> rb_size rb' = rb_size rb
    \<and> highwater_mark rb' = highwater_mark rb \<and> rb_sem rb' = rb_sem rb + 1
    \<and> highwater_sem rb' = (if highwater_mark rb \<noteq> 0 \<and> unat (highwater_mark rb) \<le> length (rb_contents rb')
        then highwater_sem rb + 1 else highwater_sem rb)
    \<and> empty_event rb' = map_option (\<lambda>_. False) (empty_event rb)"
proof -
  obtain block where b: "pStart rb = Some block" "length block = pEnd rb + 1" "unat (rb_size rb) = pEnd rb"
    "pEnd rb < 2 ^ 32 - 1" "pHead rb \<le> pEnd rb" "pTail rb \<le> pEnd rb" using ok by (rule rb_okE)
  define n where "n = unat cnt"
  define m where "m = pEnd rb - pHead rb + 1"
  have n: "0 < n" "n \<le> pEnd rb" "rb_fill rb + n \<le> pEnd rb" "n \<le> length src"
    using pos room src b(3) by (auto simp: n_def unat_gt_0)
  have sp: "ring_split rb (pHead rb) cnt = (min n m, n - m)"
    using ring_split_min [OF ok b(5), of cnt] by (simp add: n_def m_def)
  define block1 where "block1 = overwrite block (pHead rb) (take (min n m) src)"
  define block2 where "block2 = (if n - m \<noteq> 0 then overwrite block1 0 (take (n - m) (drop m src)) else block1)"
  have r1: "mem_read src 0 (min n m) = Some (take (min n m) src)" using n by (simp add: mem_read_def)
  have w1: "mem_write block (pHead rb) (take (min n m) src) = Some block1"
    using n b by (auto simp: mem_write_def block1_def m_def)
  have r2: "mem_read src (min n m) (n - m) = Some (take (n - m) (drop m src))"
    using n by (cases "n \<le> m") (simp_all add: mem_read_def)
  have l1: "length block1 = pEnd rb + 1" using b by (auto simp: block1_def m_def)
  have w2: "(if n - m \<noteq> 0 then mem_write block1 0 (take (n - m) (drop m src)) else Some block1) = Some block2"
  proof -
    have "n - m \<le> pEnd rb + 1" using n(2) by linarith
    then show ?thesis using n l1 by (simp add: mem_write_def block2_def)
  qed
  let ?h = "ring_at (pEnd rb) (pHead rb) n"
  let ?rb1 = "rb\<lparr>pStart := Some block2, pHead := ?h, rb_sem := rb_sem rb + 1\<rparr>"
  have nx: "ring_next rb (pHead rb) (min n m) (n - m) = ?h" using ring_next_eq [OF b(5) n(2)] by (simp add: m_def)
  have b1': "block1 = overwrite block (pHead rb) (take n (take (pEnd rb - pHead rb + 1) src))"
    by (simp add: block1_def m_def min.commute)
  note cell = ring_put_nth [OF ok b(1) n(3,4,1) b1' block2_def [unfolded m_def]]
  have ok1: "rb_ok ?rb1"
    using b cell(2) [of 0] n by (auto simp: rb_ok_def ring_at_def)
  have fill: "rb_fill ?rb1 = rb_fill rb + n"
    using b n by (auto simp: rb_fill_def ring_at_def split: if_splits)
  have c1: "rb_contents ?rb1 = map (\<lambda>k. block2 ! ring_at (pEnd rb) (pTail rb) k) [0..<rb_fill rb + n]"
    using rb_contents_map [OF ok1, of block2] unfolding fill by simp
  have c2: "rb_contents ?rb1 = rb_contents rb @ take n src"
    using n cell(1) unfolding c1 rb_contents_map [OF ok b(1)]
    by (intro nth_equalityI) (simp_all add: nth_append)
  have c3: "RINGBUF_FILL_LEVEL ?rb1 = int (length (rb_contents ?rb1))"
    using fill_level [OF ok1] length_rb_contents [OF ok1] by simp
  define rb1 where "rb1 = ?rb1"
  note c = ok1 [folded rb1_def] c2 [folded rb1_def] c3 [folded rb1_def]
  have f: "rb_size rb1 = rb_size rb" "highwater_mark rb1 = highwater_mark rb" "rb_sem rb1 = rb_sem rb + 1"
    "highwater_sem rb1 = highwater_sem rb" "empty_event rb1 = empty_event rb" by (simp_all add: rb1_def)
  have run: "RingBufWrite rb src cnt = Some (cnt,
      (let rb2 = (if highwater_mark rb1 \<noteq> 0 \<and> uint (highwater_mark rb1) \<le> RINGBUF_FILL_LEVEL rb1
          then rb1\<lparr>highwater_sem := highwater_sem rb1 + 1\<rparr> else rb1)
       in rb2\<lparr>empty_event := map_option (\<lambda>_. False) (empty_event rb2)\<rparr>))"
    unfolding RingBufWrite_def b(1) sp rb1_def
    by (simp only: pos if_False option.case prod.case r1 w1 r2 w2 nx bind.bind_lunit Let_def)
  show ?thesis
    unfolding run Let_def c(3) int_le_uint n_def [symmetric]
    using c(1,2) by (simp add: f)
qed

lemma RingBufPeek_run:
  assumes ok: "rb_ok rb"
  shows "RingBufPeek rb cnt = Some (word_of_nat (min (unat cnt) (rb_fill rb)), take (unat cnt) (rb_contents rb))"
proof (cases "rb_fill rb = 0")
  case True
  then show ?thesis using rb_full [OF ok] length_rb_contents [OF ok] by (simp add: RingBufPeek_def Let_def)
next
  case False
  define n where "n = min (unat cnt) (rb_fill rb)"
  obtain block where b: "pEnd rb < 2 ^ 32 - 1" "pTail rb \<le> pEnd rb" using ok by (rule rb_okE)
  have nf: "n \<le> rb_fill rb" "n \<le> pEnd rb" using rb_fill_le [OF ok] by (simp_all add: n_def)
  have "RingBufFull rb \<noteq> 0" using False unat_rb_full [OF ok] by auto
  moreover have "n = unat (if RingBufFull rb < cnt then RingBufFull rb else cnt)"
    using unat_rb_full [OF ok] by (simp add: n_def word_less_nat_alt)
  then have "(if RingBufFull rb < cnt then RingBufFull rb else cnt) = word_of_nat n" by simp
  moreover have "unat (word_of_nat n :: u32) = n" using nf(2) b(1) by (simp add: unat_of_nat)
  then have "ring_split rb (pTail rb) (word_of_nat n) = (min n (pEnd rb - pTail rb + 1), n - (pEnd rb - pTail rb + 1))"
    using ring_split_min [OF ok b(2), of "word_of_nat n"] by simp
  moreover have "take (unat cnt) (rb_contents rb) = take n (rb_contents rb)"
    using length_rb_contents [OF ok] by (auto simp: n_def min_def)
  ultimately show ?thesis
    using ring_take_eq [OF ok nf(1)] by (simp add: RingBufPeek_def Let_def n_def [symmetric])
qed


section \<open>The contract of a queue\<close>

definition rb_put :: "RingBuf \<Rightarrow> byte list \<Rightarrow> RingBuf option" where
  "rb_put rb bs = map_option snd (RingBufWrite rb bs (word_of_nat (length bs)))"

definition rb_get :: "RingBuf \<Rightarrow> u32 \<Rightarrow> (byte list \<times> RingBuf) option" where
  "rb_get rb cnt = map_option snd (RingBufRead rb True cnt)"

interpretation ring: fifo rb_ok rb_contents "\<lambda>rb. unat (rb_size rb)" "\<lambda>bs. bs" unat rb_put rb_get
proof
  fix rb and bs :: "byte list"
  assume ok: "rb_ok rb" and room: "length (rb_contents rb) + length bs \<le> unat (rb_size rb)"
  have "length bs < 2 ^ 32" using room unsigned_less [of "rb_size rb", where ?'a = nat] by simp
  then have u: "unat (word_of_nat (length bs) :: u32) = length bs" by (simp add: unat_of_nat)
  show "\<exists>rb'. rb_put rb bs = Some rb' \<and> rb_ok rb' \<and> rb_contents rb' = rb_contents rb @ bs
    \<and> unat (rb_size rb') = unat (rb_size rb)"
  proof (cases "(word_of_nat (length bs) :: u32) = 0")
    case True
    then have "bs = []" using u by (metis length_0_conv unat_0)
    then show ?thesis using ok by (simp add: rb_put_def RingBufWrite_def)
  next
    case False
    then show ?thesis
      using RingBufWrite_run [OF ok _ _ False, of bs] room length_rb_contents [OF ok]
      by (auto simp: rb_put_def u)
  qed
next
  fix rb cnt
  assume "rb_ok rb"
  from RingBufRead_run [OF this, of True cnt] show "\<exists>rb'. rb_get rb cnt = Some (take (unat cnt) (rb_contents rb), rb')
    \<and> rb_ok rb' \<and> rb_contents rb' = drop (unat cnt) (rb_contents rb) \<and> unat (rb_size rb') = unat (rb_size rb)"
    by (auto simp: rb_get_def)
qed

lemma RingBufInit_ok:
  assumes "malloc (unat (sz + 1)) = Some block" "length block = unat (sz + 1)" "unat sz < 2 ^ 32 - 1"
  obtains rb where "RingBufInit malloc event sz = (0, rb)" "rb_ok rb" "rb_contents rb = []"
    "rb_size rb = sz" "rb_sem rb = 0" "highwater_sem rb = 0" "empty_event rb = event"
proof -
  have "unat (sz + 1) = unat sz + 1" using assms(3) by (simp add: unat_word_ariths)
  then show ?thesis
    using assms
    by (intro that [of "snd (RingBufInit malloc event sz)"])
      (auto simp: RingBufInit_def zero_RingBuf_def rb_ok_def rb_contents_def Let_def)
qed

text \<open>
  C35: Bytes come out of a ring buffer in the order they went in, whatever the sizes of the writes
  and reads and however often they wrap around the end of the block, as long as each write finds
  room; no access leaves the block.
\<close>

theorem RingBuf_order:
  assumes "malloc (unat (sz + 1)) = Some block" "length block = unat (sz + 1)" "unat sz < 2 ^ 32 - 1"
    and "RingBufInit malloc event sz = (0, rb)" "fifo_fits (\<lambda>bs. bs) unat (unat sz) ops 0"
  shows "\<exists>out rb'. fifo_run rb_put rb_get ops rb = Some (out, rb')
    \<and> out @ rb_contents rb' = fifo_input (\<lambda>bs. bs) ops"
proof -
  obtain r where "RingBufInit malloc event sz = (0, r)" "rb_ok r" "rb_contents r = []" "rb_size r = sz"
    using RingBufInit_ok [where malloc = malloc and sz = sz and event = event, OF assms(1-3)] by metis
  then show ?thesis using ring.fifo_order [of rb ops] assms(4,5) by auto
qed

section \<open>The semaphores\<close>

text \<open>
  The operations of several threads on one buffer, one at a time: writers that checked the room,
  readers, a reset, and threads that got past a wait on one of the semaphores.
\<close>

inductive rb_step :: "RingBuf \<Rightarrow> RingBuf \<Rightarrow> bool" where
  step_write: "RingBufWrite rb src cnt = Some (n, rb') \<Longrightarrow> cnt \<le> RingBufFree rb \<Longrightarrow> unat cnt \<le> length src \<Longrightarrow>
     rb_step rb rb'"
| step_read: "RingBufRead rb dst cnt = Some (n, bs, rb') \<Longrightarrow> rb_step rb rb'"
| step_reinit: "rb_step rb (RingBufReInit rb)"
| step_wait: "0 < rb_sem rb \<Longrightarrow> rb_step rb (rb\<lparr>rb_sem := rb_sem rb - 1\<rparr>)"
| step_wait_highwater: "0 < highwater_sem rb \<Longrightarrow> rb_step rb (rb\<lparr>highwater_sem := highwater_sem rb - 1\<rparr>)"

definition rb_signals :: "RingBuf \<Rightarrow> bool" where
  "rb_signals rb \<longleftrightarrow> rb_ok rb \<and> (rb_sem rb \<noteq> 0 \<longrightarrow> rb_contents rb \<noteq> [])
     \<and> (highwater_sem rb \<noteq> 0 \<longrightarrow> highwater_mark rb \<noteq> 0 \<and> unat (highwater_mark rb) \<le> length (rb_contents rb))
     \<and> (empty_event rb = Some True \<longrightarrow> rb_contents rb = [])"

lemma rb_step_signals: "rb_step rb rb' \<Longrightarrow> rb_signals rb \<Longrightarrow> rb_signals rb'"
proof (induction rule: rb_step.induct)
  case (step_write rb src cnt n rb')
  have ok: "rb_ok rb" using step_write.prems by (simp add: rb_signals_def)
  have room: "rb_fill rb + unat cnt \<le> unat (rb_size rb)"
    using step_write.hyps(2) unat_rb_free [OF ok] rb_fill_size [OF ok] by (simp add: word_le_nat_alt)
  show ?case
  proof (cases "cnt = 0")
    case True
    then show ?thesis using step_write by (simp add: RingBufWrite_def)
  next
    case False
    have "take (unat cnt) src \<noteq> []" using False step_write.hyps(3) by (auto simp: unat_eq_0)
    then show ?thesis
      using RingBufWrite_run [OF ok step_write.hyps(3) room False] step_write.hyps(1) step_write.prems
      by (auto simp: rb_signals_def split: if_splits)
  qed
next
  case (step_read rb dst cnt n bs rb')
  then show ?case
    using RingBufRead_run [of rb dst cnt] by (auto simp: rb_signals_def split: if_splits)
next
  case (step_reinit rb)
  then show ?case
    by (auto simp: rb_signals_def RingBufReInit_def rb_ok_def rb_contents_def Let_def)
qed (auto simp: rb_signals_def)

text \<open>
  C36: Whatever threads do with a ring buffer, each write having room: a thread that gets past the
  data semaphore finds data, one that gets past the high-water semaphore finds at least the
  high-water mark, and the empty event is only signalled while the buffer is empty.
\<close>

theorem RingBuf_signals:
  assumes "malloc (unat (sz + 1)) = Some block" "length block = unat (sz + 1)" "unat sz < 2 ^ 32 - 1"
    and "RingBufInit malloc event sz = (0, rb0)" "rb_step\<^sup>*\<^sup>* (rb0\<lparr>highwater_mark := hw\<rparr>) rb"
  shows "(0 < rb_sem rb \<longrightarrow> rb_contents rb \<noteq> [])
    \<and> (0 < highwater_sem rb \<longrightarrow> unat (highwater_mark rb) \<le> length (rb_contents rb))
    \<and> (empty_event rb = Some True \<longrightarrow> RingBufFull rb = 0)"
proof -
  obtain r where "RingBufInit malloc event sz = (0, r)" "rb_ok r" "rb_contents r = []" "rb_sem r = 0" "highwater_sem r = 0"
    using RingBufInit_ok [where malloc = malloc and sz = sz and event = event, OF assms(1-3)] by metis
  then have "rb_signals (rb0\<lparr>highwater_mark := hw\<rparr>)"
    using assms(4) by (simp add: rb_signals_def)
  with assms(5) have "rb_signals rb" by (induction rule: rtranclp_induct) (auto intro: rb_step_signals)
  then show ?thesis using rb_full [of rb] length_rb_contents [of rb] by (auto simp: rb_signals_def)
qed

text \<open>Resetting a buffer empties it without signalling the empty event.\<close>

lemma RingBufReInit_event:
  assumes "rb_ok rb" "empty_event rb = Some False"
  shows "rb_contents (RingBufReInit rb) = [] \<and> empty_event (RingBufReInit rb) = Some False"
  using assms by (simp add: RingBufReInit_def rb_contents_def Let_def)

section \<open>Samples\<close>

definition sample_ring :: RingBuf where
  "sample_ring = snd (RingBufInit (\<lambda>n. Some (replicate n 0)) (Some True) 3)"

lemma sample_ring_init: "RingBufInit (\<lambda>n. Some (replicate n 0)) (Some True) 3 = (0, sample_ring)"
  by (simp add: sample_ring_def RingBufInit_def)

lemma sample_ring_block:
  "(\<lambda>n. Some (replicate n (0 :: byte))) (unat ((3 :: u32) + 1)) = Some (replicate 4 0)"
  "length (replicate 4 (0 :: byte)) = unat ((3 :: u32) + 1)" "unat (3 :: u32) < 2 ^ 32 - 1"
  by simp_all

theorem RingBuf_order_witness:
  "\<exists>out rb'. fifo_run rb_put rb_get [Put [1, 2], Get 1, Put [3, 4], Get 2] sample_ring = Some (out, rb')
    \<and> out @ rb_contents rb' = [1, 2, 3, 4]"
  using RingBuf_order [OF sample_ring_block sample_ring_init,
    of "[Put [1, 2], Get 1, Put [3, 4], Get 2]"] by simp

theorem RingBuf_signals_witness:
  "\<exists>rb. rb_step\<^sup>*\<^sup>* (sample_ring\<lparr>highwater_mark := 2\<rparr>) rb \<and> 0 < rb_sem rb \<and> rb_contents rb \<noteq> []"
proof -
  let ?r = "sample_ring\<lparr>highwater_mark := 2\<rparr>"
  have ok: "rb_ok ?r" "rb_fill ?r = 0" "rb_size ?r = 3"
    by (simp_all add: sample_ring_def RingBufInit_def zero_RingBuf_def rb_ok_def rb_fill_def)
  obtain rb where w: "RingBufWrite ?r [7] 1 = Some (1, rb)" "rb_sem rb = rb_sem ?r + 1"
    using RingBufWrite_run [OF ok(1), of 1 "[7]"] ok by auto
  have "(1 :: u32) \<le> RingBufFree ?r" using unat_rb_free [OF ok(1)] ok by (simp add: word_le_nat_alt)
  then have "rb_step ?r rb" by (rule step_write [OF w(1)]) simp
  then have st: "rb_step\<^sup>*\<^sup>* ?r rb" by simp
  moreover have "0 < rb_sem rb" using w(2) by simp
  ultimately show ?thesis using RingBuf_signals [OF sample_ring_block sample_ring_init st] by blast
qed

end
