(* ===== verification/LinkList.thy ===== *)
theory LinkList
  imports CText "HOL-Library.Monad_Syntax"
begin

text \<open>
  The doubly linked lists of xpdev/link_list.c, built with LINK_LIST_THREADSAFE as the servers
  build it, on an explicit store: nodes, list headers, and blocks of data, each at its address.
  Address 0 is NULL; \<open>malloc\<close> gives addresses that are multiples of 16, never the same twice, as
  long as \<open>avail\<close> is not used up. None stands for an operation without a result: it follows a
  pointer to something freed, or never returns. \<open>long\<close> counters are unbounded. One operation
  runs at a time, from its beginning to its end, so the recursion count of the mutex is
  \<open>ll_locks\<close>; a semaphore is its count. Between threads a list sees to this only when it has
  a mutex (LINK_LIST_MUTEX); the users of a list without one have to.
\<close>

section \<open>Nodes, lists and the store\<close>

abbreviation (input) "LINK_LIST_MALLOC \<equiv> 1 :: ulong"
abbreviation (input) "LINK_LIST_ALWAYS_FREE \<equiv> 2 :: ulong"
abbreviation (input) "LINK_LIST_NEVER_FREE \<equiv> 4 :: ulong"
abbreviation (input) "LINK_LIST_MUTEX \<equiv> 8 :: ulong"
abbreviation (input) "LINK_LIST_SEMAPHORE \<equiv> 16 :: ulong"
abbreviation (input) "LINK_LIST_LOCKED \<equiv> 32 :: ulong"
abbreviation (input) "LINK_LIST_ATTACH \<equiv> 64 :: ulong"
abbreviation (input) "LIST_NODE_TAG_DEFAULT \<equiv> 0 :: int"

definition FIRST_NODE :: nat where "FIRST_NODE = 0"
definition LAST_NODE :: nat where "LAST_NODE = 2 ^ 64 - 1"

record list_node =
  nd_data :: nat
  nd_next :: nat
  nd_prev :: nat
  nd_list :: nat
  nd_flags :: ulong
  nd_tag :: int

record link_list =
  ll_first :: nat
  ll_last :: nat
  ll_flags :: ulong
  ll_count :: int
  ll_private :: nat
  ll_refs :: int
  ll_locks :: int
  ll_sem :: nat

record store =
  nodes :: "nat \<Rightarrow> list_node option"
  lists :: "nat \<Rightarrow> link_list option"
  blocks :: "nat \<Rightarrow> byte list option"
  brk :: nat
  avail :: nat

definition zero_node :: list_node where
  "zero_node = \<lparr>nd_data = 0, nd_next = 0, nd_prev = 0, nd_list = 0, nd_flags = 0, nd_tag = 0\<rparr>"

definition zero_list :: link_list where
  "zero_list = \<lparr>ll_first = 0, ll_last = 0, ll_flags = 0, ll_count = 0, ll_private = 0, ll_refs = 0,
     ll_locks = 0, ll_sem = 0\<rparr>"

definition set_node :: "('x) store_scheme \<Rightarrow> nat \<Rightarrow> list_node \<Rightarrow> 'x store_scheme" where
  "set_node h p n = h\<lparr>nodes := (nodes h)(p \<mapsto> n)\<rparr>"

definition set_list :: "('x) store_scheme \<Rightarrow> nat \<Rightarrow> link_list \<Rightarrow> 'x store_scheme" where
  "set_list h l x = h\<lparr>lists := (lists h)(l \<mapsto> x)\<rparr>"

definition malloc :: "('x) store_scheme \<Rightarrow> nat \<times> 'x store_scheme" where
  "malloc h = (if avail h = 0 then (0, h) else (16 * brk h, h\<lparr>brk := brk h + 1, avail := avail h - 1\<rparr>))"

text \<open>\<open>free\<close> of a node, of a list and of a block.\<close>

definition free_node :: "('x) store_scheme \<Rightarrow> nat \<Rightarrow> 'x store_scheme option" where
  "free_node h p = do { _ \<leftarrow> nodes h p; Some (h\<lparr>nodes := (nodes h)(p := None), avail := avail h + 1\<rparr>) }"

definition free_list :: "('x) store_scheme \<Rightarrow> nat \<Rightarrow> 'x store_scheme option" where
  "free_list h l = do { _ \<leftarrow> lists h l; Some (h\<lparr>lists := (lists h)(l := None), avail := avail h + 1\<rparr>) }"

definition free_block :: "('x) store_scheme \<Rightarrow> nat \<Rightarrow> 'x store_scheme option" where
  "free_block h p = do { _ \<leftarrow> blocks h p; Some (h\<lparr>blocks := (blocks h)(p := None), avail := avail h + 1\<rparr>) }"

section \<open>Locks and semaphores\<close>

definition listLock :: "('x) store_scheme \<Rightarrow> nat \<Rightarrow> (int \<times> 'x store_scheme) option" where
  "listLock h l = (if l = 0 then Some (0, h) else do {
     x \<leftarrow> lists h l;
     if ll_flags x AND LINK_LIST_MUTEX \<noteq> 0 then Some (0, set_list h l (x\<lparr>ll_locks := ll_locks x + 1\<rparr>))
     else Some (1, h) })"

text \<open>Unlocking a mutex that is not held gives EPERM, which is 1.\<close>

definition listUnlock :: "('x) store_scheme \<Rightarrow> nat \<Rightarrow> (int \<times> 'x store_scheme) option" where
  "listUnlock h l = (if l = 0 then Some (0, h) else do {
     x \<leftarrow> lists h l;
     if ll_flags x AND LINK_LIST_MUTEX \<noteq> 0
     then if 0 < ll_locks x then Some (0, set_list h l (x\<lparr>ll_locks := ll_locks x - 1\<rparr>)) else Some (1, h)
     else Some (1, h) })"

partial_function (option) listForceUnlock :: "('x) store_scheme \<Rightarrow> nat \<Rightarrow> 'x store_scheme option" where
  "listForceUnlock h l =
     (case listUnlock h l of None \<Rightarrow> None
      | Some (r, h1) \<Rightarrow> if r = 1 then listForceUnlock h1 l else Some h1)"

definition listIsLocked :: "('x) store_scheme \<Rightarrow> nat \<Rightarrow> bool option" where
  "listIsLocked h l = (if l = 0 then Some False else do { x \<leftarrow> lists h l; Some (0 < ll_locks x) })"

text \<open>An operation between a lock and an unlock of the list.\<close>

definition with_lock ::
  "('x) store_scheme \<Rightarrow> nat \<Rightarrow> ('x store_scheme \<Rightarrow> ('r \<times> 'x store_scheme) option) \<Rightarrow> ('r \<times> 'x store_scheme) option" where
  "with_lock h l f = do { (_, h1) \<leftarrow> listLock h l; (r, h2) \<leftarrow> f h1; (_, h3) \<leftarrow> listUnlock h2 l; Some (r, h3) }"

definition listSemPost :: "('x) store_scheme \<Rightarrow> nat \<Rightarrow> (bool \<times> 'x store_scheme) option" where
  "listSemPost h l = (if l = 0 then Some (False, h) else do {
     x \<leftarrow> lists h l;
     if ll_flags x AND LINK_LIST_SEMAPHORE = 0 then Some (False, h)
     else Some (True, set_list h l (x\<lparr>ll_sem := ll_sem x + 1\<rparr>)) })"

definition listSemTryWait :: "('x) store_scheme \<Rightarrow> nat \<Rightarrow> (bool \<times> 'x store_scheme) option" where
  "listSemTryWait h l = (if l = 0 then Some (False, h) else do {
     x \<leftarrow> lists h l;
     if ll_flags x AND LINK_LIST_SEMAPHORE = 0 \<or> ll_sem x = 0 then Some (False, h)
     else Some (True, set_list h l (x\<lparr>ll_sem := ll_sem x - 1\<rparr>)) })"

text \<open>Waiting for ever on a semaphore nobody posts; with a time limit it is as if polled once.\<close>

definition listSemWait :: "('x) store_scheme \<Rightarrow> nat \<Rightarrow> (bool \<times> 'x store_scheme) option" where
  "listSemWait h l = (if l = 0 then Some (False, h) else do {
     x \<leftarrow> lists h l;
     if ll_flags x AND LINK_LIST_SEMAPHORE = 0 then Some (False, h)
     else if ll_sem x = 0 then None
     else Some (True, set_list h l (x\<lparr>ll_sem := ll_sem x - 1\<rparr>)) })"

definition listSemTryWaitBlock :: "('x) store_scheme \<Rightarrow> nat \<Rightarrow> ulong \<Rightarrow> (bool \<times> 'x store_scheme) option" where
  "listSemTryWaitBlock h l timeout = listSemTryWait h l"

section \<open>Creating and freeing lists\<close>

definition listAttach :: "('x) store_scheme \<Rightarrow> nat \<Rightarrow> (int \<times> 'x store_scheme) option" where
  "listAttach h l = (if l = 0 then Some (-1, h) else do {
     (_, h1) \<leftarrow> with_lock h l (\<lambda>h1. do { x \<leftarrow> lists h1 l; Some ((), set_list h1 l (x\<lparr>ll_refs := ll_refs x + 1\<rparr>)) });
     x \<leftarrow> lists h1 l;
     Some (ll_refs x, h1) })"

definition listInit :: "('x) store_scheme \<Rightarrow> nat \<Rightarrow> ulong \<Rightarrow> (nat \<times> 'x store_scheme) option" where
  "listInit h l flags =
     (let alloc = (flags AND LINK_LIST_MALLOC \<noteq> 0 \<or> l = 0);
          (l1, h1) = (if alloc then malloc h else (l, h));
          flags1 = (if alloc then flags OR LINK_LIST_MALLOC else flags)
      in if l1 = 0 then Some (0, h1)
         else let h2 = set_list h1 l1 (zero_list\<lparr>ll_flags := flags1\<rparr>)
         in if flags AND LINK_LIST_ATTACH \<noteq> 0
            then do { (_, h3) \<leftarrow> listAttach h2 l1; Some (l1, h3) }
            else Some (l1, h2))"

definition listFreeNodeData :: "('x) store_scheme \<Rightarrow> nat \<Rightarrow> (bool \<times> 'x store_scheme) option" where
  "listFreeNodeData h p = (if p = 0 then Some (False, h) else do {
     n \<leftarrow> nodes h p;
     if nd_data n \<noteq> 0 \<and> nd_flags n AND LINK_LIST_LOCKED = 0
     then do { h1 \<leftarrow> free_block h (nd_data n); Some (True, set_node h1 p (n\<lparr>nd_data := 0\<rparr>)) }
     else Some (False, h) })"

text \<open>The loop ends at NULL or at a locked node, which it returns.\<close>

partial_function (option) freenodes_loop :: "('x) store_scheme \<Rightarrow> nat \<Rightarrow> nat \<Rightarrow> (nat \<times> 'x store_scheme) option" where
  "freenodes_loop h l p =
     (if p = 0 then Some (0, h)
      else case nodes h p of None \<Rightarrow> None | Some n \<Rightarrow>
        if nd_flags n AND LINK_LIST_LOCKED \<noteq> 0 then Some (p, h)
        else case lists h l of None \<Rightarrow> None | Some x \<Rightarrow>
          case (if (ll_flags x AND LINK_LIST_ALWAYS_FREE \<noteq> 0 \<or> nd_flags n AND LINK_LIST_MALLOC \<noteq> 0)
                   \<and> ll_flags x AND LINK_LIST_NEVER_FREE = 0
                then listFreeNodeData h p else Some (False, h)) of None \<Rightarrow> None | Some (_, h1) \<Rightarrow>
          case free_node h1 p of None \<Rightarrow> None | Some h2 \<Rightarrow>
          case lists h2 l of None \<Rightarrow> None | Some y \<Rightarrow>
            freenodes_loop (if ll_count y \<noteq> 0 then set_list h2 l (y\<lparr>ll_count := ll_count y - 1\<rparr>) else h2)
              l (nd_next n))"

definition listFreeNodes :: "('x) store_scheme \<Rightarrow> nat \<Rightarrow> (int \<times> 'x store_scheme) option" where
  "listFreeNodes h l = (if l = 0 then Some (-1, h) else do {
     (_, h1) \<leftarrow> with_lock h l (\<lambda>h0. do {
       x \<leftarrow> lists h0 l;
       (p, h1) \<leftarrow> freenodes_loop h0 l (ll_first x);
       y \<leftarrow> lists h1 l;
       Some ((), set_list h1 l (y\<lparr>ll_first := p, ll_last := (if ll_count y = 0 then 0 else ll_last y)\<rparr>)) });
     y \<leftarrow> lists h1 l;
     Some (ll_count y, h1) })"

text \<open>\<open>pthread_mutex_destroy\<close> gives EBUSY while the mutex is held; the loop tries again.\<close>

partial_function (option) mutex_destroy_loop :: "link_list \<Rightarrow> unit option" where
  "mutex_destroy_loop x = (if 0 < ll_locks x then mutex_destroy_loop x else Some ())"

definition listFree :: "('x) store_scheme \<Rightarrow> nat \<Rightarrow> (bool \<times> 'x store_scheme) option" where
  "listFree h l = (if l = 0 then Some (False, h) else do {
     (r, h1) \<leftarrow> listFreeNodes h l;
     if r \<noteq> 0 then Some (False, h1)
     else do {
       x \<leftarrow> lists h1 l;
       _ \<leftarrow> (if ll_flags x AND LINK_LIST_MUTEX \<noteq> 0 then mutex_destroy_loop x else Some ());
       let y = x\<lparr>ll_flags := ll_flags x AND NOT LINK_LIST_MUTEX AND NOT LINK_LIST_SEMAPHORE\<rparr>;
       let h2 = set_list h1 l y;
       h3 \<leftarrow> (if ll_flags y AND LINK_LIST_MALLOC \<noteq> 0 then free_list h2 l else Some h2);
       Some (True, h3) } })"

definition listDettach :: "('x) store_scheme \<Rightarrow> nat \<Rightarrow> (int \<times> 'x store_scheme) option" where
  "listDettach h l = (if l = 0 then Some (-1, h) else do {
     x \<leftarrow> lists h l;
     if ll_refs x < 1 then Some (-1, h)
     else do {
       (_, h1) \<leftarrow> listLock h l;
       y \<leftarrow> lists h1 l;
       let refs = ll_refs y - 1;
       let h2 = set_list h1 l (y\<lparr>ll_refs := refs\<rparr>);
       (if refs = 0 then do { (_, h3) \<leftarrow> listFree h2 l; Some (refs, h3) }
        else do { (_, h3) \<leftarrow> listUnlock h2 l; Some (refs, h3) }) } })"

definition listSetPrivateData :: "('x) store_scheme \<Rightarrow> nat \<Rightarrow> nat \<Rightarrow> (nat \<times> 'x store_scheme) option" where
  "listSetPrivateData h l p = (if l = 0 then Some (0, h) else
     with_lock h l (\<lambda>h1. do { x \<leftarrow> lists h1 l; Some (ll_private x, set_list h1 l (x\<lparr>ll_private := p\<rparr>)) }))"

definition listGetPrivateData :: "('x) store_scheme \<Rightarrow> nat \<Rightarrow> nat option" where
  "listGetPrivateData h l = (if l = 0 then Some 0 else do { x \<leftarrow> lists h l; Some (ll_private x) })"

section \<open>Counting and finding\<close>

text \<open>The first node from p on that satisfies the test, or NULL; and the number of nodes from p on.\<close>

partial_function (option) find_from :: "(nat \<Rightarrow> list_node \<Rightarrow> bool option) \<Rightarrow> ('x) store_scheme \<Rightarrow> nat \<Rightarrow> nat option" where
  "find_from stop h p =
     (if p = 0 then Some 0
      else case nodes h p of None \<Rightarrow> None | Some n \<Rightarrow>
        case stop p n of None \<Rightarrow> None | Some b \<Rightarrow> if b then Some p else find_from stop h (nd_next n))"

partial_function (option) count_from :: "('x) store_scheme \<Rightarrow> nat \<Rightarrow> int \<Rightarrow> int option" where
  "count_from h p c =
     (if p = 0 then Some c
      else case nodes h p of None \<Rightarrow> None | Some n \<Rightarrow> count_from h (nd_next n) (c + 1))"

partial_function (option) last_from :: "('x) store_scheme \<Rightarrow> nat \<Rightarrow> nat \<Rightarrow> nat option" where
  "last_from h p lst =
     (if p = 0 then Some lst
      else case nodes h p of None \<Rightarrow> None | Some n \<Rightarrow> last_from h (nd_next n) p)"

partial_function (option) at_from :: "('x) store_scheme \<Rightarrow> nat \<Rightarrow> int \<Rightarrow> nat option" where
  "at_from h p i =
     (if p = 0 \<or> i \<le> 0 then Some p
      else case nodes h p of None \<Rightarrow> None | Some n \<Rightarrow> at_from h (nd_next n) (i - 1))"

definition listCountNodes :: "('x) store_scheme \<Rightarrow> nat \<Rightarrow> (int \<times> 'x store_scheme) option" where
  "listCountNodes h l = (if l = 0 then Some (-1, h) else do {
     x \<leftarrow> lists h l;
     if ll_count x \<noteq> 0 then Some (ll_count x, h)
     else with_lock h l (\<lambda>h1. do { y \<leftarrow> lists h1 l; c \<leftarrow> count_from h1 (ll_first y) 0; Some (c, h1) }) })"

text \<open>\<open>memcmp\<close> of a node's data with a block: reading past the end of either has no result.\<close>

definition same_data :: "('x) store_scheme \<Rightarrow> nat \<Rightarrow> byte list \<Rightarrow> nat \<Rightarrow> bool option" where
  "same_data h p data len = do {
     b \<leftarrow> blocks h p;
     if len \<le> length b \<and> len \<le> length data then Some (take len b = take len data) else None }"

datatype wanted_node = by_pointer nat | by_tag int | by_content "byte list" nat

text \<open>The three meanings of the arguments of \<open>listFindNode\<close>.\<close>

definition node_test :: "('x) store_scheme \<Rightarrow> wanted_node \<Rightarrow> nat \<Rightarrow> list_node \<Rightarrow> bool option" where
  "node_test h want p n = (case want of
     by_pointer d \<Rightarrow> Some (nd_data n = d)
   | by_tag t \<Rightarrow> Some (nd_tag n = t)
   | by_content d len \<Rightarrow> if nd_data n = 0 then Some False else same_data h (nd_data n) d len)"

definition listFindNode :: "('x) store_scheme \<Rightarrow> nat \<Rightarrow> wanted_node \<Rightarrow> (nat \<times> 'x store_scheme) option" where
  "listFindNode h l want = (if l = 0 then Some (0, h) else
     with_lock h l (\<lambda>h1. do {
       x \<leftarrow> lists h1 l; p \<leftarrow> find_from (node_test h1 want) h1 (ll_first x); Some (p, h1) }))"

definition listFirstNode :: "('x) store_scheme \<Rightarrow> nat \<Rightarrow> (nat \<times> 'x store_scheme) option" where
  "listFirstNode h l = (if l = 0 then Some (0, h) else
     with_lock h l (\<lambda>h1. do { x \<leftarrow> lists h1 l; Some (ll_first x, h1) }))"

definition listLastNode :: "('x) store_scheme \<Rightarrow> nat \<Rightarrow> (nat \<times> 'x store_scheme) option" where
  "listLastNode h l = (if l = 0 then Some (0, h) else
     with_lock h l (\<lambda>h1. do {
       x \<leftarrow> lists h1 l;
       p \<leftarrow> (if ll_last x \<noteq> 0 then Some (ll_last x) else last_from h1 (ll_first x) 0);
       Some (p, h1) }))"

text \<open>The variable \<open>i\<close> that is returned never changes.\<close>

definition listNodeIndex :: "('x) store_scheme \<Rightarrow> nat \<Rightarrow> nat \<Rightarrow> (int \<times> 'x store_scheme) option" where
  "listNodeIndex h l find_node = (if l = 0 then Some (-1, h) else
     do {
       (p, h1) \<leftarrow> with_lock h l (\<lambda>h1. do {
         x \<leftarrow> lists h1 l; p \<leftarrow> find_from (\<lambda>p n. Some (p = find_node)) h1 (ll_first x); Some (p, h1) });
       let i = 0;
       Some (if p = 0 then -1 else i, h1) })"

definition listNodeAt :: "('x) store_scheme \<Rightarrow> nat \<Rightarrow> int \<Rightarrow> (nat \<times> 'x store_scheme) option" where
  "listNodeAt h l index = (if l = 0 \<or> index < 0 then Some (0, h) else
     with_lock h l (\<lambda>h1. do { x \<leftarrow> lists h1 l; p \<leftarrow> at_from h1 (ll_first x) index; Some (p, h1) }))"

text \<open>Reading a field of a node with its list locked.\<close>

definition node_field :: "(list_node \<Rightarrow> nat) \<Rightarrow> ('x) store_scheme \<Rightarrow> nat \<Rightarrow> (nat \<times> 'x store_scheme) option" where
  "node_field fld h p = (if p = 0 then Some (0, h) else do {
     n \<leftarrow> nodes h p;
     with_lock h (nd_list n) (\<lambda>h1. do { m \<leftarrow> nodes h1 p; Some (fld m, h1) }) })"

definition listNextNode :: "('x) store_scheme \<Rightarrow> nat \<Rightarrow> (nat \<times> 'x store_scheme) option" where
  "listNextNode = node_field nd_next"

definition listPrevNode :: "('x) store_scheme \<Rightarrow> nat \<Rightarrow> (nat \<times> 'x store_scheme) option" where
  "listPrevNode = node_field nd_prev"

definition listNodeData :: "('x) store_scheme \<Rightarrow> nat \<Rightarrow> (nat \<times> 'x store_scheme) option" where
  "listNodeData = node_field nd_data"

definition listNodeIsLocked :: "('x) store_scheme \<Rightarrow> nat \<Rightarrow> bool option" where
  "listNodeIsLocked h p = (if p = 0 then Some False else do {
     n \<leftarrow> nodes h p; Some (nd_flags n AND LINK_LIST_LOCKED \<noteq> 0) })"

definition set_node_flags :: "(ulong \<Rightarrow> ulong) \<Rightarrow> ('x) store_scheme \<Rightarrow> nat \<Rightarrow> (bool \<times> 'x store_scheme) option" where
  "set_node_flags f h p = do {
     n \<leftarrow> nodes h p;
     (_, h1) \<leftarrow> with_lock h (nd_list n) (\<lambda>h1. do {
       m \<leftarrow> nodes h1 p; Some ((), set_node h1 p (m\<lparr>nd_flags := f (nd_flags m)\<rparr>)) });
     Some (True, h1) }"

definition listLockNode :: "('x) store_scheme \<Rightarrow> nat \<Rightarrow> (bool \<times> 'x store_scheme) option" where
  "listLockNode h p = (if p = 0 then Some (False, h) else do {
     n \<leftarrow> nodes h p;
     if nd_flags n AND LINK_LIST_LOCKED \<noteq> 0 then Some (False, h)
     else set_node_flags (\<lambda>f. f OR LINK_LIST_LOCKED) h p })"

definition listUnlockNode :: "('x) store_scheme \<Rightarrow> nat \<Rightarrow> (bool \<times> 'x store_scheme) option" where
  "listUnlockNode h p = do {
     b \<leftarrow> listNodeIsLocked h p;
     if \<not> b then Some (False, h) else set_node_flags (\<lambda>f. f AND NOT LINK_LIST_LOCKED) h p }"

text \<open>The strings in the nodes' data, up to the first NUL of each.\<close>

definition node_string :: "('x) store_scheme \<Rightarrow> list_node \<Rightarrow> byte list option" where
  "node_string h n = do { b \<leftarrow> blocks h (nd_data n); if 0 \<in> set b then Some (cstr b) else None }"

partial_function (option) strings_from :: "('x) store_scheme \<Rightarrow> nat \<Rightarrow> int option \<Rightarrow> byte list list \<Rightarrow> byte list list option" where
  "strings_from h p room acc =
     (if p = 0 \<or> room \<noteq> None \<and> the room \<le> 0 then Some acc
      else case nodes h p of None \<Rightarrow> None | Some n \<Rightarrow>
        if nd_data n = 0 then strings_from h (nd_next n) room acc
        else case node_string h n of None \<Rightarrow> None | Some str \<Rightarrow>
          strings_from h (nd_next n) (map_option (\<lambda>m. m - 1) room) (acc @ [str]))"

definition listStringList :: "('x) store_scheme \<Rightarrow> nat \<Rightarrow> (byte list list option \<times> 'x store_scheme) option" where
  "listStringList h l = (if l = 0 then Some (None, h) else
     with_lock h l (\<lambda>h1. do { x \<leftarrow> lists h1 l; strs \<leftarrow> strings_from h1 (ll_first x) None []; Some (Some strs, h1) }))"

definition listSubStringList ::
  "('x) store_scheme \<Rightarrow> nat \<Rightarrow> int \<Rightarrow> (byte list list option \<times> 'x store_scheme) option" where
  "listSubStringList h p m = (if p = 0 then Some (None, h) else do {
     n \<leftarrow> nodes h p;
     with_lock h (nd_list n) (\<lambda>h1. do { strs \<leftarrow> strings_from h1 p (Some m) []; Some (Some strs, h1) }) })"

section \<open>Adding\<close>

text \<open>The part of adding a node between locking and unlocking its list.\<close>

definition link_node :: "('x) store_scheme \<Rightarrow> nat \<Rightarrow> nat \<Rightarrow> nat \<Rightarrow> (unit \<times> 'x store_scheme) option" where
  "link_node h l node after0 = do {
     x \<leftarrow> lists h l;
     n \<leftarrow> nodes h node;
     let after = (if after0 = LAST_NODE then ll_last x else after0);
     let h1 = set_node h node (n\<lparr>nd_list := l, nd_prev := after\<rparr>);
     let h2 = (if after = ll_last x then set_list h1 l (x\<lparr>ll_last := node\<rparr>) else h1);
     h5 \<leftarrow> (if after = FIRST_NODE
       then do {
         m \<leftarrow> nodes h2 node;
         let h3 = set_node h2 node (m\<lparr>nd_next := ll_first x\<rparr>);
         h4 \<leftarrow> (if ll_first x \<noteq> 0
           then do { f \<leftarrow> nodes h3 (ll_first x); Some (set_node h3 (ll_first x) (f\<lparr>nd_prev := node\<rparr>)) }
           else Some h3);
         y \<leftarrow> lists h4 l;
         Some (set_list h4 l (y\<lparr>ll_first := node\<rparr>)) }
       else do {
         a \<leftarrow> nodes h2 after;
         h4 \<leftarrow> (if nd_next a \<noteq> 0
           then do {
             b \<leftarrow> nodes h2 (nd_next a);
             let h3 = set_node h2 (nd_next a) (b\<lparr>nd_prev := node\<rparr>);
             m \<leftarrow> nodes h3 node;
             Some (set_node h3 node (m\<lparr>nd_next := nd_next a\<rparr>)) }
           else Some h2);
         c \<leftarrow> nodes h4 after;
         Some (set_node h4 after (c\<lparr>nd_next := node\<rparr>)) });
     y \<leftarrow> lists h5 l;
     Some ((), set_list h5 l (y\<lparr>ll_count := ll_count y + 1\<rparr>)) }"

definition list_add_node :: "('x) store_scheme \<Rightarrow> nat \<Rightarrow> nat \<Rightarrow> nat \<Rightarrow> (nat \<times> 'x store_scheme) option" where
  "list_add_node h l node after = (if l = 0 then Some (0, h) else do {
     (_, h1) \<leftarrow> with_lock h l (\<lambda>h1. link_node h1 l node after);
     z \<leftarrow> lists h1 l;
     (_, h2) \<leftarrow> (if ll_flags z AND LINK_LIST_SEMAPHORE \<noteq> 0 then listSemPost h1 l else Some (False, h1));
     Some (node, h2) })"

definition listAddNode :: "('x) store_scheme \<Rightarrow> nat \<Rightarrow> nat \<Rightarrow> int \<Rightarrow> nat \<Rightarrow> (nat \<times> 'x store_scheme) option" where
  "listAddNode h l data t after = (if l = 0 then Some (0, h)
     else case malloc h of (node, h1) \<Rightarrow>
       if node = 0 then Some (0, h1)
       else list_add_node (set_node h1 node (zero_node\<lparr>nd_data := data, nd_tag := t\<rparr>)) l node after)"

text \<open>The next tag of an array of tags, or the default one when there is no array.\<close>

definition next_tag :: "int list option \<Rightarrow> (int \<times> int list option) option" where
  "next_tag tags = (case tags of None \<Rightarrow> Some (LIST_NODE_TAG_DEFAULT, None)
     | Some [] \<Rightarrow> None | Some (t # ts) \<Rightarrow> Some (t, Some ts))"

fun addnodes_loop ::
  "(('x) store_scheme \<Rightarrow> nat \<Rightarrow> 'd \<Rightarrow> int \<Rightarrow> nat \<Rightarrow> (nat \<times> 'x store_scheme) option)
    \<Rightarrow> 'x store_scheme \<Rightarrow> nat \<Rightarrow> 'd list \<Rightarrow> int list option \<Rightarrow> nat \<Rightarrow> int \<Rightarrow> (int \<times> 'x store_scheme) option" where
  "addnodes_loop add h l [] tags after i = Some (i, h)"
| "addnodes_loop add h l (d # ds) tags after i = do {
     (t, tags1) \<leftarrow> next_tag tags;
     (node, h1) \<leftarrow> add h l d t after;
     if node = 0 then Some (i, h1) else addnodes_loop add h1 l ds tags1 node (i + 1) }"

definition listAddNodes ::
  "('x) store_scheme \<Rightarrow> nat \<Rightarrow> nat list option \<Rightarrow> int list option \<Rightarrow> nat \<Rightarrow> (int \<times> 'x store_scheme) option" where
  "listAddNodes h l data tags after =
     (case data of None \<Rightarrow> Some (-1, h) | Some ds \<Rightarrow> addnodes_loop listAddNode h l ds tags after 0)"

text \<open>A new block with a copy of the data, then a node for it that owns it.\<close>

definition add_copy :: "('x) store_scheme \<Rightarrow> nat \<Rightarrow> byte list \<Rightarrow> int \<Rightarrow> nat \<Rightarrow> (nat \<times> 'x store_scheme) option" where
  "add_copy h l data t after = (case malloc h of (buf, h1) \<Rightarrow>
     if buf = 0 then Some (0, h1)
     else do {
       let h2 = h1\<lparr>blocks := (blocks h1)(buf \<mapsto> data)\<rparr>;
       (node, h3) \<leftarrow> listAddNode h2 l buf t after;
       if node = 0 then do { h4 \<leftarrow> free_block h3 buf; Some (0, h4) }
       else do {
         n \<leftarrow> nodes h3 node;
         Some (node, set_node h3 node (n\<lparr>nd_flags := nd_flags n OR LINK_LIST_MALLOC\<rparr>)) } })"

definition listAddNodeData ::
  "('x) store_scheme \<Rightarrow> nat \<Rightarrow> byte list \<Rightarrow> nat \<Rightarrow> int \<Rightarrow> nat \<Rightarrow> (nat \<times> 'x store_scheme) option" where
  "listAddNodeData h l data len t after =
     (if length data < len then None else add_copy h l (take len data) t after)"

definition listAddNodeString ::
  "('x) store_scheme \<Rightarrow> nat \<Rightarrow> byte list option \<Rightarrow> int \<Rightarrow> nat \<Rightarrow> (nat \<times> 'x store_scheme) option" where
  "listAddNodeString h l str t after =
     (case str of None \<Rightarrow> Some (0, h) | Some s \<Rightarrow> add_copy h l (cstr s @ [0]) t after)"

definition listAddStringList ::
  "('x) store_scheme \<Rightarrow> nat \<Rightarrow> byte list list option \<Rightarrow> int list option \<Rightarrow> nat \<Rightarrow> (int \<times> 'x store_scheme) option" where
  "listAddStringList h l strs tags after = (case strs of None \<Rightarrow> Some (-1, h)
     | Some ss \<Rightarrow> addnodes_loop (\<lambda>h l s. listAddNodeString h l (Some s)) h l ss tags after 0)"

partial_function (option) addlist_loop :: "('x) store_scheme \<Rightarrow> nat \<Rightarrow> nat \<Rightarrow> nat \<Rightarrow> int \<Rightarrow> (int \<times> 'x store_scheme) option" where
  "addlist_loop h l src after c =
     (if src = 0 then Some (c, h)
      else case nodes h src of None \<Rightarrow> None | Some s \<Rightarrow>
        case listAddNode h l (nd_data s) (nd_tag s) after of None \<Rightarrow> None | Some (node, h1) \<Rightarrow>
          if node = 0 then Some (c, h1)
          else case nodes h1 node of None \<Rightarrow> None | Some n \<Rightarrow>
            case nodes (set_node h1 node (n\<lparr>nd_flags := nd_flags s\<rparr>)) src of None \<Rightarrow> None | Some s' \<Rightarrow>
              addlist_loop (set_node h1 node (n\<lparr>nd_flags := nd_flags s\<rparr>)) l (nd_next s') node (c + 1))"

definition listAddNodeList :: "('x) store_scheme \<Rightarrow> nat \<Rightarrow> nat \<Rightarrow> nat \<Rightarrow> (int \<times> 'x store_scheme) option" where
  "listAddNodeList h l src after = (if src = 0 then Some (-1, h) else do {
     x \<leftarrow> lists h src; addlist_loop h l (ll_first x) after 0 })"

partial_function (option) merge_loop :: "('x) store_scheme \<Rightarrow> nat \<Rightarrow> nat \<Rightarrow> nat \<Rightarrow> int \<Rightarrow> (int \<times> 'x store_scheme) option" where
  "merge_loop h l src after c =
     (if src = 0 then Some (c, h)
      else case list_add_node h l src after of None \<Rightarrow> None | Some (node, h1) \<Rightarrow>
        if node = 0 then Some (c, h1)
        else case nodes h1 src of None \<Rightarrow> None | Some s \<Rightarrow> merge_loop h1 l (nd_next s) node (c + 1))"

definition listMerge :: "('x) store_scheme \<Rightarrow> nat \<Rightarrow> nat \<Rightarrow> nat \<Rightarrow> (int \<times> 'x store_scheme) option" where
  "listMerge h l src after = (if src = 0 then Some (-1, h) else do {
     x \<leftarrow> lists h src; merge_loop h l (ll_first x) after 0 })"

fun extract_loop :: "('x) store_scheme \<Rightarrow> nat \<Rightarrow> nat \<Rightarrow> nat \<Rightarrow> 'x store_scheme option" where
  "extract_loop h l node 0 = Some h"
| "extract_loop h l node (Suc k) = (if node = 0 then Some h else do {
     n \<leftarrow> nodes h node;
     x \<leftarrow> lists h l;
     (_, h1) \<leftarrow> listAddNode h l (nd_data n) (nd_tag n) (ll_last x);
     m \<leftarrow> nodes h1 node;
     extract_loop h1 l (nd_next m) k })"

definition listExtract :: "('x) store_scheme \<Rightarrow> nat \<Rightarrow> nat \<Rightarrow> int \<Rightarrow> (nat \<times> 'x store_scheme) option" where
  "listExtract h dest node limit = (if node = 0 then Some (0, h) else do {
     n \<leftarrow> nodes h node;
     if nd_list n = 0 then Some (0, h)
     else do {
       x \<leftarrow> lists h (nd_list n);
       (l, h1) \<leftarrow> listInit h dest (ll_flags x);
       (if l = 0 then Some (0, h1)
        else do { h2 \<leftarrow> extract_loop h1 l node (nat limit); Some (l, h2) }) } })"

section \<open>Removing\<close>

definition list_remove_node :: "('x) store_scheme \<Rightarrow> nat \<Rightarrow> nat \<Rightarrow> bool \<Rightarrow> (nat \<times> 'x store_scheme) option" where
  "list_remove_node h l node0 free_data = do {
     x \<leftarrow> lists h l;
     let node = (if node0 = FIRST_NODE then ll_first x else if node0 = LAST_NODE then ll_last x else node0);
     if node = 0 then Some (0, h)
     else do {
       n \<leftarrow> nodes h node;
       if nd_flags n AND LINK_LIST_LOCKED \<noteq> 0 then Some (0, h)
       else do {
         h1 \<leftarrow> (if nd_prev n \<noteq> 0
           then do { p \<leftarrow> nodes h (nd_prev n); Some (set_node h (nd_prev n) (p\<lparr>nd_next := nd_next n\<rparr>)) }
           else Some h);
         h2 \<leftarrow> (if nd_next n \<noteq> 0
           then do { q \<leftarrow> nodes h1 (nd_next n); Some (set_node h1 (nd_next n) (q\<lparr>nd_prev := nd_prev n\<rparr>)) }
           else Some h1);
         let y = x\<lparr>ll_first := (if ll_first x = node then nd_next n else ll_first x),
                   ll_last := (if ll_last x = node then nd_prev n else ll_last x)\<rparr>;
         let h3 = set_list h2 l y;
         (_, h4) \<leftarrow> (if free_data then listFreeNodeData h3 node else Some (False, h3));
         m \<leftarrow> nodes h4 node;
         h5 \<leftarrow> free_node h4 node;
         Some (nd_data m, if ll_count y \<noteq> 0 then set_list h5 l (y\<lparr>ll_count := ll_count y - 1\<rparr>) else h5) } } }"

definition listRemoveNode :: "('x) store_scheme \<Rightarrow> nat \<Rightarrow> nat \<Rightarrow> bool \<Rightarrow> (nat \<times> 'x store_scheme) option" where
  "listRemoveNode h l node free_data = (if l = 0 then Some (0, h)
     else with_lock h l (\<lambda>h1. list_remove_node h1 l node free_data))"

definition listRemoveTaggedNode :: "('x) store_scheme \<Rightarrow> nat \<Rightarrow> int \<Rightarrow> bool \<Rightarrow> (nat \<times> 'x store_scheme) option" where
  "listRemoveTaggedNode h l t free_data = (if l = 0 then Some (0, h)
     else with_lock h l (\<lambda>h1. do {
       (node, h2) \<leftarrow> listFindNode h1 l (if t = 0 then by_pointer 0 else by_tag t);
       if node \<noteq> 0 then list_remove_node h2 l node free_data else Some (0, h2) }))"

fun removenodes_loop :: "('x) store_scheme \<Rightarrow> nat \<Rightarrow> nat \<Rightarrow> nat \<Rightarrow> bool \<Rightarrow> int \<Rightarrow> (int \<times> 'x store_scheme) option" where
  "removenodes_loop h l node 0 free_data c = Some (c, h)"
| "removenodes_loop h l node (Suc k) free_data c = (if node = 0 then Some (c, h) else do {
     (d, h1) \<leftarrow> listRemoveNode h l node free_data;
     if d = 0 then Some (c, h1)
     else do { n \<leftarrow> nodes h1 node; removenodes_loop h1 l (nd_next n) k free_data (c + 1) } })"

definition listRemoveNodes :: "('x) store_scheme \<Rightarrow> nat \<Rightarrow> nat \<Rightarrow> int \<Rightarrow> bool \<Rightarrow> (int \<times> 'x store_scheme) option" where
  "listRemoveNodes h l node limit free_data = (if l = 0 then Some (-1, h)
     else with_lock h l (\<lambda>h1. do {
       x \<leftarrow> lists h1 l;
       removenodes_loop h1 l (if node = FIRST_NODE then ll_first x else node) (nat limit) free_data 0 }))"

definition listSwapNodes :: "('x) store_scheme \<Rightarrow> nat \<Rightarrow> nat \<Rightarrow> (bool \<times> 'x store_scheme) option" where
  "listSwapNodes h p q = (if p = 0 \<or> q = 0 \<or> p = q then Some (False, h) else do {
     b1 \<leftarrow> listNodeIsLocked h p;
     b2 \<leftarrow> (if b1 then Some True else listNodeIsLocked h q);
     if b2 then Some (False, h)
     else do {
       n \<leftarrow> nodes h p;
       m \<leftarrow> nodes h q;
       if nd_list n = 0 \<or> nd_list m = 0 then Some (False, h)
       else do {
         (_, h1) \<leftarrow> listLock h (nd_list n);
         (_, h2) \<leftarrow> (if nd_list n \<noteq> nd_list m then listLock h1 (nd_list m) else Some (0, h1));
         let h3 = set_node h2 p (n\<lparr>nd_tag := nd_tag m, nd_data := nd_data m, nd_flags := nd_flags m\<rparr>);
         let h4 = set_node h3 q (m\<lparr>nd_tag := nd_tag n, nd_data := nd_data n, nd_flags := nd_flags n\<rparr>);
         (_, h5) \<leftarrow> listUnlock h4 (nd_list n);
         (_, h6) \<leftarrow> (if nd_list n \<noteq> nd_list m then listUnlock h5 (nd_list m) else Some (0, h5));
         Some (True, h6) } } })"

declare listForceUnlock.simps [code] and
  freenodes_loop.simps [code] and
  mutex_destroy_loop.simps [code] and
  find_from.simps [code] and
  count_from.simps [code] and
  last_from.simps [code] and
  at_from.simps [code] and
  strings_from.simps [code] and
  addlist_loop.simps [code] and
  merge_loop.simps [code]

end
