(* ===== verification/LinkSpec.thy ===== *)
theory LinkSpec
  imports LinkList Fifo
begin

text \<open>
  What the linked list promises: a list in the store stands for the sequence of its nodes'
  addresses, and every operation is the corresponding operation on that sequence.
\<close>

section \<open>A list in the store\<close>

fun seg :: "(nat \<Rightarrow> list_node option) \<Rightarrow> nat \<Rightarrow> nat \<Rightarrow> nat list \<Rightarrow> nat \<Rightarrow> bool" where
  "seg N l pr [] nx \<longleftrightarrow> True"
| "seg N l pr (p # ps) nx \<longleftrightarrow> p \<noteq> 0 \<and> p \<noteq> LAST_NODE
     \<and> (\<exists>n. N p = Some n \<and> nd_prev n = pr \<and> nd_next n = hd (ps @ [nx]) \<and> nd_list n = l) \<and> seg N l p ps nx"

lemma seg_append: "seg N l pr (xs @ ys) nx \<longleftrightarrow> seg N l pr xs (hd (ys @ [nx])) \<and> seg N l (last (pr # xs)) ys nx"
  by (induction xs arbitrary: pr) auto

lemma seg_cong: "(\<And>p. p \<in> set ps \<Longrightarrow> N' p = N p) \<Longrightarrow> seg N' l pr ps nx = seg N l pr ps nx"
  by (induction ps arbitrary: pr) auto

lemma seg_node: "seg N l pr ps nx \<Longrightarrow> p \<in> set ps \<Longrightarrow> \<exists>n. N p = Some n \<and> nd_list n = l \<and> p \<noteq> 0 \<and> p \<noteq> LAST_NODE"
  by (induction ps arbitrary: pr) auto

definition dlist :: "store \<Rightarrow> nat \<Rightarrow> nat list \<Rightarrow> bool" where
  "dlist h l ps \<longleftrightarrow> l \<noteq> 0 \<and> distinct ps \<and> seg (nodes h) l 0 ps 0
     \<and> (\<exists>x. lists h l = Some x \<and> ll_first x = hd (ps @ [0]) \<and> ll_last x = last (0 # ps)
          \<and> ll_count x = int (length ps) \<and> 0 \<le> ll_locks x)"

lemma dlistE:
  assumes "dlist h l ps"
  obtains x where "l \<noteq> 0" "distinct ps" "seg (nodes h) l 0 ps 0" "lists h l = Some x"
    "ll_first x = hd (ps @ [0])" "ll_last x = last (0 # ps)" "ll_count x = int (length ps)" "0 \<le> ll_locks x"
  using assms by (auto simp: dlist_def)

text \<open>A list does not depend on stores elsewhere.\<close>

lemma dlist_cong:
  assumes "dlist h l ps" "lists h' l = lists h l" "\<And>p. p \<in> set ps \<Longrightarrow> nodes h' p = nodes h p"
  shows "dlist h' l ps"
  using assms seg_cong [of ps "nodes h'" "nodes h" l 0 0] by (simp add: dlist_def)

section \<open>Locking\<close>

definition locked_list :: "link_list \<Rightarrow> link_list" where
  "locked_list x = (if ll_flags x AND LINK_LIST_MUTEX \<noteq> 0 then x\<lparr>ll_locks := ll_locks x + 1\<rparr> else x)"

lemma set_list_same [simp]: "lists h l = Some x \<Longrightarrow> set_list h l x = (h :: store)"
  by (simp add: set_list_def fun_upd_idem)

lemma with_lock_run:
  assumes "l \<noteq> 0" "lists h l = Some x" "0 \<le> ll_locks x"
    and "f (set_list h l (locked_list x)) = Some (r, h2)"
    and "lists h2 l = Some y" "ll_flags y = ll_flags x" "ll_locks y = ll_locks (locked_list x)"
  shows "with_lock (h :: store) l f = Some (r, set_list h2 l (y\<lparr>ll_locks := ll_locks x\<rparr>))"
  using assms
  by (auto simp: with_lock_def listLock_def listUnlock_def locked_list_def set_list_same split: if_splits)

text \<open>An operation that only reads leaves the store as it was.\<close>

lemma with_lock_read:
  assumes "l \<noteq> 0" "lists h l = Some x" "0 \<le> ll_locks x"
    and "f (set_list h l (locked_list x)) = Some (r, set_list h l (locked_list x))"
  shows "with_lock (h :: store) l f = Some (r, h)"
proof -
  have "with_lock h l f = Some (r, set_list (set_list h l (locked_list x)) l ((locked_list x)\<lparr>ll_locks := ll_locks x\<rparr>))"
    by (rule with_lock_run [where f = f, OF assms]) (auto simp: set_list_def locked_list_def)
  moreover have "(locked_list x)\<lparr>ll_locks := ll_locks x\<rparr> = x" by (simp add: locked_list_def)
  ultimately show ?thesis using assms(2) by (simp add: set_list_def fun_upd_idem)
qed

lemma locked_list_fields [simp]:
  "ll_first (locked_list x) = ll_first x" "ll_last (locked_list x) = ll_last x" "ll_flags (locked_list x) = ll_flags x"
  "ll_count (locked_list x) = ll_count x" "ll_sem (locked_list x) = ll_sem x" "ll_refs (locked_list x) = ll_refs x"
  "ll_private (locked_list x) = ll_private x"
  by (simp_all add: locked_list_def)

lemma dlist_locked: "dlist h l ps \<Longrightarrow> lists h l = Some x \<Longrightarrow> dlist (set_list h l (locked_list x)) l ps"
  by (auto simp: dlist_def set_list_def locked_list_def)

section \<open>Adding a node\<close>

definition link_in :: "(nat \<Rightarrow> list_node option) \<Rightarrow> nat \<Rightarrow> nat \<Rightarrow> list_node \<Rightarrow> nat \<Rightarrow> nat \<Rightarrow> nat \<Rightarrow> list_node option" where
  "link_in N l p n after nx =
     (\<lambda>q. if q = p then Some (n\<lparr>nd_list := l, nd_prev := after, nd_next := nx\<rparr>)
          else if q = after \<and> after \<noteq> 0 then map_option (\<lambda>a. a\<lparr>nd_next := p\<rparr>) (N q)
          else if q = nx \<and> nx \<noteq> 0 then map_option (\<lambda>b. b\<lparr>nd_prev := p\<rparr>) (N q)
          else N q)"

lemma link_node_run:
  assumes "lists h l = Some x" "nodes h p = Some n" "nd_next n = 0"
    and "after = (if after0 = LAST_NODE then ll_last x else after0)"
    and "after \<noteq> 0 \<Longrightarrow> \<exists>a. nodes h after = Some a \<and> nd_next a = nx" "after = 0 \<Longrightarrow> nx = ll_first x"
    and "nx \<noteq> 0 \<Longrightarrow> \<exists>b. nodes h nx = Some b" "after = ll_last x \<longleftrightarrow> nx = 0"
    and "p \<noteq> after" "p \<noteq> nx" "after = nx \<Longrightarrow> after = 0"
  shows "link_node (h :: store) l p after0 = Some ((), h\<lparr>nodes := link_in (nodes h) l p n after nx,
    lists := (lists h)(l \<mapsto> x\<lparr>ll_first := (if after = 0 then p else ll_first x), ll_last := (if nx = 0 then p else ll_last x),
      ll_count := ll_count x + 1\<rparr>)\<rparr>)"
proof (cases "after = 0")
  case True
  show ?thesis
  proof (cases "nx = 0")
    case nx: True
    have "(nodes h)(p \<mapsto> n\<lparr>nd_list := l, nd_prev := 0, nd_next := 0\<rparr>) = link_in (nodes h) l p n 0 0"
      by (auto simp: link_in_def)
    then show ?thesis
      using assms(1-4,6,8) True nx
      by (simp add: link_node_def Let_def FIRST_NODE_def set_node_def set_list_def) (cases x, simp)
  next
    case nx: False
    obtain b where b: "nodes h nx = Some b" using assms(7) nx by blast
    have "(nodes h)(p \<mapsto> n\<lparr>nd_list := l, nd_prev := 0, nd_next := nx\<rparr>, nx \<mapsto> b\<lparr>nd_prev := p\<rparr>)
        = link_in (nodes h) l p n 0 nx"
      using b nx assms(10) by (auto simp: link_in_def)
    moreover have "ll_first x = nx" "0 \<noteq> ll_last x" using assms(6,8) True nx by auto
    ultimately show ?thesis
      using assms(1-4) True nx b assms(10)
      by (simp add: link_node_def Let_def FIRST_NODE_def set_node_def set_list_def)
  qed
next
  case False
  obtain a where a: "nodes h after = Some a" "nd_next a = nx" using assms(5) False by blast
  show ?thesis
  proof (cases "nx = 0")
    case nx: True
    have "(nodes h)(p \<mapsto> n\<lparr>nd_list := l, nd_prev := after\<rparr>, after \<mapsto> a\<lparr>nd_next := p\<rparr>)
        = link_in (nodes h) l p n after 0"
      using a False assms(3,9) by (auto simp: link_in_def)
    then show ?thesis
      using assms(1,2,4,8,9) False nx a
      by (simp add: link_node_def Let_def FIRST_NODE_def set_node_def set_list_def)
  next
    case nx: False
    obtain b where b: "nodes h nx = Some b" using assms(7) nx by blast
    have "(nodes h)(p \<mapsto> n\<lparr>nd_list := l, nd_prev := after, nd_next := nx\<rparr>, nx \<mapsto> b\<lparr>nd_prev := p\<rparr>,
        after \<mapsto> a\<lparr>nd_next := p\<rparr>) = link_in (nodes h) l p n after nx"
      using a b nx False assms(9-11) by (auto simp: link_in_def)
    moreover have "after \<noteq> nx" "after \<noteq> ll_last x" using assms(8,11) False nx by auto
    ultimately show ?thesis
      using assms(1,2,4,9,10) False nx a b
      by (simp add: link_node_def Let_def FIRST_NODE_def set_node_def set_list_def fun_upd_twist)
  qed
qed

text \<open>The list header after a node was added.\<close>

definition grown :: "link_list \<Rightarrow> nat \<Rightarrow> nat \<Rightarrow> nat \<Rightarrow> link_list" where
  "grown x p after nx = x\<lparr>ll_first := (if after = 0 then p else ll_first x), ll_last := (if nx = 0 then p else ll_last x),
     ll_count := ll_count x + 1, ll_sem := (if ll_flags x AND LINK_LIST_SEMAPHORE \<noteq> 0 then ll_sem x + 1 else ll_sem x)\<rparr>"

lemma list_add_node_run:
  assumes d: "l \<noteq> 0" "lists h l = Some x" "0 \<le> ll_locks x"
    and n: "nodes h p = Some n" "nd_next n = 0" "after = (if after0 = LAST_NODE then ll_last x else after0)"
    and r: "after \<noteq> 0 \<Longrightarrow> \<exists>a. nodes h after = Some a \<and> nd_next a = nx" "after = 0 \<Longrightarrow> nx = ll_first x"
      "nx \<noteq> 0 \<Longrightarrow> \<exists>b. nodes h nx = Some b" "after = ll_last x \<longleftrightarrow> nx = 0"
      "p \<noteq> after" "p \<noteq> nx" "after = nx \<Longrightarrow> after = 0"
  shows "list_add_node (h :: store) l p after0 = Some (p, h\<lparr>nodes := link_in (nodes h) l p n after nx,
    lists := (lists h)(l \<mapsto> grown x p after nx)\<rparr>)"
proof -
  let ?h1 = "set_list h l (locked_list x)"
  have s: "nodes ?h1 = nodes h" "lists ?h1 l = Some (locked_list x)" by (simp_all add: set_list_def)
  have "link_node ?h1 l p after0 = Some ((), ?h1\<lparr>nodes := link_in (nodes ?h1) l p n after nx,
    lists := (lists ?h1)(l \<mapsto> (locked_list x)\<lparr>ll_first := (if after = 0 then p else ll_first (locked_list x)),
      ll_last := (if nx = 0 then p else ll_last (locked_list x)), ll_count := ll_count (locked_list x) + 1\<rparr>)\<rparr>)"
    by (rule link_node_run) (use s n r in simp_all)
  note w = with_lock_run [where f = "\<lambda>h1. link_node h1 l p after0", OF d this]
  let ?Y = "(locked_list x)\<lparr>ll_first := (if after = 0 then p else ll_first (locked_list x)),
      ll_last := (if nx = 0 then p else ll_last (locked_list x)), ll_count := ll_count (locked_list x) + 1\<rparr>"
  let ?y = "x\<lparr>ll_first := (if after = 0 then p else ll_first x), ll_last := (if nx = 0 then p else ll_last x),
     ll_count := ll_count x + 1\<rparr>"
  have e: "?Y\<lparr>ll_locks := ll_locks x\<rparr> = ?y" by (cases x) (simp add: locked_list_def)
  have "with_lock h l (\<lambda>h1. link_node h1 l p after0)
    = Some ((), set_list (?h1\<lparr>nodes := link_in (nodes ?h1) l p n after nx, lists := (lists ?h1)(l \<mapsto> ?Y)\<rparr>) l
        (?Y\<lparr>ll_locks := ll_locks x\<rparr>))"
    by (rule w) simp_all
  also have "\<dots> = Some ((), h\<lparr>nodes := link_in (nodes h) l p n after nx, lists := (lists h)(l \<mapsto> ?y)\<rparr>)"
    unfolding e by (simp add: set_list_def)
  finally have "with_lock h l (\<lambda>h1. link_node h1 l p after0)
    = Some ((), h\<lparr>nodes := link_in (nodes h) l p n after nx, lists := (lists h)(l \<mapsto> ?y)\<rparr>)" .
  then show ?thesis
    using d by (simp add: list_add_node_def listSemPost_def grown_def set_list_def)
qed

text \<open>The addresses in use: what \<open>malloc\<close> gives is new.\<close>

definition store_ok :: "store \<Rightarrow> bool" where
  "store_ok h \<longleftrightarrow> 0 < brk h \<and> (\<forall>p. nodes h p \<noteq> None \<or> lists h p \<noteq> None \<or> blocks h p \<noteq> None \<longrightarrow> p < 16 * brk h)"

lemma malloc_run:
  assumes "store_ok h" "0 < avail h"
  obtains p where "malloc h = (p, h\<lparr>brk := brk h + 1, avail := avail h - 1\<rparr>)" "p = 16 * brk h" "p \<noteq> 0" "p \<noteq> LAST_NODE"
    "nodes h p = None" "lists h p = None" "blocks h p = None"
proof
  have "even (16 * brk h)" by simp
  moreover have "odd LAST_NODE" by (simp add: LAST_NODE_def)
  ultimately show "16 * brk h \<noteq> LAST_NODE" by metis
  show "malloc h = (16 * brk h, h\<lparr>brk := brk h + 1, avail := avail h - 1\<rparr>)" "16 * brk h \<noteq> 0"
    using assms by (simp_all add: malloc_def store_ok_def)
  show "nodes h (16 * brk h) = None" "lists h (16 * brk h) = None" "blocks h (16 * brk h) = None"
    using assms by (auto simp: store_ok_def)
qed simp

text \<open>What a node carries for its user.\<close>

definition info :: "list_node \<Rightarrow> nat \<times> int \<times> ulong" where
  "info n = (nd_data n, nd_tag n, nd_flags n)"

definition node_info :: "store \<Rightarrow> nat \<Rightarrow> (nat \<times> int \<times> ulong) option" where
  "node_info h p = map_option info (nodes h p)"

lemma seg_link_in:
  assumes "seg N l 0 (xs @ ys) 0" "distinct (xs @ ys)" "p \<notin> set (xs @ ys)" "p \<noteq> 0" "p \<noteq> LAST_NODE"
  shows "seg (link_in N l p n (last (0 # xs)) (hd (ys @ [0]))) l 0 (xs @ p # ys) 0"
proof -
  let ?N = "link_in N l p n (last (0 # xs)) (hd (ys @ [0]))"
  have x: "seg N l 0 xs (hd (ys @ [0]))" and y: "seg N l (last (0 # xs)) ys 0"
    using assms(1) by (simp_all add: seg_append)
  have "seg ?N l 0 xs p"
  proof (cases xs rule: rev_exhaust)
    case (snoc zs z)
    have zs: "seg N l 0 zs z" and z: "seg N l (last (0 # zs)) [z] (hd (ys @ [0]))"
      using x by (simp_all add: snoc seg_append)
    have "z \<notin> set zs" "z \<notin> set ys" "set zs \<inter> set ys = {}" using assms(2) snoc by auto
    then have "?N q = N q" if "q \<in> set zs" for q
      using that assms(3) snoc seg_node [OF zs that] by (cases ys) (auto simp: link_in_def)
    then have "seg ?N l 0 zs z" using zs seg_cong [of zs ?N N] by simp
    moreover have "seg ?N l (last (0 # zs)) [z] p"
      using z assms(3) snoc by (auto simp: link_in_def)
    ultimately show ?thesis by (simp add: snoc seg_append)
  qed simp
  moreover have "seg ?N l p ys 0"
  proof (cases ys)
    case (Cons w ws)
    have w: "seg N l (last (0 # xs)) [w] (hd (ws @ [0]))" and ws: "seg N l w ws 0"
      using y seg_append [of N l _ "[w]" ws] by (simp_all add: Cons)
    have ne: "w \<notin> set ws" "last (0 # xs) \<notin> insert w (set ws) \<or> last (0 # xs) = 0"
      using assms(2) Cons last_in_set [of xs] by (auto simp: disjoint_iff split: if_splits)
    then have "?N q = N q" if "q \<in> set ws" for q
      using that assms(3) Cons seg_node [OF ws that] by (auto simp: link_in_def)
    then have "seg ?N l w ws 0" using ws seg_cong [of ws ?N N] by simp
    moreover have "last (0 # xs) \<noteq> w" using ne w by auto
    then have "?N w = map_option (\<lambda>b. b\<lparr>nd_prev := p\<rparr>) (N w)" using w assms(3) Cons by (auto simp: link_in_def)
    ultimately show ?thesis using w Cons by (auto simp: link_in_def)
  qed simp
  moreover have "?N p = Some (n\<lparr>nd_list := l, nd_prev := last (0 # xs), nd_next := hd (ys @ [0])\<rparr>)"
    by (simp add: link_in_def)
  ultimately show ?thesis using assms(4,5) by (simp add: seg_append)
qed

text \<open>A step that only touches one list, its header and its nodes.\<close>

definition only_list :: "store \<Rightarrow> store \<Rightarrow> nat \<Rightarrow> nat set \<Rightarrow> bool" where
  "only_list h h' l P \<longleftrightarrow> (\<forall>q. q \<notin> P \<longrightarrow> nodes h' q = nodes h q) \<and> (\<forall>k. k \<noteq> l \<longrightarrow> lists h' k = lists h k)"

definition list_hdr :: "store \<Rightarrow> nat \<Rightarrow> (ulong \<times> nat \<times> int \<times> int) option" where
  "list_hdr h l = map_option (\<lambda>x. (ll_flags x, ll_private x, ll_refs x, ll_locks x)) (lists h l)"

definition list_sem :: "store \<Rightarrow> nat \<Rightarrow> nat" where
  "list_sem h l = (case lists h l of None \<Rightarrow> 0 | Some x \<Rightarrow> ll_sem x)"

definition sem_flag :: "store \<Rightarrow> nat \<Rightarrow> bool" where
  "sem_flag h l = (case lists h l of None \<Rightarrow> False | Some x \<Rightarrow> ll_flags x AND LINK_LIST_SEMAPHORE \<noteq> 0)"

lemma only_list_dlist:
  assumes "only_list h h' l P" "dlist h k qs" "k \<noteq> l" "set qs \<inter> P = {}"
  shows "dlist h' k qs"
proof (rule dlist_cong [OF assms(2)])
  show "lists h' k = lists h k" using assms(1,3) by (simp add: only_list_def)
  show "nodes h' p = nodes h p" if "p \<in> set qs" for p
    using assms(1,4) that by (auto simp: only_list_def)
qed

lemma seg_nd_list: "seg N l pr ps nx \<Longrightarrow> p \<in> set ps \<Longrightarrow> N p = Some n \<Longrightarrow> nd_list n = l"
  by (induction ps arbitrary: pr) auto

text \<open>Two lists have no node in common.\<close>

lemma dlist_node: "dlist h l ps \<Longrightarrow> p \<in> set ps \<Longrightarrow> \<exists>n. nodes h p = Some n \<and> nd_list n = l \<and> p \<noteq> 0 \<and> p \<noteq> LAST_NODE"
  using seg_node [of "nodes h" l 0 ps 0 p] by (simp add: dlist_def)

lemma dlist_disjoint:
  assumes "dlist h l ps" "dlist h k qs" "k \<noteq> l"
  shows "set qs \<inter> set ps = {}"
proof (rule ccontr)
  assume "set qs \<inter> set ps \<noteq> {}"
  then obtain p where "p \<in> set qs" "p \<in> set ps" by blast
  then show False using dlist_node [OF assms(1)] dlist_node [OF assms(2)] assms(3) by fastforce
qed

lemma dlist_add:
  assumes d: "dlist h l (xs @ ys)" and n: "nodes h p = Some n" "nd_next n = 0" "p \<notin> set (xs @ ys)" "p \<noteq> 0" "p \<noteq> LAST_NODE"
    and a: "after0 = last (0 # xs) \<or> after0 = LAST_NODE \<and> ys = []"
  obtains h' where "list_add_node h l p after0 = Some (p, h')" "dlist h' l (xs @ p # ys)"
    "node_info h' = node_info h" "only_list h h' l (insert p (set (xs @ ys)))" "list_hdr h' l = list_hdr h l"
    "list_sem h' l = (if sem_flag h l then list_sem h l + 1 else list_sem h l)"
    "blocks h' = blocks h" "brk h' = brk h" "avail h' = avail h"
proof -
  obtain x where x: "l \<noteq> 0" "distinct (xs @ ys)" "seg (nodes h) l 0 (xs @ ys) 0" "lists h l = Some x"
    "ll_first x = hd ((xs @ ys) @ [0])" "ll_last x = last (0 # xs @ ys)" "ll_count x = int (length (xs @ ys))" "0 \<le> ll_locks x"
    using d by (rule dlistE)
  define after where "after = last (0 # xs)"
  define nx where "nx = hd (ys @ [0])"
  have x1: "seg (nodes h) l 0 xs nx" and y1: "seg (nodes h) l after ys 0"
    using x(3) by (simp_all add: seg_append after_def nx_def)
  have aft: "after = 0 \<or> after \<in> set xs" by (cases xs rule: rev_exhaust) (simp_all add: after_def)
  have nxt: "nx = 0 \<or> nx \<in> set ys" by (cases ys) (simp_all add: nx_def)
  have nz: "q \<in> set (xs @ ys) \<Longrightarrow> q \<noteq> 0 \<and> q \<noteq> LAST_NODE" for q using seg_node [OF x(3)] by blast
  have e1: "after = (if after0 = LAST_NODE then ll_last x else after0)"
    using a nz aft x(6) by (auto simp: after_def LAST_NODE_def)
  have e2: "\<exists>a. nodes h after = Some a \<and> nd_next a = nx" if "after \<noteq> 0"
    using that x1 by (cases xs rule: rev_exhaust) (auto simp: after_def seg_append)
  have e3: "nx = ll_first x" if "after = 0"
    using that nz x(5) by (cases xs rule: rev_exhaust) (auto simp: after_def nx_def)
  have e4: "\<exists>b. nodes h nx = Some b" if "nx \<noteq> 0"
    using that nxt y1 seg_node by blast
  have e5: "after = ll_last x \<longleftrightarrow> nx = 0"
  proof (cases "ys = []")
    case True
    then show ?thesis using x(6) by (simp add: after_def nx_def)
  next
    case False
    then have "nx \<noteq> 0" "ll_last x \<in> set ys" using nz x(6) by (auto simp: nx_def)
    then show ?thesis using aft x(2) nz [of "ll_last x"] by auto
  qed
  have e6: "p \<noteq> after" "p \<noteq> nx" using n(3,4) aft nxt by auto
  have e7: "after = nx \<Longrightarrow> after = 0" using aft nxt x(2) by auto
  let ?h = "h\<lparr>nodes := link_in (nodes h) l p n after nx, lists := (lists h)(l \<mapsto> grown x p after nx)\<rparr>"
  have run: "list_add_node h l p after0 = Some (p, ?h)"
    by (rule list_add_node_run) (use x(1,4,8) n e1 e2 e3 e4 e5 e6 e7 in simp_all)
  have "seg (link_in (nodes h) l p n after nx) l 0 (xs @ p # ys) 0"
    unfolding after_def nx_def by (rule seg_link_in) (use x n in simp_all)
  moreover have "ll_first (grown x p after nx) = hd ((xs @ p # ys) @ [0])"
  proof (cases xs)
    case (Cons z zs)
    then have "after \<in> set xs" by (simp add: after_def)
    then have "after \<noteq> 0" using nz by auto
    then show ?thesis using x(5) Cons by (simp add: grown_def)
  qed (simp add: grown_def after_def)
  moreover have "ll_last (grown x p after nx) = last (0 # xs @ p # ys)"
    using x(6) nz by (cases ys) (auto simp: grown_def nx_def)
  ultimately have dl: "dlist ?h l (xs @ p # ys)"
    using x(1,2,7,8) n(3) by (simp add: dlist_def grown_def)
  have "node_info ?h = node_info h"
    using n(1) by (auto simp: node_info_def link_in_def info_def [abs_def] fun_eq_iff option.map_comp comp_def)
  moreover have "only_list h ?h l (insert p (set (xs @ ys)))"
    using aft nxt by (auto simp: only_list_def link_in_def)
  ultimately show ?thesis
    using x(4) by (intro that [OF run dl]) (simp_all add: list_hdr_def list_sem_def sem_flag_def grown_def)
qed

lemma store_ok_more:
  assumes "store_ok h" "brk h \<le> brk h'" "\<And>p. nodes h' p \<noteq> None \<Longrightarrow> nodes h p \<noteq> None \<or> p < 16 * brk h'"
    "\<And>p. lists h' p \<noteq> None \<Longrightarrow> lists h p \<noteq> None \<or> p < 16 * brk h'"
    "\<And>p. blocks h' p \<noteq> None \<Longrightarrow> blocks h p \<noteq> None \<or> p < 16 * brk h'"
  shows "store_ok h'"
  using assms unfolding store_ok_def by (metis le_trans less_le_trans mult_le_mono2 not_less)

lemma listAddNode_run:
  assumes ok: "store_ok h" and d: "dlist h l (xs @ ys)" and av: "0 < avail h"
    and a: "after0 = last (0 # xs) \<or> after0 = LAST_NODE \<and> ys = []"
  obtains p h' where "listAddNode h l dat t after0 = Some (p, h')" "p \<noteq> 0" "nodes h p = None" "lists h p = None" "blocks h p = None"
    "dlist h' l (xs @ p # ys)" "node_info h' = (node_info h)(p \<mapsto> (dat, t, 0))"
    "only_list h h' l (insert p (set (xs @ ys)))" "list_hdr h' l = list_hdr h l"
    "list_sem h' l = (if sem_flag h l then list_sem h l + 1 else list_sem h l)"
    "blocks h' = blocks h" "brk h' = brk h + 1" "avail h' = avail h - 1" "store_ok h'"
proof -
  obtain p where p: "malloc h = (p, h\<lparr>brk := brk h + 1, avail := avail h - 1\<rparr>)" "p = 16 * brk h" "p \<noteq> 0"
    "p \<noteq> LAST_NODE" "nodes h p = None" "lists h p = None" "blocks h p = None"
    using malloc_run [OF ok av] by blast
  let ?n = "zero_node\<lparr>nd_data := dat, nd_tag := t\<rparr>"
  let ?h1 = "set_node (h\<lparr>brk := brk h + 1, avail := avail h - 1\<rparr>) p ?n"
  have nin: "p \<notin> set (xs @ ys)" using d p(5) by (auto simp: dlist_def dest: seg_node)
  have d1: "dlist ?h1 l (xs @ ys)" by (rule dlist_cong [OF d]) (use nin in \<open>auto simp: set_node_def\<close>)
  have n1: "nodes ?h1 p = Some ?n" "nd_next ?n = 0" by (simp_all add: set_node_def zero_node_def)
  obtain h' where h': "list_add_node ?h1 l p after0 = Some (p, h')" "dlist h' l (xs @ p # ys)"
    "node_info h' = node_info ?h1" "only_list ?h1 h' l (insert p (set (xs @ ys)))" "list_hdr h' l = list_hdr ?h1 l"
    "list_sem h' l = (if sem_flag ?h1 l then list_sem ?h1 l + 1 else list_sem ?h1 l)"
    "blocks h' = blocks ?h1" "brk h' = brk ?h1" "avail h' = avail ?h1"
    by (rule dlist_add [OF d1 n1 nin p(3,4) a])
  have l: "l \<noteq> 0" "lists h l \<noteq> None" using d by (auto simp: dlist_def)
  have run: "listAddNode h l dat t after0 = Some (p, h')"
    using l(1) p(1,3) h'(1) by (simp add: listAddNode_def)
  have info: "node_info h' = (node_info h)(p \<mapsto> (dat, t, 0))"
    by (auto simp: h'(3) node_info_def set_node_def info_def zero_node_def fun_eq_iff)
  have only: "only_list h h' l (insert p (set (xs @ ys)))"
    using h'(4) by (auto simp: only_list_def set_node_def)
  have "store_ok h'"
  proof (rule store_ok_more [OF ok])
    show "nodes h q \<noteq> None \<or> q < 16 * brk h'" if "nodes h' q \<noteq> None" for q
    proof -
      have "node_info h' q \<noteq> None" using that by (simp add: node_info_def)
      then show ?thesis using h'(8) p(2) by (auto simp: info node_info_def set_node_def split: if_splits)
    qed
    show "lists h q \<noteq> None \<or> q < 16 * brk h'" if "lists h' q \<noteq> None" for q
      using that only l(2) by (cases "q = l") (auto simp: only_list_def)
  qed (use h'(7,8) in \<open>simp_all add: set_node_def\<close>)
  then show ?thesis
    using h' by (intro that [OF run p(3,5,6,7) h'(2) info only]) (simp_all add: list_hdr_def list_sem_def sem_flag_def set_node_def)
qed

section \<open>Removing a node\<close>

definition link_out :: "(nat \<Rightarrow> list_node option) \<Rightarrow> nat \<Rightarrow> nat \<Rightarrow> nat \<Rightarrow> nat \<Rightarrow> list_node option" where
  "link_out N p pr nx =
     (\<lambda>q. if q = p then None
          else if q = pr \<and> pr \<noteq> 0 then map_option (\<lambda>a. a\<lparr>nd_next := nx\<rparr>) (N q)
          else if q = nx \<and> nx \<noteq> 0 then map_option (\<lambda>b. b\<lparr>nd_prev := pr\<rparr>) (N q)
          else N q)"

definition shrunk :: "link_list \<Rightarrow> nat \<Rightarrow> nat \<Rightarrow> nat \<Rightarrow> link_list" where
  "shrunk x p pr nx = x\<lparr>ll_first := (if ll_first x = p then nx else ll_first x),
     ll_last := (if ll_last x = p then pr else ll_last x), ll_count := ll_count x - 1\<rparr>"

lemma list_remove_node_run:
  assumes x: "lists h l = Some x" "ll_count x \<noteq> 0"
    and n: "p = (if p0 = FIRST_NODE then ll_first x else if p0 = LAST_NODE then ll_last x else p0)" "p \<noteq> 0"
      "nodes h p = Some n" "nd_flags n AND LINK_LIST_LOCKED = 0"
    and r: "nd_prev n \<noteq> 0 \<Longrightarrow> \<exists>a. nodes h (nd_prev n) = Some a" "nd_next n \<noteq> 0 \<Longrightarrow> \<exists>b. nodes h (nd_next n) = Some b"
      "p \<noteq> nd_prev n" "p \<noteq> nd_next n" "nd_prev n = nd_next n \<Longrightarrow> nd_prev n = 0"
  shows "list_remove_node (h :: store) l p0 False = Some (nd_data n, h\<lparr>nodes := link_out (nodes h) p (nd_prev n) (nd_next n),
    lists := (lists h)(l \<mapsto> shrunk x p (nd_prev n) (nd_next n)), avail := avail h + 1\<rparr>)"
proof -
  define pr where "pr = nd_prev n"
  define nx where "nx = nd_next n"
  define N1 where "N1 = (if pr \<noteq> 0 then (nodes h)(pr \<mapsto> (the (nodes h pr))\<lparr>nd_next := nx\<rparr>) else nodes h)"
  define N2 where "N2 = (if nx \<noteq> 0 then N1(nx \<mapsto> (the (N1 nx))\<lparr>nd_prev := pr\<rparr>) else N1)"
  have s1: "(if pr \<noteq> 0 then do { a \<leftarrow> nodes h pr; Some (set_node h pr (a\<lparr>nd_next := nx\<rparr>)) } else Some h)
      = Some (h\<lparr>nodes := N1\<rparr>)"
    using r(1) by (auto simp: N1_def pr_def set_node_def)
  have s2: "(if nx \<noteq> 0 then do { b \<leftarrow> nodes (h\<lparr>nodes := N1\<rparr>) nx; Some (set_node (h\<lparr>nodes := N1\<rparr>) nx (b\<lparr>nd_prev := pr\<rparr>)) }
      else Some (h\<lparr>nodes := N1\<rparr>)) = Some (h\<lparr>nodes := N2\<rparr>)"
    using r(2,5) by (auto simp: N2_def N1_def pr_def nx_def set_node_def)
  have N2p: "N2 p = Some n" using r(3,4) n(3) by (simp add: N2_def N1_def pr_def nx_def)
  have N2: "N2(p := None) = link_out (nodes h) p pr nx"
    using r by (auto simp: N2_def N1_def link_out_def pr_def nx_def fun_eq_iff)
  let ?y = "x\<lparr>ll_first := (if ll_first x = p then nx else ll_first x), ll_last := (if ll_last x = p then pr else ll_last x)\<rparr>"
  have free: "free_node (set_list (h\<lparr>nodes := N2\<rparr>) l ?y) p = Some (h\<lparr>nodes := N2(p := None), lists := (lists h)(l \<mapsto> ?y), avail := avail h + 1\<rparr>)"
    by (simp add: free_node_def set_list_def N2p)
  have cnt: "ll_count ?y \<noteq> 0" using x(2) by simp
  have N2l: "nodes (set_list (h\<lparr>nodes := N2\<rparr>) l ?y) = N2" by (simp add: set_list_def)
  have "list_remove_node h l p0 False = Some (nd_data n,
      set_list (h\<lparr>nodes := N2(p := None), lists := (lists h)(l \<mapsto> ?y), avail := avail h + 1\<rparr>) l (?y\<lparr>ll_count := ll_count ?y - 1\<rparr>))"
    unfolding list_remove_node_def x(1) Let_def bind.bind_lunit n(1) [symmetric]
    by (simp only: n(2-4) if_False bind.bind_lunit pr_def [symmetric] nx_def [symmetric] s1 s2 store.simps
      prod.case free N2p N2l cnt not_False_eq_True if_True simp_thms cong del: if_weak_cong)
  then show ?thesis by (simp add: N2 shrunk_def set_list_def pr_def nx_def)
qed

lemma seg_link_out:
  assumes "seg N l 0 (xs @ p # ys) 0" "distinct (xs @ p # ys)"
  shows "seg (link_out N p (last (0 # xs)) (hd (ys @ [0]))) l 0 (xs @ ys) 0"
proof -
  let ?nx = "hd (ys @ [0])" and ?pr = "last (0 # xs)"
  let ?N = "link_out N p ?pr ?nx"
  have x: "seg N l 0 xs p" and y: "seg N l p ys 0" using assms(1) by (simp_all add: seg_append)
  have "seg ?N l 0 xs ?nx"
  proof (cases xs rule: rev_exhaust)
    case (snoc zs z)
    have zs: "seg N l 0 zs z" and z: "seg N l (last (0 # zs)) [z] p" using x by (simp_all add: snoc seg_append)
    have "z \<notin> set zs" "z \<noteq> p" "p \<notin> set zs" "set zs \<inter> set ys = {}" using assms(2) snoc by auto
    then have "?N q = N q" if "q \<in> set zs" for q
      using that snoc seg_node [OF zs that] by (cases ys) (auto simp: link_out_def)
    then have "seg ?N l 0 zs z" using zs seg_cong [of zs ?N N] by simp
    moreover have "seg ?N l (last (0 # zs)) [z] ?nx"
      using z snoc \<open>z \<noteq> p\<close> by (auto simp: link_out_def)
    ultimately show ?thesis by (simp add: snoc seg_append)
  qed simp
  moreover have "seg ?N l ?pr ys 0"
  proof (cases ys)
    case (Cons w ws)
    have w: "seg N l p [w] (hd (ws @ [0]))" and ws: "seg N l w ws 0"
      using y seg_append [of N l _ "[w]" ws] by (simp_all add: Cons)
    have ne: "w \<notin> set ws" "w \<noteq> p" "p \<notin> set ws" "?pr \<notin> insert w (set ws) \<or> ?pr = 0"
      using assms(2) Cons last_in_set [of xs] by (auto simp: disjoint_iff split: if_splits)
    then have "?N q = N q" if "q \<in> set ws" for q
      using that Cons seg_node [OF ws that] by (auto simp: link_out_def)
    then have "seg ?N l w ws 0" using ws seg_cong [of ws ?N N] by simp
    moreover have "?pr \<noteq> w" using ne w by auto
    then have "?N w = map_option (\<lambda>b. b\<lparr>nd_prev := ?pr\<rparr>) (N w)" using w ne(2) Cons by (auto simp: link_out_def)
    ultimately show ?thesis using w Cons by (auto simp: link_out_def)
  qed simp
  ultimately show ?thesis by (simp add: seg_append)
qed

lemma node_info_link_out:
  "map_option info (link_out N p pr nx q) = (if q = p then None else map_option info (N q))"
  by (auto simp: link_out_def info_def [abs_def] option.map_comp comp_def)

lemma dlist_remove:
  assumes d: "dlist h l (xs @ p # ys)"
    and p0: "p0 = p \<or> p0 = FIRST_NODE \<and> xs = [] \<or> p0 = LAST_NODE \<and> ys = []"
    and i: "node_info h p = Some (dat, t, f)" "f AND LINK_LIST_LOCKED = 0"
  obtains h' where "list_remove_node h l p0 False = Some (dat, h')" "dlist h' l (xs @ ys)"
    "node_info h' = (node_info h)(p := None)" "only_list h h' l (set (xs @ p # ys))" "list_hdr h' l = list_hdr h l"
    "list_sem h' l = list_sem h l" "blocks h' = blocks h" "brk h' = brk h" "avail h' = avail h + 1"
proof -
  obtain x where x: "l \<noteq> 0" "distinct (xs @ p # ys)" "seg (nodes h) l 0 (xs @ p # ys) 0" "lists h l = Some x"
    "ll_first x = hd ((xs @ p # ys) @ [0])" "ll_last x = last (0 # xs @ p # ys)"
    "ll_count x = int (length (xs @ p # ys))" "0 \<le> ll_locks x"
    using d by (rule dlistE)
  have nz: "q \<in> set (xs @ p # ys) \<Longrightarrow> q \<noteq> 0 \<and> q \<noteq> LAST_NODE" for q using dlist_node [OF d] by blast
  obtain n where n: "nodes h p = Some n" "nd_prev n = last (0 # xs)" "nd_next n = hd (ys @ [0])"
    using x(3) by (auto simp: seg_append)
  have i': "nd_data n = dat" "nd_flags n AND LINK_LIST_LOCKED = 0"
    using i n(1) by (auto simp: node_info_def info_def)
  have pr: "nd_prev n = 0 \<or> nd_prev n \<in> set xs" by (cases xs rule: rev_exhaust) (simp_all add: n(2))
  have nx: "nd_next n = 0 \<or> nd_next n \<in> set ys" by (cases ys) (simp_all add: n(3))
  have p: "p = (if p0 = FIRST_NODE then ll_first x else if p0 = LAST_NODE then ll_last x else p0)" "p \<noteq> 0"
    using p0 nz [of p] x(5,6) by (auto simp: FIRST_NODE_def LAST_NODE_def)
  let ?h = "h\<lparr>nodes := link_out (nodes h) p (nd_prev n) (nd_next n),
    lists := (lists h)(l \<mapsto> shrunk x p (nd_prev n) (nd_next n)), avail := avail h + 1\<rparr>"
  have "list_remove_node h l p0 False = Some (nd_data n, ?h)"
  proof (rule list_remove_node_run [OF x(4) _ p n(1) i'(2)])
    show "ll_count x \<noteq> 0" using x(7) by simp
    show "\<exists>a. nodes h (nd_prev n) = Some a" if "nd_prev n \<noteq> 0"
      using pr that dlist_node [OF d, of "nd_prev n"] by auto
    show "\<exists>a. nodes h (nd_next n) = Some a" if "nd_next n \<noteq> 0"
      using nx that dlist_node [OF d, of "nd_next n"] by auto
    show "p \<noteq> nd_prev n" "p \<noteq> nd_next n" using pr nx x(2) p(2) by auto
    show "nd_prev n = 0" if "nd_prev n = nd_next n" using that pr nx x(2) by auto
  qed
  then have run: "list_remove_node h l p0 False = Some (dat, ?h)" by (simp add: i'(1))
  have "seg (nodes ?h) l 0 (xs @ ys) 0" using seg_link_out [OF x(3,2)] by (simp add: n)
  moreover have "ll_first (shrunk x p (nd_prev n) (nd_next n)) = hd ((xs @ ys) @ [0])"
    using x(5) x(2) by (cases xs) (auto simp: shrunk_def n(3))
  moreover have "ll_last (shrunk x p (nd_prev n) (nd_next n)) = last (0 # xs @ ys)"
    using x(6) x(2) by (cases ys rule: rev_exhaust) (auto simp: shrunk_def n(2))
  ultimately have dl: "dlist ?h l (xs @ ys)" using x(1,2,7,8) by (simp add: dlist_def shrunk_def)
  have "node_info ?h = (node_info h)(p := None)"
    by (auto simp: node_info_def node_info_link_out)
  moreover have "only_list h ?h l (set (xs @ p # ys))"
    using pr nx by (auto simp: only_list_def link_out_def)
  ultimately show ?thesis
    using x(4) by (intro that [OF run dl]) (simp_all add: list_hdr_def list_sem_def shrunk_def)
qed

text \<open>A locked step on a list, given what it does on the list when locked.\<close>

lemma with_lock_dlist:
  assumes d: "dlist h l ps"
    and f: "\<And>h1. dlist h1 l ps \<Longrightarrow> nodes h1 = nodes h \<Longrightarrow> blocks h1 = blocks h \<Longrightarrow> brk h1 = brk h \<Longrightarrow> avail h1 = avail h \<Longrightarrow>
      list_sem h1 l = list_sem h l \<Longrightarrow> only_list h h1 l {} \<Longrightarrow>
      \<exists>h2. f h1 = Some (r, h2) \<and> dlist h2 l qs \<and> list_hdr h2 l = list_hdr h1 l \<and> list_sem h2 l = list_sem h1 l
        \<and> only_list h1 h2 l P \<and> Q (nodes h2) (blocks h2) (brk h2) (avail h2)"
  obtains h' where "with_lock h l f = Some (r, h')" "dlist h' l qs" "list_hdr h' l = list_hdr h l"
    "list_sem h' l = list_sem h l" "only_list h h' l P" "Q (nodes h') (blocks h') (brk h') (avail h')"
proof -
  obtain x where x: "l \<noteq> 0" "lists h l = Some x" "0 \<le> ll_locks x" using d by (rule dlistE)
  let ?h1 = "set_list h l (locked_list x)"
  have "dlist ?h1 l ps" "nodes ?h1 = nodes h" "blocks ?h1 = blocks h" "brk ?h1 = brk h" "avail ?h1 = avail h"
    "list_sem ?h1 l = list_sem h l" "only_list h ?h1 l {}"
    using dlist_locked [OF d x(2)] x(2) by (simp_all add: set_list_def list_sem_def only_list_def)
  then obtain h2 where h2: "f ?h1 = Some (r, h2)" "dlist h2 l qs" "list_hdr h2 l = list_hdr ?h1 l"
    "list_sem h2 l = list_sem ?h1 l" "only_list ?h1 h2 l P" "Q (nodes h2) (blocks h2) (brk h2) (avail h2)"
    using f by blast
  obtain y where y: "lists h2 l = Some y" "ll_flags y = ll_flags x" "ll_locks y = ll_locks (locked_list x)"
    "ll_private y = ll_private x" "ll_refs y = ll_refs x" "ll_sem y = ll_sem x"
    using h2(2-4) by (auto simp: list_hdr_def list_sem_def set_list_def dlist_def)
  let ?h' = "set_list h2 l (y\<lparr>ll_locks := ll_locks x\<rparr>)"
  have "with_lock h l f = Some (r, ?h')" by (rule with_lock_run [where f = f, OF x h2(1) y(1,2,3)])
  moreover have "dlist ?h' l qs" using h2(2) y(1) x(3) by (auto simp: dlist_def set_list_def)
  moreover have "list_hdr ?h' l = list_hdr h l" using x(2) y by (simp add: list_hdr_def set_list_def)
  moreover have "list_sem ?h' l = list_sem h l" using x(2) y by (simp add: list_sem_def set_list_def)
  moreover have "only_list h ?h' l P" using h2(5) by (simp add: only_list_def set_list_def)
  moreover have "Q (nodes ?h') (blocks ?h') (brk ?h') (avail ?h')" using h2(6) by (simp add: set_list_def)
  ultimately show ?thesis by (rule that)
qed

lemma store_ok_less:
  assumes "store_ok h" "brk h' = brk h" "node_info h' = (node_info h)(p := None)" "only_list h h' l P"
    "dlist h l ps" "blocks h' = blocks h"
  shows "store_ok h'"
proof -
  have l: "lists h l \<noteq> None" using assms(5) by (auto simp: dlist_def)
  have n: "nodes h' q = None \<longleftrightarrow> node_info h' q = None" "nodes h q = None \<longleftrightarrow> node_info h q = None" for q
    by (simp_all add: node_info_def)
  have "lists h q \<noteq> None" if "lists h' q \<noteq> None" for q
    using that assms(4) l by (cases "q = l") (auto simp: only_list_def)
  then show ?thesis using assms(1) unfolding store_ok_def n assms(2,3,6) by (auto split: if_splits)
qed

lemma listRemoveNode_run:
  assumes d: "dlist h l (xs @ p # ys)"
    and p0: "p0 = p \<or> p0 = FIRST_NODE \<and> xs = [] \<or> p0 = LAST_NODE \<and> ys = []"
    and i: "node_info h p = Some (dat, t, f)" "f AND LINK_LIST_LOCKED = 0"
  obtains h' where "listRemoveNode h l p0 False = Some (dat, h')" "dlist h' l (xs @ ys)"
    "node_info h' = (node_info h)(p := None)" "only_list h h' l (set (xs @ p # ys))" "list_hdr h' l = list_hdr h l"
    "list_sem h' l = list_sem h l" "blocks h' = blocks h" "brk h' = brk h" "avail h' = avail h + 1"
proof -
  let ?Q = "\<lambda>N B b a. map_option info \<circ> N = (node_info h)(p := None) \<and> B = blocks h \<and> b = brk h \<and> a = avail h + 1"
  obtain h' where h': "with_lock h l (\<lambda>h1. list_remove_node h1 l p0 False) = Some (dat, h')" "dlist h' l (xs @ ys)"
    "list_hdr h' l = list_hdr h l" "list_sem h' l = list_sem h l" "only_list h h' l (set (xs @ p # ys))"
    "?Q (nodes h') (blocks h') (brk h') (avail h')"
  proof (rule with_lock_dlist [OF d, where f = "\<lambda>h1. list_remove_node h1 l p0 False" and r = dat and qs = "xs @ ys"
        and P = "set (xs @ p # ys)" and Q = ?Q])
    fix h1 assume d1: "dlist h1 l (xs @ p # ys)" and e: "nodes h1 = nodes h" "blocks h1 = blocks h" "brk h1 = brk h" "avail h1 = avail h"
    then have ni: "node_info h1 = node_info h" by (simp add: node_info_def [abs_def])
    obtain h2 where h2: "list_remove_node h1 l p0 False = Some (dat, h2)" "dlist h2 l (xs @ ys)"
    "node_info h2 = (node_info h1)(p := None)" "only_list h1 h2 l (set (xs @ p # ys))" "list_hdr h2 l = list_hdr h1 l"
    "list_sem h2 l = list_sem h1 l" "blocks h2 = blocks h1" "brk h2 = brk h1" "avail h2 = avail h1 + 1"
      by (rule dlist_remove [OF d1 p0]) (use i ni in simp_all)
    have "map_option info \<circ> nodes h2 = node_info h2" by (auto simp: node_info_def)
    then show "\<exists>h2. list_remove_node h1 l p0 False = Some (dat, h2) \<and> dlist h2 l (xs @ ys) \<and> list_hdr h2 l = list_hdr h1 l
      \<and> list_sem h2 l = list_sem h1 l \<and> only_list h1 h2 l (set (xs @ p # ys)) \<and> ?Q (nodes h2) (blocks h2) (brk h2) (avail h2)"
      using h2 e ni by (intro exI [of _ h2]) simp
  qed
  have "node_info h' = map_option info \<circ> nodes h'" by (auto simp: node_info_def)
  moreover have "l \<noteq> 0" using d by (simp add: dlist_def)
  ultimately show ?thesis using h' by (intro that [of h']) (simp_all add: listRemoveNode_def)
qed

lemma listRemoveNode_empty:
  assumes "dlist h l []"
  shows "listRemoveNode h l FIRST_NODE fd = Some (0, h)"
proof -
  obtain x where x: "l \<noteq> 0" "lists h l = Some x" "0 \<le> ll_locks x" "ll_first x = 0" using assms by (auto simp: dlist_def)
  have "with_lock h l (\<lambda>h1. list_remove_node h1 l FIRST_NODE fd) = Some (0, h)"
    by (rule with_lock_read [OF x(1-3)]) (simp add: list_remove_node_def set_list_def x(4))
  then show ?thesis using x(1) by (simp add: listRemoveNode_def)
qed

text \<open>A locked node stays.\<close>

lemma listRemoveNode_locked:
  assumes d: "dlist h l (xs @ p # ys)" and i: "node_info h p = Some (dat, t, f)" "f AND LINK_LIST_LOCKED \<noteq> 0"
  shows "listRemoveNode h l p fd = Some (0, h)"
proof -
  obtain x where x: "l \<noteq> 0" "lists h l = Some x" "0 \<le> ll_locks x" using d by (rule dlistE)
  obtain n where n: "nodes h p = Some n" "nd_flags n = f" using i by (auto simp: node_info_def info_def)
  have "p \<noteq> 0" "p \<noteq> LAST_NODE" using dlist_node [OF d, of p] by auto
  then have "with_lock h l (\<lambda>h1. list_remove_node h1 l p fd) = Some (0, h)"
    using n i(2) by (intro with_lock_read [OF x]) (simp add: list_remove_node_def set_list_def FIRST_NODE_def)
  then show ?thesis using x(1) by (simp add: listRemoveNode_def)
qed

section \<open>Reading a list\<close>

lemma hd_snoc: "hd (xs @ [y]) = (if xs = [] then y else hd xs)"
  by (cases xs) auto

lemma count_from_seg:
  "seg (nodes h) l pr ps 0 \<Longrightarrow> count_from h (hd (ps @ [0])) c = Some (c + int (length ps))"
proof (induction ps arbitrary: pr c)
  case Nil
  then show ?case by (simp add: count_from.simps)
next
  case (Cons p ps)
  then show ?case by (subst count_from.simps) (auto simp: algebra_simps)
qed

lemma at_from_seg:
  "seg (nodes h) l pr ps 0 \<Longrightarrow> at_from h (hd (ps @ [0])) (int k) = Some (if k < length ps then ps ! k else 0)"
proof (induction ps arbitrary: pr k)
  case Nil
  then show ?case by (simp add: at_from.simps)
next
  case (Cons p ps)
  show ?case
  proof (cases k)
    case 0
    then show ?thesis by (simp add: at_from.simps)
  next
    case (Suc j)
    then show ?thesis using Cons by (subst at_from.simps) auto
  qed
qed

text \<open>The first node that passes a test, the test being defined on all of them.\<close>

lemma find_from_seg:
  "seg (nodes h) l pr ps 0 \<Longrightarrow> (\<And>p n. p \<in> set ps \<Longrightarrow> nodes h p = Some n \<Longrightarrow> stop p n = Some (test p)) \<Longrightarrow>
    find_from stop h (hd (ps @ [0])) = Some (case find test ps of None \<Rightarrow> 0 | Some p \<Rightarrow> p)"
proof (induction ps arbitrary: pr)
  case Nil
  then show ?case by (simp add: find_from.simps)
next
  case (Cons p ps)
  then show ?case by (subst find_from.simps) auto
qed

lemma dlist_read:
  assumes "dlist h l ps" "\<And>h1. nodes h1 = nodes h \<Longrightarrow> blocks h1 = blocks h \<Longrightarrow> dlist h1 l ps \<Longrightarrow> f h1 = Some (r, h1)"
  shows "with_lock h l f = Some (r, h)"
proof -
  obtain x where x: "l \<noteq> 0" "lists h l = Some x" "0 \<le> ll_locks x" using assms(1) by (rule dlistE)
  show ?thesis
    by (rule with_lock_read [where f = f, OF x assms(2)]) (use dlist_locked [OF assms(1) x(2)] in \<open>simp_all add: set_list_def\<close>)
qed

lemma listCountNodes_run: "dlist h l ps \<Longrightarrow> listCountNodes h l = Some (int (length ps), h)"
proof -
  assume d: "dlist h l ps"
  obtain x where x: "l \<noteq> 0" "seg (nodes h) l 0 ps 0" "lists h l = Some x" "ll_count x = int (length ps)"
    using d by (rule dlistE)
  show ?thesis
  proof (cases "ps = []")
    case True
    have "with_lock h l (\<lambda>h1. do { y \<leftarrow> lists h1 l; c \<leftarrow> count_from h1 (ll_first y) 0; Some (c, h1) }) = Some (0, h)"
      by (rule dlist_read [OF d]) (auto simp: True dlist_def count_from.simps)
    then show ?thesis using x True by (simp add: listCountNodes_def)
  next
    case False
    then show ?thesis using x by (simp add: listCountNodes_def)
  qed
qed

text \<open>Reading the header and following the nodes from there.\<close>

lemma dlist_look:
  assumes "dlist h l ps"
    and "\<And>h1 x. seg (nodes h1) l 0 ps 0 \<Longrightarrow> nodes h1 = nodes h \<Longrightarrow> blocks h1 = blocks h \<Longrightarrow>
      ll_first x = hd (ps @ [0]) \<Longrightarrow> ll_last x = last (0 # ps) \<Longrightarrow> g x h1 = Some r"
  shows "with_lock h l (\<lambda>h1. do { x \<leftarrow> lists h1 l; p \<leftarrow> g x h1; Some (p, h1) }) = Some (r, h)"
proof (rule dlist_read [OF assms(1)])
  fix h1 assume e: "nodes h1 = nodes h" "blocks h1 = blocks h" and d1: "dlist h1 l ps"
  obtain x where x: "seg (nodes h1) l 0 ps 0" "lists h1 l = Some x" "ll_first x = hd (ps @ [0])" "ll_last x = last (0 # ps)"
    using d1 by (rule dlistE)
  show "do { x \<leftarrow> lists h1 l; p \<leftarrow> g x h1; Some (p, h1) } = Some (r, h1)"
    using assms(2) [OF x(1) e x(3,4)] by (simp only: x(2) bind.bind_lunit)
qed

lemma dlist_nonnull: "dlist h l ps \<Longrightarrow> l \<noteq> 0"
  by (simp add: dlist_def)

lemma listNodeAt_run:
  assumes "dlist h l ps"
  shows "listNodeAt h l (int k) = Some (if k < length ps then ps ! k else 0, h)"
proof -
  have "with_lock h l (\<lambda>h1. do { x \<leftarrow> lists h1 l; p \<leftarrow> at_from h1 (ll_first x) (int k); Some (p, h1) })
    = Some (if k < length ps then ps ! k else 0, h)"
    by (rule dlist_look [OF assms]) (simp only: at_from_seg)
  then show ?thesis using dlist_nonnull [OF assms] by (simp add: listNodeAt_def)
qed

lemma listFirstNode_run:
  assumes "dlist h l ps"
  shows "listFirstNode h l = Some (hd (ps @ [0]), h)"
proof -
  have "with_lock h l (\<lambda>h1. do { x \<leftarrow> lists h1 l; p \<leftarrow> Some (ll_first x); Some (p, h1) }) = Some (hd (ps @ [0]), h)"
    by (rule dlist_look [OF assms]) simp
  then show ?thesis using dlist_nonnull [OF assms] by (simp add: listFirstNode_def)
qed

lemma listLastNode_run: "dlist h l ps \<Longrightarrow> listLastNode h l = Some (last (0 # ps), h)"
proof -
  assume d: "dlist h l ps"
  then have "l \<noteq> 0" by (simp add: dlist_def)
  have nz: "last ps \<noteq> 0" if "ps \<noteq> []" using dlist_node [OF d last_in_set [OF that]] by blast
  have "with_lock h l (\<lambda>h1. do { x \<leftarrow> lists h1 l;
      p \<leftarrow> (if ll_last x \<noteq> 0 then Some (ll_last x) else last_from h1 (ll_first x) 0); Some (p, h1) }) = Some (last (0 # ps), h)"
    by (rule dlist_read [OF d]) (use nz in \<open>auto simp: dlist_def last_from.simps\<close>)
  then show ?thesis using \<open>l \<noteq> 0\<close> by (simp add: listLastNode_def)
qed

lemma listFindNode_run:
  assumes d: "dlist h l ps" and w: "\<forall>d len. want \<noteq> by_content d len"
  shows "listFindNode h l want = Some (case find (\<lambda>p. node_test h want p (the (nodes h p)) = Some True) ps of
      None \<Rightarrow> 0 | Some p \<Rightarrow> p, h)"
proof -
  have l: "l \<noteq> 0" using d by (simp add: dlist_def)
  have t: "node_test h1 want p n = Some (node_test h want p n = Some True)" for h1 p n
    using w by (cases want) (auto simp: node_test_def)
  have "with_lock h l (\<lambda>h1. do { x \<leftarrow> lists h1 l; p \<leftarrow> find_from (node_test h1 want) h1 (ll_first x); Some (p, h1) })
    = Some (case find (\<lambda>p. node_test h want p (the (nodes h p)) = Some True) ps of None \<Rightarrow> 0 | Some p \<Rightarrow> p, h)"
  proof (rule dlist_look [OF d])
    fix h1 x assume x: "seg (nodes h1) l 0 ps 0" "ll_first x = hd (ps @ [0])" and e: "nodes h1 = nodes h"
    show "find_from (node_test h1 want) h1 (ll_first x)
      = Some (case find (\<lambda>p. node_test h want p (the (nodes h p)) = Some True) ps of None \<Rightarrow> 0 | Some p \<Rightarrow> p)"
      unfolding x(2) by (rule find_from_seg [OF x(1)]) (subst t, simp add: e)
  qed
  then show ?thesis using l by (simp add: listFindNode_def)
qed

end
