(* ===== verification/LinkProps.thy ===== *)
theory LinkProps
  imports LinkSpec
begin

text \<open>Properties of the linked list, and where it does not do what it means to.\<close>

section \<open>Adding and removing\<close>

text \<open>
  C32: Adding a node puts it right behind the node named (or first, or last) in its list, with the
  data and tag given; the other nodes keep their order and what they carry, and every other
  list of the store is untouched.
\<close>

theorem listAddNode_inserts:
  assumes "store_ok h" "dlist h l (xs @ ys)" "0 < avail h"
    and "after = last (0 # xs) \<or> after = LAST_NODE \<and> ys = []"
  shows "\<exists>p h'. listAddNode h l dat t after = Some (p, h') \<and> dlist h' l (xs @ p # ys)
    \<and> node_info h' = (node_info h)(p \<mapsto> (dat, t, 0)) \<and> p \<notin> set (xs @ ys)
    \<and> (\<forall>k qs. k \<noteq> l \<longrightarrow> dlist h k qs \<longrightarrow> dlist h' k qs)"
proof -
  obtain p h' where r: "listAddNode h l dat t after = Some (p, h')" "nodes h p = None" "dlist h' l (xs @ p # ys)"
    "node_info h' = (node_info h)(p \<mapsto> (dat, t, 0))" "only_list h h' l (insert p (set (xs @ ys)))"
    by (rule listAddNode_run [OF assms])
  have "dlist h' k qs" if "k \<noteq> l" "dlist h k qs" for k qs
    using dlist_disjoint [OF assms(2) that(2,1)] dlist_node [OF that(2), of p] r(2)
    by (intro only_list_dlist [OF r(5) that(2,1)]) auto
  then show ?thesis using r dlist_node [OF assms(2), of p] by (intro exI conjI) auto
qed

text \<open>
  C33: Removing a node that is not locked, with its data kept, returns the data and closes the gap; the other nodes keep
  their order and what they carry, and every other list of the store is untouched. The node may
  be named by its address, or as the first or the last one.
\<close>

theorem listRemoveNode_removes:
  assumes "dlist h l (xs @ p # ys)"
    and "p0 = p \<or> p0 = FIRST_NODE \<and> xs = [] \<or> p0 = LAST_NODE \<and> ys = []"
    and "node_info h p = Some (dat, t, f)" "f AND LINK_LIST_LOCKED = 0"
  shows "\<exists>h'. listRemoveNode h l p0 False = Some (dat, h') \<and> dlist h' l (xs @ ys)
    \<and> node_info h' = (node_info h)(p := None) \<and> (\<forall>k qs. k \<noteq> l \<longrightarrow> dlist h k qs \<longrightarrow> dlist h' k qs)"
proof -
  obtain h' where r: "listRemoveNode h l p0 False = Some (dat, h')" "dlist h' l (xs @ ys)"
    "node_info h' = (node_info h)(p := None)" "only_list h h' l (set (xs @ p # ys))"
    by (rule listRemoveNode_run [OF assms])
  have "dlist h' k qs" if "k \<noteq> l" "dlist h k qs" for k qs
    using dlist_disjoint [OF assms(1) that(2,1)] by (intro only_list_dlist [OF r(4) that(2,1)])
  then show ?thesis using r by blast
qed

section \<open>Where it goes wrong\<close>

text \<open>The index of a node is given as 0 wherever in the list it is.\<close>

lemma listNodeIndex_zero:
  assumes d: "dlist h l ps" and p: "p \<in> set ps"
  shows "listNodeIndex h l p = Some (0, h)"
proof -
  have f: "find (\<lambda>q. q = p) ps = Some p"
  proof -
    obtain q where "find (\<lambda>q. q = p) ps = Some q" using p by (cases "find (\<lambda>q. q = p) ps") (auto simp: find_None_iff)
    moreover from this have "q = p" by (auto simp: find_Some_iff)
    ultimately show ?thesis by simp
  qed
  have "with_lock h l (\<lambda>h1. do { x \<leftarrow> lists h1 l; q \<leftarrow> find_from (\<lambda>q n. Some (q = p)) h1 (ll_first x); Some (q, h1) }) = Some (p, h)"
  proof (rule dlist_look [OF d])
    fix h1 x assume x: "seg (nodes h1) l 0 ps 0" "ll_first x = hd (ps @ [0])"
    show "find_from (\<lambda>q n. Some (q = p)) h1 (ll_first x) = Some p"
      unfolding x(2) using find_from_seg [OF x(1), of "\<lambda>q n. Some (q = p)" "\<lambda>q. q = p"] by (simp add: f)
  qed
  moreover have "p \<noteq> 0" using dlist_node [OF d p] by blast
  ultimately show ?thesis using dlist_nonnull [OF d] by (simp add: listNodeIndex_def)
qed

section \<open>Removing several nodes\<close>

text \<open>Removing a node and its data gives back NULL, since the pointer in the node is cleared.\<close>

lemma list_remove_node_frees:
  assumes x: "lists h l = Some x" "p = (if p0 = FIRST_NODE then ll_first x else if p0 = LAST_NODE then ll_last x else p0)"
    and n: "p \<noteq> 0" "nodes h p = Some n" "nd_flags n AND LINK_LIST_LOCKED = 0" "nd_prev n \<noteq> p" "nd_next n \<noteq> p"
    and run: "list_remove_node (h :: store) l p0 False = Some (dat, h')"
    and blk: "dat = 0 \<or> blocks h dat \<noteq> None"
  shows "list_remove_node h l p0 True = Some (0, if dat = 0 then h'
    else h'\<lparr>blocks := (blocks h)(dat := None), avail := avail h' + 1\<rparr>)"
proof -
  define A where "A = (if nd_prev n \<noteq> 0
           then do { p \<leftarrow> nodes h (nd_prev n); Some (set_node h (nd_prev n) (p\<lparr>nd_next := nd_next n\<rparr>)) }
           else Some h)"
  define B where "B h1 = (if nd_next n \<noteq> 0
           then do { q \<leftarrow> nodes h1 (nd_next n); Some (set_node h1 (nd_next n) (q\<lparr>nd_prev := nd_prev n\<rparr>)) }
           else Some h1)" for h1 :: store
  define y where "y = x\<lparr>ll_first := (if ll_first x = p then nd_next n else ll_first x),
    ll_last := (if ll_last x = p then nd_prev n else ll_last x)\<rparr>"
  have T: "list_remove_node h l p0 fd = do {
         h1 \<leftarrow> A; h2 \<leftarrow> B h1;
         (_, h4) \<leftarrow> (if fd then listFreeNodeData (set_list h2 l y) p else Some (False, set_list h2 l y));
         m \<leftarrow> nodes h4 p;
         h5 \<leftarrow> free_node h4 p;
         Some (nd_data m, if ll_count y \<noteq> 0 then set_list h5 l (y\<lparr>ll_count := ll_count y - 1\<rparr>) else h5) }" for fd
    unfolding list_remove_node_def x(1) Let_def bind.bind_lunit x(2) [symmetric] A_def B_def y_def
    by (simp only: n(1-3) if_False bind.bind_lunit simp_thms cong del: if_weak_cong)
  obtain h1 h2 where h: "A = Some h1" "B h1 = Some h2" using run unfolding T by (auto simp: bind_eq_Some_conv)
  note T = T [unfolded h bind.bind_lunit]
  have "nodes h1 p = Some n" "blocks h1 = blocks h"
    using h(1) n by (auto simp: A_def set_node_def bind_eq_Some_conv split: if_splits)
  then have k: "nodes h2 p = Some n" "blocks h2 = blocks h"
    using h(2) n by (auto simp: B_def set_node_def bind_eq_Some_conv split: if_splits)
  then have "nd_data n = dat" using run by (auto simp: T set_list_def bind_eq_Some_conv)
  then show ?thesis using run k n blk
    by (auto simp: T set_list_def free_node_def free_block_def listFreeNodeData_def set_node_def split: if_splits)
qed

lemma dlist_remove_freed:
  assumes d: "dlist h l (xs @ p # ys)"
    and p0: "p0 = p \<or> p0 = FIRST_NODE \<and> xs = [] \<or> p0 = LAST_NODE \<and> ys = []"
    and i: "node_info h p = Some (dat, t, f)" "f AND LINK_LIST_LOCKED = 0" and b: "dat = 0 \<or> blocks h dat \<noteq> None"
  obtains h' where "list_remove_node h l p0 True = Some (0, h')" "dlist h' l (xs @ ys)"
    "node_info h' = (node_info h)(p := None)" "only_list h h' l (set (xs @ p # ys))" "list_hdr h' l = list_hdr h l"
    "list_sem h' l = list_sem h l" "blocks h' = (if dat = 0 then blocks h else (blocks h)(dat := None))"
proof -
  obtain x where x: "distinct (xs @ p # ys)" "seg (nodes h) l 0 (xs @ p # ys) 0" "lists h l = Some x"
    "ll_first x = hd ((xs @ p # ys) @ [0])" "ll_last x = last (0 # xs @ p # ys)"
    using d by (rule dlistE)
  obtain n where n: "nodes h p = Some n" "nd_prev n = last (0 # xs)" "nd_next n = hd (ys @ [0])"
    using x(2) by (auto simp: seg_append)
  have nz: "q \<in> set (xs @ p # ys) \<Longrightarrow> q \<noteq> 0 \<and> q \<noteq> LAST_NODE" for q using dlist_node [OF d] by blast
  have f: "nd_flags n AND LINK_LIST_LOCKED = 0" using i n(1) by (auto simp: node_info_def info_def)
  have p: "p = (if p0 = FIRST_NODE then ll_first x else if p0 = LAST_NODE then ll_last x else p0)" "p \<noteq> 0"
    using p0 nz [of p] x(4,5) by (auto simp: FIRST_NODE_def LAST_NODE_def)
  have ne: "nd_prev n \<noteq> p" "nd_next n \<noteq> p"
    using x(1) p(2) unfolding n(2,3) by (cases xs rule: rev_exhaust; cases ys; auto)+
  obtain h' where h': "list_remove_node h l p0 False = Some (dat, h')" "dlist h' l (xs @ ys)"
    "node_info h' = (node_info h)(p := None)" "only_list h h' l (set (xs @ p # ys))" "list_hdr h' l = list_hdr h l"
    "list_sem h' l = list_sem h l" "blocks h' = blocks h"
    by (rule dlist_remove [OF d p0 i])
  let ?g = "if dat = 0 then h' else h'\<lparr>blocks := (blocks h)(dat := None), avail := avail h' + 1\<rparr>"
  have g: "nodes ?g = nodes h'" "lists ?g = lists h'" by simp_all
  have "list_remove_node h l p0 True = Some (0, ?g)"
    by (rule list_remove_node_frees [OF x(3) p n(1) f ne h'(1) b])
  moreover have "dlist ?g l (xs @ ys)" using dlist_cong [OF h'(2), of ?g] g by simp
  moreover have "node_info ?g = node_info h'" by (simp add: node_info_def [abs_def])
  ultimately show thesis using h' by (intro that [of ?g]) (simp_all add: only_list_def list_hdr_def list_sem_def)
qed

lemma listRemoveNode_freed:
  assumes d: "dlist h l (xs @ p # ys)"
    and p0: "p0 = p \<or> p0 = FIRST_NODE \<and> xs = [] \<or> p0 = LAST_NODE \<and> ys = []"
    and i: "node_info h p = Some (dat, t, f)" "f AND LINK_LIST_LOCKED = 0" and b: "dat = 0 \<or> blocks h dat \<noteq> None"
  obtains h' where "listRemoveNode h l p0 True = Some (0, h')" "dlist h' l (xs @ ys)"
    "node_info h' = (node_info h)(p := None)" "only_list h h' l (set (xs @ p # ys))"
    "list_hdr h' l = list_hdr h l"
    "list_sem h' l = list_sem h l" "blocks h' = (if dat = 0 then blocks h else (blocks h)(dat := None))"
proof -
  let ?Q = "\<lambda>N B (b :: nat) (a :: nat). map_option info \<circ> N = (node_info h)(p := None)
    \<and> B = (if dat = 0 then blocks h else (blocks h)(dat := None))"
  obtain h' where h': "with_lock h l (\<lambda>h1. list_remove_node h1 l p0 True) = Some (0, h')" "dlist h' l (xs @ ys)"
    "list_hdr h' l = list_hdr h l" "list_sem h' l = list_sem h l" "only_list h h' l (set (xs @ p # ys))"
    "?Q (nodes h') (blocks h') (brk h') (avail h')"
  proof (rule with_lock_dlist [OF d, where f = "\<lambda>h1. list_remove_node h1 l p0 True" and r = 0 and qs = "xs @ ys"
        and P = "set (xs @ p # ys)" and Q = ?Q])
    fix h1 assume d1: "dlist h1 l (xs @ p # ys)" and e: "nodes h1 = nodes h" "blocks h1 = blocks h"
    then have ni: "node_info h1 = node_info h" by (simp add: node_info_def [abs_def])
    obtain h2 where h2: "list_remove_node h1 l p0 True = Some (0, h2)" "dlist h2 l (xs @ ys)"
      "node_info h2 = (node_info h1)(p := None)" "only_list h1 h2 l (set (xs @ p # ys))" "list_hdr h2 l = list_hdr h1 l"
      "list_sem h2 l = list_sem h1 l" "blocks h2 = (if dat = 0 then blocks h1 else (blocks h1)(dat := None))"
      by (rule dlist_remove_freed [OF d1 p0]) (use i b ni e in simp_all)
    have "map_option info \<circ> nodes h2 = node_info h2" by (auto simp: node_info_def)
    then show "\<exists>h2. list_remove_node h1 l p0 True = Some (0, h2) \<and> dlist h2 l (xs @ ys) \<and> list_hdr h2 l = list_hdr h1 l
      \<and> list_sem h2 l = list_sem h1 l \<and> only_list h1 h2 l (set (xs @ p # ys)) \<and> ?Q (nodes h2) (blocks h2) (brk h2) (avail h2)"
      using h2 e ni by (intro exI [of _ h2]) simp
  qed
  have "node_info h' = map_option info \<circ> nodes h'" by (auto simp: node_info_def)
  moreover have "l \<noteq> 0" using d by (simp add: dlist_def)
  ultimately show ?thesis using h' by (intro that [of h']) (simp_all add: listRemoveNode_def)
qed

text \<open>What a locked step does is decided by what it does on the list when locked.\<close>

lemma with_lock_at:
  assumes "l \<noteq> 0" "lists h l = Some x" "f (set_list h l (locked_list x)) = g (set_list h l (locked_list x))"
  shows "with_lock (h :: store) l f = with_lock h l g"
  using assms by (auto simp: with_lock_def listLock_def locked_list_def)

lemma with_lock_stuck:
  assumes "dlist h l ps" "\<And>h1. nodes h1 = nodes h \<Longrightarrow> dlist h1 l ps \<Longrightarrow> f h1 = None"
  shows "with_lock h l f = None"
proof -
  obtain x where x: "l \<noteq> 0" "lists h l = Some x" using assms(1) by (rule dlistE)
  have "f (set_list h l (locked_list x)) = None"
    using assms(2) dlist_locked [OF assms(1) x(2)] by (simp add: set_list_def)
  then show ?thesis using x by (auto simp: with_lock_def listLock_def locked_list_def)
qed

text \<open>The loop starts at the node named, or at the first one.\<close>

lemma listRemoveNodes_start:
  assumes d: "dlist h l (qs @ p # ps)" and s: "start = p \<or> start = FIRST_NODE \<and> qs = []" and n: "1 \<le> limit"
  obtains k where "listRemoveNodes h l start limit fd = with_lock h l (\<lambda>h1. removenodes_loop h1 l p (Suc k) fd 0)"
proof -
  obtain x where x: "l \<noteq> 0" "lists h l = Some x" "0 \<le> ll_locks x" "ll_first x = hd ((qs @ p # ps) @ [0])"
    using d by (auto simp: dlist_def)
  have "p \<noteq> 0" using dlist_node [OF d, of p] by auto
  then have f: "start = FIRST_NODE \<Longrightarrow> ll_first x = p" "start \<noteq> FIRST_NODE \<Longrightarrow> start = p"
    using s x(4) by (auto simp: FIRST_NODE_def)
  obtain k where k: "nat limit = Suc k" using n by (cases "nat limit") auto
  have "with_lock h l (\<lambda>h1. do { x \<leftarrow> lists h1 l;
      removenodes_loop h1 l (if start = FIRST_NODE then ll_first x else start) (nat limit) fd 0 })
    = with_lock h l (\<lambda>h1. removenodes_loop h1 l p (Suc k) fd 0)"
    by (rule with_lock_at [OF x(1,2)]) (use f in \<open>simp add: k set_list_def locked_list_def del: removenodes_loop.simps\<close>)
  then have "listRemoveNodes h l start limit fd = with_lock h l (\<lambda>h1. removenodes_loop h1 l p (Suc k) fd 0)"
    using x(1) by (simp only: listRemoveNodes_def if_False)
  then show thesis by (rule that)
qed

text \<open>
  C37: \<open>listRemoveNodes\<close> never removes several nodes. Let it start at a node that is not locked, and be
  asked for at least one. When the nodes are to be handed out (no freeing of data) and the first one
  has data, it goes on through the node it has just freed. Otherwise, when that node has no data
  or its data is freed with it, the node is removed but taken for a failure: the loop ends there
  and the result is 0, whatever the number asked for and however many nodes there are.
\<close>

theorem listRemoveNodes_dangling:
  assumes d: "dlist h l (qs @ p # ps)" and i: "node_info h p = Some (dat, t, f)" "f AND LINK_LIST_LOCKED = 0"
    and s: "start = p \<or> start = FIRST_NODE \<and> qs = []" and n: "1 \<le> limit"
    and b: "dat = 0 \<or> blocks h dat \<noteq> None"
  shows "if dat \<noteq> 0 \<and> \<not> free_data then listRemoveNodes h l start limit free_data = None
    else \<exists>h'. listRemoveNodes h l start limit free_data = Some (0, h') \<and> dlist h' l (qs @ ps)
      \<and> node_info h' = (node_info h)(p := None)
      \<and> blocks h' = (if dat = 0 then blocks h else (blocks h)(dat := None))"
proof -
  obtain k where k: "listRemoveNodes h l start limit free_data = with_lock h l (\<lambda>h1. removenodes_loop h1 l p (Suc k) free_data 0)"
    by (rule listRemoveNodes_start [OF d s n])
  have p: "p \<noteq> 0" using dlist_node [OF d, of p] by auto
  show ?thesis
  proof (cases "dat \<noteq> 0 \<and> \<not> free_data")
    case True
    have "removenodes_loop h1 l p (Suc k) free_data 0 = None" if "nodes h1 = nodes h" "dlist h1 l (qs @ p # ps)" for h1
    proof -
      note d1 = that(2)
      have "node_info h1 p = Some (dat, t, f)" using i(1) that(1) by (simp add: node_info_def)
      then obtain h2 where r: "listRemoveNode h1 l p False = Some (dat, h2)" "node_info h2 = (node_info h1)(p := None)"
        using listRemoveNode_run [OF d1, of p dat t f] i(2) by blast
      have "nodes h2 p = None" using r(2) by (simp add: node_info_def [abs_def] fun_eq_iff) (metis option.map_disc_iff)
      then show ?thesis using r(1) True p by simp
    qed
    then have "with_lock h l (\<lambda>h1. removenodes_loop h1 l p (Suc k) free_data 0) = None"
      by (rule with_lock_stuck [OF d])
    then show ?thesis using True k by simp
  next
    case False
    let ?B = "if dat = 0 then blocks h else (blocks h)(dat := None)"
    let ?Q = "\<lambda>N B (b :: nat) (a :: nat). map_option info \<circ> N = (node_info h)(p := None) \<and> B = ?B"
    obtain h' where h': "with_lock h l (\<lambda>h1. removenodes_loop h1 l p (Suc k) free_data 0) = Some (0, h')"
      "dlist h' l (qs @ ps)" "?Q (nodes h') (blocks h') (brk h') (avail h')"
    proof (rule with_lock_dlist [OF d, where f = "\<lambda>h1. removenodes_loop h1 l p (Suc k) free_data 0" and r = 0 and qs = "qs @ ps"
          and P = "set (qs @ p # ps)" and Q = ?Q])
      fix h1 assume d1: "dlist h1 l (qs @ p # ps)" and e: "nodes h1 = nodes h" "blocks h1 = blocks h"
      then have ni: "node_info h1 = node_info h" by (simp add: node_info_def [abs_def])
      have i1: "node_info h1 p = Some (dat, t, f)" "dat = 0 \<or> blocks h1 dat \<noteq> None" using i(1) b ni e by simp_all
      obtain h2 where h2: "listRemoveNode h1 l p free_data = Some (0, h2)" "dlist h2 l (qs @ ps)"
        "node_info h2 = (node_info h1)(p := None)" "only_list h1 h2 l (set (qs @ p # ps))" "blocks h2 = ?B"
        "list_hdr h2 l = list_hdr h1 l" "list_sem h2 l = list_sem h1 l"
      proof (cases free_data)
        case True
        from listRemoveNode_freed [OF d1 _ i1(1) i(2) i1(2), of p] show thesis using that True e by metis
      next
        case False
        then have z: "dat = 0" using \<open>\<not> (dat \<noteq> 0 \<and> \<not> free_data)\<close> by simp
        from listRemoveNode_run [OF d1 _ i1(1) i(2), of p] show thesis using that False e z by metis
      qed
      have "map_option info \<circ> nodes h2 = node_info h2" by (auto simp: node_info_def)
      then show "\<exists>h2. removenodes_loop h1 l p (Suc k) free_data 0 = Some (0, h2) \<and> dlist h2 l (qs @ ps) \<and> list_hdr h2 l = list_hdr h1 l
        \<and> list_sem h2 l = list_sem h1 l \<and> only_list h1 h2 l (set (qs @ p # ps)) \<and> ?Q (nodes h2) (blocks h2) (brk h2) (avail h2)"
        using h2 e ni p by (intro exI [of _ h2]) simp
    qed blast
    have "node_info h' = map_option info \<circ> nodes h'" by (auto simp: node_info_def)
    then show ?thesis unfolding if_not_P [OF False] k using h' by auto
  qed
qed

text \<open>A node whose predecessor already names it as its successor is made its own successor.\<close>

lemma link_node_twice:
  assumes "lists h l = Some x" "nodes h after = Some a" "nd_next a = p" "nodes h p = Some n"
    "p \<noteq> 0" "after \<noteq> 0" "after \<noteq> LAST_NODE"
  shows "\<exists>h2 m y. link_node (h :: store) l p after = Some ((), h2) \<and> nodes h2 p = Some m \<and> nd_next m = p
    \<and> lists h2 l = Some y \<and> ll_flags y = ll_flags x \<and> ll_locks y = ll_locks x"
  using assms by (cases "after = p") (auto simp: link_node_def Let_def FIRST_NODE_def set_node_def set_list_def)

lemma list_add_node_twice:
  assumes "l \<noteq> 0" "lists h l = Some x" "0 \<le> ll_locks x" "nodes h after = Some a" "nd_next a = p" "nodes h p = Some n"
    "p \<noteq> 0" "after \<noteq> 0" "after \<noteq> LAST_NODE"
  shows "\<exists>h2 m y. list_add_node (h :: store) l p after = Some (p, h2) \<and> nodes h2 p = Some m \<and> nd_next m = p
    \<and> lists h2 l = Some y \<and> 0 \<le> ll_locks y"
proof -
  let ?h1 = "set_list h l (locked_list x)"
  obtain h2 m y where r: "link_node ?h1 l p after = Some ((), h2)" "nodes h2 p = Some m" "nd_next m = p"
    "lists h2 l = Some y" "ll_flags y = ll_flags (locked_list x)" "ll_locks y = ll_locks (locked_list x)"
    using link_node_twice [of ?h1 l "locked_list x" after a p n] assms by (auto simp: set_list_def)
  have w: "with_lock h l (\<lambda>h1. link_node h1 l p after) = Some ((), set_list h2 l (y\<lparr>ll_locks := ll_locks x\<rparr>))"
    by (rule with_lock_run [where f = "\<lambda>h1. link_node h1 l p after"]) (use assms r in simp_all)
  show ?thesis using assms(1,3) r(2,3) w by (auto simp: list_add_node_def listSemPost_def set_list_def)
qed

text \<open>From such a node the loop of \<open>listMerge\<close> goes on for ever: each round succeeds and comes back to it.\<close>

definition own_successor :: "store \<Rightarrow> nat \<Rightarrow> nat \<Rightarrow> bool" where
  "own_successor h l p \<longleftrightarrow> l \<noteq> 0 \<and> p \<noteq> 0 \<and> p \<noteq> LAST_NODE \<and> (\<exists>x. lists h l = Some x \<and> 0 \<le> ll_locks x)
     \<and> (\<exists>n. nodes h p = Some n \<and> nd_next n = p)"

lemma own_successor_round: "own_successor h l p \<Longrightarrow> \<exists>h2. list_add_node h l p p = Some (p, h2) \<and> own_successor h2 l p"
  using list_add_node_twice [of l h _ p _ p] unfolding own_successor_def by metis

lemma merge_loop_own_successor:
  assumes "own_successor h l p"
  shows "merge_loop h l p p c = None"
proof (rule ccontr)
  assume "merge_loop h l p p c \<noteq> None"
  then obtain y where run: "merge_loop h l p p c = Some y" by blast
  have "\<not> (p = p \<and> own_successor h l p)"
  proof (rule merge_loop.raw_induct [where P = "\<lambda>h l src after c y. \<not> (src = after \<and> own_successor h l src)", OF _ run])
    fix f :: "store \<Rightarrow> nat \<Rightarrow> nat \<Rightarrow> nat \<Rightarrow> int \<Rightarrow> (int \<times> store) option" and h l src after c y
    assume IH: "\<And>h l src after c y. f h l src after c = Some y \<Longrightarrow> \<not> (src = after \<and> own_successor h l src)"
      and body: "(if src = 0 then Some (c, h)
      else case list_add_node h l src after of None \<Rightarrow> None | Some (node, h1) \<Rightarrow>
        if node = 0 then Some (c, h1)
        else case nodes h1 src of None \<Rightarrow> None | Some s \<Rightarrow> f h1 l (nd_next s) node (c + 1)) = Some y"
    show "\<not> (src = after \<and> own_successor h l src)"
    proof
      assume s: "src = after \<and> own_successor h l src"
      then obtain h2 where h2: "list_add_node h l src after = Some (src, h2)" "own_successor h2 l src"
        using own_successor_round [of h l src] by auto
      then have "src \<noteq> 0" "\<exists>n. nodes h2 src = Some n \<and> nd_next n = src" by (simp_all add: own_successor_def)
      then have "f h2 l src src (c + 1) = Some y" using body h2(1) by auto
      then show False using IH h2(2) by blast
    qed
  qed
  then show False using assms by simp
qed

text \<open>
  Merging a list of two or more nodes behind the last node of a nonempty list never ends: adding
  the first node leaves its successor link in place, so that adding the second one makes it its
  own successor.
\<close>

theorem listMerge_hangs:
  assumes d: "dlist h l ps" "ps \<noteq> []" and s: "dlist h k (p # q # rs)" "k \<noteq> l"
  shows "listMerge h l k LAST_NODE = None"
proof -
  obtain x where x: "l \<noteq> 0" "lists h l = Some x" "0 \<le> ll_locks x" "ll_last x = last ps"
    using d by (auto simp: dlist_def)
  define z where "z = last ps"
  have z: "z \<in> set ps" using d(2) by (simp add: z_def)
  then have z0: "z \<noteq> 0" using dlist_node [OF d(1), of z] by blast
  obtain a where a: "nodes h z = Some a" "nd_next a = 0"
    using d by (cases ps rule: rev_exhaust) (auto simp: dlist_def seg_append z_def)
  obtain n m where n: "nodes h p = Some n" "nd_next n = q" and m: "nodes h q = Some m"
    and pq: "p \<noteq> 0" "p \<noteq> LAST_NODE" "q \<noteq> 0" "q \<noteq> LAST_NODE" "p \<noteq> q"
    using s(1) by (auto simp: dlist_def)
  have ne: "z \<noteq> p" "z \<noteq> q" using dlist_disjoint [OF d(1) s] z by auto
  let ?h1 = "set_list h l (locked_list x)"
  let ?N = "(nodes h)(p \<mapsto> n\<lparr>nd_list := l, nd_prev := z\<rparr>, z \<mapsto> a\<lparr>nd_next := p\<rparr>)"
  let ?y = "(locked_list x)\<lparr>ll_last := p, ll_count := ll_count x + 1\<rparr>"
  have "link_node ?h1 l p LAST_NODE = Some ((), set_list (?h1\<lparr>nodes := ?N\<rparr>) l ?y)"
    using x(4) a n ne z0 pq(1) d(2)
    by (simp add: link_node_def Let_def FIRST_NODE_def set_node_def set_list_def z_def [symmetric])
  then have "with_lock h l (\<lambda>h1. link_node h1 l p LAST_NODE)
    = Some ((), set_list (set_list (?h1\<lparr>nodes := ?N\<rparr>) l ?y) l (?y\<lparr>ll_locks := ll_locks x\<rparr>))"
    by (rule with_lock_run [where f = "\<lambda>h1. link_node h1 l p LAST_NODE", OF x(1-3)]) (simp_all add: set_list_def locked_list_def)
  then have "\<exists>h2 w. list_add_node h l p LAST_NODE = Some (p, h2) \<and> nodes h2 = ?N \<and> lists h2 l = Some w \<and> 0 \<le> ll_locks w"
    using x(1,3) by (cases "ll_flags x AND LINK_LIST_SEMAPHORE = 0") (auto simp: list_add_node_def listSemPost_def set_list_def)
  then obtain h2 w where h2: "list_add_node h l p LAST_NODE = Some (p, h2)" "nodes h2 = ?N" "lists h2 l = Some w" "0 \<le> ll_locks w"
    by blast
  have n2: "nodes h2 p = Some (n\<lparr>nd_list := l, nd_prev := z\<rparr>)" "nodes h2 q = Some m"
    using h2(2) ne m pq(5) by auto
  obtain h3 where h3: "list_add_node h2 l q p = Some (q, h3)" "own_successor h3 l q"
    using list_add_node_twice [OF x(1) h2(3,4) n2(1) _ n2(2) pq(3,1,2)] n(2) x(1) pq(3,4)
    by (auto simp: own_successor_def)
  obtain m3 where m3: "nodes h3 q = Some m3" "nd_next m3 = q" using h3(2) by (auto simp: own_successor_def)
  have "merge_loop h l p LAST_NODE 0 = merge_loop h2 l q p 1"
    using h2(1) n2(1) n(2) pq(1) by (subst merge_loop.simps) simp
  also have "\<dots> = merge_loop h3 l q q 2"
    using h3(1) m3 pq(3) by (subst merge_loop.simps) simp
  also have "\<dots> = None" by (rule merge_loop_own_successor [OF h3(2)])
  finally show ?thesis using s(1) by (auto simp: listMerge_def dlist_def)
qed

text \<open>Destroying a mutex that is held is tried for ever.\<close>

lemma mutex_destroy_held: "0 < ll_locks x \<Longrightarrow> mutex_destroy_loop x = None"
proof (rule ccontr)
  assume held: "0 < ll_locks x" and "mutex_destroy_loop x \<noteq> None"
  then obtain y where run: "mutex_destroy_loop x = Some y" by blast
  have "\<not> 0 < ll_locks x"
    by (rule mutex_destroy_loop.raw_induct [where P = "\<lambda>x y. \<not> 0 < ll_locks x", OF _ run]) (auto split: if_splits)
  then show False using held by simp
qed

text \<open>
  The last client that detaches from an empty list with a mutex never gets out of
  \<open>listDettach\<close>: it holds the lock that \<open>listFree\<close> waits to destroy.
\<close>

theorem listDettach_hangs:
  assumes d: "dlist h l []" and x: "lists h l = Some x" "ll_flags x AND LINK_LIST_MUTEX \<noteq> 0" "ll_refs x = 1"
  shows "listDettach h l = None"
proof -
  have l: "l \<noteq> 0" "0 \<le> ll_locks x" "ll_first x = 0" "ll_count x = 0" using d x(1) by (auto simp: dlist_def)
  let ?y = "x\<lparr>ll_locks := ll_locks x + 1, ll_refs := 0\<rparr>"
  let ?h2 = "set_list (set_list h l (x\<lparr>ll_locks := ll_locks x + 1\<rparr>)) l ?y"
  have y: "lists ?h2 l = Some ?y" "0 \<le> ll_locks ?y" using l by (simp_all add: set_list_def)
  let ?f = "\<lambda>h0 :: store. do {
       x \<leftarrow> lists h0 l;
       (p, h1) \<leftarrow> freenodes_loop h0 l (ll_first x);
       y \<leftarrow> lists h1 l;
       Some ((), set_list h1 l (y\<lparr>ll_first := p, ll_last := (if ll_count y = 0 then 0 else ll_last y)\<rparr>)) }"
  let ?z = "(locked_list ?y)\<lparr>ll_first := 0, ll_last := 0\<rparr>"
  have "?f (set_list ?h2 l (locked_list ?y)) = Some ((), set_list (set_list ?h2 l (locked_list ?y)) l ?z)"
    using l by (simp add: set_list_def freenodes_loop.simps)
  then have w: "with_lock ?h2 l ?f = Some ((), set_list (set_list (set_list ?h2 l (locked_list ?y)) l ?z) l (?z\<lparr>ll_locks := ll_locks ?y\<rparr>))"
    by (rule with_lock_run [where f = ?f, OF l(1) y]) (simp_all add: set_list_def)
  have "listFree ?h2 l = None"
    using l x(2) w mutex_destroy_held by (simp add: listFree_def listFreeNodes_def set_list_def)
  then show ?thesis using l x by (simp add: listDettach_def listLock_def set_list_def)
qed

text \<open>Unlocking a list without a mutex always gives 1, so that forcing it to be unlocked never ends.\<close>

lemma listForceUnlock_hangs:
  assumes "l \<noteq> 0" "lists h l = Some x" "ll_flags x AND LINK_LIST_MUTEX = 0"
  shows "listForceUnlock (h :: store) l = None"
proof (rule ccontr)
  assume "listForceUnlock h l \<noteq> None"
  then obtain y where run: "listForceUnlock h l = Some y" by blast
  have "\<not> (l \<noteq> 0 \<and> (\<exists>x. lists h l = Some x \<and> ll_flags x AND LINK_LIST_MUTEX = 0))"
  proof (rule listForceUnlock.raw_induct [where P = "\<lambda>h l y. \<not> (l \<noteq> 0 \<and> (\<exists>x. lists h l = Some x
        \<and> ll_flags x AND LINK_LIST_MUTEX = 0))", OF _ run])
    fix f :: "store \<Rightarrow> nat \<Rightarrow> store option" and h l y
    assume IH: "\<And>h l y. f h l = Some y \<Longrightarrow> \<not> (l \<noteq> 0 \<and> (\<exists>x. lists h l = Some x \<and> ll_flags x AND LINK_LIST_MUTEX = 0))"
      and body: "(case listUnlock h l of None \<Rightarrow> None | Some (r, h1) \<Rightarrow> if r = 1 then f h1 l else Some h1) = Some y"
    show "\<not> (l \<noteq> 0 \<and> (\<exists>x. lists h l = Some x \<and> ll_flags x AND LINK_LIST_MUTEX = 0))"
    proof
      assume a: "l \<noteq> 0 \<and> (\<exists>x. lists h l = Some x \<and> ll_flags x AND LINK_LIST_MUTEX = 0)"
      then have "listUnlock h l = Some (1, h)" by (auto simp: listUnlock_def)
      then have "f h l = Some y" using body by simp
      then show False using IH a by blast
    qed
  qed
  then show False using assms by blast
qed

section \<open>Samples\<close>

definition sample_node :: "nat \<Rightarrow> nat \<Rightarrow> nat \<Rightarrow> nat \<Rightarrow> list_node" where
  "sample_node l pr nx d = zero_node\<lparr>nd_list := l, nd_prev := pr, nd_next := nx, nd_data := d\<rparr>"

text \<open>Two lists, at 16 and at 64, with two nodes each, and an empty one with a mutex at 112.\<close>

definition sample_store :: store where
  "sample_store = \<lparr>nodes = [32 \<mapsto> sample_node 16 0 48 7, 48 \<mapsto> sample_node 16 32 0 8,
       80 \<mapsto> sample_node 64 0 96 9, 96 \<mapsto> sample_node 64 80 0 10],
     lists = [16 \<mapsto> zero_list\<lparr>ll_first := 32, ll_last := 48, ll_count := 2\<rparr>,
       64 \<mapsto> zero_list\<lparr>ll_first := 80, ll_last := 96, ll_count := 2\<rparr>,
       112 \<mapsto> zero_list\<lparr>ll_flags := LINK_LIST_MUTEX, ll_refs := 1\<rparr>],
     blocks = Map.empty, brk = 8, avail = 1\<rparr>"

lemma and_zero_left: "(0 :: ulong) AND w = 0"
  by simp

lemma sample_store_facts:
  "dlist sample_store 16 [32, 48]" "dlist sample_store 64 [80, 96]" "dlist sample_store 112 []"
  "store_ok sample_store" "avail sample_store = 1"
  "node_info sample_store 32 = Some (7, 0, 0)" "node_info sample_store 48 = Some (8, 0, 0)"
  by (simp_all add: sample_store_def dlist_def store_ok_def node_info_def info_def sample_node_def zero_node_def
      zero_list_def LAST_NODE_def)

theorem listAddNode_inserts_witness:
  "\<exists>p h'. listAddNode sample_store 16 5 0 32 = Some (p, h') \<and> dlist h' 16 [32, p, 48] \<and> dlist h' 64 [80, 96]"
proof -
  have "\<exists>p h'. listAddNode sample_store 16 5 0 32 = Some (p, h') \<and> dlist h' 16 ([32] @ p # [48])
    \<and> node_info h' = (node_info sample_store)(p \<mapsto> (5, 0, 0)) \<and> p \<notin> set ([32] @ [48])
    \<and> (\<forall>k qs. k \<noteq> 16 \<longrightarrow> dlist sample_store k qs \<longrightarrow> dlist h' k qs)"
    by (rule listAddNode_inserts) (simp_all add: sample_store_facts)
  then show ?thesis using sample_store_facts(2) by force
qed

theorem listRemoveNode_removes_witness:
  "\<exists>h'. listRemoveNode sample_store 16 LAST_NODE False = Some (8, h') \<and> dlist h' 16 [32] \<and> dlist h' 64 [80, 96]"
proof -
  have "\<exists>h'. listRemoveNode sample_store 16 LAST_NODE False = Some (8, h') \<and> dlist h' 16 ([32] @ [])
    \<and> node_info h' = (node_info sample_store)(48 := None) \<and> (\<forall>k qs. k \<noteq> 16 \<longrightarrow> dlist sample_store k qs \<longrightarrow> dlist h' k qs)"
    by (rule listRemoveNode_removes [where t = 0 and f = 0]) (simp_all add: sample_store_facts)
  then show ?thesis using sample_store_facts(2) by force
qed

text \<open>Three nodes with blocks of their own; the second is asked for.\<close>

definition three_nodes :: store where
  "three_nodes = \<lparr>nodes = [32 \<mapsto> sample_node 16 0 48 128, 48 \<mapsto> sample_node 16 32 80 144, 80 \<mapsto> sample_node 16 48 0 160],
     lists = [16 \<mapsto> zero_list\<lparr>ll_first := 32, ll_last := 80, ll_count := 3\<rparr>],
     blocks = [128 \<mapsto> [1], 144 \<mapsto> [2], 160 \<mapsto> [3]], brk = 11, avail = 0\<rparr>"

theorem listRemoveNodes_dangling_witness:
  "listRemoveNodes three_nodes 16 48 2 False = None
   \<and> (\<exists>h'. listRemoveNodes three_nodes 16 48 2 True = Some (0, h') \<and> dlist h' 16 [32, 80])"
proof -
  have d: "dlist three_nodes 16 ([32] @ 48 # [80])"
    by (simp add: three_nodes_def dlist_def sample_node_def zero_node_def zero_list_def LAST_NODE_def)
  have i: "node_info three_nodes 48 = Some (144, 0, 0)" "144 = 0 \<or> blocks three_nodes 144 \<noteq> None"
    by (simp_all add: three_nodes_def node_info_def info_def sample_node_def zero_node_def)
  note r = listRemoveNodes_dangling [OF d i(1) and_zero_left _ _ i(2), of 48 2]
  show ?thesis using r [of False] r [of True] by auto
qed

theorem listMerge_hangs_witness: "listMerge sample_store 16 64 LAST_NODE = None"
  by (rule listMerge_hangs [OF sample_store_facts(1) _ sample_store_facts(2)]) simp_all

theorem listDettach_hangs_witness: "listDettach sample_store 112 = None"
  by (rule listDettach_hangs [where x = "zero_list\<lparr>ll_flags := LINK_LIST_MUTEX, ll_refs := 1\<rparr>"])
    (rule sample_store_facts(3), simp_all add: sample_store_def zero_list_def)

end
