(* ===== verification/MsgQueue.thy ===== *)
theory MsgQueue
  imports LinkProps
begin

text \<open>
  The message queues of xpdev/msg_queue.c, with which the threads of a server talk to each other.
  A definition is one call from its beginning to its end with no other call on the queue in
  between, which the callers have to see to: \<open>msgQueueInit\<close> sets up the lists of a queue with
  LINK_LIST_SEMAPHORE only, so that \<open>listLock\<close> takes no mutex and calls of two threads can
  overlap. What two overlapping writes can do is shown at the end (\<open>overlapping_writes\<close>).
  A queue is a record of its own; the two lists inside it live in the store, at the addresses
  that follow the queue's. None for a queue stands for a NULL pointer or a queue that is freed.
  The calling thread is the parameter \<open>self\<close>, the value of \<open>pthread_self()\<close>.
\<close>

section \<open>Queues\<close>

abbreviation (input) "MSG_QUEUE_MALLOC \<equiv> 1 :: ulong"
abbreviation (input) "MSG_QUEUE_BIDIR \<equiv> 2 :: ulong"

record msg_queue =
  q_at :: nat
  q_name :: "byte list"
  q_owner :: nat
  q_refs :: int
  q_flags :: ulong
  q_private :: nat

definition q_in :: "msg_queue \<Rightarrow> nat" where "q_in q = q_at q + 1"
definition q_out :: "msg_queue \<Rightarrow> nat" where "q_out q = q_at q + 2"

definition msgQueueInit :: "nat \<Rightarrow> store \<Rightarrow> nat \<Rightarrow> ulong \<Rightarrow> (msg_queue option \<times> store) option" where
  "msgQueueInit self h a flags0 =
     (let (a1, h1) = (if a = 0 then malloc h else (a, h));
          flags = (if a = 0 then flags0 OR MSG_QUEUE_MALLOC else flags0)
      in if a1 = 0 then Some (None, h1)
         else do {
           let q = \<lparr>q_at = a1, q_name = replicate 128 0, q_owner = self, q_refs = 1, q_flags = flags, q_private = 0\<rparr>;
           let h2 = set_list (set_list h1 (q_in q) zero_list) (q_out q) zero_list;
           (_, h3) \<leftarrow> (if flags AND MSG_QUEUE_BIDIR \<noteq> 0 then listInit h2 (q_in q) LINK_LIST_SEMAPHORE else Some (0, h2));
           (_, h4) \<leftarrow> listInit h3 (q_out q) LINK_LIST_SEMAPHORE;
           Some (Some q, h4) })"

text \<open>\<open>free\<close> of the block of a queue takes the two lists in it with it.\<close>

definition msgQueueFree :: "store \<Rightarrow> msg_queue option \<Rightarrow> (bool \<times> msg_queue option \<times> store) option" where
  "msgQueueFree h qo = (case qo of None \<Rightarrow> Some (False, None, h) | Some q \<Rightarrow> do {
     (_, h1) \<leftarrow> listFree h (q_in q);
     (_, h2) \<leftarrow> listFree h1 (q_out q);
     Some (if q_flags q AND MSG_QUEUE_MALLOC \<noteq> 0
       then (True, None, h2\<lparr>lists := (lists h2)(q_in q := None, q_out q := None), avail := avail h2 + 1\<rparr>)
       else (True, Some q, h2)) })"

definition msgQueueAttach :: "msg_queue option \<Rightarrow> int \<times> msg_queue option" where
  "msgQueueAttach qo = (case qo of None \<Rightarrow> (-1, None)
     | Some q \<Rightarrow> (q_refs q + 1, Some (q\<lparr>q_refs := q_refs q + 1\<rparr>)))"

definition msgQueueDetach :: "store \<Rightarrow> msg_queue option \<Rightarrow> (int \<times> msg_queue option \<times> store) option" where
  "msgQueueDetach h qo = (case qo of None \<Rightarrow> Some (-1, None, h) | Some q \<Rightarrow>
     if q_refs q < 1 then Some (-1, Some q, h)
     else do {
       let refs = q_refs q - 1;
       let q1 = q\<lparr>q_refs := refs\<rparr>;
       (if refs = 0 then do { (_, q2, h1) \<leftarrow> msgQueueFree h (Some q1); Some (refs, q2, h1) }
        else Some (refs, Some q1, h)) })"

definition msgQueueSetPrivateData :: "msg_queue option \<Rightarrow> nat \<Rightarrow> nat \<times> msg_queue option" where
  "msgQueueSetPrivateData qo p = (case qo of None \<Rightarrow> (0, None) | Some q \<Rightarrow> (q_private q, Some (q\<lparr>q_private := p\<rparr>)))"

definition msgQueueGetPrivateData :: "msg_queue option \<Rightarrow> nat" where
  "msgQueueGetPrivateData qo = (case qo of None \<Rightarrow> 0 | Some q \<Rightarrow> q_private q)"

text \<open>The owner of a two-way queue reads what the others write, and the others what it writes.\<close>

definition msgQueueReadList :: "nat \<Rightarrow> msg_queue option \<Rightarrow> nat" where
  "msgQueueReadList self qo = (case qo of None \<Rightarrow> 0
     | Some q \<Rightarrow> if q_flags q AND MSG_QUEUE_BIDIR \<noteq> 0 \<and> q_owner q = self then q_in q else q_out q)"

definition msgQueueWriteList :: "nat \<Rightarrow> msg_queue option \<Rightarrow> nat" where
  "msgQueueWriteList self qo = (case qo of None \<Rightarrow> 0
     | Some q \<Rightarrow> if q_flags q AND MSG_QUEUE_BIDIR = 0 \<or> q_owner q = self then q_out q else q_in q)"

section \<open>Waiting, reading and writing\<close>

definition msgQueueReadLevel :: "nat \<Rightarrow> store \<Rightarrow> msg_queue option \<Rightarrow> (int \<times> store) option" where
  "msgQueueReadLevel self h qo = listCountNodes h (msgQueueReadList self qo)"

definition list_wait :: "store \<Rightarrow> nat \<Rightarrow> int \<Rightarrow> (bool \<times> store) option" where
  "list_wait h l timeout =
     (if timeout < 0 then listSemWait h l
      else if timeout = 0 then listSemTryWait h l
      else listSemTryWaitBlock h l (word_of_int timeout))"

text \<open>A wait that succeeds puts back what it took from the semaphore.\<close>

definition wait_post :: "store \<Rightarrow> nat \<Rightarrow> int \<Rightarrow> (bool \<times> store) option" where
  "wait_post h l timeout = do {
     (r, h1) \<leftarrow> list_wait h l timeout;
     if r then do { (_, h2) \<leftarrow> listSemPost h1 l; Some (r, h2) } else Some (r, h1) }"

definition msgQueueWait :: "nat \<Rightarrow> store \<Rightarrow> msg_queue option \<Rightarrow> int \<Rightarrow> (bool \<times> store) option" where
  "msgQueueWait self h qo timeout = wait_post h (msgQueueReadList self qo) timeout"

definition msgQueueRead :: "nat \<Rightarrow> store \<Rightarrow> msg_queue option \<Rightarrow> int \<Rightarrow> (nat \<times> store) option" where
  "msgQueueRead self h qo timeout = do {
     let l = msgQueueReadList self qo;
     (_, h1) \<leftarrow> list_wait h l timeout;
     listRemoveNode h1 l FIRST_NODE False }"

definition msgQueuePeek :: "nat \<Rightarrow> store \<Rightarrow> msg_queue option \<Rightarrow> int \<Rightarrow> (nat \<times> store) option" where
  "msgQueuePeek self h qo timeout = do {
     let l = msgQueueReadList self qo;
     (_, h1) \<leftarrow> wait_post h l timeout;
     (p, h2) \<leftarrow> listFirstNode h1 l;
     listNodeData h2 p }"

definition msgQueueFind :: "nat \<Rightarrow> store \<Rightarrow> msg_queue option \<Rightarrow> wanted_node \<Rightarrow> (nat \<times> store) option" where
  "msgQueueFind self h qo want = do {
     let l = msgQueueReadList self qo;
     (p, h1) \<leftarrow> listFindNode h l want;
     if p = 0 then Some (0, h1) else listRemoveNode h1 l p False }"

definition msgQueueFirstNode :: "nat \<Rightarrow> store \<Rightarrow> msg_queue option \<Rightarrow> (nat \<times> store) option" where
  "msgQueueFirstNode self h qo = listFirstNode h (msgQueueReadList self qo)"

definition msgQueueLastNode :: "nat \<Rightarrow> store \<Rightarrow> msg_queue option \<Rightarrow> (nat \<times> store) option" where
  "msgQueueLastNode self h qo = listLastNode h (msgQueueReadList self qo)"

definition msgQueueWriteLevel :: "nat \<Rightarrow> store \<Rightarrow> msg_queue option \<Rightarrow> (int \<times> store) option" where
  "msgQueueWriteLevel self h qo = listCountNodes h (msgQueueWriteList self qo)"

definition msgQueueWrite :: "nat \<Rightarrow> store \<Rightarrow> msg_queue option \<Rightarrow> byte list \<Rightarrow> nat \<Rightarrow> (bool \<times> store) option" where
  "msgQueueWrite self h qo data len = do {
     (p, h1) \<leftarrow> listAddNodeData h (msgQueueWriteList self qo) data len LIST_NODE_TAG_DEFAULT LAST_NODE;
     Some (p \<noteq> 0, h1) }"

section \<open>The messages in a queue\<close>

text \<open>The addresses of the nodes of a list, from p on and at most k of them.\<close>

fun list_walk :: "store \<Rightarrow> nat \<Rightarrow> nat \<Rightarrow> nat list" where
  "list_walk h p 0 = []"
| "list_walk h p (Suc k) = (case nodes h p of None \<Rightarrow> [] | Some n \<Rightarrow> p # list_walk h (nd_next n) k)"

definition list_path :: "store \<Rightarrow> nat \<Rightarrow> nat list" where
  "list_path h l = (case lists h l of None \<Rightarrow> [] | Some x \<Rightarrow> list_walk h (ll_first x) (nat (ll_count x)))"

definition node_block :: "store \<Rightarrow> nat \<Rightarrow> byte list" where
  "node_block h p = the (blocks h (nd_data (the (nodes h p))))"

definition list_blocks :: "store \<Rightarrow> nat \<Rightarrow> byte list list" where
  "list_blocks h l = map (node_block h) (list_path h l)"

lemma list_walk_seg: "seg (nodes h) l pr ps nx \<Longrightarrow> list_walk h (hd (ps @ [nx])) (length ps) = ps"
proof (induction ps arbitrary: pr)
  case (Cons p ps)
  then show ?case by (auto split: option.splits)
qed simp

lemma list_path_dlist: "dlist h l ps \<Longrightarrow> list_path h l = ps"
  using list_walk_seg [of h l 0 ps 0] by (auto simp: dlist_def list_path_def)

text \<open>
  The list of a queue is in order when every node owns a block of its own and the semaphore
  counts the nodes.
\<close>

definition owned :: "store \<Rightarrow> nat \<Rightarrow> bool" where
  "owned h p \<longleftrightarrow> (case node_info h p of None \<Rightarrow> False
     | Some (d, t, f) \<Rightarrow> f AND LINK_LIST_LOCKED = 0 \<and> d \<noteq> 0 \<and> blocks h d \<noteq> None)"

definition data_of :: "store \<Rightarrow> nat \<Rightarrow> nat" where
  "data_of h p = nd_data (the (nodes h p))"

definition mq_list_ok :: "store \<Rightarrow> nat \<Rightarrow> bool" where
  "mq_list_ok h l \<longleftrightarrow> store_ok h \<and> dlist h l (list_path h l) \<and> (\<forall>p \<in> set (list_path h l). owned h p)
     \<and> distinct (map (data_of h) (list_path h l)) \<and> sem_flag h l \<and> list_sem h l = length (list_path h l)"

text \<open>What the messages of a list depend on.\<close>

lemma node_block_cong:
  assumes "node_info h' p = node_info h p" "owned h p" "blocks h' (data_of h p) = blocks h (data_of h p)"
  shows "owned h' p" "data_of h' p = data_of h p" "node_block h' p = node_block h p"
proof -
  obtain n n' where n: "nodes h p = Some n" "nodes h' p = Some n'" "nd_data n' = nd_data n" "nd_flags n' = nd_flags n"
    using assms(1,2) by (auto simp: owned_def node_info_def info_def split: option.splits)
  then show "data_of h' p = data_of h p" "node_block h' p = node_block h p"
    using assms(3) by (simp_all add: data_of_def node_block_def)
  show "owned h' p" using assms n by (simp add: owned_def data_of_def node_info_def info_def)
qed

lemma mq_list_okI:
  assumes "store_ok h" "dlist h l ps" "\<And>p. p \<in> set ps \<Longrightarrow> owned h p" "distinct (map (data_of h) ps)"
    "sem_flag h l" "list_sem h l = length ps"
  shows "mq_list_ok h l" "list_path h l = ps"
  using assms by (simp_all add: mq_list_ok_def list_path_dlist)

lemma mq_list_okD:
  assumes "mq_list_ok h l"
  shows "store_ok h" "dlist h l (list_path h l)" "\<And>p. p \<in> set (list_path h l) \<Longrightarrow> owned h p"
    "distinct (map (data_of h) (list_path h l))" "sem_flag h l" "list_sem h l = length (list_path h l)" "l \<noteq> 0"
  using assms by (auto simp: mq_list_ok_def dlist_def)

lemma data_of_info: "node_info h p = Some (d, t, f) \<Longrightarrow> data_of h p = d"
  by (auto simp: node_info_def data_of_def info_def)

lemma owned_data: "owned h p \<Longrightarrow> \<exists>b. blocks h (data_of h p) = Some b \<and> node_block h p = b \<and> data_of h p \<noteq> 0"
  by (auto simp: owned_def node_block_def data_of_def node_info_def info_def split: option.splits)

lemma seg_info:
  assumes "nodes h p = Some n" "nd_next n' = nd_next n" "nd_prev n' = nd_prev n" "nd_list n' = nd_list n"
  shows "seg ((nodes h)(p \<mapsto> n')) l pr ps nx = seg (nodes h) l pr ps nx"
  using assms by (induction ps arbitrary: pr) auto

lemma dlist_set_info:
  assumes "dlist h l ps" "nodes h p = Some n" "nd_next n' = nd_next n" "nd_prev n' = nd_prev n" "nd_list n' = nd_list n"
  shows "dlist (set_node h p n') l ps"
  using assms(1) seg_info [OF assms(2-5)] by (simp add: dlist_def set_node_def)

text \<open>A list whose nodes keep what they own stays in order.\<close>

lemma mq_list_keep:
  assumes "mq_list_ok h k" "store_ok h'" "dlist h' k (list_path h k)" "lists h' k = lists h k"
    and keep: "\<And>q. q \<in> set (list_path h k) \<Longrightarrow> owned h' q \<and> data_of h' q = data_of h q \<and> node_block h' q = node_block h q"
  shows "mq_list_ok h' k \<and> list_blocks h' k = list_blocks h k"
proof -
  note e = mq_list_okD [OF assms(1)]
  have s: "sem_flag h' k" "list_sem h' k = length (list_path h k)" using e(5,6) assms(4) by (simp_all add: sem_flag_def list_sem_def)
  have m: "map (data_of h') (list_path h k) = map (data_of h) (list_path h k)" using keep by simp
  have "distinct (map (data_of h') (list_path h k))" using e(4) by (simp only: m)
  from mq_list_okI [OF assms(2,3) _ this s] keep show ?thesis by (simp add: list_blocks_def)
qed

section \<open>Writing appends, reading takes the first\<close>

text \<open>A new message needs a block for its data and a node.\<close>

lemma add_copy_run:
  assumes ok: "mq_list_ok h l" and av: "2 \<le> avail h"
  obtains p h' where "add_copy h l data t LAST_NODE = Some (p, h')" "p \<noteq> 0" "mq_list_ok h' l"
    "list_path h' l = list_path h l @ [p]" "list_blocks h' l = list_blocks h l @ [data]" "avail h' = avail h - 2"
    "\<And>k. k \<noteq> l \<Longrightarrow> mq_list_ok h k \<Longrightarrow> mq_list_ok h' k \<and> list_blocks h' k = list_blocks h k"
proof -
  let ?ps = "list_path h l"
  note d = mq_list_okD [OF ok]
  obtain b where b: "malloc h = (b, h\<lparr>brk := brk h + 1, avail := avail h - 1\<rparr>)" "b = 16 * brk h" "b \<noteq> 0"
    "nodes h b = None" "lists h b = None" "blocks h b = None"
    using malloc_run [OF d(1)] av by auto
  let ?h2 = "h\<lparr>brk := brk h + 1, avail := avail h - 1, blocks := (blocks h)(b \<mapsto> data)\<rparr>"
  have ok2: "store_ok ?h2" by (rule store_ok_more [OF d(1)]) (use b(2) in \<open>auto split: if_splits\<close>)
  have d2: "dlist ?h2 l (?ps @ [])" using dlist_cong [OF d(2), of ?h2] by simp
  obtain p h3 where h3: "listAddNode ?h2 l b t LAST_NODE = Some (p, h3)" "p \<noteq> 0" "nodes ?h2 p = None"
    "dlist h3 l (?ps @ [p])" "node_info h3 = (node_info ?h2)(p \<mapsto> (b, t, 0))"
    "only_list ?h2 h3 l (insert p (set (?ps @ [])))" "list_sem h3 l = (if sem_flag ?h2 l then list_sem ?h2 l + 1 else list_sem ?h2 l)"
    "blocks h3 = blocks ?h2" "avail h3 = avail ?h2 - 1" "store_ok h3" "list_hdr h3 l = list_hdr ?h2 l"
    by (rule listAddNode_run [OF ok2 d2, of LAST_NODE b t]) (use av in auto)
  obtain n where n: "nodes h3 p = Some n" "nd_data n = b" "nd_flags n = 0"
    using h3(5) by (auto simp: node_info_def info_def fun_eq_iff split: if_splits dest!: spec [of _ p])
  define h' where "h' = set_node h3 p (n\<lparr>nd_flags := LINK_LIST_MALLOC\<rparr>)"
  have run: "add_copy h l data t LAST_NODE = Some (p, h')"
    using b(1,3) h3(1,2) n by (simp add: add_copy_def h'_def)
  have pnew: "p \<noteq> q" if "node_info h q \<noteq> None" for q using that h3(3) by (auto simp: node_info_def)
  have i': "node_info h' q = (if q = p then Some (b, nd_tag n, 1) else node_info h q)" for q
    using h3(5) n by (auto simp: h'_def set_node_def node_info_def info_def fun_eq_iff)
  have bl: "blocks h' c = (if c = b then Some data else blocks h c)" for c by (simp add: h'_def set_node_def h3(8))
  have keep: "owned h' q \<and> data_of h' q = data_of h q \<and> node_block h' q = node_block h q" if q: "owned h q" for q
  proof -
    have "q \<noteq> p" using pnew [of q] q by (cases "node_info h q") (auto simp: owned_def)
    moreover have "data_of h q \<noteq> b" using owned_data [OF q] b(6) by auto
    ultimately show ?thesis using node_block_cong [of h' q h] q i' bl by simp
  qed
  have own: "owned h' p" "data_of h' p = b" "node_block h' p = data"
    using i' [of p] bl [of b] b(3) by (auto simp: owned_def node_block_def data_of_def node_info_def info_def)
  have db: "dlist h' l (?ps @ [p])" unfolding h'_def by (rule dlist_set_info [OF h3(4) n(1)]) simp_all
  have so: "store_ok h'" using h3(10) n(1) by (auto simp: store_ok_def h'_def set_node_def)
  have sem: "sem_flag h' l" "list_sem h' l = length (?ps @ [p])"
    using h3(7,11) d(5,6) by (auto simp: h'_def set_node_def sem_flag_def list_sem_def list_hdr_def split: option.splits)
  have dist: "distinct (map (data_of h') (?ps @ [p]))"
  proof -
    have "map (data_of h') (?ps @ [p]) = map (data_of h) ?ps @ [b]" using keep d(3) own(2) by simp
    moreover have "b \<notin> set (map (data_of h) ?ps)" using owned_data d(3) b(6) by fastforce
    ultimately show ?thesis using d(4) by (simp only: distinct_append) simp
  qed
  have fin: "mq_list_ok h' l" "list_path h' l = ?ps @ [p]"
    using mq_list_okI [OF so db _ dist sem] keep d(3) own(1) by auto
  have blk: "list_blocks h' l = list_blocks h l @ [data]"
    using keep d(3) by (simp add: list_blocks_def fin(2) own(3))
  have oth: "mq_list_ok h' k \<and> list_blocks h' k = list_blocks h k" if k: "k \<noteq> l" "mq_list_ok h k" for k
  proof -
    note e = mq_list_okD [OF k(2)]
    let ?qs = "list_path h k"
    have pq: "p \<notin> set ?qs" using e(2) h3(3) dlist_node [OF e(2), of p] by auto
    have "dlist ?h2 k ?qs" using dlist_cong [OF e(2), of ?h2] by simp
    then have dk: "dlist h3 k ?qs"
      by (rule only_list_dlist [OF h3(6) _ k(1)]) (use dlist_disjoint [OF d(2) e(2) k(1)] pq in auto)
    have dk': "dlist h' k ?qs" unfolding h'_def by (rule dlist_set_info [OF dk n(1)]) simp_all
    have "lists h' k = lists h k" using h3(6) k(1) by (simp add: h'_def set_node_def only_list_def)
    then show ?thesis using mq_list_keep [OF k(2) so dk'] keep e(3) by simp
  qed
  show ?thesis using h3(9) by (intro that [OF run h3(2) fin blk _ oth]) (simp_all add: h'_def set_node_def)
qed

text \<open>The semaphore of a list that counts nodes lets a reader pass; otherwise the wait is for ever.\<close>

lemma list_wait_pass:
  assumes "l \<noteq> 0" "sem_flag h l" "lists h l = Some x" "0 < ll_sem x"
  shows "list_wait h l timeout = Some (True, set_list h l (x\<lparr>ll_sem := ll_sem x - 1\<rparr>))"
  using assms
  by (auto simp: list_wait_def listSemWait_def listSemTryWait_def listSemTryWaitBlock_def sem_flag_def)

lemma list_wait_stay:
  assumes "l \<noteq> 0" "sem_flag h l" "list_sem h l = 0"
  shows "list_wait h l timeout = (if timeout < 0 then None else Some (False, h))"
  using assms
  by (auto simp: list_wait_def listSemWait_def listSemTryWait_def listSemTryWaitBlock_def sem_flag_def list_sem_def
      split: option.splits)

lemma dlist_set_sem: "dlist h l ps \<Longrightarrow> lists h l = Some x \<Longrightarrow> dlist (set_list h l (x\<lparr>ll_sem := s\<rparr>)) l ps"
  by (auto simp: dlist_def set_list_def)

lemma shift_run:
  assumes ok: "mq_list_ok h l" and path: "list_path h l = p # ps"
  obtains h1 h' where "list_wait h l timeout = Some (True, h1)" "listRemoveNode h1 l FIRST_NODE False = Some (data_of h p, h')"
    "mq_list_ok h' l" "list_path h' l = ps" "list_blocks h l = node_block h p # list_blocks h' l"
    "blocks h' = blocks h" "avail h' = avail h + 1" "data_of h p \<notin> set (map (data_of h') ps)"
    "\<And>k. k \<noteq> l \<Longrightarrow> mq_list_ok h k \<Longrightarrow> mq_list_ok h' k \<and> list_blocks h' k = list_blocks h k"
proof -
  note d = mq_list_okD [OF ok, unfolded path]
  obtain x where x: "lists h l = Some x" using d(2) by (auto simp: dlist_def)
  have sx: "ll_sem x = Suc (length ps)" using d(6) x by (simp add: list_sem_def)
  define h1 where "h1 = set_list h l (x\<lparr>ll_sem := length ps\<rparr>)"
  have e1: "nodes h1 = nodes h" "blocks h1 = blocks h" "avail h1 = avail h" "brk h1 = brk h" "node_info h1 = node_info h"
    by (simp_all add: h1_def set_list_def node_info_def [abs_def])
  have w: "list_wait h l timeout = Some (True, h1)"
    using list_wait_pass [OF d(7,5) x, of timeout] sx by (simp add: h1_def)
  have d1: "dlist h1 l ([] @ p # ps)" unfolding h1_def using dlist_set_sem [OF d(2) x] by simp
  obtain b t f where i0: "node_info h p = Some (b, t, f)" "f AND LINK_LIST_LOCKED = 0"
    using d(3) [of p] by (cases "node_info h p") (auto simp: owned_def)
  then have i: "node_info h1 p = Some (b, t, f)" "f AND LINK_LIST_LOCKED = 0" "b = data_of h p"
    using data_of_info [OF i0(1)] e1(5) by simp_all
  obtain h' where h': "listRemoveNode h1 l FIRST_NODE False = Some (b, h')" "dlist h' l ([] @ ps)"
    "node_info h' = (node_info h1)(p := None)" "only_list h1 h' l (set ([] @ p # ps))" "list_hdr h' l = list_hdr h1 l"
    "list_sem h' l = list_sem h1 l" "blocks h' = blocks h1" "brk h' = brk h1" "avail h' = avail h1 + 1"
    by (rule listRemoveNode_run [OF d1 _ i(1,2), of FIRST_NODE]) auto
  have keep: "owned h' q \<and> data_of h' q = data_of h q \<and> node_block h' q = node_block h q" if q: "owned h q" "q \<noteq> p" for q
    using node_block_cong [of h' q h] q h'(3,7) e1 by simp
  have pnin: "p \<notin> set ps" using d(2) by (auto simp: dlist_def)
  have k: "owned h' q \<and> data_of h' q = data_of h q \<and> node_block h' q = node_block h q" if "q \<in> set ps" for q
    using keep [of q] d(3) [of q] that pnin by auto
  have ok1: "store_ok h1" using d(1) x by (auto simp: store_ok_def h1_def set_list_def)
  have so: "store_ok h'" by (rule store_ok_less [OF ok1 h'(8,3,4) d1 h'(7)])
  have sem: "sem_flag h' l" "list_sem h' l = length ps"
    using h'(5,6) d(5) x by (auto simp: h1_def set_list_def sem_flag_def list_sem_def list_hdr_def split: option.splits)
  have m: "map (data_of h') ps = map (data_of h) ps" using k by simp
  have fin: "mq_list_ok h' l" "list_path h' l = ps"
    using mq_list_okI [OF so h'(2)] k m d(4) sem by auto
  have oth: "mq_list_ok h' k \<and> list_blocks h' k = list_blocks h k" if kl: "k \<noteq> l" "mq_list_ok h k" for k
  proof -
    note e = mq_list_okD [OF kl(2)]
    let ?qs = "list_path h k"
    have disj: "set ?qs \<inter> set (p # ps) = {}" using dlist_disjoint [OF d(2) e(2) kl(1)] .
    have "dlist h1 k ?qs" by (rule dlist_cong [OF e(2)]) (use kl(1) in \<open>auto simp: h1_def set_list_def\<close>)
    then have dk: "dlist h' k ?qs" by (rule only_list_dlist [OF h'(4) _ kl(1)]) (use disj in auto)
    have "lists h' k = lists h k" using h'(4) kl(1) by (simp add: only_list_def h1_def set_list_def)
    moreover have "owned h' q \<and> data_of h' q = data_of h q \<and> node_block h' q = node_block h q" if "q \<in> set ?qs" for q
      using keep [of q] e(3) [OF that] that disj by auto
    ultimately show ?thesis using mq_list_keep [OF kl(2) so dk] by simp
  qed
  have blk: "list_blocks h l = node_block h p # list_blocks h' l"
    using k by (simp add: list_blocks_def path fin(2))
  have nin: "data_of h p \<notin> set (map (data_of h') ps)" using d(4) by (simp only: m) simp
  show ?thesis
    by (rule that [OF w h'(1) [unfolded i(3)] fin blk _ _ nin oth]) (simp_all add: h'(7,9) e1)
qed

section \<open>A queue between two threads\<close>

record channel =
  ch_queue :: msg_queue
  ch_writer :: nat
  ch_reader :: nat
  ch_store :: store

definition ch_list :: "channel \<Rightarrow> nat" where
  "ch_list c = msgQueueWriteList (ch_writer c) (Some (ch_queue c))"

definition ch_ok :: "channel \<Rightarrow> bool" where
  "ch_ok c \<longleftrightarrow> mq_list_ok (ch_store c) (ch_list c) \<and> msgQueueReadList (ch_reader c) (Some (ch_queue c)) = ch_list c"

definition ch_contents :: "channel \<Rightarrow> byte list list" where
  "ch_contents c = list_blocks (ch_store c) (ch_list c)"

text \<open>Each message takes two blocks of memory.\<close>

definition ch_limit :: "channel \<Rightarrow> nat" where
  "ch_limit c = length (ch_contents c) + avail (ch_store c) div 2"

definition ch_put :: "channel \<Rightarrow> byte list \<Rightarrow> channel option" where
  "ch_put c m = do {
     (r, h) \<leftarrow> msgQueueWrite (ch_writer c) (ch_store c) (Some (ch_queue c)) m (length m);
     if r then Some (c\<lparr>ch_store := h\<rparr>) else None }"

text \<open>The reader polls, takes over the block of a message and frees it.\<close>

definition ch_get :: "channel \<Rightarrow> unit \<Rightarrow> (byte list list \<times> channel) option" where
  "ch_get c u = do {
     (p, h) \<leftarrow> msgQueueRead (ch_reader c) (ch_store c) (Some (ch_queue c)) 0;
     if p = 0 then Some ([], c\<lparr>ch_store := h\<rparr>)
     else do { m \<leftarrow> blocks h p; h1 \<leftarrow> free_block h p; Some ([m], c\<lparr>ch_store := h1\<rparr>) } }"

lemma ch_list_store [simp]: "ch_list (c\<lparr>ch_store := h\<rparr>) = ch_list c"
  by (simp add: ch_list_def)

lemma ch_put_run:
  assumes "ch_ok c" "2 \<le> avail (ch_store c)"
  shows "\<exists>c'. ch_put c m = Some c' \<and> ch_ok c' \<and> ch_contents c' = ch_contents c @ [m] \<and> ch_limit c' = ch_limit c"
proof -
  obtain p h' where h': "add_copy (ch_store c) (ch_list c) m 0 LAST_NODE = Some (p, h')" "p \<noteq> 0" "mq_list_ok h' (ch_list c)"
    "list_blocks h' (ch_list c) = list_blocks (ch_store c) (ch_list c) @ [m]" "avail h' = avail (ch_store c) - 2"
    by (rule add_copy_run [of "ch_store c" "ch_list c" m 0]) (use assms in \<open>auto simp: ch_ok_def\<close>)
  have "ch_put c m = Some (c\<lparr>ch_store := h'\<rparr>)"
    using h'(1,2) by (simp add: ch_put_def msgQueueWrite_def listAddNodeData_def ch_list_def)
  then show ?thesis using h'(3-5) assms by (simp add: ch_ok_def ch_contents_def ch_limit_def)
qed

text \<open>Freeing a block that no node of the list owns.\<close>

lemma mq_list_free:
  assumes "mq_list_ok h l" "blocks h d = Some m" "d \<notin> set (map (data_of h) (list_path h l))"
  obtains h' where "free_block h d = Some h'" "mq_list_ok h' l" "list_blocks h' l = list_blocks h l" "avail h' = avail h + 1"
proof -
  let ?h = "h\<lparr>blocks := (blocks h)(d := None), avail := avail h + 1\<rparr>"
  note e = mq_list_okD [OF assms(1)]
  have "store_ok ?h" using e(1) by (auto simp: store_ok_def split: if_splits)
  moreover have "dlist ?h l (list_path h l)" by (rule dlist_cong [OF e(2)]) simp_all
  moreover have "owned ?h q \<and> data_of ?h q = data_of h q \<and> node_block ?h q = node_block h q" if "q \<in> set (list_path h l)" for q
  proof -
    have "data_of h q \<noteq> d" using assms(3) that by auto
    then show ?thesis using node_block_cong [of ?h q h] e(3) [OF that] by (simp add: node_info_def)
  qed
  ultimately have "mq_list_ok ?h l \<and> list_blocks ?h l = list_blocks h l" using mq_list_keep [OF assms(1)] by simp
  then show ?thesis using that [of ?h] assms(2) by (simp add: free_block_def)
qed

lemma ch_get_run:
  assumes ok: "ch_ok c"
  shows "\<exists>c'. ch_get c u = Some (take 1 (ch_contents c), c') \<and> ch_ok c' \<and> ch_contents c' = drop 1 (ch_contents c)
    \<and> ch_limit c' = ch_limit c"
proof (cases "list_path (ch_store c) (ch_list c)")
  case Nil
  let ?h = "ch_store c" and ?l = "ch_list c"
  have m: "mq_list_ok ?h ?l" "msgQueueReadList (ch_reader c) (Some (ch_queue c)) = ?l" using ok by (simp_all add: ch_ok_def)
  note e = mq_list_okD [OF m(1), unfolded Nil]
  have "ch_get c u = Some ([], c)"
    using list_wait_stay [OF e(7,5), of 0] e(6) listRemoveNode_empty [OF e(2)]
    by (simp add: ch_get_def msgQueueRead_def m(2))
  then show ?thesis using ok Nil by (simp add: ch_contents_def list_blocks_def)
next
  case (Cons p ps)
  let ?h = "ch_store c" and ?l = "ch_list c"
  have m: "mq_list_ok ?h ?l" "msgQueueReadList (ch_reader c) (Some (ch_queue c)) = ?l" using ok by (simp_all add: ch_ok_def)
  obtain h1 h2 where h: "list_wait ?h ?l 0 = Some (True, h1)" "listRemoveNode h1 ?l FIRST_NODE False = Some (data_of ?h p, h2)"
    "mq_list_ok h2 ?l" "list_path h2 ?l = ps" "list_blocks ?h ?l = node_block ?h p # list_blocks h2 ?l"
    "blocks h2 = blocks ?h" "avail h2 = avail ?h + 1" "data_of ?h p \<notin> set (map (data_of h2) ps)"
    by (rule shift_run [OF m(1) Cons, of 0])
  obtain b where b: "blocks h2 (data_of ?h p) = Some b" "node_block ?h p = b" "data_of ?h p \<noteq> 0"
    using owned_data [of ?h p] mq_list_okD(3) [OF m(1), of p] Cons h(6) by auto
  obtain h3 where h3: "free_block h2 (data_of ?h p) = Some h3" "mq_list_ok h3 ?l" "list_blocks h3 ?l = list_blocks h2 ?l"
    "avail h3 = avail h2 + 1"
    by (rule mq_list_free [OF h(3) b(1)]) (use h(4,8) in simp)
  have "ch_get c u = Some ([b], c\<lparr>ch_store := h3\<rparr>)"
    using h(1,2) b h3(1) by (simp add: ch_get_def msgQueueRead_def m(2))
  then show ?thesis using h(5,7) b(2) h3(2-4) m(2) by (simp add: ch_ok_def ch_contents_def ch_limit_def)
qed

interpretation mq: fifo ch_ok ch_contents ch_limit "\<lambda>m. [m]" "\<lambda>u. 1" ch_put ch_get
proof
  fix c and m :: "byte list"
  assume "ch_ok c" "length (ch_contents c) + length [m] \<le> ch_limit c"
  then show "\<exists>c'. ch_put c m = Some c' \<and> ch_ok c' \<and> ch_contents c' = ch_contents c @ [m] \<and> ch_limit c' = ch_limit c"
    by (intro ch_put_run) (auto simp: ch_limit_def)
next
  fix c and u :: unit
  assume "ch_ok c"
  then show "\<exists>c'. ch_get c u = Some (take 1 (ch_contents c), c') \<and> ch_ok c' \<and> ch_contents c' = drop 1 (ch_contents c)
    \<and> ch_limit c' = ch_limit c" by (rule ch_get_run)
qed

text \<open>A new queue is empty, and its two ends are the same list.\<close>

lemma msgQueueInit_run:
  assumes ok: "store_ok h" and av: "0 < avail h"
    and ends: "flags AND MSG_QUEUE_BIDIR = 0 \<or> (w = self) \<noteq> (r = self)"
  obtains q h1 where "msgQueueInit self h 0 flags = Some (Some q, h1)" "avail h1 = avail h - 1"
    "ch_ok \<lparr>ch_queue = q, ch_writer = w, ch_reader = r, ch_store = h1\<rparr>"
    "ch_contents \<lparr>ch_queue = q, ch_writer = w, ch_reader = r, ch_store = h1\<rparr> = []"
proof -
  obtain a where a: "malloc h = (a, h\<lparr>brk := brk h + 1, avail := avail h - 1\<rparr>)" "a = 16 * brk h" "a \<noteq> 0"
    using malloc_run [OF ok av] by blast
  let ?f = "flags OR MSG_QUEUE_MALLOC"
  let ?q = "\<lparr>q_at = a, q_name = replicate 128 0, q_owner = self, q_refs = 1, q_flags = ?f, q_private = 0\<rparr>"
  let ?b = "?f AND MSG_QUEUE_BIDIR \<noteq> 0"
  let ?sem = "zero_list\<lparr>ll_flags := LINK_LIST_SEMAPHORE\<rparr>"
  let ?h1 = "h\<lparr>brk := brk h + 1, avail := avail h - 1,
    lists := (lists h)(a + 1 \<mapsto> (if ?b then ?sem else zero_list), a + 2 \<mapsto> ?sem)\<rparr>"
  have f: "?f AND MSG_QUEUE_BIDIR = flags AND MSG_QUEUE_BIDIR"
    by (simp add: bit.conj_disj_distrib2)
  have init: "listInit g l LINK_LIST_SEMAPHORE = Some (l, set_list g l ?sem)" if "l \<noteq> 0" for g :: store and l
    using that by (simp add: listInit_def)
  have run: "msgQueueInit self h 0 flags = Some (Some ?q, ?h1)"
    using a(1,3) by (simp add: msgQueueInit_def init q_in_def q_out_def set_list_def fun_upd_twist)
  have so: "store_ok ?h1" using ok a(2) by (auto simp: store_ok_def split: if_splits)
  have empty: "mq_list_ok ?h1 l \<and> list_blocks ?h1 l = []" if "l = a + 2 \<or> l = a + 1 \<and> ?b" for l
  proof -
    have x: "lists ?h1 l = Some ?sem" using that by auto
    then have "dlist ?h1 l []" using that by (auto simp: dlist_def zero_list_def)
    from mq_list_okI [OF so this] x show ?thesis by (simp add: sem_flag_def list_sem_def list_blocks_def zero_list_def)
  qed
  let ?c = "\<lparr>ch_queue = ?q, ch_writer = w, ch_reader = r, ch_store = ?h1\<rparr>"
  have l: "ch_list ?c = a + 2 \<or> ch_list ?c = a + 1 \<and> ?b" "msgQueueReadList r (Some ?q) = ch_list ?c"
    using ends by (auto simp: ch_list_def msgQueueWriteList_def msgQueueReadList_def q_in_def q_out_def f)
  then show ?thesis
    using empty [OF l(1)] by (intro that [OF run]) (simp_all add: ch_ok_def ch_contents_def)
qed

text \<open>
  C34: What one thread writes to a message queue another thread reads in the same order, each
  message whole and none lost or doubled, for every sequence of writes and (polling) reads in
  which one call ends before the next begins; the queue itself does not keep calls apart, since
  its lists have no mutex. It holds in a one-way queue between any two threads, in a two-way
  queue between its owner and another, starting from a new queue. A write succeeds as long as
  memory is left for its two blocks.
\<close>

theorem msgQueue_order:
  assumes "store_ok h" "0 < avail h" "flags AND MSG_QUEUE_BIDIR = 0 \<or> (w = self) \<noteq> (r = self)"
    and "fifo_fits (\<lambda>m. [m]) (\<lambda>u. 1) ((avail h - 1) div 2) ops 0"
  shows "\<exists>q h1 out c. msgQueueInit self h 0 flags = Some (Some q, h1)
    \<and> fifo_run ch_put ch_get ops \<lparr>ch_queue = q, ch_writer = w, ch_reader = r, ch_store = h1\<rparr> = Some (out, c)
    \<and> out @ ch_contents c = fifo_input (\<lambda>m. [m]) ops"
proof -
  obtain q h1 where q: "msgQueueInit self h 0 flags = Some (Some q, h1)" "avail h1 = avail h - 1"
    "ch_ok \<lparr>ch_queue = q, ch_writer = w, ch_reader = r, ch_store = h1\<rparr>" (is "ch_ok ?c")
    "ch_contents \<lparr>ch_queue = q, ch_writer = w, ch_reader = r, ch_store = h1\<rparr> = []"
    by (rule msgQueueInit_run [OF assms(1-3)])
  have "fifo_fits (\<lambda>m. [m]) (\<lambda>u. 1) (ch_limit ?c) ops (length (ch_contents ?c))"
    using assms(4) q(2,4) by (simp add: ch_limit_def)
  from mq.fifo_order [OF q(3) this] show ?thesis using q(1,4) by auto
qed

text \<open>
  \<open>msgQueueFind\<close> takes a message out of a queue without taking its count from the semaphore.
  After it has taken the only message, a read that waits for ever for the next one returns NULL
  at once instead of waiting, where after \<open>msgQueueRead\<close> it waits.
\<close>

theorem msgQueueFind_wakes:
  assumes ok: "mq_list_ok h (msgQueueReadList self qo)" and p: "list_path h (msgQueueReadList self qo) = [p]"
    and t: "timeout < 0"
  shows "(\<exists>h1 h2. msgQueueFind self h qo (by_pointer (data_of h p)) = Some (data_of h p, h1)
      \<and> msgQueueRead self h1 qo timeout = Some (0, h2) \<and> msgQueueRead self h2 qo timeout = None)
    \<and> (\<exists>h1. msgQueueRead self h qo timeout = Some (data_of h p, h1) \<and> msgQueueRead self h1 qo timeout = None)"
proof -
  let ?l = "msgQueueReadList self qo"
  note d = mq_list_okD [OF ok, unfolded p]
  obtain n where n: "nodes h p = Some n" "nd_flags n AND LINK_LIST_LOCKED = 0"
    using d(3) [of p] by (cases "nodes h p") (auto simp: owned_def node_info_def info_def)
  have find: "listFindNode h ?l (by_pointer (data_of h p)) = Some (p, h)"
    using listFindNode_run [OF d(2), of "by_pointer (data_of h p)"] n by (simp add: node_test_def data_of_def)
  have d': "dlist h ?l ([] @ p # [])" using d(2) by simp
  have i: "node_info h p = Some (data_of h p, nd_tag n, nd_flags n)" using n by (simp add: node_info_def info_def data_of_def)
  obtain h1 where h1: "listRemoveNode h ?l p False = Some (data_of h p, h1)" "dlist h1 ?l ([] @ [])"
    "list_hdr h1 ?l = list_hdr h ?l" "list_sem h1 ?l = list_sem h ?l"
    by (rule listRemoveNode_run [OF d' _ i n(2), of p]) auto
  obtain x where x: "lists h1 ?l = Some x" using h1(2) by (auto simp: dlist_def)
  have sx: "sem_flag h1 ?l" "ll_sem x = 1"
    using h1(3,4) d(5,6) x by (auto simp: sem_flag_def list_hdr_def list_sem_def split: option.splits)
  let ?h2 = "set_list h1 ?l (x\<lparr>ll_sem := 0\<rparr>)"
  have w: "list_wait h1 ?l timeout = Some (True, ?h2)" using list_wait_pass [OF d(7) sx(1) x] sx(2) by simp
  have d2: "dlist ?h2 ?l []" using dlist_set_sem [OF h1(2) x] by simp
  have s2: "sem_flag ?h2 ?l" "list_sem ?h2 ?l = 0" using sx(1) x by (simp_all add: sem_flag_def list_sem_def set_list_def)
  have "p \<noteq> 0" using dlist_node [OF d(2), of p] by auto
  then have F: "msgQueueFind self h qo (by_pointer (data_of h p)) = Some (data_of h p, h1)"
    using find h1(1) by (simp add: msgQueueFind_def)
  have R: "msgQueueRead self h1 qo timeout = Some (0, ?h2)"
    using w listRemoveNode_empty [OF d2] by (simp add: msgQueueRead_def)
  have N: "msgQueueRead self ?h2 qo timeout = None"
    using list_wait_stay [OF d(7) s2] t by (simp add: msgQueueRead_def)
  obtain g1 g2 where g: "list_wait h ?l timeout = Some (True, g1)" "listRemoveNode g1 ?l FIRST_NODE False = Some (data_of h p, g2)"
    "mq_list_ok g2 ?l" "list_path g2 ?l = []"
    by (rule shift_run [OF ok p, of timeout])
  note e = mq_list_okD [OF g(3), unfolded g(4)]
  have "msgQueueRead self h qo timeout = Some (data_of h p, g2)" using g(1,2) by (simp add: msgQueueRead_def)
  moreover have "msgQueueRead self g2 qo timeout = None"
    using list_wait_stay [OF e(7,5)] e(6) t by (simp add: msgQueueRead_def)
  ultimately show ?thesis using F R N by blast
qed

section \<open>Writes that overlap\<close>

text \<open>
  Linking a node into a list, cut in two where the code has found out that the node goes behind
  the last one and not yet made it the last one.
\<close>

definition link_node_find :: "store \<Rightarrow> nat \<Rightarrow> nat \<Rightarrow> nat \<Rightarrow> ((nat \<times> bool) \<times> store) option" where
  "link_node_find h l node after0 = do {
     x \<leftarrow> lists h l;
     n \<leftarrow> nodes h node;
     let after = (if after0 = LAST_NODE then ll_last x else after0);
     Some ((after, after = ll_last x), set_node h node (n\<lparr>nd_list := l, nd_prev := after\<rparr>)) }"

definition link_node_put :: "store \<Rightarrow> nat \<Rightarrow> nat \<Rightarrow> nat \<times> bool \<Rightarrow> (unit \<times> store) option" where
  "link_node_put h1 l node place = do {
     let (after, at_end) = place;
     x \<leftarrow> lists h1 l;
     let h2 = (if at_end then set_list h1 l (x\<lparr>ll_last := node\<rparr>) else h1);
     h5 \<leftarrow> (if after = FIRST_NODE
       then do {
         m \<leftarrow> nodes h2 node;
         let h3 = set_node h2 node (m\<lparr>nd_next := ll_first x\<rparr>);
         h4 \<leftarrow> (if ll_first x \<noteq> 0
           then do { f \<leftarrow> nodes h3 (ll_first x); Some (set_node h3 (ll_first x) (f\<lparr>nd_prev := node\<rparr>)) }
           else Some h3);
         y \<leftarrow> lists h4 l;
         Some (set_list h4 l (y\<lparr>ll_first := node\<rparr>)) }
       else do {
         a \<leftarrow> nodes h2 after;
         h4 \<leftarrow> (if nd_next a \<noteq> 0
           then do {
             b \<leftarrow> nodes h2 (nd_next a);
             let h3 = set_node h2 (nd_next a) (b\<lparr>nd_prev := node\<rparr>);
             m \<leftarrow> nodes h3 node;
             Some (set_node h3 node (m\<lparr>nd_next := nd_next a\<rparr>)) }
           else Some h2);
         c \<leftarrow> nodes h4 after;
         Some (set_node h4 after (c\<lparr>nd_next := node\<rparr>)) });
     y \<leftarrow> lists h5 l;
     Some ((), set_list h5 l (y\<lparr>ll_count := ll_count y + 1\<rparr>)) }"

text \<open>One after the other, the two parts are \<open>link_node\<close>.\<close>

lemma link_node_parts:
  "link_node h l node after0 = do { (place, h1) \<leftarrow> link_node_find h l node after0; link_node_put h1 l node place }"
  by (simp add: link_node_def link_node_find_def link_node_put_def Let_def set_node_def bind_assoc split: bind_split)

text \<open>A queue's list with one message, at 32, and three new nodes to be linked behind it.\<close>

definition busy_store :: store where
  "busy_store = \<lparr>nodes = [32 \<mapsto> zero_node\<lparr>nd_list := 16\<rparr>, 48 \<mapsto> zero_node, 64 \<mapsto> zero_node, 80 \<mapsto> zero_node],
     lists = [16 \<mapsto> zero_list\<lparr>ll_first := 32, ll_last := 32, ll_count := 1, ll_flags := LINK_LIST_SEMAPHORE\<rparr>],
     blocks = Map.empty, brk = 6, avail = 0\<rparr>"

text \<open>
  When a write of 64 comes between the two parts of a write of 48, the list's last node is no
  longer the one at its end, and the next write, of 80, is put before the message 64 that was
  written before it. The list without a mutex is what lets the write come in between.
\<close>

lemma overlapping_writes:
  "listLock busy_store 16 = Some (1, busy_store)"
  "map_option (\<lambda>h. list_path h 16) (do {
     (place, h1) \<leftarrow> link_node_find busy_store 16 48 LAST_NODE;
     (_, h2) \<leftarrow> link_node h1 16 64 LAST_NODE;
     (_, h3) \<leftarrow> link_node_put h2 16 48 place;
     (_, h4) \<leftarrow> link_node h3 16 80 LAST_NODE;
     Some h4 }) = Some [32, 48, 80, 64]"
proof -
  have four: "list_walk h p 4 = list_walk h p (Suc (Suc (Suc (Suc 0))))" for h p
    by (simp only: eval_nat_numeral BitM.simps)
  show "listLock busy_store 16 = Some (1, busy_store)" by (simp add: busy_store_def listLock_def zero_list_def)
  show "map_option (\<lambda>h. list_path h 16) (do {
     (place, h1) \<leftarrow> link_node_find busy_store 16 48 LAST_NODE;
     (_, h2) \<leftarrow> link_node h1 16 64 LAST_NODE;
     (_, h3) \<leftarrow> link_node_put h2 16 48 place;
     (_, h4) \<leftarrow> link_node h3 16 80 LAST_NODE;
     Some h4 }) = Some [32, 48, 80, 64]"
    by (simp add: busy_store_def link_node_find_def link_node_def link_node_put_def set_node_def
        set_list_def zero_node_def zero_list_def FIRST_NODE_def list_path_def four)
qed

section \<open>Samples\<close>

definition empty_store :: store where
  "empty_store = \<lparr>nodes = Map.empty, lists = Map.empty, blocks = Map.empty, brk = 1, avail = 5\<rparr>"

lemma empty_store_ok: "store_ok empty_store" "avail empty_store = 5"
  by (simp_all add: store_ok_def empty_store_def)

theorem msgQueue_order_witness:
  "\<exists>q h1 out c. msgQueueInit 7 empty_store 0 2 = Some (Some q, h1)
    \<and> fifo_run ch_put ch_get [Put [1, 2], Put [3], Get (), Put [], Get ()]
        \<lparr>ch_queue = q, ch_writer = 7, ch_reader = 9, ch_store = h1\<rparr> = Some (out, c)
    \<and> out @ ch_contents c = [[1, 2], [3], []]"
proof -
  have "\<exists>q h1 out c. msgQueueInit 7 empty_store 0 2 = Some (Some q, h1)
    \<and> fifo_run ch_put ch_get [Put [1, 2], Put [3], Get (), Put [], Get ()]
        \<lparr>ch_queue = q, ch_writer = 7, ch_reader = 9, ch_store = h1\<rparr> = Some (out, c)
    \<and> out @ ch_contents c = fifo_input (\<lambda>m. [m]) [Put [1, 2], Put [3], Get (), Put [], Get ()]"
    by (rule msgQueue_order) (simp_all add: empty_store_ok)
  then show ?thesis by simp
qed

text \<open>A queue with one message, at 16; its node is at 32 and its block at 48.\<close>

definition one_message :: store where
  "one_message = \<lparr>nodes = [32 \<mapsto> zero_node\<lparr>nd_data := 48, nd_list := 18, nd_flags := 1\<rparr>],
     lists = [17 \<mapsto> zero_list, 18 \<mapsto> zero_list\<lparr>ll_first := 32, ll_last := 32, ll_flags := 16, ll_count := 1, ll_sem := 1\<rparr>],
     blocks = [48 \<mapsto> [65]], brk = 4, avail = 0\<rparr>"

definition one_queue :: msg_queue where
  "one_queue = \<lparr>q_at = 16, q_name = replicate 128 0, q_owner = 7, q_refs = 1, q_flags = 1, q_private = 0\<rparr>"

lemma one_message_facts:
  "dlist one_message 18 [32]" "store_ok one_message" "owned one_message 32" "sem_flag one_message 18"
  "list_sem one_message 18 = 1" "data_of one_message 32 = 48" "msgQueueReadList 9 (Some one_queue) = 18"
  by (simp_all add: one_message_def one_queue_def dlist_def store_ok_def owned_def node_info_def info_def sem_flag_def
      list_sem_def data_of_def msgQueueReadList_def q_in_def q_out_def zero_node_def zero_list_def LAST_NODE_def)

theorem msgQueueFind_wakes_witness:
  "\<exists>h1 h2. msgQueueFind 9 one_message (Some one_queue) (by_pointer 48) = Some (48, h1)
    \<and> msgQueueRead 9 h1 (Some one_queue) (-1) = Some (0, h2)"
proof -
  have m: "mq_list_ok one_message 18" "list_path one_message 18 = [32]"
    using mq_list_okI [OF one_message_facts(2,1)] one_message_facts by simp_all
  have "mq_list_ok one_message (msgQueueReadList 9 (Some one_queue))"
    "list_path one_message (msgQueueReadList 9 (Some one_queue)) = [32]" using m one_message_facts(7) by simp_all
  from msgQueueFind_wakes [OF this, of "-1"] show ?thesis using one_message_facts(6) by auto
qed

end
