(* ===== verification/Ars.thy ===== *)
theory Ars
  imports CText "HOL-Library.Monad_Syntax"
begin

text \<open>
  The compiler of access requirement strings, sbbs3/ars.c: it turns a requirement such as
  \<open>LEVEL 60 AND NOT FLAG 1A\<close> into the byte code that \<open>ar_exp\<close> evaluates. The source is a C string
  (its terminator can be read, nothing beyond), the code goes into a buffer of 1024 bytes. None
  stands for an access outside either of them.
\<close>

section \<open>Opcodes (ars\_defs.h)\<close>

abbreviation (input) "AR_NULL \<equiv> 0 :: byte"
abbreviation (input) "AR_OR \<equiv> 1 :: byte"
abbreviation (input) "AR_NOT \<equiv> 2 :: byte"
abbreviation (input) "AR_EQUAL \<equiv> 3 :: byte"
abbreviation (input) "AR_BEGNEST \<equiv> 4 :: byte"
abbreviation (input) "AR_ENDNEST \<equiv> 5 :: byte"
abbreviation (input) "AR_LEVEL \<equiv> 6 :: byte"
abbreviation (input) "AR_AGE \<equiv> 7 :: byte"
abbreviation (input) "AR_BPS \<equiv> 8 :: byte"
abbreviation (input) "AR_NODE \<equiv> 9 :: byte"
abbreviation (input) "AR_TLEFT \<equiv> 10 :: byte"
abbreviation (input) "AR_TUSED \<equiv> 11 :: byte"
abbreviation (input) "AR_USER \<equiv> 12 :: byte"
abbreviation (input) "AR_TIME \<equiv> 13 :: byte"
abbreviation (input) "AR_PCR \<equiv> 14 :: byte"
abbreviation (input) "AR_FLAG1 \<equiv> 15 :: byte"
abbreviation (input) "AR_FLAG2 \<equiv> 16 :: byte"
abbreviation (input) "AR_FLAG3 \<equiv> 17 :: byte"
abbreviation (input) "AR_FLAG4 \<equiv> 18 :: byte"
abbreviation (input) "AR_EXEMPT \<equiv> 19 :: byte"
abbreviation (input) "AR_REST \<equiv> 20 :: byte"
abbreviation (input) "AR_SEX \<equiv> 21 :: byte"
abbreviation (input) "AR_UDR \<equiv> 22 :: byte"
abbreviation (input) "AR_UDFR \<equiv> 23 :: byte"
abbreviation (input) "AR_EXPIRE \<equiv> 24 :: byte"
abbreviation (input) "AR_CREDIT \<equiv> 25 :: byte"
abbreviation (input) "AR_DAY \<equiv> 26 :: byte"
abbreviation (input) "AR_ANSI \<equiv> 27 :: byte"
abbreviation (input) "AR_RIP \<equiv> 28 :: byte"
abbreviation (input) "AR_LOCAL \<equiv> 29 :: byte"
abbreviation (input) "AR_GROUP \<equiv> 30 :: byte"
abbreviation (input) "AR_SUB \<equiv> 31 :: byte"
abbreviation (input) "AR_LIB \<equiv> 32 :: byte"
abbreviation (input) "AR_DIR \<equiv> 33 :: byte"
abbreviation (input) "AR_EXPERT \<equiv> 34 :: byte"
abbreviation (input) "AR_SYSOP \<equiv> 35 :: byte"
abbreviation (input) "AR_QUIET \<equiv> 36 :: byte"
abbreviation (input) "AR_MAIN_CMDS \<equiv> 37 :: byte"
abbreviation (input) "AR_FILE_CMDS \<equiv> 38 :: byte"
abbreviation (input) "AR_RANDOM \<equiv> 39 :: byte"
abbreviation (input) "AR_LASTON \<equiv> 40 :: byte"
abbreviation (input) "AR_LOGONS \<equiv> 41 :: byte"
abbreviation (input) "AR_WIP \<equiv> 42 :: byte"
abbreviation (input) "AR_SUBCODE \<equiv> 43 :: byte"
abbreviation (input) "AR_DIRCODE \<equiv> 44 :: byte"
abbreviation (input) "AR_OS2 \<equiv> 45 :: byte"
abbreviation (input) "AR_DOS \<equiv> 46 :: byte"
abbreviation (input) "AR_WIN32 \<equiv> 47 :: byte"
abbreviation (input) "AR_UNIX \<equiv> 48 :: byte"
abbreviation (input) "AR_LINUX \<equiv> 49 :: byte"
abbreviation (input) "AR_SHELL \<equiv> 50 :: byte"
abbreviation (input) "AR_PROT \<equiv> 51 :: byte"
abbreviation (input) "AR_GUEST \<equiv> 52 :: byte"
abbreviation (input) "AR_QNODE \<equiv> 53 :: byte"
abbreviation (input) "AR_ACTIVE \<equiv> 54 :: byte"
abbreviation (input) "AR_INACTIVE \<equiv> 55 :: byte"
abbreviation (input) "AR_DELETED \<equiv> 56 :: byte"
abbreviation (input) "AR_ULS \<equiv> 57 :: byte"
abbreviation (input) "AR_ULK \<equiv> 58 :: byte"
abbreviation (input) "AR_ULM \<equiv> 59 :: byte"
abbreviation (input) "AR_DLS \<equiv> 60 :: byte"
abbreviation (input) "AR_DLK \<equiv> 61 :: byte"
abbreviation (input) "AR_DLM \<equiv> 62 :: byte"
abbreviation (input) "AR_HOST \<equiv> 63 :: byte"
abbreviation (input) "AR_IP \<equiv> 64 :: byte"

definition ar_string_arg :: "byte option \<Rightarrow> bool" where
  "ar_string_arg t \<longleftrightarrow> t \<in> Some ` {AR_SUBCODE, AR_DIRCODE, AR_SHELL, AR_PROT, AR_HOST, AR_IP}"

text \<open>The types without an argument, which the compiler emits at once.\<close>

definition ars_boolean :: "byte \<Rightarrow> bool" where
  "ars_boolean t \<longleftrightarrow> t \<in> {AR_RIP, AR_WIP, AR_ANSI, AR_DOS, AR_OS2, AR_UNIX, AR_LINUX, AR_WIN32, AR_LOCAL,
     AR_ACTIVE, AR_INACTIVE, AR_DELETED, AR_EXPERT, AR_SYSOP, AR_GUEST, AR_QNODE, AR_QUIET}"

section \<open>The state of the compiler\<close>

text \<open>
  The part of the configuration that requirements refer to: the internal codes of the message
  areas and file directories with their groups and libraries, and the shells.
\<close>

record scfg =
  cfg_subs :: "(byte list \<times> nat) list"
  cfg_dirs :: "(byte list \<times> nat) list"
  cfg_shells :: "byte list list"
  cfg_node :: nat
  cfg_eurodate :: bool

text \<open>The type None is AR\_INVALID.\<close>

record ar_state =
  as_i :: nat
  as_ar :: "byte list"
  as_type :: "byte option"
  as_not :: bool
  as_equal :: bool
  as_arg :: bool

definition str_at :: "byte list \<Rightarrow> nat \<Rightarrow> byte option" where
  "str_at str i = (if i < length str then Some (str ! i) else if i = length str then Some 0 else None)"

definition emit :: "byte list \<Rightarrow> ar_state \<Rightarrow> ar_state option" where
  "emit bs s = (if length (as_ar s) + length bs \<le> 1024 then Some (s\<lparr>as_ar := as_ar s @ bs\<rparr>) else None)"

text \<open>\<open>j--\<close> takes back what was emitted last.\<close>

definition unemit :: "ar_state \<Rightarrow> ar_state" where
  "unemit s = s\<lparr>as_ar := butlast (as_ar s)\<rparr>"

text \<open>The next character to look at, after k characters; the one more of the loop is in k.\<close>

definition skip :: "nat \<Rightarrow> ar_state \<Rightarrow> ar_state" where
  "skip k s = s\<lparr>as_i := as_i s + k\<rparr>"

text \<open>A word of letters in the source, and a keyword as a prefix of what follows.\<close>

definition is_word :: "byte list \<Rightarrow> nat \<Rightarrow> string \<Rightarrow> bool" where
  "is_word str i w \<longleftrightarrow> length (takeWhile isalpha_c (drop i str)) = length w
     \<and> map toupper_c (take (length w) (drop i str)) = cs w"

definition has_prefix :: "byte list \<Rightarrow> nat \<Rightarrow> string \<Rightarrow> bool" where
  "has_prefix str i w \<longleftrightarrow> map toupper_c (take (length w) (drop i str)) = cs w"

text \<open>\<open>atoi\<close> through the 64 bits of \<open>strtol\<close>, as an unsigned int.\<close>

definition atoi_u32 :: "byte list \<Rightarrow> u32" where
  "atoi_u32 s = word_of_int (max (- (2 ^ 63)) (min (2 ^ 63 - 1) (atoi_c s)))"

definition low16 :: "u32 \<Rightarrow> byte list" where
  "low16 n = le16 (ucast n)"

section \<open>The parts of a step\<close>

text \<open>\<open>if(not) ar[j++]=AR_NOT; not=0;\<close>\<close>

definition emit_not :: "ar_state \<Rightarrow> ar_state option" where
  "emit_not s = (if as_not s then emit [AR_NOT] (s\<lparr>as_not := False\<rparr>) else Some s)"

text \<open>
  Blanks, parentheses, the operators and the words for them. The result is None when the
  character is none of these.
\<close>

definition arstr_operator :: "byte list \<Rightarrow> byte \<Rightarrow> ar_state \<Rightarrow> ar_state option option" where
  "arstr_operator str c s =
     (if c = 0x20 then Some (Some (skip 1 s))
      else if c = 0x28 then Some (do {
        s1 \<leftarrow> (if as_not s then emit [AR_NOT] s else Some s);
        s2 \<leftarrow> emit [AR_BEGNEST] (s1\<lparr>as_not := False, as_equal := False\<rparr>);
        Some (skip 1 s2) })
      else if c = 0x29 then Some (map_option (skip 1) (emit [AR_ENDNEST] s))
      else if c = 0x7C then Some (map_option (skip 1) (emit [AR_OR] s))
      else if c = 0x21 then Some (Some (skip 1 (s\<lparr>as_not := True\<rparr>)))
      else if c = 0x3D then Some (Some (skip 1 (s\<lparr>as_equal := True\<rparr>)))
      else if c = 0x26 then Some (Some (skip 1 s))
      else if is_word str (as_i s) ''OR'' then Some (map_option (skip 2) (emit [AR_OR] s))
      else if is_word str (as_i s) ''AND'' then Some (Some (skip 3 s))
      else if is_word str (as_i s) ''NOT'' then Some (Some (skip 3 (s\<lparr>as_not := True\<rparr>)))
      else if as_equal s \<and> is_word str (as_i s) ''TO'' then Some (Some (skip 2 s))
      else if is_word str (as_i s) ''EQUAL'' then Some (Some (skip 5 (s\<lparr>as_equal := True\<rparr>)))
      else if is_word str (as_i s) ''EQUALS'' then Some (Some (skip 6 (s\<lparr>as_equal := True\<rparr>)))
      else None)"

definition dollar_types :: "(char \<times> byte) list" where
  "dollar_types = [(CHR ''A'', AR_AGE), (CHR ''B'', AR_BPS), (CHR ''C'', AR_CREDIT), (CHR ''D'', AR_UDFR),
     (CHR ''E'', AR_EXPIRE), (CHR ''F'', AR_FLAG1), (CHR ''H'', AR_SUB), (CHR ''I'', AR_LIB), (CHR ''J'', AR_DIR),
     (CHR ''K'', AR_UDR), (CHR ''L'', AR_LEVEL), (CHR ''M'', AR_GROUP), (CHR ''N'', AR_NODE), (CHR ''O'', AR_TUSED),
     (CHR ''P'', AR_PCR), (CHR ''Q'', AR_RANDOM), (CHR ''R'', AR_TLEFT), (CHR ''S'', AR_SEX), (CHR ''T'', AR_TIME),
     (CHR ''U'', AR_USER), (CHR ''V'', AR_LOGONS), (CHR ''W'', AR_DAY), (CHR ''X'', AR_EXEMPT), (CHR ''Y'', AR_LASTON)]"

text \<open>The symbols without an argument; \<open>case 'Z'\<close> has no break and goes on into them.\<close>

definition dollar_boolean :: "(char \<times> byte) list" where
  "dollar_boolean = [(CHR ''Z'', AR_REST), (CHR ''0'', AR_NULL), (CHR ''G'', AR_LOCAL), (CHR ''*'', AR_RIP), (CHR ''['', AR_ANSI)]"

definition lookup_char :: "(char \<times> byte) list \<Rightarrow> byte \<Rightarrow> byte option" where
  "lookup_char tbl c = map_of (map (apfst (\<lambda>ch. word_of_nat (of_char ch))) tbl) c"

text \<open>A type without an argument: emitted with its NOT, after which the type is invalid again.\<close>

definition emit_boolean :: "byte \<Rightarrow> ar_state \<Rightarrow> ar_state option" where
  "emit_boolean t s = do {
     s1 \<leftarrow> emit_not s;
     s2 \<leftarrow> emit [t] s1;
     Some (s2\<lparr>as_type := None, as_arg := False\<rparr>) }"

definition arstr_dollar :: "byte list \<Rightarrow> ar_state \<Rightarrow> ar_state option" where
  "arstr_dollar str s = do {
     c \<leftarrow> str_at str (as_i s + 1);
     let ch = toupper_c c;
     let s1 = s\<lparr>as_arg := True\<rparr>;
     s2 \<leftarrow> (case lookup_char dollar_types ch of Some t \<Rightarrow> Some (s1\<lparr>as_type := Some t\<rparr>)
       | None \<Rightarrow> (case lookup_char dollar_boolean ch of Some t \<Rightarrow> emit_boolean t s1 | None \<Rightarrow> Some s1));
     Some (skip 2 s2) }"

section \<open>Keywords\<close>

definition ars_keywords_1 :: "(string \<times> byte) list" where
  "ars_keywords_1 =
    [(''AGE'', AR_AGE), (''BPS'', AR_BPS), (''PCR'', AR_PCR), (''SEX'', AR_SEX), (''UDR'', AR_UDR), (''ULS'', AR_ULS),
     (''ULK'', AR_ULK), (''ULM'', AR_ULM), (''DLS'', AR_DLS), (''DLK'', AR_DLK), (''DLM'', AR_DLM), (''DAY'', AR_DAY),
     (''RIP'', AR_RIP), (''WIP'', AR_WIP), (''OS2'', AR_OS2), (''DOS'', AR_DOS), (''WIN32'', AR_WIN32),
     (''UNIX'', AR_UNIX), (''LINUX'', AR_LINUX), (''PROT'', AR_PROT), (''HOST'', AR_HOST), (''IP'', AR_IP),
     (''SUBCODE'', AR_SUBCODE), (''SUB'', AR_SUB), (''LIB'', AR_LIB), (''DIRCODE'', AR_DIRCODE), (''DIR'', AR_DIR)]"

definition ars_keywords_2 :: "(string \<times> byte) list" where
  "ars_keywords_2 =
    [(''ANSI'', AR_ANSI), (''UDFR'', AR_UDFR), (''FLAG'', AR_FLAG1), (''NODE'', AR_NODE), (''NULL'', AR_NULL),
     (''USER'', AR_USER), (''TIME'', AR_TIME), (''REST'', AR_REST), (''LEVEL'', AR_LEVEL), (''TLEFT'', AR_TLEFT),
     (''TUSED'', AR_TUSED), (''LOCAL'', AR_LOCAL), (''GROUP'', AR_GROUP), (''EXPIRE'', AR_EXPIRE), (''ACTIVE'', AR_ACTIVE),
     (''INACTIVE'', AR_INACTIVE), (''DELETED'', AR_DELETED), (''EXPERT'', AR_EXPERT), (''SYSOP'', AR_SYSOP),
     (''GUEST'', AR_GUEST), (''QNODE'', AR_QNODE), (''QUIET'', AR_QUIET), (''EXEMPT'', AR_EXEMPT), (''RANDOM'', AR_RANDOM),
     (''LASTON'', AR_LASTON), (''LOGONS'', AR_LOGONS), (''CREDIT'', AR_CREDIT), (''MAIN_CMDS'', AR_MAIN_CMDS),
     (''FILE_CMDS'', AR_FILE_CMDS), (''SHELL'', AR_SHELL)]"

definition arstr_keyword :: "byte list \<Rightarrow> ar_state \<Rightarrow> ar_state option option" where
  "arstr_keyword str s =
     (case find (\<lambda>(w, t). has_prefix str (as_i s) w) (ars_keywords_1 @ ars_keywords_2) of None \<Rightarrow> None
      | Some (w, t) \<Rightarrow> Some (map_option (skip (length w))
          (if ars_boolean t then emit_boolean t (s\<lparr>as_type := Some t, as_arg := True\<rparr>)
           else Some (s\<lparr>as_type := Some t, as_arg := True\<rparr>))))"

section \<open>Arguments\<close>

definition skip_while :: "(byte \<Rightarrow> bool) \<Rightarrow> byte list \<Rightarrow> ar_state \<Rightarrow> ar_state" where
  "skip_while P str s = skip (Suc (length (takeWhile P (drop (as_i s + 1) str)))) s"

text \<open>A time of day: the minutes are read after the next colon of the whole rest of the source.\<close>

definition ars_time :: "byte list \<Rightarrow> u32" where
  "ars_time rest = atoi_u32 rest * 60 + (case after_chr 0x3A rest of None \<Rightarrow> 0 | Some p \<Rightarrow> atoi_u32 p)"

text \<open>The operand of a numeric type; None for a type that takes no number.\<close>

definition ars_number :: "byte \<Rightarrow> u32 \<Rightarrow> byte list option" where
  "ars_number t n =
     (if t = AR_DAY then Some [ucast (if 6 < n then 6 else n)]
      else if t \<in> {AR_AGE, AR_PCR, AR_UDR, AR_UDFR, AR_NODE, AR_LEVEL, AR_TLEFT, AR_TUSED} then Some [ucast n]
      else if t = AR_BPS then Some (low16 (if n < 300 then n * 100 else n))
      else if t \<in> {AR_MAIN_CMDS, AR_FILE_CMDS, AR_EXPIRE, AR_CREDIT, AR_USER, AR_RANDOM, AR_LASTON, AR_LOGONS,
          AR_ULS, AR_ULK, AR_ULM, AR_DLS, AR_DLK, AR_DLM} then Some (low16 n)
      else if t \<in> {AR_GROUP, AR_LIB, AR_DIR, AR_SUB} then Some (low16 (if n \<noteq> 0 then n - 1 else n))
      else None)"

definition arstr_number :: "byte list \<Rightarrow> byte \<Rightarrow> ar_state \<Rightarrow> ar_state option" where
  "arstr_number str t s =
     (if t = AR_TIME
      then map_option (skip_while (\<lambda>c. isdigit_c c \<or> c = 0x3A) str) (emit (low16 (ars_time (drop (as_i s) str))) s)
      else map_option (skip_while isdigit_c str)
        (case ars_number t (atoi_u32 (drop (as_i s) str)) of None \<Rightarrow> Some (unemit s) | Some bs \<Rightarrow> emit bs s))"

definition ars_separator :: "byte \<Rightarrow> bool" where
  "ars_separator c \<longleftrightarrow> c \<in> {0x20, 0x28, 0x29, 0x3D, 0x7C, 0x26}"

text \<open>The number of a message area or directory whose code starts the source, without case.\<close>

definition code_index :: "(byte list \<times> nat) list \<Rightarrow> byte list \<Rightarrow> nat option" where
  "code_index tbl rest =
     (let n = length (takeWhile (\<lambda>(code, g). map tolower_c (take (length code) rest) \<noteq> map tolower_c code) tbl)
      in if n < length tbl then Some n else None)"

definition ars_weekday :: "byte list \<Rightarrow> byte" where
  "ars_weekday rest =
     (let a = toupper_c (hd rest); b = (if 1 < length rest then toupper_c (rest ! 1) else 0)
      in if a = 0x53 \<and> b = 0x55 then 0
         else if a = 0x4D then 1
         else if a = 0x54 \<and> b = 0x55 then 2
         else if a = 0x57 then 3
         else if a = 0x54 \<and> b = 0x48 then 4
         else if a = 0x46 then 5 else 6)"

definition arstr_text :: "scfg \<Rightarrow> byte list \<Rightarrow> byte \<Rightarrow> byte \<Rightarrow> ar_state \<Rightarrow> ar_state option" where
  "arstr_text cfg str c t s =
     (let rest = drop (as_i s) str in
      if ar_string_arg (Some t)
      then let maxlen = (if t \<in> {AR_SUBCODE, AR_DIRCODE, AR_SHELL} then 16 else 128);
               arg = take maxlen (takeWhile (\<lambda>c. \<not> ars_separator c) rest)
           in map_option (skip (length arg)) (emit (map toupper_c arg @ [0]) s)
      else if t \<in> {AR_FLAG1, AR_FLAG2, AR_FLAG3, AR_FLAG4, AR_EXEMPT, AR_SEX, AR_REST}
      then map_option (skip 1) (emit [toupper_c c] s)
      else if t \<in> {AR_SUB, AR_DIR}
      then map_option (skip_while isalpha_c str)
        (case code_index (if t = AR_SUB then cfg_subs cfg else cfg_dirs cfg) rest of
           Some n \<Rightarrow> emit (low16 (word_of_nat n)) s | None \<Rightarrow> Some (unemit s))
      else if t = AR_DAY then map_option (skip_while isalpha_c str) (emit [ars_weekday rest] s)
      else Some (skip 1 (unemit s)))"

definition arstr_argument :: "scfg \<Rightarrow> byte list \<Rightarrow> byte \<Rightarrow> ar_state \<Rightarrow> ar_state option" where
  "arstr_argument cfg str c s = do {
     s1 \<leftarrow> emit_not s;
     s2 \<leftarrow> (if as_equal s \<and> \<not> ar_string_arg (as_type s) then emit [AR_EQUAL] s1 else Some s1);
     let s3 = s2\<lparr>as_equal := False\<rparr>;
     (if as_type s = Some AR_FLAG1 \<and> isdigit_c c
      then Some (skip 1 (s3\<lparr>as_type := Some (if c = 0x32 then AR_FLAG2 else if c = 0x33 then AR_FLAG3
                                           else if c = 0x34 then AR_FLAG4 else AR_FLAG1)\<rparr>))
      else do {
        let t = (case as_type s of None \<Rightarrow> AR_LEVEL | Some t \<Rightarrow>
          if t = AR_SUB \<and> \<not> isdigit_c c then AR_SUBCODE
          else if t = AR_DIR \<and> \<not> isdigit_c c then AR_DIRCODE else t);
        s4 \<leftarrow> emit [t] (s3\<lparr>as_arg := False, as_type := Some t\<rparr>);
        (if isdigit_c c \<and> \<not> ar_string_arg (Some t) then arstr_number str t s4 else arstr_text cfg str c t s4) }) }"

section \<open>The compiler\<close>

text \<open>One round of the loop, up to and with its \<open>i++\<close>.\<close>

definition arstr_step :: "scfg \<Rightarrow> byte list \<Rightarrow> byte \<Rightarrow> ar_state \<Rightarrow> ar_state option" where
  "arstr_step cfg str c s =
     (case arstr_operator str c s of Some r \<Rightarrow> r
      | None \<Rightarrow>
        if c = 0x24 then arstr_dollar str s
        else case (if \<not> as_arg s \<and> isalpha_c c then arstr_keyword str s else None) of Some r \<Rightarrow> r
             | None \<Rightarrow> arstr_argument cfg str c s)"

partial_function (option) arstr_loop :: "scfg \<Rightarrow> byte list \<Rightarrow> ar_state \<Rightarrow> ar_state option" where
  "arstr_loop cfg str s =
     (case str_at str (as_i s) of None \<Rightarrow> None | Some c \<Rightarrow>
        if c = 0 then Some s
        else case arstr_step cfg str c s of None \<Rightarrow> None | Some s1 \<Rightarrow> arstr_loop cfg str s1)"

text \<open>
  The count and the new buffer, padded by four bytes; an empty program is the constant \<open>nular\<close>,
  and a failed allocation gives NULL.
\<close>

definition arstr :: "bool \<Rightarrow> scfg \<Rightarrow> byte list \<Rightarrow> (nat \<times> byte list option) option" where
  "arstr alloc cfg str = do {
     s \<leftarrow> arstr_loop cfg str
       \<lparr>as_i = 0, as_ar = [], as_type = None, as_not = False, as_equal = False, as_arg = False\<rparr>;
     if as_ar s = [] then Some (0, Some [0])
     else do {
       s1 \<leftarrow> emit [AR_NULL] s;
       if alloc then Some (length (as_ar s1), Some (as_ar s1 @ replicate 4 0)) else Some (0, None) } }"

declare arstr_loop.simps [code]

end
