(* ===== verification/ArsTests.thy ===== *)
theory ArsTests
  imports Ars "HOL-Library.Log_Nat"
begin

text \<open>
  The tests behind the single types of an access requirement, as the two evaluators make them:
  \<open>sbbs_t::ar_exp\<close> of chk\_ar.cpp in the terminal server and \<open>ar_exp\<close> of userdat.c in the other
  servers. One evaluation takes place at one moment: the clock and the session are the record
  \<open>world\<close>.
\<close>

section \<open>Matching patterns (findstr\_in\_string of str\_util.c)\<close>

definition has_infix :: "byte list \<Rightarrow> byte list \<Rightarrow> bool" where
  "has_infix hay p \<longleftrightarrow> list_ex (\<lambda>k. take (length p) (drop k hay) = p) [0..<Suc (length hay)]"

definition findstr_in_string :: "byte list option \<Rightarrow> byte list \<Rightarrow> bool" where
  "findstr_in_string insearchof string =
     (case insearchof of None \<Rightarrow> False | Some what \<Rightarrow>
        let search = map toupper_c (take 80 what);
            p0 = dropWhile isspace_c (take 255 string)
        in if p0 \<noteq> [] \<and> hd p0 = 0x3B then False
           else let found = (p0 \<noteq> [] \<and> hd p0 = 0x21);
                    p1 = truncsp (if found then tl p0 else p0)
                in if p1 = [] then found
                   else let p = map toupper_c p1; c = length p - 1
                        in if p ! c = 0x7E then found \<noteq> has_infix search (take c p)
                           else if p ! c = 0x5E \<or> p ! c = 0x2A then found \<noteq> (take c search = take c p)
                           else if hd p = 0x2A
                             then if length search < c then found
                                  else found \<noteq> (drop (length search - c) search = tl p)
                           else found \<noteq> (p = search))"

section \<open>Single precision\<close>

text \<open>
  A positive float is \<open>m * 2 ^ e\<close> with 24 bits in m. \<open>round_ratio a b\<close> is the one nearest to a / b,
  the one with even m of two; every result here is far from the ends of the exponent's range.
\<close>

definition round_ratio :: "nat \<Rightarrow> nat \<Rightarrow> nat \<times> int" where
  "round_ratio a b =
     (if a = 0 then (0, 0)
      else let s0 = int (floorlog 2 a) - int (floorlog 2 b) - 24;
               scale = (\<lambda>s. (a * 2 ^ nat (- s), b * 2 ^ nat s));
               s = (let (x, y) = scale s0 in if y * 2 ^ 24 \<le> x then s0 + 1 else s0);
               (x, y) = scale s; m = x div y; r = x mod y
           in (if y < 2 * r \<or> y = 2 * r \<and> odd m then m + 1 else m, s))"

definition float_div :: "nat \<times> int \<Rightarrow> nat \<times> int \<Rightarrow> nat \<times> int" where
  "float_div x y = (let d = snd x - snd y in round_ratio (fst x * 2 ^ nat d) (fst y * 2 ^ nat (- d)))"

definition float_less :: "nat \<times> int \<Rightarrow> nat \<Rightarrow> bool" where
  "float_less x n \<longleftrightarrow> fst x * 2 ^ nat (snd x) < n * 2 ^ nat (- snd x)"

text \<open>\<open>100/((float)a/b) < n\<close>\<close>

definition percent_below :: "nat \<Rightarrow> nat \<Rightarrow> nat \<Rightarrow> bool" where
  "percent_below a b n \<longleftrightarrow>
     float_less (float_div (round_ratio 100 1) (float_div (round_ratio a 1) (round_ratio b 1))) n"

section \<open>Users and the session\<close>

record user_t =
  u_number :: u16
  u_uls :: u16
  u_dls :: u16
  u_posts :: u16
  u_logons :: u16
  u_shell :: u16
  u_comp :: "byte list"
  u_note :: "byte list"
  u_birth :: "byte list"
  u_modem :: "byte list"
  u_cursub :: "byte list"
  u_curdir :: "byte list"
  u_level :: byte
  u_sex :: byte
  u_misc :: ulong
  u_flags1 :: ulong
  u_flags2 :: ulong
  u_flags3 :: ulong
  u_flags4 :: ulong
  u_exempt :: ulong
  u_rest :: ulong
  u_ulb :: ulong
  u_dlb :: ulong
  u_cdt :: ulong
  u_freecdt :: ulong
  u_laston :: int
  u_expire :: int

record client_t =
  cl_protocol :: "byte list"
  cl_host :: "byte list"
  cl_addr :: "byte list"

text \<open>
  The clock and what the session object holds: its own user's level (\<open>useron\<close>), the temporary
  sysop status, the area and directory at hand, the counters. \<open>w_draw\<close> is the k-th number of the
  random generator, for a given bound.
\<close>

record world =
  w_now :: int
  w_year :: int
  w_mon :: int
  w_mday :: int
  w_wday :: int
  w_hour :: int
  w_min :: int
  w_cur_rate :: ulong
  w_local :: bool
  w_quiet :: bool
  w_useron_level :: byte
  w_tmpsysop :: bool
  w_cursubnum :: u32
  w_curdirnum :: u32
  w_timeleft :: ulong
  w_logontime :: int
  w_main_cmds :: u32
  w_xfer_cmds :: u32
  w_draw :: "nat \<Rightarrow> u32 \<Rightarrow> u32"

datatype noaccess = NoAccessLevel | NoAccessAge | NoAccessBPS | NoAccessDay | NoAccessCredit | NoAccessNode
  | NoAccessUser | NoAccessGroup | NoAccessSub | NoAccessLib | NoAccessDir | NoAccessExpire | NoAccessTimeLeft
  | NoAccessTimeUsed | NoAccessTime | NoAccessPCR | NoAccessUDR | NoAccessUDFR | NoAccessFlag1 | NoAccessFlag2
  | NoAccessFlag3 | NoAccessFlag4 | NoAccessRest | NoAccessExempt | NoAccessSex

text \<open>Why access was denied last, and how many random numbers were drawn.\<close>

record ar_seen =
  noaccess_str :: "noaccess option"
  noaccess_val :: int
  drawn :: nat

text \<open>\<open>1UL<<(x-'A')\<close>; the processor takes a shift count of 64 bits modulo 64.\<close>

definition FLAG :: "nat \<Rightarrow> ulong" where
  "FLAG x = push_bit (nat ((int x - 0x41) mod 64)) 1"

text \<open>Division of signed integers truncates towards zero.\<close>

definition tdiv :: "int \<Rightarrow> int \<Rightarrow> int" where
  "tdiv a b = (if a < 0 then - ((- a) div b) else a div b)"

text \<open>The two digits of the year, month or day in a birth date.\<close>

definition two_digits :: "byte list \<Rightarrow> nat \<Rightarrow> int" where
  "two_digits b k =
     (let ch = (\<lambda>k. if k < length b then b ! k else 0) in uint (ch k AND 0xF) * 10 + uint (ch (k + 1) AND 0xF))"

definition getage :: "scfg \<Rightarrow> world \<Rightarrow> byte list \<Rightarrow> u32" where
  "getage cfg w birth =
     (let month = atoi_c birth; day = atoi_c (drop 3 birth) in
      if month = 0 \<or> day = 0 then 0
      else let age0 = word_of_int (w_year w - two_digits birth 6) :: u32;
               age = (if 105 < age0 then age0 - 100 else age0);
               tm_mon = w_mon w + 1;
               (mm, dd) = (if cfg_eurodate cfg then (3, 0) else (0, 3))
           in if cfg_eurodate cfg \<and> (31 < month \<or> 12 < day) \<or> \<not> cfg_eurodate cfg \<and> (12 < month \<or> 31 < day) then 0
              else if tm_mon < two_digits birth mm \<or> two_digits birth mm = tm_mon \<and> w_mday w < two_digits birth dd
                then age - 1 else age)"

section \<open>The tests of the terminal server\<close>

text \<open>
  A test gives whether the requirement is met, and the reason for a refusal with its value. The
  operand is a byte n, a short i extended to an unsigned int, or a string. None: not a type.
\<close>

type_synonym verdict = "bool \<times> (noaccess \<times> int option) option"

definition ar_cmp :: "bool \<Rightarrow> nat \<Rightarrow> nat \<Rightarrow> bool" where
  "ar_cmp eq v n \<longleftrightarrow> (if eq then v = n else n \<le> v)"

definition sbbs_limits :: "scfg \<Rightarrow> world \<Rightarrow> user_t \<Rightarrow> byte \<Rightarrow> bool \<Rightarrow> nat \<Rightarrow> u32 \<Rightarrow> verdict option" where
  "sbbs_limits cfg w u t eq n i =
     (if t = AR_LEVEL then Some (ar_cmp eq (unat (u_level u)) n, Some (NoAccessLevel, Some (int n)))
      else if t = AR_AGE then Some (ar_cmp eq (unat (getage cfg w (u_birth u))) n, Some (NoAccessAge, Some (int n)))
      else if t = AR_BPS then Some (ar_cmp eq (unat (w_cur_rate w)) (unat i), Some (NoAccessBPS, Some (uint i)))
      else None)"

definition sbbs_boolean :: "world \<Rightarrow> user_t \<Rightarrow> byte \<Rightarrow> verdict option" where
  "sbbs_boolean w u t =
     (let misc = (\<lambda>bits. u_misc u AND bits \<noteq> 0) in map_option (\<lambda>b. (b, None))
        (if t = AR_ANSI then Some (misc 0x2)
         else if t = AR_RIP then Some (misc 0x8)
         else if t = AR_WIP then Some (misc 0x200000)
         else if t = AR_OS2 then Some False
         else if t = AR_DOS then Some False
         else if t = AR_WIN32 then Some False
         else if t = AR_UNIX then Some True
         else if t = AR_LINUX then Some True
         else if t = AR_ACTIVE then Some (\<not> misc 0x41)
         else if t = AR_INACTIVE then Some (misc 0x40)
         else if t = AR_DELETED then Some (misc 0x1)
         else if t = AR_EXPERT then Some (misc 0x80)
         else if t = AR_SYSOP then Some (90 \<le> w_useron_level w \<or> w_tmpsysop w)
         else if t = AR_GUEST then Some (u_rest u AND FLAG 0x47 \<noteq> 0)
         else if t = AR_QNODE then Some (u_rest u AND FLAG 0x51 \<noteq> 0)
         else if t = AR_QUIET then Some (w_quiet w)
         else if t = AR_LOCAL then Some (w_local w)
         else None))"

definition sbbs_account :: "scfg \<Rightarrow> world \<Rightarrow> user_t \<Rightarrow> byte \<Rightarrow> bool \<Rightarrow> nat \<Rightarrow> u32 \<Rightarrow> verdict option" where
  "sbbs_account cfg w u t eq n i =
     (if t = AR_DAY then Some (if eq then w_wday w = int n else int n \<le> w_wday w, Some (NoAccessDay, Some (int n)))
      else if t = AR_CREDIT then
        Some (ar_cmp eq (unat (u_cdt u + u_freecdt u)) (unat i * 1024), Some (NoAccessCredit, Some (uint i * 1024)))
      else if t = AR_NODE then Some (ar_cmp eq (cfg_node cfg) n, Some (NoAccessNode, Some (int n)))
      else if t = AR_USER then Some (ar_cmp eq (unat (u_number u)) (unat i), Some (NoAccessUser, Some (uint i)))
      else None)"

text \<open>A group or library: nothing is required where there is no area, unless with EQUAL.\<close>

definition area_cmp :: "(byte list \<times> nat) list \<Rightarrow> u32 \<Rightarrow> bool \<Rightarrow> u32 \<Rightarrow> bool" where
  "area_cmp tbl cur eq i \<longleftrightarrow>
     (if unat cur < length tbl then ar_cmp eq (snd (tbl ! unat cur)) (unat i) else \<not> eq)"

definition area_code :: "(byte list \<times> nat) list \<Rightarrow> u32 \<Rightarrow> byte list \<Rightarrow> bool" where
  "area_code tbl cur arg \<longleftrightarrow> unat cur < length tbl \<and> findstr_in_string (Some (fst (tbl ! unat cur))) arg"

definition sbbs_area :: "scfg \<Rightarrow> world \<Rightarrow> byte \<Rightarrow> bool \<Rightarrow> u32 \<Rightarrow> byte list \<Rightarrow> verdict option" where
  "sbbs_area cfg w t eq i arg =
     (if t = AR_GROUP then Some (area_cmp (cfg_subs cfg) (w_cursubnum w) eq i, Some (NoAccessGroup, Some (uint (i + 1))))
      else if t = AR_SUB then Some (ar_cmp eq (unat (w_cursubnum w)) (unat i), Some (NoAccessSub, Some (uint (i + 1))))
      else if t = AR_SUBCODE then Some (area_code (cfg_subs cfg) (w_cursubnum w) arg, Some (NoAccessSub, None))
      else if t = AR_LIB then Some (area_cmp (cfg_dirs cfg) (w_curdirnum w) eq i, Some (NoAccessLib, Some (uint (i + 1))))
      else if t = AR_DIR then Some (ar_cmp eq (unat (w_curdirnum w)) (unat i), Some (NoAccessDir, Some (uint (i + 1))))
      else if t = AR_DIRCODE then Some (area_code (cfg_dirs cfg) (w_curdirnum w) arg, Some (NoAccessSub, None))
      else None)"

definition sbbs_usage :: "world \<Rightarrow> user_t \<Rightarrow> byte \<Rightarrow> bool \<Rightarrow> nat \<Rightarrow> u32 \<Rightarrow> (u32 \<Rightarrow> u32) \<Rightarrow> verdict option" where
  "sbbs_usage w u t eq n i draw =
     (if t = AR_EXPIRE then Some (u_expire u \<noteq> 0 \<and> w_now w + uint i * 24 * 60 * 60 \<le> u_expire u, Some (NoAccessExpire, Some (uint i)))
      else if t = AR_RANDOM then Some (ar_cmp eq (unat (draw (i + 1))) (unat i), None)
      else if t = AR_LASTON then Some (uint i \<le> tdiv (w_now w - u_laston u) (24 * 60 * 60), None)
      else if t = AR_LOGONS then Some (ar_cmp eq (unat (u_logons u)) (unat i), None)
      else if t = AR_MAIN_CMDS then Some (ar_cmp eq (unat (w_main_cmds w)) (unat i), None)
      else if t = AR_FILE_CMDS then Some (ar_cmp eq (unat (w_xfer_cmds w)) (unat i), None)
      else if t = AR_TLEFT then Some (n \<le> unat (w_timeleft w) div 60, Some (NoAccessTimeLeft, Some (int n)))
      else if t = AR_TUSED then Some (int n \<le> tdiv (w_now w - w_logontime w) 60, Some (NoAccessTimeUsed, Some (int n)))
      else if t = AR_TIME then Some (sint i \<le> w_hour w * 60 + w_min w, Some (NoAccessTime, Some (uint i)))
      else None)"

text \<open>A ratio is only looked at when the divisor is larger; a zero dividend misses it.\<close>

definition ratio_met :: "nat \<Rightarrow> nat \<Rightarrow> nat \<Rightarrow> bool" where
  "ratio_met big small n \<longleftrightarrow> \<not> (small < big \<and> (small = 0 \<or> percent_below big small n))"

definition sbbs_ratio :: "user_t \<Rightarrow> byte \<Rightarrow> bool \<Rightarrow> nat \<Rightarrow> u32 \<Rightarrow> verdict option" where
  "sbbs_ratio u t eq n i =
     (if t = AR_PCR then Some (ratio_met (unat (u_logons u)) (unat (u_posts u)) n, Some (NoAccessPCR, Some (int n)))
      else if t = AR_UDR then Some (ratio_met (unat (u_dlb u)) (unat (u_ulb u)) n, Some (NoAccessUDR, Some (int n)))
      else if t = AR_UDFR then Some (ratio_met (unat (u_dls u)) (unat (u_uls u)) n, Some (NoAccessUDFR, Some (int n)))
      else if t = AR_ULS then Some (ar_cmp eq (unat (u_uls u)) (unat i), None)
      else if t = AR_ULK then Some (ar_cmp eq (unat (u_ulb u) div 1024) (unat i), None)
      else if t = AR_ULM then Some (ar_cmp eq (unat (u_ulb u) div (1024 * 1024)) (unat i), None)
      else if t = AR_DLS then Some (ar_cmp eq (unat (u_dls u)) (unat i), None)
      else if t = AR_DLK then Some (ar_cmp eq (unat (u_dlb u) div 1024) (unat i), None)
      else if t = AR_DLM then Some (ar_cmp eq (unat (u_dlb u) div (1024 * 1024)) (unat i), None)
      else None)"

definition flag_met :: "ulong \<Rightarrow> bool \<Rightarrow> nat \<Rightarrow> bool" where
  "flag_met flags eq n \<longleftrightarrow> (if eq then flags = FLAG n else flags AND FLAG n \<noteq> 0)"

definition sbbs_flags :: "user_t \<Rightarrow> byte \<Rightarrow> bool \<Rightarrow> nat \<Rightarrow> verdict option" where
  "sbbs_flags u t eq n =
     (if t = AR_FLAG1 then Some (flag_met (u_flags1 u) eq n, Some (NoAccessFlag1, Some (int n)))
      else if t = AR_FLAG2 then Some (flag_met (u_flags2 u) eq n, Some (NoAccessFlag2, Some (int n)))
      else if t = AR_FLAG3 then Some (flag_met (u_flags3 u) eq n, Some (NoAccessFlag3, Some (int n)))
      else if t = AR_FLAG4 then Some (flag_met (u_flags4 u) eq n, Some (NoAccessFlag4, Some (int n)))
      else if t = AR_REST then Some (flag_met (u_rest u) eq n, Some (NoAccessRest, Some (int n)))
      else if t = AR_EXEMPT then Some (flag_met (u_exempt u) eq n, Some (NoAccessExempt, Some (int n)))
      else if t = AR_SEX then Some (unat (u_sex u) = n, Some (NoAccessSex, Some (int n)))
      else None)"

definition sbbs_text :: "scfg \<Rightarrow> user_t \<Rightarrow> client_t option \<Rightarrow> byte \<Rightarrow> byte list \<Rightarrow> verdict option" where
  "sbbs_text cfg u cl t arg =
     (let what = (\<lambda>f g. case cl of None \<Rightarrow> g u | Some c \<Rightarrow> f c) in map_option (\<lambda>b. (b, None))
        (if t = AR_SHELL then
           Some (unat (u_shell u) < length (cfg_shells cfg) \<and> findstr_in_string (Some (cfg_shells cfg ! unat (u_shell u))) arg)
         else if t = AR_PROT then Some (findstr_in_string (Some (what cl_protocol u_modem)) arg)
         else if t = AR_HOST then Some (findstr_in_string (Some (what cl_host u_comp)) arg)
         else if t = AR_IP then Some (findstr_in_string (Some (what cl_addr u_note)) arg)
         else None))"

definition first_some :: "'a option list \<Rightarrow> 'a option" where
  "first_some xs = (case dropWhile (\<lambda>x. x = None) xs of [] \<Rightarrow> None | x # _ \<Rightarrow> x)"

definition sbbs_test ::
  "scfg \<Rightarrow> world \<Rightarrow> user_t \<Rightarrow> client_t option \<Rightarrow> byte \<Rightarrow> bool \<Rightarrow> nat \<Rightarrow> u32 \<Rightarrow> byte list \<Rightarrow> (u32 \<Rightarrow> u32) \<Rightarrow> verdict option" where
  "sbbs_test cfg w u cl t eq n i arg draw =
     first_some [sbbs_limits cfg w u t eq n i, sbbs_boolean w u t, sbbs_account cfg w u t eq n i, sbbs_area cfg w t eq i arg,
       sbbs_usage w u t eq n i draw, sbbs_ratio u t eq n i, sbbs_flags u t eq n, sbbs_text cfg u cl t arg]"

section \<open>The tests of the other servers (userdat.c)\<close>

text \<open>The number of an area, or its group or library, by its code; -1, as an unsigned long, for none.\<close>

definition area_number :: "(byte list \<times> nat) list \<Rightarrow> byte list \<Rightarrow> nat" where
  "area_number tbl code =
     (let k = length (takeWhile (\<lambda>x. \<not> stricmp_eq (fst x) code) tbl) in if k < length tbl then k else 2 ^ 64 - 1)"

definition area_parent :: "(byte list \<times> nat) list \<Rightarrow> byte list \<Rightarrow> nat" where
  "area_parent tbl code =
     (let k = area_number tbl code in if k < length tbl then snd (tbl ! k) else 2 ^ 64 - 1)"

definition with_user :: "user_t option \<Rightarrow> (user_t \<Rightarrow> bool) \<Rightarrow> bool" where
  "with_user uo P \<longleftrightarrow> (case uo of None \<Rightarrow> False | Some u \<Rightarrow> P u)"

definition userdat_limits :: "scfg \<Rightarrow> world \<Rightarrow> user_t option \<Rightarrow> byte \<Rightarrow> bool \<Rightarrow> nat \<Rightarrow> bool option" where
  "userdat_limits cfg w uo t eq n =
     (if t = AR_LEVEL then Some (with_user uo (\<lambda>u. ar_cmp eq (unat (u_level u)) n))
      else if t = AR_AGE then Some (with_user uo (\<lambda>u. ar_cmp eq (unat (getage cfg w (u_birth u))) n))
      else if t = AR_BPS then Some True
      else None)"

definition userdat_boolean :: "user_t option \<Rightarrow> byte \<Rightarrow> bool option" where
  "userdat_boolean uo t =
     (let misc = (\<lambda>bits. with_user uo (\<lambda>u. u_misc u AND bits \<noteq> 0)) in
      if t = AR_ANSI then Some (misc 0x2)
      else if t = AR_RIP then Some (misc 0x8)
      else if t = AR_WIP then Some (misc 0x200000)
      else if t = AR_OS2 then Some False
      else if t = AR_DOS then Some False
      else if t = AR_WIN32 then Some False
      else if t = AR_UNIX then Some True
      else if t = AR_LINUX then Some True
      else if t = AR_ACTIVE then Some (with_user uo (\<lambda>u. u_misc u AND 0x41 = 0))
      else if t = AR_INACTIVE then Some (misc 0x40)
      else if t = AR_DELETED then Some (misc 0x1)
      else if t = AR_EXPERT then Some (misc 0x80)
      else if t = AR_SYSOP then Some (with_user uo (\<lambda>u. 90 \<le> u_level u))
      else if t = AR_GUEST then Some (with_user uo (\<lambda>u. u_rest u AND FLAG 0x47 \<noteq> 0))
      else if t = AR_QNODE then Some (with_user uo (\<lambda>u. u_rest u AND FLAG 0x51 \<noteq> 0))
      else if t = AR_QUIET then Some False
      else if t = AR_LOCAL then Some False
      else None)"

definition userdat_account :: "scfg \<Rightarrow> world \<Rightarrow> user_t option \<Rightarrow> byte \<Rightarrow> bool \<Rightarrow> nat \<Rightarrow> u32 \<Rightarrow> bool option" where
  "userdat_account cfg w uo t eq n i =
     (if t = AR_DAY then Some (if eq then w_wday w = int n else int n \<le> w_wday w)
      else if t = AR_CREDIT then Some (with_user uo (\<lambda>u. ar_cmp eq (unat (u_cdt u + u_freecdt u)) (unat i * 1024)))
      else if t = AR_NODE then Some (ar_cmp eq (cfg_node cfg) n)
      else if t = AR_USER then Some (with_user uo (\<lambda>u. ar_cmp eq (unat (u_number u)) (unat i)))
      else None)"

definition userdat_area :: "scfg \<Rightarrow> user_t option \<Rightarrow> byte \<Rightarrow> bool \<Rightarrow> u32 \<Rightarrow> byte list \<Rightarrow> bool option" where
  "userdat_area cfg uo t eq i arg =
     (if t = AR_GROUP then Some (with_user uo (\<lambda>u. ar_cmp eq (area_parent (cfg_subs cfg) (u_cursub u)) (unat i)))
      else if t = AR_SUB then Some (with_user uo (\<lambda>u. ar_cmp eq (area_number (cfg_subs cfg) (u_cursub u)) (unat i)))
      else if t = AR_SUBCODE then Some (with_user uo (\<lambda>u. findstr_in_string (Some (u_cursub u)) arg))
      else if t = AR_LIB then Some (with_user uo (\<lambda>u. ar_cmp eq (area_parent (cfg_dirs cfg) (u_curdir u)) (unat i)))
      else if t = AR_DIR then Some (with_user uo (\<lambda>u. ar_cmp eq (area_number (cfg_dirs cfg) (u_curdir u)) (unat i)))
      else if t = AR_DIRCODE then Some (with_user uo (\<lambda>u. findstr_in_string (Some (u_curdir u)) arg))
      else None)"

definition userdat_usage :: "world \<Rightarrow> user_t option \<Rightarrow> byte \<Rightarrow> bool \<Rightarrow> u32 \<Rightarrow> (u32 \<Rightarrow> u32) \<Rightarrow> bool option" where
  "userdat_usage w uo t eq i draw =
     (if t = AR_EXPIRE then Some (with_user uo (\<lambda>u. u_expire u \<noteq> 0 \<and> w_now w + uint i * 24 * 60 * 60 \<le> u_expire u))
      else if t = AR_RANDOM then Some (ar_cmp eq (unat (draw (i + 1))) (unat i))
      else if t = AR_LASTON then Some (with_user uo (\<lambda>u. uint i \<le> tdiv (w_now w - u_laston u) (24 * 60 * 60)))
      else if t = AR_LOGONS then Some (with_user uo (\<lambda>u. ar_cmp eq (unat (u_logons u)) (unat i)))
      else if t \<in> {AR_MAIN_CMDS, AR_FILE_CMDS, AR_TLEFT, AR_TUSED} then Some False
      else if t = AR_TIME then Some (sint i \<le> w_hour w * 60 + w_min w)
      else None)"

definition userdat_ratio :: "user_t option \<Rightarrow> byte \<Rightarrow> bool \<Rightarrow> nat \<Rightarrow> u32 \<Rightarrow> bool option" where
  "userdat_ratio uo t eq n i =
     (if t = AR_PCR then Some (with_user uo (\<lambda>u. ratio_met (unat (u_logons u)) (unat (u_posts u)) n))
      else if t = AR_UDR then Some (with_user uo (\<lambda>u. ratio_met (unat (u_dlb u)) (unat (u_ulb u)) n))
      else if t = AR_UDFR then Some (with_user uo (\<lambda>u. ratio_met (unat (u_dls u)) (unat (u_uls u)) n))
      else if t = AR_ULS then Some (with_user uo (\<lambda>u. ar_cmp eq (unat (u_uls u)) (unat i)))
      else if t = AR_ULK then Some (with_user uo (\<lambda>u. ar_cmp eq (unat (u_ulb u) div 1024) (unat i)))
      else if t = AR_ULM then Some (with_user uo (\<lambda>u. ar_cmp eq (unat (u_ulb u) div (1024 * 1024)) (unat i)))
      else if t = AR_DLS then Some (with_user uo (\<lambda>u. ar_cmp eq (unat (u_dls u)) (unat i)))
      else if t = AR_DLK then Some (with_user uo (\<lambda>u. ar_cmp eq (unat (u_dlb u) div 1024) (unat i)))
      else if t = AR_DLM then Some (with_user uo (\<lambda>u. ar_cmp eq (unat (u_dlb u) div (1024 * 1024)) (unat i)))
      else None)"

definition userdat_flags :: "user_t option \<Rightarrow> byte \<Rightarrow> bool \<Rightarrow> nat \<Rightarrow> bool option" where
  "userdat_flags uo t eq n =
     (let flag = (\<lambda>f. Some (with_user uo (\<lambda>u. flag_met (f u) eq n))) in
      if t = AR_FLAG1 then flag u_flags1
      else if t = AR_FLAG2 then flag u_flags2
      else if t = AR_FLAG3 then flag u_flags3
      else if t = AR_FLAG4 then flag u_flags4
      else if t = AR_REST then flag u_rest
      else if t = AR_EXEMPT then flag u_exempt
      else if t = AR_SEX then Some (with_user uo (\<lambda>u. unat (u_sex u) = n))
      else None)"

definition userdat_text :: "scfg \<Rightarrow> user_t option \<Rightarrow> client_t option \<Rightarrow> byte \<Rightarrow> byte list \<Rightarrow> bool option" where
  "userdat_text cfg uo cl t arg =
     (let what = (\<lambda>f g. case cl of None \<Rightarrow> map_option g uo | Some c \<Rightarrow> Some (f c)) in
      if t = AR_SHELL then Some (with_user uo (\<lambda>u. unat (u_shell u) < length (cfg_shells cfg)
        \<and> findstr_in_string (Some (cfg_shells cfg ! unat (u_shell u))) arg))
      else if t = AR_PROT then Some (findstr_in_string (what cl_protocol u_modem) arg)
      else if t = AR_HOST then Some (findstr_in_string (what cl_host u_comp) arg)
      else if t = AR_IP then Some (findstr_in_string (what cl_addr u_note) arg)
      else None)"

definition userdat_test ::
  "scfg \<Rightarrow> world \<Rightarrow> user_t option \<Rightarrow> client_t option \<Rightarrow> byte \<Rightarrow> bool \<Rightarrow> nat \<Rightarrow> u32 \<Rightarrow> byte list \<Rightarrow> (u32 \<Rightarrow> u32) \<Rightarrow> verdict option" where
  "userdat_test cfg w uo cl t eq n i arg draw = map_option (\<lambda>b. (b, None))
     (first_some [userdat_limits cfg w uo t eq n, userdat_boolean uo t, userdat_account cfg w uo t eq n i,
       userdat_area cfg uo t eq i arg, userdat_usage w uo t eq i draw, userdat_ratio uo t eq n i, userdat_flags uo t eq n,
       userdat_text cfg uo cl t arg])"

end
