(* ===== verification/ArsEval.thy ===== *)
theory ArsEval
  imports ArsTests
begin

text \<open>
  The walk of \<open>ar_exp\<close> over the byte code, the same in chk\_ar.cpp and userdat.c, with the test of
  single types as a parameter, and \<open>chk_ar\<close> of both. None stands for reading outside the buffer
  of the code.
\<close>

section \<open>The walk over the code\<close>

type_synonym ar_test = "byte \<Rightarrow> bool \<Rightarrow> nat \<Rightarrow> u32 \<Rightarrow> byte list \<Rightarrow> (u32 \<Rightarrow> u32) \<Rightarrow> verdict option"

definition byte_at :: "byte list \<Rightarrow> nat \<Rightarrow> byte option" where
  "byte_at ar p = (if p < length ar then Some (ar ! p) else None)"

text \<open>\<open>*(short *)p\<close> as an unsigned int.\<close>

definition short_at :: "byte list \<Rightarrow> nat \<Rightarrow> u32 option" where
  "short_at ar p = (if p + 1 < length ar then Some (scast (un_le16 [ar ! p, ar ! (p + 1)])) else None)"

text \<open>The string at p, up to the terminator that must be there.\<close>

definition string_at :: "byte list \<Rightarrow> nat \<Rightarrow> byte list option" where
  "string_at ar p = (if 0 \<in> set (drop p ar) then Some (cstr (drop p ar)) else None)"

text \<open>One of the operators OR, NOT and EQUAL before an item.\<close>

definition ar_flag :: "byte list \<Rightarrow> byte \<Rightarrow> nat \<Rightarrow> (bool \<times> nat) option" where
  "ar_flag ar f p = do { c \<leftarrow> byte_at ar p; Some (if c = f then (True, p + 1) else (False, p)) }"

definition ar_prefix :: "byte list \<Rightarrow> nat \<Rightarrow> (bool \<times> bool \<times> bool \<times> nat) option" where
  "ar_prefix ar p = do {
     (alt, p1) \<leftarrow> ar_flag ar AR_OR p;
     (nt, p2) \<leftarrow> ar_flag ar AR_NOT p1;
     (eq, p3) \<leftarrow> ar_flag ar AR_EQUAL p2;
     Some (alt, nt, eq, p3) }"

definition ar_no_arg :: "byte \<Rightarrow> bool" where
  "ar_no_arg t \<longleftrightarrow> t \<in> {AR_ANSI, AR_RIP, AR_WIP, AR_LOCAL, AR_EXPERT, AR_SYSOP, AR_GUEST, AR_QNODE, AR_QUIET, AR_OS2,
     AR_DOS, AR_WIN32, AR_UNIX, AR_LINUX, AR_ACTIVE, AR_INACTIVE, AR_DELETED}"

text \<open>The types whose case advances once more, over the second byte of a short.\<close>

definition ar_short_arg :: "byte \<Rightarrow> bool" where
  "ar_short_arg t \<longleftrightarrow> t \<in> {AR_BPS, AR_CREDIT, AR_USER, AR_GROUP, AR_SUB, AR_LIB, AR_DIR, AR_EXPIRE, AR_RANDOM,
     AR_LASTON, AR_LOGONS, AR_MAIN_CMDS, AR_FILE_CMDS, AR_TIME, AR_ULS, AR_ULK, AR_ULM, AR_DLS, AR_DLK, AR_DLM}"

text \<open>Over the rest of a parenthesis that was left early: to the next byte that is ENDNEST or NULL.\<close>

definition ar_skip_nest :: "byte list \<Rightarrow> nat \<Rightarrow> nat option" where
  "ar_skip_nest ar p =
     (let k = length (takeWhile (\<lambda>c. c \<noteq> AR_ENDNEST \<and> c \<noteq> AR_NULL) (drop p ar)) in
      if p + k < length ar then Some (p + k) else None)"

text \<open>One item: the new result, the position of its last byte, and what is remembered.\<close>

definition ar_item ::
  "(nat \<Rightarrow> u32 \<Rightarrow> u32) \<Rightarrow> ar_test \<Rightarrow> byte list \<Rightarrow> nat \<Rightarrow> bool \<Rightarrow> bool \<Rightarrow> bool \<Rightarrow> ar_seen \<Rightarrow> (bool \<times> nat \<times> ar_seen) option" where
  "ar_item draw test ar p nt eq result st = do {
     t \<leftarrow> byte_at ar p;
     let p1 = (if ar_no_arg t then p else p + 1);
     n \<leftarrow> byte_at ar p1;
     i \<leftarrow> short_at ar p1;
     arg \<leftarrow> (if ar_string_arg (Some t) then string_at ar p1 else Some []);
     let p2 = (if ar_short_arg t then p1 + 1 else p1 + length arg);
     let st1 = (if t = AR_RANDOM then st\<lparr>drawn := drawn st + 1\<rparr> else st);
     Some (case test t eq (unat n) i arg (draw (drawn st)) of None \<Rightarrow> (result, p2, st1)
       | Some (ok, why) \<Rightarrow>
           (ok \<noteq> nt, p2,
            if ok \<noteq> nt then st1
            else case why of None \<Rightarrow> st1
                 | Some (str, val) \<Rightarrow> st1\<lparr>noaccess_str := Some str,
                     noaccess_val := (case val of None \<Rightarrow> noaccess_val st1 | Some v \<Rightarrow> v)\<rparr>)) }"

text \<open>The loop of \<open>ar_exp\<close> from position p; a parenthesis is a call of its own.\<close>

partial_function (option) ar_loop ::
  "(nat \<Rightarrow> u32 \<Rightarrow> u32) \<Rightarrow> ar_test \<Rightarrow> byte list \<Rightarrow> nat \<Rightarrow> bool \<Rightarrow> ar_seen \<Rightarrow> (bool \<times> nat \<times> ar_seen) option" where
  "ar_loop draw test ar p result st =
     (case byte_at ar p of None \<Rightarrow> None | Some c \<Rightarrow>
        if c = AR_NULL \<or> c = AR_ENDNEST then Some (result, p, st)
        else case ar_prefix ar p of None \<Rightarrow> None | Some (alt, nt, eq, p1) \<Rightarrow>
          if result \<and> alt \<or> \<not> result \<and> \<not> alt then Some (result, p1, st)
          else case byte_at ar p1 of None \<Rightarrow> None | Some c1 \<Rightarrow>
            if c1 = AR_BEGNEST
            then Option.bind (ar_loop draw test ar (p1 + 1) True st) (\<lambda>(r, p2, st2).
                 case ar_skip_nest ar p2 of None \<Rightarrow> None | Some p3 \<Rightarrow>
                   if ar ! p3 = AR_NULL then Some (r \<noteq> nt, p3, st2)
                   else ar_loop draw test ar (p3 + 1) (r \<noteq> nt) st2)
            else (case ar_item draw test ar p1 nt eq result st of None \<Rightarrow> None | Some (r, p2, st2) \<Rightarrow>
                 ar_loop draw test ar (p2 + 1) r st2))"

definition ar_exp ::
  "(nat \<Rightarrow> u32 \<Rightarrow> u32) \<Rightarrow> ar_test \<Rightarrow> byte list \<Rightarrow> nat \<Rightarrow> ar_seen \<Rightarrow> (bool \<times> nat \<times> ar_seen) option" where
  "ar_exp draw test ar p st = ar_loop draw test ar p True st"

text \<open>\<open>sbbs_t::chk_ar\<close>, and \<open>chk_ar\<close> of userdat.c for a valid configuration; a NULL program allows all.\<close>

definition sbbs_chk_ar ::
  "scfg \<Rightarrow> world \<Rightarrow> byte list option \<Rightarrow> user_t \<Rightarrow> client_t option \<Rightarrow> ar_seen \<Rightarrow> (bool \<times> ar_seen) option" where
  "sbbs_chk_ar cfg w ar u cl st = (case ar of None \<Rightarrow> Some (True, st)
     | Some code \<Rightarrow> map_option (\<lambda>(r, p, st1). (r, st1)) (ar_exp (w_draw w) (sbbs_test cfg w u cl) code 0 st))"

definition chk_ar ::
  "scfg option \<Rightarrow> world \<Rightarrow> byte list option \<Rightarrow> user_t option \<Rightarrow> client_t option \<Rightarrow> ar_seen \<Rightarrow> (bool \<times> ar_seen) option" where
  "chk_ar cfg w ar u cl st = (case ar of None \<Rightarrow> Some (True, st) | Some code \<Rightarrow>
     (case cfg of None \<Rightarrow> Some (False, st)
      | Some c \<Rightarrow> map_option (\<lambda>(r, p, st1). (r, st1)) (ar_exp (w_draw w) (userdat_test c w u cl) code 0 st)))"

declare ar_loop.simps [code]

section \<open>Every evaluation ends inside the buffer\<close>

lemma byte_at_less: "p < length ar \<Longrightarrow> byte_at ar p = Some (ar ! p)"
  by (simp add: byte_at_def)

text \<open>Code followed by at least three zero bytes, as the compiler's buffers are.\<close>

definition padded :: "byte list \<Rightarrow> nat \<Rightarrow> bool" where
  "padded ar k \<longleftrightarrow> k + 3 \<le> length ar \<and> (\<forall>j. k \<le> j \<and> j < length ar \<longrightarrow> ar ! j = 0)"

lemma ar_flag_at:
  assumes "padded ar k" "p \<le> k" "f \<noteq> 0"
  shows "\<exists>b q. ar_flag ar f p = Some (b, q) \<and> p \<le> q \<and> q \<le> k \<and> (b \<longrightarrow> p < q)"
proof (cases "p < k")
  case True
  then show ?thesis using assms by (auto simp: ar_flag_def byte_at_def padded_def)
next
  case False
  then have "p = k" "ar ! k = 0" "k < length ar" using assms by (auto simp: padded_def)
  then show ?thesis using assms(3) by (auto simp: ar_flag_def byte_at_def)
qed

lemma ar_prefix_at:
  assumes "padded ar k" "p \<le> k"
  obtains alt nt eq q where "ar_prefix ar p = Some (alt, nt, eq, q)" "p \<le> q" "q \<le> k"
proof -
  obtain b1 q1 where 1: "ar_flag ar AR_OR p = Some (b1, q1)" "p \<le> q1" "q1 \<le> k"
    using ar_flag_at [OF assms(1), of p AR_OR] assms(2) by auto
  obtain b2 q2 where 2: "ar_flag ar AR_NOT q1 = Some (b2, q2)" "q1 \<le> q2" "q2 \<le> k"
    using ar_flag_at [OF assms(1), of q1 AR_NOT] 1 by auto
  obtain b3 q3 where 3: "ar_flag ar AR_EQUAL q2 = Some (b3, q3)" "q2 \<le> q3" "q3 \<le> k"
    using ar_flag_at [OF assms(1), of q2 AR_EQUAL] 2 by auto
  show ?thesis by (rule that [of b1 b2 b3 q3]) (use 1 2 3 in \<open>simp_all add: ar_prefix_def\<close>)
qed

lemma takeWhile_stop: "j < length xs \<Longrightarrow> \<not> P (xs ! j) \<Longrightarrow> length (takeWhile P xs) \<le> j"
proof (induction xs arbitrary: j)
  case (Cons x xs)
  then show ?case by (cases j) auto
qed simp

lemma ar_skip_nest_at:
  assumes "padded ar k" "p \<le> k + 2"
  obtains q where "ar_skip_nest ar p = Some q" "p \<le> q" "q \<le> k + 2" "q < length ar" "ar ! q = AR_NULL \<or> ar ! q = AR_ENDNEST"
    "ar ! q = AR_ENDNEST \<longrightarrow> q < k"
proof -
  let ?P = "\<lambda>c :: byte. c \<noteq> AR_ENDNEST \<and> c \<noteq> AR_NULL"
  define m where "m = length (takeWhile ?P (drop p ar))"
  have "max p k < length ar" "ar ! max p k = 0" using assms by (auto simp: padded_def)
  then have z: "drop p ar ! (max p k - p) = 0" "max p k - p < length (drop p ar)" by (simp_all add: less_diff_conv)
  have m: "m \<le> max p k - p" unfolding m_def by (rule takeWhile_stop) (use z in auto)
  then have l: "p + m < length ar" using z(2) by simp
  have "\<not> ?P (drop p ar ! m)" using nth_length_takeWhile [of ?P "drop p ar"] l by (simp add: m_def)
  then have e: "ar ! (p + m) = AR_NULL \<or> ar ! (p + m) = AR_ENDNEST" using l by auto
  have "p + m < k" if "ar ! (p + m) = AR_ENDNEST"
    using that assms(1) l by (fastforce simp: padded_def not_less [symmetric])
  then show ?thesis using m l e assms(2) by (intro that [of "p + m"]) (auto simp: ar_skip_nest_def m_def [symmetric])
qed

lemma string_at_padded:
  assumes "padded ar k" "p \<le> k"
  obtains arg where "string_at ar p = Some arg" "p + length arg \<le> k"
proof -
  have z: "drop p ar ! (k - p) = 0" "k - p < length (drop p ar)" using assms by (auto simp: padded_def)
  have "length (takeWhile (\<lambda>c. c \<noteq> 0) (drop p ar)) \<le> k - p" by (rule takeWhile_stop) (use z in auto)
  moreover have "0 \<in> set (drop p ar)" using z by (metis nth_mem)
  ultimately show ?thesis using assms(2) by (intro that [of "cstr (drop p ar)"]) (auto simp: string_at_def cstr_def)
qed

lemma ar_item_at:
  assumes "padded ar k" "p \<le> k"
  obtains r q st' where "ar_item draw test ar p nt eq result st = Some (r, q, st')" "p \<le> q" "q \<le> k + 1"
proof -
  have t: "byte_at ar p = Some (ar ! p)" using assms by (auto simp: byte_at_def padded_def)
  let ?p1 = "if ar_no_arg (ar ! p) then p else p + 1"
  have nz: "p < k" if "ar ! p \<noteq> 0" using that assms by (cases "p = k") (auto simp: padded_def)
  have s: "ar_string_arg (Some (ar ! p)) \<Longrightarrow> p < k" "ar_short_arg (ar ! p) \<Longrightarrow> p < k"
    using nz by (auto simp: ar_string_arg_def ar_short_arg_def)
  have "\<exists>arg. (if ar_string_arg (Some (ar ! p)) then string_at ar ?p1 else Some []) = Some arg \<and> ?p1 + length arg \<le> k + 1"
  proof (cases "ar_string_arg (Some (ar ! p))")
    case True
    obtain arg where "string_at ar ?p1 = Some arg" "?p1 + length arg \<le> k"
      by (rule string_at_padded [OF assms(1), of ?p1]) (use s(1) [OF True] in auto)
    then show ?thesis using True by auto
  qed (use assms(2) in auto)
  then obtain arg where arg: "(if ar_string_arg (Some (ar ! p)) then string_at ar ?p1 else Some []) = Some arg"
    "?p1 + length arg \<le> k + 1" by blast
  let ?q = "if ar_short_arg (ar ! p) then ?p1 + 1 else ?p1 + length arg"
  have q: "p \<le> ?q" "?q \<le> k + 1" using s(2) arg(2) by auto
  have n: "byte_at ar ?p1 = Some (ar ! ?p1)" "short_at ar ?p1 = Some (scast (un_le16 [ar ! ?p1, ar ! (?p1 + 1)]))"
    using assms by (auto simp: byte_at_def short_at_def padded_def)
  define v where "v = test (ar ! p) eq (unat (ar ! ?p1)) (scast (un_le16 [ar ! ?p1, ar ! (?p1 + 1)])) arg (draw (drawn st))"
  obtain r st' where "ar_item draw test ar p nt eq result st = Some (r, ?q, st')"
    unfolding ar_item_def t n arg(1) bind.bind_lunit Let_def v_def [symmetric]
    by (cases v) (auto split: prod.splits)
  then show ?thesis using q by (rule that)
qed

lemma ar_loop_at:
  assumes pad: "padded ar k" and "p \<le> k + 2"
  shows "\<exists>r q st'. ar_loop draw test ar p result st = Some (r, q, st') \<and> p \<le> q \<and> q \<le> k + 2"
  using assms(2)
proof (induction "k + 3 - p" arbitrary: p result st rule: less_induct)
  case less
  have IH: "\<exists>r q' st'. ar_loop draw test ar q res s = Some (r, q', st') \<and> q \<le> q' \<and> q' \<le> k + 2"
    if "p < q" "q \<le> k + 2" for q res s
    by (rule less.hyps) (use that in auto)
  have c: "byte_at ar p = Some (ar ! p)" using pad less.prems by (auto simp: byte_at_def padded_def)
  show ?case
  proof (cases "ar ! p = AR_NULL \<or> ar ! p = AR_ENDNEST")
    case True
    then show ?thesis using c less.prems by (subst ar_loop.simps) auto
  next
    case False
    then have pk: "p < k" using pad less.prems by (cases "k \<le> p") (auto simp: padded_def)
    obtain alt nt eq p1 where p1: "ar_prefix ar p = Some (alt, nt, eq, p1)" "p \<le> p1" "p1 \<le> k"
      by (rule ar_prefix_at [OF pad, of p]) (use pk in auto)
    show ?thesis
    proof (cases "result \<and> alt \<or> \<not> result \<and> \<not> alt")
      case True
      then show ?thesis using c False p1 by (subst ar_loop.simps) auto
    next
      case go: False
      have c1: "byte_at ar p1 = Some (ar ! p1)" using pad p1(3) by (auto simp: byte_at_def padded_def)
      show ?thesis
      proof (cases "ar ! p1 = AR_BEGNEST")
        case nest: True
        then have "p1 < k" using pad p1(3) by (cases "p1 = k") (auto simp: padded_def)
        then obtain r2 p2 st2 where 2: "ar_loop draw test ar (p1 + 1) True st = Some (r2, p2, st2)" "p1 + 1 \<le> p2" "p2 \<le> k + 2"
          using IH [of "p1 + 1" True st] p1(2) by auto
        obtain p3 where 3: "ar_skip_nest ar p2 = Some p3" "p2 \<le> p3" "p3 \<le> k + 2" "p3 < length ar"
          "ar ! p3 = AR_NULL \<or> ar ! p3 = AR_ENDNEST" "ar ! p3 = AR_ENDNEST \<longrightarrow> p3 < k"
          by (rule ar_skip_nest_at [OF pad 2(3)])
        show ?thesis
        proof (cases "ar ! p3 = AR_NULL")
          case True
          then show ?thesis using c False p1 go c1 nest 2 3 by (subst ar_loop.simps) simp
        next
          case stop: False
          then have "p3 < k" using 3(5,6) by blast
          then obtain r4 p4 st4 where 4: "ar_loop draw test ar (p3 + 1) (r2 \<noteq> nt) st2 = Some (r4, p4, st4)" "p3 + 1 \<le> p4" "p4 \<le> k + 2"
            using IH [of "p3 + 1" "r2 \<noteq> nt" st2] p1(2) 2(2) 3(2) by auto
          show ?thesis using c False p1 go c1 nest 2 3 stop 4 by (subst ar_loop.simps) simp
        qed
      next
        case item: False
        obtain r2 p2 st2 where 2: "ar_item draw test ar p1 nt eq result st = Some (r2, p2, st2)" "p1 \<le> p2" "p2 \<le> k + 1"
          by (rule ar_item_at [OF pad p1(3)])
        then obtain r4 p4 st4 where 4: "ar_loop draw test ar (p2 + 1) r2 st2 = Some (r4, p4, st4)" "p2 + 1 \<le> p4" "p4 \<le> k + 2"
          using IH [of "p2 + 1" r2 st2] p1(2) by auto
        show ?thesis using c False p1 go c1 item 2 4 by (subst ar_loop.simps) simp
      qed
    qed
  qed
qed

text \<open>
  Whatever the bytes of a program are, evaluating it in a buffer with the padding that \<open>arstr\<close>
  gives it returns and never reads outside the buffer, in both evaluators.
\<close>

theorem chk_ar_returns:
  "(\<exists>r st1. sbbs_chk_ar cfg w (Some (code @ replicate 5 0)) u cl st = Some (r, st1))
    \<and> (\<exists>r st1. chk_ar (Some cfg) w (Some (code @ replicate 5 0)) uo cl st = Some (r, st1))"
proof -
  have "padded (code @ replicate 5 0) (length code)"
    by (auto simp: padded_def nth_append)
  then have "\<exists>r q st1. ar_loop draw test (code @ replicate 5 0) 0 True st = Some (r, q, st1)" for draw test
    using ar_loop_at [of "code @ replicate 5 0" "length code" 0 draw test True st] by auto
  then show ?thesis by (fastforce simp: sbbs_chk_ar_def chk_ar_def ar_exp_def)
qed

end
