(* ===== verification/ArsMeaning.thy ===== *)
theory ArsMeaning
  imports ArsEval
begin

text \<open>
  What access requirements mean: requirements as syntax trees, the code they stand for and their
  truth value. AND and OR have the same rank and group to the right. Both evaluators compute
  this truth value, as long as no byte in a parenthesis can be taken for its end.
\<close>

section \<open>Requirements\<close>

text \<open>A test with NOT, EQUAL, its type and operand, or a parenthesis with NOT.\<close>

datatype ar_expr = Test bool bool byte "byte list" | Nest bool ar_seq
  and ar_seq = Last | Item bool ar_expr ar_seq

definition opt_byte :: "bool \<Rightarrow> byte \<Rightarrow> byte list" where
  "opt_byte b c = (if b then [c] else [])"

primrec expr_code :: "ar_expr \<Rightarrow> byte list" and seq_code :: "ar_seq \<Rightarrow> byte list" where
  "expr_code (Test nt eq t arg) = opt_byte nt AR_NOT @ opt_byte eq AR_EQUAL @ t # arg"
| "expr_code (Nest nt es) = opt_byte nt AR_NOT @ AR_BEGNEST # seq_code es @ [AR_ENDNEST]"
| "seq_code Last = []"
| "seq_code (Item alt e es) = opt_byte alt AR_OR @ expr_code e @ seq_code es"

text \<open>The truth value, given which tests are met.\<close>

primrec expr_true :: "(byte \<Rightarrow> bool \<Rightarrow> byte list \<Rightarrow> bool) \<Rightarrow> ar_expr \<Rightarrow> bool"
  and seq_true :: "(byte \<Rightarrow> bool \<Rightarrow> byte list \<Rightarrow> bool) \<Rightarrow> ar_seq \<Rightarrow> bool" where
  "expr_true met (Test nt eq t arg) \<longleftrightarrow> met t eq arg \<noteq> nt"
| "expr_true met (Nest nt es) \<longleftrightarrow> seq_true met es \<noteq> nt"
| "seq_true met Last \<longleftrightarrow> True"
| "seq_true met (Item alt e es) \<longleftrightarrow> (case es of Last \<Rightarrow> expr_true met e
     | Item alt1 e1 es1 \<Rightarrow> if alt1 then expr_true met e \<or> seq_true met es else expr_true met e \<and> seq_true met es)"

text \<open>
  The operand of a test as the evaluators read it: nothing, a byte n, a short i, or a string. A
  RANDOM test has no truth value of its own.
\<close>

definition ar_operand :: "byte \<Rightarrow> byte list \<Rightarrow> nat \<Rightarrow> u32 \<Rightarrow> byte list \<Rightarrow> bool" where
  "ar_operand t arg n i str \<longleftrightarrow> 6 \<le> unat t \<and> unat t \<le> 64 \<and> t \<noteq> AR_RANDOM
     \<and> (if ar_no_arg t then arg = []
        else if ar_short_arg t then length arg = 2 \<and> i = scast (un_le16 arg)
        else if ar_string_arg (Some t) then arg = str @ [0] \<and> 0 \<notin> set str
        else \<exists>c. arg = [c] \<and> n = unat c)"

text \<open>
  Inside a parenthesis only the first item may hold the bytes 0 and 5: an evaluator that leaves it
  early searches for the end byte by byte.
\<close>

definition seq_head :: "ar_seq \<Rightarrow> bool" where
  "seq_head es \<longleftrightarrow> (case es of Last \<Rightarrow> True | Item alt e es1 \<Rightarrow> \<not> alt)"

definition seq_rest :: "ar_seq \<Rightarrow> byte list" where
  "seq_rest es = (case es of Last \<Rightarrow> [] | Item alt e es1 \<Rightarrow> seq_code es1)"

primrec expr_ok :: "ar_expr \<Rightarrow> bool" and seq_ok :: "ar_seq \<Rightarrow> bool" where
  "expr_ok (Test nt eq t arg) \<longleftrightarrow> (\<exists>n i str. ar_operand t arg n i str)"
| "expr_ok (Nest nt es) \<longleftrightarrow> seq_head es \<and> seq_ok es \<and> AR_NULL \<notin> set (seq_rest es) \<and> AR_ENDNEST \<notin> set (seq_rest es)"
| "seq_ok Last \<longleftrightarrow> True"
| "seq_ok (Item alt e es) \<longleftrightarrow> expr_ok e \<and> seq_ok es"

section \<open>Reading an item\<close>

lemma ar_flag_opt:
  assumes "c \<noteq> f"
  shows "ar_flag (pre @ opt_byte b f @ c # rest) f (length pre) = Some (b, length pre + (if b then 1 else 0))"
  using assms by (simp add: ar_flag_def byte_at_def opt_byte_def nth_append)

lemma ar_prefix_opt:
  assumes "c \<notin> {AR_OR, AR_NOT, AR_EQUAL}"
  shows "ar_prefix (pre @ opt_byte alt AR_OR @ opt_byte nt AR_NOT @ opt_byte eq AR_EQUAL @ c # rest) (length pre)
    = Some (alt, nt, eq, length (pre @ opt_byte alt AR_OR @ opt_byte nt AR_NOT @ opt_byte eq AR_EQUAL))"
  using assms by (auto simp: ar_prefix_def ar_flag_def byte_at_def opt_byte_def nth_append)

lemma nth_middle: "(xs @ y # ys) ! length xs = y" "length xs < length (xs @ y # ys)"
  by simp_all

lemma ar_operand_type: "ar_operand t arg n i str \<Longrightarrow> t \<notin> {AR_NULL, AR_OR, AR_NOT, AR_EQUAL, AR_BEGNEST, AR_ENDNEST}"
  by (auto simp: ar_operand_def)

lemma cstr_upto: "0 \<notin> set s \<Longrightarrow> cstr (s @ 0 # r) = s"
  by (induction s) (auto simp: cstr_def)

text \<open>Where the operand of a test lies.\<close>

lemma ar_item_operand:
  assumes op: "ar_operand t arg n i str" and rest: "rest \<noteq> []"
  obtains n1 i1 s1 where "ar_operand t arg n1 i1 s1"
    "ar_item draw test (pre @ t # arg @ rest) (length pre) nt eq result st
     = Some (case test t eq n1 i1 s1 (draw (drawn st)) of None \<Rightarrow> (result, length pre + length arg, st)
       | Some (ok, why) \<Rightarrow>
           (ok \<noteq> nt, length pre + length arg,
            if ok \<noteq> nt then st
            else case why of None \<Rightarrow> st
                 | Some (str, val) \<Rightarrow> st\<lparr>noaccess_str := Some str,
                     noaccess_val := (case val of None \<Rightarrow> noaccess_val st | Some v \<Rightarrow> v)\<rparr>))"
proof -
  let ?ar = "pre @ t # arg @ rest" and ?p = "length pre"
  have t: "byte_at ?ar ?p = Some t" by (simp add: byte_at_def)
  have r: "t \<noteq> AR_RANDOM" using op by (simp add: ar_operand_def)
  define p1 where "p1 = (if ar_no_arg t then ?p else ?p + 1)"
  consider (no) "ar_no_arg t" "arg = []" "\<not> ar_short_arg t" "\<not> ar_string_arg (Some t)"
    | (sh) a b where "\<not> ar_no_arg t" "ar_short_arg t" "\<not> ar_string_arg (Some t)" "arg = [a, b]"
    | (st) "\<not> ar_no_arg t" "\<not> ar_short_arg t" "ar_string_arg (Some t)" "arg = str @ [0]" "0 \<notin> set str"
    | (one) c where "\<not> ar_no_arg t" "\<not> ar_short_arg t" "\<not> ar_string_arg (Some t)" "arg = [c]"
  proof -
    have "ar_no_arg t \<Longrightarrow> \<not> ar_short_arg t \<and> \<not> ar_string_arg (Some t)" "ar_short_arg t \<Longrightarrow> \<not> ar_string_arg (Some t)"
      by (auto simp: ar_no_arg_def ar_short_arg_def ar_string_arg_def)
    then show ?thesis using op no sh st one by (auto simp: ar_operand_def length_Suc_conv numeral_2_eq_2 split: if_splits)
  qed
  then have "\<exists>c1 i1 s1. ar_operand t arg (unat c1) i1 s1 \<and> byte_at ?ar p1 = Some c1 \<and> short_at ?ar p1 = Some i1
      \<and> (if ar_string_arg (Some t) then string_at ?ar p1 else Some []) = Some s1
      \<and> (if ar_short_arg t then p1 + 1 else p1 + length s1) = ?p + length arg"
  proof cases
    case no
    obtain b bs where "rest = b # bs" using rest by (cases rest) auto
    then show ?thesis using op no
      by (intro exI [of _ t] exI [of _ "scast (un_le16 [t, b])"] exI [of _ "[]"])
        (auto simp: p1_def ar_operand_def byte_at_def short_at_def nth_append)
  next
    case (sh a b)
    show ?thesis using op sh
      by (intro exI [of _ a] exI [of _ "scast (un_le16 [a, b])"] exI [of _ "[]"])
        (auto simp: p1_def ar_operand_def byte_at_def short_at_def nth_append)
  next
    case st
    obtain b bs where b: "str @ 0 # rest = b # bs" "bs \<noteq> []" using rest by (cases str) auto
    have d: "drop (?p + 1) ?ar = str @ 0 # rest" using st by simp
    have "string_at ?ar (?p + 1) = Some str" using st(5) unfolding string_at_def d by (simp add: cstr_upto)
    moreover have "byte_at ?ar (?p + 1) = Some b" "short_at ?ar (?p + 1) = Some (scast (un_le16 [b, hd bs]))"
      using b st(4) by (auto simp: byte_at_def short_at_def nth_append hd_conv_nth)
    ultimately show ?thesis using op st
      by (intro exI [of _ b] exI [of _ "scast (un_le16 [b, hd bs])"] exI [of _ str]) (simp add: p1_def ar_operand_def)
  next
    case (one c)
    obtain b bs where "rest = b # bs" using rest by (cases rest) auto
    then show ?thesis using op one
      by (intro exI [of _ c] exI [of _ "scast (un_le16 [c, b])"] exI [of _ "[]"])
        (auto simp: p1_def ar_operand_def byte_at_def short_at_def nth_append)
  qed
  then obtain c1 i1 s1 where o: "ar_operand t arg (unat c1) i1 s1" and c1: "byte_at ?ar p1 = Some c1" "short_at ?ar p1 = Some i1"
    "(if ar_string_arg (Some t) then string_at ?ar p1 else Some []) = Some s1"
    "(if ar_short_arg t then p1 + 1 else p1 + length s1) = ?p + length arg" by blast
  show ?thesis
    by (rule that [OF o]) (simp only: ar_item_def t r bind.bind_lunit Let_def p1_def [symmetric] c1 if_False)
qed

text \<open>One round of the walk, at an end byte and at an item.\<close>

lemma loop_stop:
  assumes "c = AR_NULL \<or> c = AR_ENDNEST"
  shows "ar_loop draw test (pre @ c # post) (length pre) r st = Some (r, length pre, st)"
  using assms by (subst ar_loop.simps) (auto simp: byte_at_def)

lemma loop_item:
  assumes c: "c \<notin> {AR_NULL, AR_OR, AR_NOT, AR_EQUAL, AR_ENDNEST}"
    and pre1: "pre1 = pre @ opt_byte alt AR_OR @ opt_byte nt AR_NOT @ opt_byte eq AR_EQUAL"
  shows "ar_loop draw test (pre1 @ c # rest) (length pre) r st =
    (if r = alt then Some (r, length pre1, st)
     else if c = AR_BEGNEST
     then Option.bind (ar_loop draw test (pre1 @ c # rest) (length pre1 + 1) True st) (\<lambda>(b, p2, st2).
       case ar_skip_nest (pre1 @ c # rest) p2 of None \<Rightarrow> None | Some p3 \<Rightarrow>
         if (pre1 @ c # rest) ! p3 = AR_NULL then Some (b \<noteq> nt, p3, st2)
         else ar_loop draw test (pre1 @ c # rest) (p3 + 1) (b \<noteq> nt) st2)
     else (case ar_item draw test (pre1 @ c # rest) (length pre1) nt eq r st of None \<Rightarrow> None | Some (b, p2, st2) \<Rightarrow>
       ar_loop draw test (pre1 @ c # rest) (p2 + 1) b st2))"
proof -
  have h: "byte_at (pre1 @ c # rest) (length pre) = Some d \<Longrightarrow> d \<noteq> AR_NULL \<and> d \<noteq> AR_ENDNEST" for d
    using c by (cases alt; cases nt; cases eq) (auto simp: pre1 byte_at_def opt_byte_def nth_append)
  have l: "byte_at (pre1 @ c # rest) (length pre) \<noteq> None" by (simp add: pre1 byte_at_def)
  have p: "ar_prefix (pre1 @ c # rest) (length pre) = Some (alt, nt, eq, length pre1)"
    using ar_prefix_opt [of c pre alt nt eq rest] c by (simp add: pre1)
  have b: "byte_at (pre1 @ c # rest) (length pre1) = Some c" by (simp add: byte_at_def)
  obtain d where d: "byte_at (pre1 @ c # rest) (length pre) = Some d" "d \<noteq> AR_NULL" "d \<noteq> AR_ENDNEST"
    using h l by auto
  have e: "r \<and> alt \<or> \<not> r \<and> \<not> alt \<longleftrightarrow> r = alt" by auto
  show ?thesis
    by (subst ar_loop.simps) (simp only: d p b e option.case prod.case simp_thms if_False)
qed

lemma skip_nest_clean:
  assumes "AR_NULL \<notin> set B" "AR_ENDNEST \<notin> set B" "length A \<le> q" "q \<le> length (A @ B)"
  shows "ar_skip_nest (A @ B @ AR_ENDNEST # R) q = Some (length (A @ B))"
proof -
  have d: "drop q (A @ B @ AR_ENDNEST # R) = drop (q - length A) B @ AR_ENDNEST # R"
    using assms(3,4) by simp
  have "\<forall>c \<in> set (drop (q - length A) B). c \<noteq> AR_ENDNEST \<and> c \<noteq> AR_NULL"
    using assms(1,2) by (metis in_set_dropD)
  then have "takeWhile (\<lambda>c. c \<noteq> AR_ENDNEST \<and> c \<noteq> AR_NULL) (drop (q - length A) B @ AR_ENDNEST # R) = drop (q - length A) B"
    by (subst takeWhile_append2) auto
  then show ?thesis unfolding ar_skip_nest_def d using assms(3,4) by (simp add: Let_def)
qed

lemma seq_code_rest: "\<exists>H. seq_code es = H @ seq_rest es"
  by (cases es) (auto simp: seq_rest_def)

section \<open>The contract of the tests\<close>

text \<open>The value of a sequence when the items before it gave r: the next item counts unless it is decided.\<close>

primrec seq_after :: "(byte \<Rightarrow> bool \<Rightarrow> byte list \<Rightarrow> bool) \<Rightarrow> bool \<Rightarrow> ar_seq \<Rightarrow> bool" where
  "seq_after met r Last \<longleftrightarrow> r"
| "seq_after met r (Item alt e es) \<longleftrightarrow> (if r = alt then r else seq_after met (expr_true met e) es)"

lemma ar_seq_list_induct [case_names Last Item]:
  "P Last \<Longrightarrow> (\<And>alt e es. P es \<Longrightarrow> P (Item alt e es)) \<Longrightarrow> P es"
  using ar_seq.induct [of "\<lambda>_. True" P es] by blast

lemma seq_after_true: "seq_head es \<Longrightarrow> seq_after met True es = seq_true met es"
proof -
  have "seq_after met (expr_true met e) es = seq_true met (Item alt e es)" for alt e es
    by (induction es arbitrary: alt e rule: ar_seq_list_induct) auto
  then show "seq_head es \<Longrightarrow> seq_after met True es = seq_true met es"
    by (cases es) (auto simp: seq_head_def)
qed

lemma expr_code_nonempty: "expr_code e \<noteq> []"
  by (cases e) auto

locale ar_tests =
  fixes test :: ar_test and met :: "byte \<Rightarrow> bool \<Rightarrow> byte list \<Rightarrow> bool"
  assumes test_met: "ar_operand t arg n i str \<Longrightarrow> \<exists>why. test t eq n i str d = Some (met t eq arg, why)"
begin

lemma item_test:
  assumes "expr_ok (Test nt eq t arg)" "rest \<noteq> []"
  shows "\<exists>st1. ar_item draw test (pre @ t # arg @ rest) (length pre) nt eq result st
    = Some (expr_true met (Test nt eq t arg), length pre + length arg, st1)"
proof -
  obtain n i str where op: "ar_operand t arg n i str" using assms(1) by auto
  obtain n1 i1 s1 where o: "ar_operand t arg n1 i1 s1" and run:
    "ar_item draw test (pre @ t # arg @ rest) (length pre) nt eq result st
     = Some (case test t eq n1 i1 s1 (draw (drawn st)) of None \<Rightarrow> (result, length pre + length arg, st)
       | Some (ok, why) \<Rightarrow>
           (ok \<noteq> nt, length pre + length arg,
            if ok \<noteq> nt then st
            else case why of None \<Rightarrow> st
                 | Some (str, val) \<Rightarrow> st\<lparr>noaccess_str := Some str,
                     noaccess_val := (case val of None \<Rightarrow> noaccess_val st | Some v \<Rightarrow> v)\<rparr>))"
    by (rule ar_item_operand [OF op assms(2)])
  from test_met [OF o] obtain why where "test t eq n1 i1 s1 (draw (drawn st)) = Some (met t eq arg, why)" by blast
  then show ?thesis unfolding run by (cases why) auto
qed

text \<open>
  The walk over a sequence that ends with an end byte c: its result, and where it stops, at c or,
  when it is decided before, not before the second item.
\<close>

lemma loop_seq:
  assumes "seq_ok es" "c = AR_NULL \<or> c = AR_ENDNEST"
  shows "\<exists>q st1. ar_loop draw test (pre @ seq_code es @ c # post) (length pre) r st
      = Some (seq_after met r es, q, st1)
    \<and> length pre \<le> q \<and> q \<le> length (pre @ seq_code es)
    \<and> (r \<noteq> (case es of Last \<Rightarrow> False | Item alt e es1 \<Rightarrow> alt) \<longrightarrow> length (pre @ seq_code es) - length (seq_rest es) \<le> q)"
  using assms
proof (induction "length (seq_code es)" arbitrary: es pre c post r st rule: less_induct)
  case less
  show ?case
  proof (cases es)
    case Last
    then show ?thesis using loop_stop [OF less.prems(2)] by (simp add: seq_rest_def)
  next
    case es: (Item alt e es1)
    let ?rest = "seq_code es1 @ c # post"
    have ok: "expr_ok e" "seq_ok es1" using less.prems(1) es by simp_all
    have less1: "length (seq_code es1) < length (seq_code es)" using expr_code_nonempty [of e] es by simp
    show ?thesis
    proof (cases e)
      case e: (Test nt eq t arg)
      define pre1 where "pre1 = pre @ opt_byte alt AR_OR @ opt_byte nt AR_NOT @ opt_byte eq AR_EQUAL"
      have ar: "pre @ seq_code es @ c # post = pre1 @ t # arg @ ?rest" by (simp add: es e pre1_def)
      have t: "t \<notin> {AR_NULL, AR_OR, AR_NOT, AR_EQUAL, AR_BEGNEST, AR_ENDNEST}"
        using ok(1) ar_operand_type [of t arg] unfolding e expr_ok.simps by blast
      have len: "length (pre @ seq_code es) = length (pre1 @ t # arg) + length (seq_code es1)" "length pre \<le> length pre1"
        by (simp_all add: es e pre1_def)
      show ?thesis
      proof (cases "r = alt")
        case True
        then show ?thesis using loop_item [OF _ pre1_def, of t draw test "arg @ ?rest" r st] t len
          unfolding ar by (simp add: es)
      next
        case False
        obtain st1 where 1: "ar_item draw test (pre1 @ t # arg @ ?rest) (length pre1) nt eq r st
            = Some (expr_true met e, length pre1 + length arg, st1)"
          using item_test [OF ok(1) [unfolded e], of ?rest draw pre1 r st] e by auto
        obtain q st2 where 2: "ar_loop draw test ((pre1 @ t # arg) @ ?rest) (length (pre1 @ t # arg)) (expr_true met e) st1
            = Some (seq_after met (expr_true met e) es1, q, st2)" "length (pre1 @ t # arg) \<le> q"
          "q \<le> length ((pre1 @ t # arg) @ seq_code es1)"
          using less.hyps [OF less1 ok(2) less.prems(2), of "pre1 @ t # arg" post "expr_true met e" st1] by blast
        have "ar_loop draw test (pre1 @ t # arg @ ?rest) (length pre) r st = Some (seq_after met r es, q, st2)"
          using loop_item [OF _ pre1_def, of t draw test "arg @ ?rest" r st] t False 1 2(1) by (simp add: es)
        then show ?thesis unfolding ar using 2(2,3) len by (simp add: es seq_rest_def)
      qed
    next
      case e: (Nest nt es')
      define pre1 where "pre1 = pre @ opt_byte alt AR_OR @ opt_byte nt AR_NOT @ opt_byte False AR_EQUAL"
      let ?A = "pre1 @ AR_BEGNEST # seq_code es'"
      have ar: "pre @ seq_code es @ c # post = pre1 @ AR_BEGNEST # seq_code es' @ AR_ENDNEST # ?rest"
        by (simp add: es e pre1_def opt_byte_def)
      have len: "length (pre @ seq_code es) = length ?A + 1 + length (seq_code es1)" "length pre \<le> length pre1"
        by (simp_all add: es e pre1_def opt_byte_def)
      show ?thesis
      proof (cases "r = alt")
        case True
        then show ?thesis using loop_item [OF _ pre1_def, of AR_BEGNEST draw test "seq_code es' @ AR_ENDNEST # ?rest" r st] len
          unfolding ar by (simp add: es)
      next
        case False
        have ok': "seq_ok es'" "seq_head es'" "AR_NULL \<notin> set (seq_rest es')" "AR_ENDNEST \<notin> set (seq_rest es')"
          using ok(1) e by simp_all
        have less': "length (seq_code es') < length (seq_code es)" using es e by simp
        obtain q1 st1 where 1: "ar_loop draw test ((pre1 @ [AR_BEGNEST]) @ seq_code es' @ AR_ENDNEST # ?rest) (length (pre1 @ [AR_BEGNEST])) True st
            = Some (seq_after met True es', q1, st1)" "q1 \<le> length ((pre1 @ [AR_BEGNEST]) @ seq_code es')"
          "length ((pre1 @ [AR_BEGNEST]) @ seq_code es') - length (seq_rest es') \<le> q1"
          using less.hyps [OF less' ok'(1), of AR_ENDNEST "pre1 @ [AR_BEGNEST]" ?rest True st] ok'(2)
          by (auto simp: seq_head_def split: ar_seq.splits)
        obtain H where H: "seq_code es' = H @ seq_rest es'" using seq_code_rest by blast
        have sk: "ar_skip_nest (pre1 @ AR_BEGNEST # seq_code es' @ AR_ENDNEST # ?rest) q1 = Some (length ?A)"
          using skip_nest_clean [OF ok'(3,4), of "pre1 @ AR_BEGNEST # H" q1 ?rest] 1(2,3) by (simp add: H)
        have at: "(pre1 @ AR_BEGNEST # seq_code es' @ AR_ENDNEST # ?rest) ! length ?A = AR_ENDNEST"
          using nth_append_length [of ?A AR_ENDNEST ?rest] by simp
        obtain q st2 where 2: "ar_loop draw test ((?A @ [AR_ENDNEST]) @ ?rest) (length (?A @ [AR_ENDNEST])) (expr_true met e) st1
            = Some (seq_after met (expr_true met e) es1, q, st2)" "length (?A @ [AR_ENDNEST]) \<le> q"
          "q \<le> length ((?A @ [AR_ENDNEST]) @ seq_code es1)"
          using less.hyps [OF less1 ok(2) less.prems(2), of "?A @ [AR_ENDNEST]" post "expr_true met e" st1] by blast
        have v: "expr_true met e = (seq_after met True es' \<noteq> nt)" using seq_after_true [OF ok'(2)] e by simp
        have "ar_loop draw test (pre1 @ AR_BEGNEST # seq_code es' @ AR_ENDNEST # ?rest) (length pre) r st = Some (seq_after met r es, q, st2)"
          using loop_item [OF _ pre1_def, of AR_BEGNEST draw test "seq_code es' @ AR_ENDNEST # ?rest" r st] False 1(1) 2(1) sk at v
          by (simp add: es)
        then show ?thesis unfolding ar using 2(2,3) len by (simp add: es seq_rest_def)
      qed
    qed
  qed
qed

text \<open>The evaluator computes the truth value of the requirement.\<close>

lemma exp_true:
  assumes "seq_ok es" "seq_head es"
  shows "\<exists>q st1. ar_exp draw test (seq_code es @ replicate 5 0) 0 st = Some (seq_true met es, q, st1)"
proof -
  have "replicate 5 (0 :: byte) = AR_NULL # replicate 4 0" by (simp add: numeral_eq_Suc)
  then show ?thesis
    using loop_seq [OF assms(1), of AR_NULL draw "[]" "replicate 4 0" True st] seq_after_true [OF assms(2)]
    by (auto simp: ar_exp_def)
qed

end

section \<open>The two evaluators\<close>

definition operand_n :: "byte list \<Rightarrow> nat" where "operand_n arg = unat (hd (arg @ [0]))"
definition operand_i :: "byte list \<Rightarrow> u32" where "operand_i arg = scast (un_le16 arg)"

definition met_of :: "ar_test \<Rightarrow> byte \<Rightarrow> bool \<Rightarrow> byte list \<Rightarrow> bool" where
  "met_of test t eq arg = fst (the (test t eq (operand_n arg) (operand_i arg) (butlast arg) (\<lambda>b. 0)))"

text \<open>The types with a byte operand are those that are left.\<close>

lemma op_range: "6 \<le> unat (t :: byte) \<Longrightarrow> unat t \<le> 64 \<Longrightarrow> t \<in> set [6, 7, 8, 9, 10, 11, 12, 13, 14, 15, 16, 17, 18, 19, 20, 21, 22, 23, 24, 25, 26, 27, 28, 29, 30, 31, 32, 33, 34, 35, 36, 37, 38, 39, 40, 41, 42, 43, 44, 45, 46, 47, 48, 49, 50, 51, 52, 53, 54, 55, 56, 57, 58, 59, 60, 61, 62, 63, 64]"
proof -
  assume "6 \<le> unat t" "unat t \<le> 64"
  then have "word_of_nat (unat t) \<in> (word_of_nat :: nat \<Rightarrow> byte) ` set [6..<65]"
    unfolding set_upt by (intro imageI) simp
  moreover have "(word_of_nat :: nat \<Rightarrow> byte) ` set [6..<65] = set [6, 7, 8, 9, 10, 11, 12, 13, 14, 15, 16, 17, 18, 19, 20, 21, 22, 23, 24, 25, 26, 27, 28, 29, 30, 31, 32, 33, 34, 35, 36, 37, 38, 39, 40, 41, 42, 43, 44, 45, 46, 47, 48, 49, 50, 51, 52, 53, 54, 55, 56, 57, 58, 59, 60, 61, 62, 63, 64]" by (simp add: upt_rec)
  moreover have "word_of_nat (unat t) = t" by simp
  ultimately show ?thesis by (simp only:)
qed

lemma byte_types:
  assumes "6 \<le> unat t" "unat t \<le> 64" "\<not> ar_no_arg t" "\<not> ar_short_arg t" "\<not> ar_string_arg (Some t)"
  shows "t \<in> {AR_LEVEL, AR_AGE, AR_NODE, AR_TLEFT, AR_TUSED, AR_PCR, AR_FLAG1, AR_FLAG2, AR_FLAG3, AR_FLAG4, AR_EXEMPT,
    AR_REST, AR_SEX, AR_UDR, AR_UDFR, AR_DAY}"
  using op_range [OF assms(1,2)] assms(3-5)
  by (auto simp: ar_no_arg_def ar_short_arg_def ar_string_arg_def)

lemmas sbbs_defs = sbbs_test_def first_some_def sbbs_limits_def sbbs_boolean_def sbbs_account_def sbbs_area_def
  sbbs_usage_def sbbs_ratio_def sbbs_flags_def sbbs_text_def

lemmas userdat_defs = userdat_test_def first_some_def userdat_limits_def userdat_boolean_def userdat_account_def
  userdat_area_def userdat_usage_def userdat_ratio_def userdat_flags_def userdat_text_def

text \<open>A test depends on the operand of its type only.\<close>

definition one_operand :: "ar_test \<Rightarrow> bool" where
  "one_operand test \<longleftrightarrow> (\<forall>t eq n n1 i i1 a a1 d d1.
     (ar_no_arg t \<or> ar_short_arg t \<and> t \<noteq> AR_RANDOM \<and> i = i1 \<or> ar_string_arg (Some t) \<and> a = a1
      \<or> t \<in> {AR_LEVEL, AR_AGE, AR_NODE, AR_TLEFT, AR_TUSED, AR_PCR, AR_FLAG1, AR_FLAG2, AR_FLAG3, AR_FLAG4, AR_EXEMPT,
          AR_REST, AR_SEX, AR_UDR, AR_UDFR, AR_DAY} \<and> n = n1)
     \<longrightarrow> (\<exists>why. test t eq n i a d = Some (fst (the (test t eq n1 i1 a1 d1)), why)))"

lemma one_operandI:
  assumes "\<And>t eq n n1 i i1 a a1 d d1. ar_no_arg t \<Longrightarrow> \<exists>why. test t eq n i a d = Some (fst (the (test t eq n1 i1 a1 d1)), why)"
    and "\<And>t eq n n1 i a a1 d d1. ar_short_arg t \<Longrightarrow> t \<noteq> AR_RANDOM \<Longrightarrow>
      \<exists>why. test t eq n i a d = Some (fst (the (test t eq n1 i a1 d1)), why)"
    and "\<And>t eq n n1 i i1 a d d1. ar_string_arg (Some t) \<Longrightarrow> \<exists>why. test t eq n i a d = Some (fst (the (test t eq n1 i1 a d1)), why)"
    and "\<And>t eq n i i1 a a1 d d1. t \<in> {AR_LEVEL, AR_AGE, AR_NODE, AR_TLEFT, AR_TUSED, AR_PCR, AR_FLAG1, AR_FLAG2, AR_FLAG3,
      AR_FLAG4, AR_EXEMPT, AR_REST, AR_SEX, AR_UDR, AR_UDFR, AR_DAY} \<Longrightarrow>
      \<exists>why. test t eq n i a d = Some (fst (the (test t eq n i1 a1 d1)), why)"
  shows "one_operand test"
  unfolding one_operand_def using assms by metis

lemma sbbs_one_operand: "one_operand (sbbs_test cfg w u cl)"
proof (rule one_operandI)
  fix t eq n n1 i i1 a a1 and d d1 :: "u32 \<Rightarrow> u32"
  let ?T = "sbbs_test cfg w u cl t eq"
  show "\<exists>why. ?T n i a d = Some (fst (the (?T n1 i1 a1 d1)), why)" if "ar_no_arg t"
    using that unfolding ar_no_arg_def by (elim insertE emptyE) (simp_all add: sbbs_defs)
  show "\<exists>why. ?T n i a d = Some (fst (the (?T n1 i a1 d1)), why)" if "ar_short_arg t" "t \<noteq> AR_RANDOM"
    using that unfolding ar_short_arg_def by (elim insertE emptyE) (simp_all add: sbbs_defs)
  show "\<exists>why. ?T n i a d = Some (fst (the (?T n1 i1 a d1)), why)" if "ar_string_arg (Some t)"
    using that unfolding ar_string_arg_def by (elim imageE insertE emptyE) (simp_all add: sbbs_defs)
  show "\<exists>why. ?T n i a d = Some (fst (the (?T n i1 a1 d1)), why)"
    if "t \<in> {AR_LEVEL, AR_AGE, AR_NODE, AR_TLEFT, AR_TUSED, AR_PCR, AR_FLAG1, AR_FLAG2, AR_FLAG3,
      AR_FLAG4, AR_EXEMPT, AR_REST, AR_SEX, AR_UDR, AR_UDFR, AR_DAY}"
    using that by (elim insertE emptyE) (simp_all add: sbbs_defs)
qed

lemma userdat_one_operand: "one_operand (userdat_test cfg w uo cl)"
proof (rule one_operandI)
  fix t eq n n1 i i1 a a1 and d d1 :: "u32 \<Rightarrow> u32"
  let ?T = "userdat_test cfg w uo cl t eq"
  show "\<exists>why. ?T n i a d = Some (fst (the (?T n1 i1 a1 d1)), why)" if "ar_no_arg t"
    using that unfolding ar_no_arg_def by (elim insertE emptyE) (simp_all add: userdat_defs)
  show "\<exists>why. ?T n i a d = Some (fst (the (?T n1 i a1 d1)), why)" if "ar_short_arg t" "t \<noteq> AR_RANDOM"
    using that unfolding ar_short_arg_def by (elim insertE emptyE) (simp_all add: userdat_defs)
  show "\<exists>why. ?T n i a d = Some (fst (the (?T n1 i1 a d1)), why)" if "ar_string_arg (Some t)"
    using that unfolding ar_string_arg_def by (elim imageE insertE emptyE) (simp_all add: userdat_defs)
  show "\<exists>why. ?T n i a d = Some (fst (the (?T n i1 a1 d1)), why)"
    if "t \<in> {AR_LEVEL, AR_AGE, AR_NODE, AR_TLEFT, AR_TUSED, AR_PCR, AR_FLAG1, AR_FLAG2, AR_FLAG3,
      AR_FLAG4, AR_EXEMPT, AR_REST, AR_SEX, AR_UDR, AR_UDFR, AR_DAY}"
    using that by (elim insertE emptyE) (simp_all add: userdat_defs)
qed

lemma one_operand_met:
  assumes one: "one_operand test" and op: "ar_operand t arg n i str"
  shows "\<exists>why. test t eq n i str d = Some (met_of test t eq arg, why)"
proof -
  have r: "6 \<le> unat t" "unat t \<le> 64" "t \<noteq> AR_RANDOM" using op by (auto simp: ar_operand_def)
  have s: "ar_string_arg (Some t) \<Longrightarrow> \<not> ar_no_arg t \<and> \<not> ar_short_arg t" "ar_short_arg t \<Longrightarrow> \<not> ar_no_arg t"
    by (auto simp: ar_no_arg_def ar_short_arg_def ar_string_arg_def)
  have "ar_no_arg t \<or> ar_short_arg t \<and> i = operand_i arg \<or> ar_string_arg (Some t) \<and> str = butlast arg
      \<or> \<not> ar_no_arg t \<and> \<not> ar_short_arg t \<and> \<not> ar_string_arg (Some t) \<and> n = operand_n arg"
    using op s by (auto simp: ar_operand_def operand_i_def operand_n_def split: if_splits)
  then show ?thesis
    using one byte_types [OF r(1,2)] r(3) unfolding one_operand_def met_of_def by blast
qed

interpretation sbbs: ar_tests "sbbs_test cfg w u cl" "met_of (sbbs_test cfg w u cl)" for cfg w u cl
  by unfold_locales (rule one_operand_met [OF sbbs_one_operand])

interpretation userdat: ar_tests "userdat_test cfg w uo cl" "met_of (userdat_test cfg w uo cl)" for cfg w uo cl
  by unfold_locales (rule one_operand_met [OF userdat_one_operand])

text \<open>
  C4: Both evaluators decide a compiled requirement by its truth value: the tests with their NOT and
  EQUAL, parentheses with NOT, and AND and OR grouped to the right. Required is that inside a
  parenthesis only the first item holds a byte 0 or 5.
\<close>

theorem chk_ar_truth:
  assumes "seq_ok es" "seq_head es"
  shows "(\<exists>st1. sbbs_chk_ar cfg w (Some (seq_code es @ replicate 5 0)) u cl st
        = Some (seq_true (met_of (sbbs_test cfg w u cl)) es, st1))
    \<and> (\<exists>st1. chk_ar (Some cfg) w (Some (seq_code es @ replicate 5 0)) uo cl st
        = Some (seq_true (met_of (userdat_test cfg w uo cl)) es, st1))"
proof
  show "\<exists>st1. sbbs_chk_ar cfg w (Some (seq_code es @ replicate 5 0)) u cl st
      = Some (seq_true (met_of (sbbs_test cfg w u cl)) es, st1)"
    using sbbs.exp_true [OF assms, where draw = "w_draw w" and st = st] by (fastforce simp: sbbs_chk_ar_def)
  show "\<exists>st1. chk_ar (Some cfg) w (Some (seq_code es @ replicate 5 0)) uo cl st
      = Some (seq_true (met_of (userdat_test cfg w uo cl)) es, st1)"
    using userdat.exp_true [OF assms, where draw = "w_draw w" and st = st] by (fastforce simp: chk_ar_def)
qed

text \<open>The requirement \<open>(SEX M OR (LEVEL 50 AND AGE 18)) AND LEVEL 90\<close>.\<close>

definition nested_requirement :: ar_seq where
  "nested_requirement =
     Item False (Nest False
       (Item False (Test False False AR_SEX [0x4D])
       (Item True (Nest False
          (Item False (Test False False AR_LEVEL [50]) (Item False (Test False False AR_AGE [18]) Last))) Last)))
     (Item False (Test False False AR_LEVEL [90]) Last)"

text \<open>
  C38: A parenthesis that is decided early hides what follows it when it holds another parenthesis:
  the evaluator takes the inner end for the end it looks for and the outer end for its own. Men
  of any level get what \<open>(SEX M OR (LEVEL 50 AND AGE 18)) AND LEVEL 90\<close> protects.
\<close>

theorem nested_requirement_bypassed:
  assumes "u_sex u = 0x4D" "u_level u < 90"
  shows "(\<exists>st1. sbbs_chk_ar cfg w (Some (seq_code nested_requirement @ replicate 5 0)) u cl st = Some (True, st1))
    \<and> \<not> seq_true (met_of (sbbs_test cfg w u cl)) nested_requirement"
proof
  let ?ar = "[4, 21, 0x4D, 1, 4, 6, 50, 7, 18, 5, 5, 6, 90, 0, 0, 0, 0, 0 :: byte]"
  let ?T = "sbbs_test cfg w u cl" and ?d = "w_draw w"
  have sex: "expr_true (met_of ?T) (Test False False AR_SEX [0x4D])"
    using assms(1) by (simp add: met_of_def operand_n_def sbbs_defs)
  have ok: "expr_ok (Test False False AR_SEX [0x4D])"
    by (auto simp: ar_operand_def ar_no_arg_def ar_short_arg_def ar_string_arg_def)
  obtain st1 where item: "ar_item ?d ?T ([4] @ 21 # [0x4D] @ drop 3 ?ar) (length [4 :: byte]) False False True st
      = Some (True, length [4 :: byte] + length [0x4D :: byte], st1)"
    using sbbs.item_test [OF ok, where rest = "drop 3 ?ar" and draw = ?d and pre = "[4]" and result = True and st = st
      and cfg = cfg and w = w and u = u and cl = cl] sex by auto
  have "ar_loop ?d ?T ?ar (Suc (Suc (Suc 0))) True st1 = Some (True, (Suc (Suc (Suc (Suc 0)))), st1)"
    using loop_item [of 4 "[4, 21, 0x4D, 1]" "[4, 21, 0x4D]" True False False ?d ?T "drop 5 ?ar" True st1]
    by (simp add: opt_byte_def)
  then have 1: "ar_loop ?d ?T ?ar (Suc 0) True st = Some (True, (Suc (Suc (Suc (Suc 0)))), st1)"
    using loop_item [of 21 "[4]" "[4]" False False False ?d ?T "drop 2 ?ar" True st] item by (simp add: opt_byte_def)
  have 2: "ar_skip_nest ?ar (Suc (Suc (Suc (Suc 0)))) = Some (Suc (Suc (Suc (Suc (Suc (Suc (Suc (Suc (Suc 0)))))))))" by (simp add: ar_skip_nest_def)
  have "ar_loop ?d ?T ?ar (Suc (Suc (Suc (Suc (Suc (Suc (Suc (Suc (Suc (Suc 0)))))))))) True st1 = Some (True, (Suc (Suc (Suc (Suc (Suc (Suc (Suc (Suc (Suc (Suc 0)))))))))), st1)"
    using loop_stop [of 5 ?d ?T "take 10 ?ar" "drop 11 ?ar" True st1] by simp
  then have "ar_loop ?d ?T ?ar 0 True st = Some (True, (Suc (Suc (Suc (Suc (Suc (Suc (Suc (Suc (Suc (Suc 0)))))))))), st1)"
    using loop_item [of 4 "[]" "[]" False False False ?d ?T "drop 1 ?ar" True st] 1 2 by (simp add: opt_byte_def)
  moreover have "seq_code nested_requirement @ replicate 5 0 = ?ar"
    by (simp add: nested_requirement_def opt_byte_def eval_nat_numeral)
  ultimately show "\<exists>st1. sbbs_chk_ar cfg w (Some (seq_code nested_requirement @ replicate 5 0)) u cl st = Some (True, st1)"
    by (simp add: sbbs_chk_ar_def ar_exp_def)
  have "\<not> met_of ?T AR_LEVEL False [90]"
    using assms(2) by (simp add: met_of_def operand_n_def sbbs_defs ar_cmp_def word_less_nat_alt)
  then show "\<not> seq_true (met_of ?T) nested_requirement"
    by (simp add: nested_requirement_def)
qed

section \<open>Samples\<close>

definition zero_user :: user_t where
  "zero_user = \<lparr>u_number = 2, u_uls = 0, u_dls = 0, u_posts = 0, u_logons = 1, u_shell = 0, u_comp = [], u_note = [],
     u_birth = [], u_modem = [], u_cursub = [], u_curdir = [], u_level = 10, u_sex = 0x4D, u_misc = 0, u_flags1 = 1,
     u_flags2 = 0, u_flags3 = 0, u_flags4 = 0, u_exempt = 0, u_rest = 0, u_ulb = 0, u_dlb = 0, u_cdt = 0,
     u_freecdt = 0, u_laston = 0, u_expire = 0\<rparr>"

theorem nested_requirement_bypassed_witness:
  "\<forall>cfg w cl st. \<exists>st1. sbbs_chk_ar cfg w (Some (seq_code nested_requirement @ replicate 5 0)) zero_user cl st = Some (True, st1)"
  using nested_requirement_bypassed [of zero_user] by (simp add: zero_user_def)

text \<open>\<open>NOT (LEVEL 50 OR FLAG 1B) OR SEX M\<close>\<close>

definition sample_requirement :: ar_seq where
  "sample_requirement =
     Item False (Nest True (Item False (Test False False AR_LEVEL [50]) (Item True (Test False False AR_FLAG1 [0x42]) Last)))
     (Item True (Test False False AR_SEX [0x4D]) Last)"

theorem chk_ar_truth_witness:
  "\<forall>cfg w cl st. \<exists>st1. sbbs_chk_ar cfg w (Some (seq_code sample_requirement @ replicate 5 0)) zero_user cl st = Some (True, st1)"
proof -
  have "\<exists>n i str. ar_operand t [c] n i str" if "t \<in> {AR_LEVEL, AR_FLAG1, AR_SEX}" for t c
    using that by (auto simp: ar_operand_def ar_no_arg_def ar_short_arg_def ar_string_arg_def)
  then have "seq_ok sample_requirement" "seq_head sample_requirement"
    by (auto simp: sample_requirement_def seq_head_def seq_rest_def opt_byte_def)
  from chk_ar_truth [OF this, where u = zero_user] show ?thesis
    by (auto simp: sample_requirement_def met_of_def operand_n_def sbbs_defs zero_user_def ar_cmp_def flag_met_def FLAG_def)
qed

end
