(* ===== verification/ArsText.thy ===== *)
theory ArsText
  imports ArsMeaning "HOL-Library.Sublist"
begin

text \<open>
  Requirements as text: \<open>seq_text\<close> writes a requirement with the keywords of the compiler, and
  \<open>arstr\<close> compiles that text to the code of the requirement. Also the limits of the compiler's
  two buffers.
\<close>

section \<open>Writing requirements\<close>

definition ar_keywords :: "(string \<times> byte) list" where
  "ar_keywords = ars_keywords_1 @ ars_keywords_2"

definition ar_name :: "byte \<Rightarrow> string" where
  "ar_name t = (if t \<in> {AR_FLAG2, AR_FLAG3, AR_FLAG4} then ''FLAG''
     else case find (\<lambda>(w, k). k = t) ar_keywords of None \<Rightarrow> [] | Some (w, k) \<Rightarrow> w)"

definition ar_letter :: "byte \<Rightarrow> bool" where
  "ar_letter t \<longleftrightarrow> t \<in> {AR_FLAG1, AR_FLAG2, AR_FLAG3, AR_FLAG4, AR_EXEMPT, AR_SEX, AR_REST}"

definition operand_text :: "byte \<Rightarrow> byte list \<Rightarrow> byte list" where
  "operand_text t arg =
     (let n = unat (un_le16 arg) in
      if ar_no_arg t then []
      else if t \<in> {AR_FLAG2, AR_FLAG3, AR_FLAG4} then (t + 34) # arg
      else if ar_letter t then arg
      else if ar_string_arg (Some t) then butlast arg
      else if t = AR_TIME then dec_nat (n div 60) @ 0x3A # dec_nat (n mod 60)
      else if t \<in> {AR_GROUP, AR_LIB, AR_DIR, AR_SUB} then dec_nat (n + 1)
      else if ar_short_arg t then dec_nat n
      else dec_nat (unat (hd arg)))"

definition test_text :: "bool \<Rightarrow> bool \<Rightarrow> byte \<Rightarrow> byte list \<Rightarrow> byte list" where
  "test_text nt eq t arg =
     opt_byte nt 0x21 @ cs (ar_name t) @ 0x20 # opt_byte eq 0x3D @ operand_text t arg @ [0x20]"

primrec expr_text :: "ar_expr \<Rightarrow> byte list" and seq_text :: "ar_seq \<Rightarrow> byte list" where
  "expr_text (Test nt eq t arg) = test_text nt eq t arg"
| "expr_text (Nest nt es) = opt_byte nt 0x21 @ 0x28 # seq_text es @ [0x29]"
| "seq_text Last = []"
| "seq_text (Item alt e es) = opt_byte alt 0x7C @ expr_text e @ seq_text es"

text \<open>The words that the compiler takes for operators wherever they stand.\<close>

definition operator_words :: "string list" where
  "operator_words = [''OR'', ''AND'', ''NOT'', ''TO'', ''EQUAL'', ''EQUALS'']"

text \<open>
  Operands that can be written: flags are capital letters, a string argument is not an operator
  and has no separator in it, there is no EQUAL where the compiler drops it, speeds are not given
  in hundreds.
\<close>

definition argument_ok :: "byte \<Rightarrow> byte list \<Rightarrow> bool" where
  "argument_ok t str \<longleftrightarrow> str \<noteq> [] \<and> length str \<le> (if t \<in> {AR_SUBCODE, AR_DIRCODE, AR_SHELL} then 16 else 128)
     \<and> (\<forall>c \<in> set str. \<not> ars_separator c \<and> c \<noteq> 0 \<and> toupper_c c = c) \<and> hd str \<notin> {0x21, 0x24}
     \<and> (\<forall>w \<in> set operator_words. takeWhile isalpha_c str \<noteq> cs w)"

definition test_ok :: "bool \<Rightarrow> byte \<Rightarrow> byte list \<Rightarrow> bool" where
  "test_ok eq t arg \<longleftrightarrow> (\<exists>n i str. ar_operand t arg n i str)
     \<and> (ar_no_arg t \<or> ar_string_arg (Some t) \<longrightarrow> \<not> eq)
     \<and> (ar_letter t \<longrightarrow> (\<exists>c. arg = [c] \<and> 0x41 \<le> c \<and> c \<le> 0x5A))
     \<and> (ar_string_arg (Some t) \<longrightarrow> argument_ok t (butlast arg))
     \<and> (t = AR_BPS \<longrightarrow> 300 \<le> unat (un_le16 arg))
     \<and> (t = AR_DAY \<longrightarrow> unat (hd arg) \<le> 6)"

primrec expr_printable :: "ar_expr \<Rightarrow> bool" and seq_printable :: "ar_seq \<Rightarrow> bool" where
  "expr_printable (Test nt eq t arg) \<longleftrightarrow> test_ok eq t arg"
| "expr_printable (Nest nt es) \<longleftrightarrow> seq_printable es"
| "seq_printable Last \<longleftrightarrow> True"
| "seq_printable (Item alt e es) \<longleftrightarrow> expr_printable e \<and> seq_printable es"

section \<open>The rounds of the compiler\<close>

definition AS :: "nat \<Rightarrow> byte list \<Rightarrow> byte option \<Rightarrow> bool \<Rightarrow> bool \<Rightarrow> bool \<Rightarrow> ar_state" where
  "AS i A T nt eq a = \<lparr>as_i = i, as_ar = A, as_type = T, as_not = nt, as_equal = eq, as_arg = a\<rparr>"

lemma AS_fields [simp]:
  "as_i (AS i A T nt eq a) = i" "as_ar (AS i A T nt eq a) = A" "as_type (AS i A T nt eq a) = T"
  "as_not (AS i A T nt eq a) = nt" "as_equal (AS i A T nt eq a) = eq" "as_arg (AS i A T nt eq a) = a"
  "(AS i A T nt eq a)\<lparr>as_type := T1\<rparr> = AS i A T1 nt eq a" "(AS i A T nt eq a)\<lparr>as_not := n1\<rparr> = AS i A T n1 eq a"
  "(AS i A T nt eq a)\<lparr>as_equal := e1\<rparr> = AS i A T nt e1 a" "(AS i A T nt eq a)\<lparr>as_arg := a1\<rparr> = AS i A T nt eq a1"
  "skip k (AS i A T nt eq a) = AS (i + k) A T nt eq a"
  "emit bs (AS i A T nt eq a) = (if length A + length bs \<le> 1024 then Some (AS i (A @ bs) T nt eq a) else None)"
  "unemit (AS i A T nt eq a) = AS i (butlast A) T nt eq a"
  by (simp_all add: AS_def skip_def emit_def unemit_def)

lemma loop_round:
  assumes "drop (as_i s) str = c # r" "c \<noteq> 0" "arstr_step cfg str c s = Some s1"
  shows "arstr_loop cfg str s = arstr_loop cfg str s1"
proof -
  have "as_i s < length str" using assms(1) by (metis drop_all list.distinct(1) not_le)
  then have "str_at str (as_i s) = Some c" using assms(1) by (simp add: str_at_def nth_via_drop)
  then show ?thesis using assms(2,3) by (subst arstr_loop.simps) simp
qed

text \<open>A round that is an operator.\<close>

lemma loop_operator:
  assumes "drop (as_i s) str = c # r" "c \<noteq> 0" "arstr_operator str c s = Some (Some s1)"
  shows "arstr_loop cfg str s = arstr_loop cfg str s1"
  by (rule loop_round [OF assms(1,2)]) (simp add: arstr_step_def assms(3))

lemma loop_blank: "drop i str = 0x20 # r \<Longrightarrow> arstr_loop cfg str (AS i A T nt eq a) = arstr_loop cfg str (AS (i + 1) A T nt eq a)"
  by (rule loop_operator [where s = "AS i A T nt eq a" and str = str and c = "0x20" and r = r]) (simp_all add: arstr_operator_def)

lemma loop_not: "drop i str = 0x21 # r \<Longrightarrow> arstr_loop cfg str (AS i A T nt eq a) = arstr_loop cfg str (AS (i + 1) A T True eq a)"
  by (rule loop_operator [where s = "AS i A T nt eq a" and str = str and c = "0x21" and r = r]) (simp_all add: arstr_operator_def)

lemma loop_equal: "drop i str = 0x3D # r \<Longrightarrow> arstr_loop cfg str (AS i A T nt eq a) = arstr_loop cfg str (AS (i + 1) A T nt True a)"
  by (rule loop_operator [where s = "AS i A T nt eq a" and str = str and c = "0x3D" and r = r]) (simp_all add: arstr_operator_def)

lemma loop_or:
  "drop i str = 0x7C # r \<Longrightarrow> length A < 1024 \<Longrightarrow>
    arstr_loop cfg str (AS i A T nt eq a) = arstr_loop cfg str (AS (i + 1) (A @ [AR_OR]) T nt eq a)"
  by (rule loop_operator [where s = "AS i A T nt eq a" and str = str and c = "0x7C" and r = r]) (simp_all add: arstr_operator_def)

lemma loop_endnest:
  "drop i str = 0x29 # r \<Longrightarrow> length A < 1024 \<Longrightarrow>
    arstr_loop cfg str (AS i A T nt eq a) = arstr_loop cfg str (AS (i + 1) (A @ [AR_ENDNEST]) T nt eq a)"
  by (rule loop_operator [where s = "AS i A T nt eq a" and str = str and c = "0x29" and r = r]) (simp_all add: arstr_operator_def)

lemma loop_begnest:
  "drop i str = 0x28 # r \<Longrightarrow> length A + length (opt_byte nt AR_NOT) < 1024 \<Longrightarrow>
    arstr_loop cfg str (AS i A T nt eq a)
    = arstr_loop cfg str (AS (i + 1) (A @ opt_byte nt AR_NOT @ [AR_BEGNEST]) T False False a)"
  by (rule loop_operator [where s = "AS i A T nt eq a" and str = str and c = "0x28" and r = r]) (auto simp: arstr_operator_def opt_byte_def)

text \<open>No operator starts here.\<close>

lemma no_operator:
  assumes "c \<notin> {0x20, 0x28, 0x29, 0x7C, 0x21, 0x3D, 0x26}" "\<forall>w \<in> set operator_words. \<not> is_word str (as_i s) w"
  shows "arstr_operator str c s = None"
  using assms by (simp add: arstr_operator_def operator_words_def)

section \<open>Keywords\<close>

definition byte_of :: "char \<Rightarrow> byte" where "byte_of c = word_of_nat (of_char c)"

lemma byte_of_inj: "byte_of a = byte_of b \<longleftrightarrow> a = b"
proof
  assume "byte_of a = byte_of b"
  moreover have "unat (byte_of c) = of_char c" for c
    by (simp add: byte_of_def unat_of_nat)
  ultimately have "(of_char a :: nat) = of_char b" by metis
  then show "a = b" by simp
qed simp

lemma cs_byte_of: "cs w = map byte_of w" by (simp add: cs_def byte_of_def)

definition capitals :: string where "capitals = ''ABCDEFGHIJKLMNOPQRSTUVWXYZ''"
definition key_chars :: string where "key_chars = capitals @ ''0123456789_''"

lemma key_chars_plain: "list_all (\<lambda>c. toupper_c (byte_of c) = byte_of c \<and> byte_of c \<noteq> 0x20 \<and> byte_of c \<noteq> 0
    \<and> (isalpha_c (byte_of c) \<longleftrightarrow> c \<in> set capitals)) key_chars"
  by (simp add: key_chars_def capitals_def byte_of_def toupper_c_def isalpha_c_def)

definition keyword_ok :: "string \<Rightarrow> byte \<Rightarrow> bool" where
  "keyword_ok w t \<longleftrightarrow> find (\<lambda>(v, k). prefix v w) ar_keywords = Some (w, t) \<and> set w \<subseteq> set key_chars
     \<and> w \<noteq> [] \<and> hd w \<in> set capitals \<and> takeWhile (\<lambda>c. c \<in> set capitals) w \<notin> set operator_words"

lemma keywords_find: "list_all (\<lambda>(w, t). find (\<lambda>(v, k). prefix v w) ar_keywords = Some (w, t)) ar_keywords"
  by code_simp

lemma keywords_plain: "list_all (\<lambda>(w, t). list_all (\<lambda>c. c \<in> set key_chars) w) ar_keywords"
  by code_simp

lemma keywords_word: "list_all (\<lambda>(w, t). w \<noteq> [] \<and> hd w \<in> set capitals
    \<and> takeWhile (\<lambda>c. c \<in> set capitals) w \<notin> set operator_words) ar_keywords"
  by code_simp

lemma keyword_facts:
  assumes "(w, t) \<in> set ar_keywords"
  shows "map toupper_c (cs w) = cs w" "0x20 \<notin> set (cs w)" "0 \<notin> set (cs w)" "\<exists>c v. cs w = c # v \<and> isalpha_c c"
    "\<forall>v \<in> set operator_words. takeWhile isalpha_c (cs w) \<noteq> cs v"
proof -
  have k: "\<forall>c \<in> set w. c \<in> set key_chars" using keywords_plain assms by (auto simp: list_all_iff)
  then have p: "\<forall>c \<in> set w. toupper_c (byte_of c) = byte_of c \<and> byte_of c \<noteq> 0x20 \<and> byte_of c \<noteq> 0
      \<and> (isalpha_c (byte_of c) \<longleftrightarrow> c \<in> set capitals)"
    using key_chars_plain unfolding list_all_iff by blast
  then show "map toupper_c (cs w) = cs w" "0x20 \<notin> set (cs w)" "0 \<notin> set (cs w)" by (auto simp: cs_byte_of)
  have w: "w \<noteq> []" "hd w \<in> set capitals" "takeWhile (\<lambda>c. c \<in> set capitals) w \<notin> set operator_words"
    using keywords_word assms by (auto simp: list_all_iff)
  then show "\<exists>c v. cs w = c # v \<and> isalpha_c c" using p by (cases w) (auto simp: cs_byte_of)
  have "takeWhile isalpha_c (cs w) = cs (takeWhile (\<lambda>c. c \<in> set capitals) w)"
    unfolding cs_byte_of takeWhile_map using p by (intro arg_cong [where f = "map byte_of"] takeWhile_cong) auto
  moreover have "cs a = cs b \<longleftrightarrow> a = b" for a b by (simp add: cs_byte_of inj_map_eq_map inj_def byte_of_inj)
  ultimately show "\<forall>v \<in> set operator_words. takeWhile isalpha_c (cs w) \<noteq> cs v" using w(3) by auto
qed

lemma prefix_cs: "prefix (cs v) (cs w) \<longleftrightarrow> prefix v w"
proof (induction v arbitrary: w)
  case (Cons c v)
  then show ?case by (cases w) (auto simp: cs_byte_of byte_of_inj)
qed (simp add: cs_byte_of)

text \<open>A keyword is found when it is followed by a blank.\<close>

lemma has_prefix_keyword:
  assumes d: "drop i str = cs w @ 0x20 # r" and "map toupper_c (cs w) = cs w" "0x20 \<notin> set (cs v)"
  shows "has_prefix str i v \<longleftrightarrow> prefix v w"
proof -
  have len: "length (cs v) = length v" for v by (simp add: cs_byte_of)
  have "map toupper_c (take (length v) (cs w @ 0x20 # r)) = cs v \<longleftrightarrow> prefix (cs v) (cs w)"
  proof (cases "length v \<le> length w")
    case True
    then show ?thesis
      using assms(2) len by (auto simp: prefix_def take_map [symmetric]) (metis append_take_drop_id)
  next
    case False
    then have "0x20 \<in> set (map toupper_c (take (length v) (cs w @ 0x20 # r)))"
      by (cases "length v - length w") (auto simp: len toupper_c_def)
    moreover have "\<not> prefix (cs v) (cs w)" using False len prefix_length_le by metis
    ultimately show ?thesis using assms(3) by metis
  qed
  then show ?thesis by (simp add: has_prefix_def d prefix_cs)
qed

lemma is_word_head:
  assumes "drop i str = d @ c # r" "\<not> isalpha_c c" "\<forall>v \<in> set operator_words. map toupper_c (takeWhile isalpha_c d) \<noteq> cs v"
    and "v \<in> set operator_words"
  shows "\<not> is_word str i v"
proof
  assume w: "is_word str i v"
  have t: "takeWhile isalpha_c (d @ c # r) = takeWhile isalpha_c d" using assms(2) by (simp add: takeWhile_append) (metis takeWhile_eq_all_conv)
  have "take (length v) (d @ c # r) = takeWhile isalpha_c d"
    using w unfolding is_word_def assms(1) t by (metis t takeWhile_eq_take)
  then show False using w assms(3,4) by (simp add: is_word_def assms(1))
qed

lemma loop_keyword:
  assumes w: "(w, t) \<in> set ar_keywords" and d: "drop i str = cs w @ 0x20 # r"
    and room: "ars_boolean t \<Longrightarrow> length A + length (opt_byte nt AR_NOT) < 1024"
  shows "arstr_loop cfg str (AS i A T nt eq False) = arstr_loop cfg str
    (if ars_boolean t then AS (i + length w) (A @ opt_byte nt AR_NOT @ [t]) None False eq False
     else AS (i + length w) A (Some t) nt eq True)"
proof -
  note k = keyword_facts [OF w]
  obtain c v where c: "cs w = c # v" "isalpha_c c" using k(4) by blast
  have sp: "c \<notin> {0x20, 0x28, 0x29, 0x7C, 0x21, 0x3D, 0x26}" "c \<noteq> 0x24" "c \<noteq> 0"
    using c(2) by (auto simp: isalpha_c_def)
  have "map toupper_c (takeWhile isalpha_c (cs w)) = takeWhile isalpha_c (cs w)"
    using k(1) by (metis takeWhile_eq_take take_map)
  then have op: "arstr_operator str c (AS i A T nt eq False) = None"
    using is_word_head [OF d] k(5) by (intro no_operator [OF sp(1)]) (auto simp: isalpha_c_def)
  have "find (\<lambda>(v, k). has_prefix str i v) ar_keywords = find (\<lambda>(v, k). prefix v w) ar_keywords"
    using has_prefix_keyword [OF d k(1)] keyword_facts(2) by (intro find_cong) auto
  then have "find (\<lambda>(v, k). has_prefix str i v) ar_keywords = Some (w, t)"
    using keywords_find w by (auto simp: list_all_iff)
  then have "arstr_keyword str (AS i A T nt eq False) = Some (Some
      (if ars_boolean t then AS (i + length w) (A @ opt_byte nt AR_NOT @ [t]) None False eq False
       else AS (i + length w) A (Some t) nt eq True))"
    using room by (auto simp: arstr_keyword_def ar_keywords_def emit_boolean_def emit_not_def opt_byte_def)
  then show ?thesis
    using op sp c(2) by (intro loop_round [where c = c and r = "v @ 0x20 # r"]) (simp_all add: d c(1) arstr_step_def)
qed

section \<open>Arguments\<close>

abbreviation marks :: "bool \<Rightarrow> bool \<Rightarrow> byte list" where
  "marks nt eq \<equiv> opt_byte nt AR_NOT @ opt_byte eq AR_EQUAL"

lemma loop_argument:
  assumes "drop i str = c # r" "c \<notin> {0, 0x20, 0x28, 0x29, 0x7C, 0x21, 0x3D, 0x26, 0x24}"
    and "\<forall>v \<in> set operator_words. \<not> is_word str i v" "arstr_argument cfg str c (AS i A T nt eq True) = Some s1"
  shows "arstr_loop cfg str (AS i A T nt eq True) = arstr_loop cfg str s1"
proof (rule loop_round [where s = "AS i A T nt eq True" and c = c and r = r])
  have "arstr_operator str c (AS i A T nt eq True) = None" using assms(2,3) by (intro no_operator) auto
  then show "arstr_step cfg str c (AS i A T nt eq True) = Some s1" using assms(2,4) by (simp add: arstr_step_def)
qed (use assms(1,2) in auto)

lemma argument_start:
  assumes "\<not> (t = AR_FLAG1 \<and> isdigit_c c)" "t \<in> {AR_SUB, AR_DIR} \<Longrightarrow> isdigit_c c" "ar_string_arg (Some t) \<Longrightarrow> \<not> eq"
    and "length A + length (marks nt eq) < 1024"
  shows "arstr_argument cfg str c (AS i A (Some t) nt eq a) =
    (if isdigit_c c \<and> \<not> ar_string_arg (Some t) then arstr_number str t (AS i (A @ marks nt eq @ [t]) (Some t) False False False)
     else arstr_text cfg str c t (AS i (A @ marks nt eq @ [t]) (Some t) False False False))"
  using assms by (auto simp: arstr_argument_def emit_not_def opt_byte_def Let_def)

lemma digit_round:
  assumes "drop i str = d @ c # r" "d \<noteq> []" "isdigit_c (hd d)"
  shows "\<exists>c r. drop i str = c # r \<and> isdigit_c c \<and> c \<notin> {0, 0x20, 0x28, 0x29, 0x7C, 0x21, 0x3D, 0x26, 0x24}
    \<and> (\<forall>v \<in> set operator_words. \<not> is_word str i v)"
proof -
  obtain x xs where d: "d = x # xs" using assms(2) by (cases d) auto
  have "\<not> isalpha_c x" using assms(3) d by (auto simp: isdigit_c_def isalpha_c_def word_le_nat_alt)
  then have "\<not> is_word str i v" if "v \<in> set operator_words" for v
    using that by (auto simp: is_word_def assms(1) d operator_words_def)
  then show ?thesis using assms(1,3) d by (auto simp: isdigit_c_def word_le_nat_alt)
qed

lemma atoi_u32_dec: "n < 2 ^ 32 \<Longrightarrow> r = [] \<or> \<not> isdigit_c (hd r) \<Longrightarrow> atoi_u32 (dec_nat n @ r) = word_of_nat n"
  by (simp add: atoi_u32_def atoi_dec_nat)

lemma skip_digits:
  assumes "drop i str = d @ c # r" "d \<noteq> []" "\<forall>x \<in> set d. P x" "\<not> P c"
  shows "skip_while P str (AS i A T nt eq a) = AS (i + length d) A T nt eq a"
proof -
  obtain x xs where d: "d = x # xs" using assms(2) by (cases d) auto
  have "drop (i + 1) str = xs @ c # r" using assms(1) d by (simp add: drop_Suc drop_tl)
  moreover have "takeWhile P (xs @ c # r) = xs" using assms(3,4) d by (induction xs arbitrary: d x) auto
  ultimately show ?thesis by (simp add: skip_while_def d)
qed

lemma loop_number:
  assumes d: "drop i str = dec_nat n @ 0x20 # r" "n < 2 ^ 32" and t: "t \<noteq> AR_TIME" "\<not> ar_string_arg (Some t)"
    and num: "ars_number t (word_of_nat n) = Some bs" and room: "length A + length (marks nt eq @ t # bs) \<le> 1024"
  shows "arstr_loop cfg str (AS i A (Some t) nt eq True)
    = arstr_loop cfg str (AS (i + length (dec_nat n)) (A @ marks nt eq @ t # bs) (Some t) False False False)"
proof -
  have dig: "\<forall>x \<in> set (dec_nat n). isdigit_c x" by (rule dec_nat_digits)
  then have "isdigit_c (hd (dec_nat n))" by simp
  then obtain c r1 where c: "drop i str = c # r1" "isdigit_c c" "c \<notin> {0, 0x20, 0x28, 0x29, 0x7C, 0x21, 0x3D, 0x26, 0x24}"
    "\<forall>v \<in> set operator_words. \<not> is_word str i v"
    using digit_round [OF d(1)] by auto
  have "t \<noteq> AR_FLAG1" using num by (auto simp: ars_number_def)
  have nb: "\<not> isdigit_c 0x20" by (simp add: isdigit_c_def)
  have "arstr_argument cfg str c (AS i A (Some t) nt eq True) = arstr_number str t (AS i (A @ marks nt eq @ [t]) (Some t) False False False)"
    using argument_start [of t c eq A nt cfg str i True] \<open>t \<noteq> AR_FLAG1\<close> c(2) t(2) room by simp
  also have "\<dots> = Some (AS (i + length (dec_nat n)) (A @ marks nt eq @ t # bs) (Some t) False False False)"
    using t(1) num room atoi_u32_dec [OF d(2), of "0x20 # r"] nb
    by (simp add: arstr_number_def d(1) skip_digits [OF d(1) dec_nat_nonempty dig nb])
  finally show ?thesis by (rule loop_argument [OF c(1,3,4)])
qed

lemma loop_letter:
  assumes d: "drop i str = c # 0x20 # r" "0x41 \<le> c" "c \<le> 0x5A" and t: "ar_letter t"
    and room: "length A + length (marks nt eq @ [t, c]) \<le> 1024"
  shows "arstr_loop cfg str (AS i A (Some t) nt eq True)
    = arstr_loop cfg str (AS (i + 1) (A @ marks nt eq @ [t, c]) (Some t) False False False)"
proof -
  have c: "\<not> isdigit_c c" "toupper_c c = c" "isalpha_c c" "c \<notin> {0, 0x20, 0x28, 0x29, 0x7C, 0x21, 0x3D, 0x26, 0x24}"
    using d(2,3) by (auto simp: isdigit_c_def toupper_c_def isalpha_c_def word_le_nat_alt)
  have w: "\<forall>v \<in> set operator_words. \<not> is_word str i v"
    using c(3) by (auto simp: is_word_def d(1) operator_words_def isalpha_c_def)
  have t': "\<not> ar_string_arg (Some t)" "t \<notin> {AR_SUB, AR_DIR}" using t by (auto simp: ar_letter_def ar_string_arg_def)
  have "arstr_argument cfg str c (AS i A (Some t) nt eq True) = arstr_text cfg str c t (AS i (A @ marks nt eq @ [t]) (Some t) False False False)"
    using argument_start [of t c eq A nt cfg str i True] c(1) t' room by simp
  also have "\<dots> = Some (AS (i + 1) (A @ marks nt eq @ [t, c]) (Some t) False False False)"
    using t t'(1) room c(2) by (simp add: arstr_text_def ar_letter_def Let_def)
  finally show ?thesis by (rule loop_argument [OF d(1) c(4) w])
qed

lemma loop_flag_set:
  assumes d: "drop i str = (t + 34) # r" and t: "t \<in> {AR_FLAG2, AR_FLAG3, AR_FLAG4}" and room: "length A + length (marks nt eq) \<le> 1024"
  shows "arstr_loop cfg str (AS i A (Some AR_FLAG1) nt eq True)
    = arstr_loop cfg str (AS (i + 1) (A @ marks nt eq) (Some t) False False True)"
proof -
  have c: "isdigit_c (t + 34)" "t + 34 \<notin> {0, 0x20, 0x28, 0x29, 0x7C, 0x21, 0x3D, 0x26, 0x24}" "\<not> isalpha_c (t + 34)"
    using t by (auto simp: isdigit_c_def isalpha_c_def)
  have w: "\<forall>v \<in> set operator_words. \<not> is_word str i v"
    using c(3) by (auto simp: is_word_def d(1) operator_words_def)
  have "arstr_argument cfg str (t + 34) (AS i A (Some AR_FLAG1) nt eq True) = Some (AS (i + 1) (A @ marks nt eq) (Some t) False False True)"
    using t room c(1) by (auto simp: arstr_argument_def emit_not_def opt_byte_def ar_string_arg_def)
  then show ?thesis by (rule loop_argument [OF d(1) c(2) w])
qed

lemma loop_string:
  assumes d: "drop i str = arg @ 0x20 # r" and t: "ar_string_arg (Some t)" "argument_ok t arg"
    and room: "length A + length (opt_byte nt AR_NOT @ t # arg @ [0]) \<le> 1024"
  shows "arstr_loop cfg str (AS i A (Some t) nt False True)
    = arstr_loop cfg str (AS (i + length arg) (A @ opt_byte nt AR_NOT @ t # arg @ [0]) (Some t) False False False)"
proof -
  obtain c xs where arg: "arg = c # xs" using t(2) by (cases arg) (auto simp: argument_ok_def)
  have c: "c \<notin> {0, 0x20, 0x28, 0x29, 0x7C, 0x21, 0x3D, 0x26, 0x24}"
    using t(2) arg by (auto simp: argument_ok_def ars_separator_def)
  have up: "map toupper_c arg = arg" using t(2) by (auto simp: argument_ok_def intro: map_idI)
  then have "map toupper_c (takeWhile isalpha_c arg) = takeWhile isalpha_c arg" by (metis takeWhile_eq_take take_map)
  then have w: "\<forall>v \<in> set operator_words. \<not> is_word str i v"
    using is_word_head [OF d] t(2) by (auto simp: argument_ok_def isalpha_c_def)
  have tw: "takeWhile (\<lambda>c. \<not> ars_separator c) (arg @ 0x20 # r) = arg"
    using t(2) by (subst takeWhile_append2) (auto simp: argument_ok_def ars_separator_def)
  have t': "t \<notin> {AR_SUB, AR_DIR, AR_FLAG1}" using t(1) by (auto simp: ar_string_arg_def)
  have "arstr_argument cfg str c (AS i A (Some t) nt False True) = arstr_text cfg str c t (AS i (A @ opt_byte nt AR_NOT @ [t]) (Some t) False False False)"
    using argument_start [of t c False A nt cfg str i True] t(1) t' room by (simp add: opt_byte_def)
  also have "\<dots> = Some (AS (i + length arg) (A @ opt_byte nt AR_NOT @ t # arg @ [0]) (Some t) False False False)"
    using t room up tw by (auto simp: arstr_text_def Let_def d argument_ok_def)
  finally show ?thesis using loop_argument [of i str c "xs @ 0x20 # r"] c w d arg by simp
qed

lemma names_found:
  "list_all (\<lambda>k. k \<in> {16, 17, 18} \<or> (ar_name (word_of_nat k), word_of_nat k) \<in> set ar_keywords) [6..<65]"
  by code_simp

lemma ar_name_keyword:
  assumes "6 \<le> unat t" "unat t \<le> 64"
  shows "(ar_name t, if t \<in> {AR_FLAG2, AR_FLAG3, AR_FLAG4} then AR_FLAG1 else t) \<in> set ar_keywords"
proof (cases "t \<in> {AR_FLAG2, AR_FLAG3, AR_FLAG4}")
  case True
  have "(''FLAG'', AR_FLAG1) \<in> set ar_keywords" by (simp add: ar_keywords_def ars_keywords_2_def)
  then show ?thesis using True by (auto simp: ar_name_def)
next
  case False
  have "unat t \<in> set [6..<65]" unfolding set_upt using assms by simp
  then have "unat t \<in> {16, 17, 18} \<or> (ar_name (word_of_nat (unat t)), word_of_nat (unat t)) \<in> set ar_keywords"
    using names_found unfolding list_all_iff by blast
  moreover have "t = word_of_nat k" if "unat t = k" for k by (simp add: that [symmetric])
  then have "unat t \<notin> {16, 17, 18}" using False by fastforce
  ultimately show ?thesis using False by simp
qed

lemma no_arg_boolean: "ar_no_arg t = ars_boolean t"
  by (auto simp: ar_no_arg_def ars_boolean_def)

text \<open>A time of day.\<close>

lemma low16_operand: "length arg = 2 \<Longrightarrow> low16 (word_of_nat (unat (un_le16 arg))) = arg"
  by (simp add: low16_def ucast_up_ucast_id is_up)

lemma loop_time:
  assumes d: "drop i str = dec_nat h @ 0x3A # dec_nat m @ 0x20 # r" "h < 2 ^ 32" "m < 2 ^ 32"
    and room: "length A + length (marks nt eq @ AR_TIME # [b0, b1]) \<le> 1024"
    and val: "low16 (word_of_nat (h * 60 + m)) = [b0, b1]"
  shows "arstr_loop cfg str (AS i A (Some AR_TIME) nt eq True)
    = arstr_loop cfg str (AS (i + length (dec_nat h @ 0x3A # dec_nat m)) (A @ marks nt eq @ AR_TIME # [b0, b1]) (Some AR_TIME) False False False)"
proof -
  let ?P = "\<lambda>c. isdigit_c c \<or> c = 0x3A"
  have dig: "\<forall>x \<in> set (dec_nat n). isdigit_c x" for n by (rule dec_nat_digits)
  have "isdigit_c (hd (dec_nat h))" using dig [of h] by simp
  then obtain c r1 where c: "drop i str = c # r1" "isdigit_c c" "c \<notin> {0, 0x20, 0x28, 0x29, 0x7C, 0x21, 0x3D, 0x26, 0x24}"
    "\<forall>v \<in> set operator_words. \<not> is_word str i v"
    using digit_round [OF d(1)] by auto
  have nb: "\<not> isdigit_c 0x20" "\<not> isdigit_c 0x3A" by (simp_all add: isdigit_c_def)
  have "0x3A \<notin> set (dec_nat h)" using dig nb(2) by blast
  then have "ars_time (drop i str) = word_of_nat (h * 60 + m)"
    using atoi_u32_dec [OF d(2), of "0x3A # dec_nat m @ 0x20 # r"] atoi_u32_dec [OF d(3), of "0x20 # r"] nb
    by (simp add: ars_time_def d(1) after_chr_append)
  moreover have "drop i str = (dec_nat h @ 0x3A # dec_nat m) @ 0x20 # r" by (simp add: d(1))
  then have "skip_while ?P str (AS i B T n1 e1 a) = AS (i + length (dec_nat h @ 0x3A # dec_nat m)) B T n1 e1 a" for B T n1 e1 a
    by (intro skip_digits) (use dig nb(1) in auto)
  ultimately have "arstr_number str AR_TIME (AS i (A @ marks nt eq @ [AR_TIME]) (Some AR_TIME) False False False)
      = Some (AS (i + length (dec_nat h @ 0x3A # dec_nat m)) (A @ marks nt eq @ AR_TIME # [b0, b1]) (Some AR_TIME) False False False)"
    using room val by (simp add: arstr_number_def)
  moreover have "arstr_argument cfg str c (AS i A (Some AR_TIME) nt eq True)
      = arstr_number str AR_TIME (AS i (A @ marks nt eq @ [AR_TIME]) (Some AR_TIME) False False False)"
    using argument_start [of AR_TIME c eq A nt cfg str i True] c(2) room by (simp add: ar_string_arg_def)
  ultimately show ?thesis using loop_argument [OF c(1,3,4)] by metis
qed

end
