(* ===== verification/ArsWritten.thy ===== *)
theory ArsWritten
  imports ArsText
begin

text \<open>
  What the compiler makes of requirements: a written requirement is compiled to its code, and the
  limits of the source and of the buffer within which every source is compiled.
\<close>

section \<open>One test\<close>

lemma drop_step: "drop i str = xs @ r \<Longrightarrow> drop (i + length xs) str = r"
  by (metis add.commute append_eq_conv_conj drop_drop)

lemma loop_opt_not:
  "drop i str = opt_byte nt 0x21 @ r \<Longrightarrow>
    arstr_loop cfg str (AS i A T False eq a) = arstr_loop cfg str (AS (i + length (opt_byte nt 0x21)) A T nt eq a)"
  using loop_not [of i str r cfg A T False eq a] by (cases nt) (simp_all add: opt_byte_def)

lemma loop_opt_equal:
  "drop i str = opt_byte eq 0x3D @ r \<Longrightarrow>
    arstr_loop cfg str (AS i A T nt False a) = arstr_loop cfg str (AS (i + length (opt_byte eq 0x3D)) A T nt eq a)"
  using loop_equal [of i str r cfg A T nt False a] by (cases eq) (simp_all add: opt_byte_def)

text \<open>Up to the operand.\<close>

lemma test_start:
  assumes d: "drop i str = opt_byte nt 0x21 @ cs w @ 0x20 # opt_byte eq 0x3D @ r"
    and w: "(w, t) \<in> set ar_keywords" "\<not> ars_boolean t"
  shows "arstr_loop cfg str (AS i A T False False False)
    = arstr_loop cfg str (AS (i + length (opt_byte nt 0x21 @ cs w @ 0x20 # opt_byte eq 0x3D)) A (Some t) nt eq True)"
proof -
  have len: "length (cs w) = length w" by (simp add: cs_byte_of)
  let ?i1 = "i + length (opt_byte nt 0x21)"
  have d1: "drop ?i1 str = cs w @ 0x20 # opt_byte eq 0x3D @ r" by (rule drop_step [OF d])
  have d2: "drop (?i1 + length w) str = 0x20 # opt_byte eq 0x3D @ r" using drop_step [OF d1] by (simp add: len)
  then have d3: "drop (?i1 + length w + 1) str = opt_byte eq 0x3D @ r"
    using drop_step [of "?i1 + length w" str "[0x20]"] by simp
  show ?thesis
    using loop_opt_not [OF d, of cfg A T False False] loop_keyword [OF w(1) d1, of A nt cfg T False]
      loop_blank [OF d2, of cfg A "Some t" nt False True] loop_opt_equal [OF d3, of cfg A "Some t" nt True] w(2)
    by (simp add: len add.assoc add.left_commute)
qed

lemma byte_operands:
  assumes "6 \<le> unat t" "unat t \<le> 64" "\<not> ar_no_arg t" "\<not> ar_letter t" "\<not> ar_string_arg (Some t)" "\<not> ar_short_arg t"
  shows "t \<in> {AR_DAY, AR_AGE, AR_PCR, AR_UDR, AR_UDFR, AR_NODE, AR_LEVEL, AR_TLEFT, AR_TUSED}"
proof -
  have "unat t \<in> set [6..<65]" unfolding set_upt using assms by simp
  then have "word_of_nat (unat t) \<in> set (map word_of_nat [6..<65] :: byte list)" unfolding set_map by (rule imageI)
  then have "t \<in> set (map word_of_nat [6..<65])" by simp
  then show ?thesis using assms(3-6)
    by (simp add: upt_rec ar_no_arg_def ar_letter_def ar_string_arg_def ar_short_arg_def) blast
qed

text \<open>The rounds that read an operand, for each kind of operand.\<close>

abbreviation operand_round :: "scfg \<Rightarrow> byte list \<Rightarrow> nat \<Rightarrow> byte list \<Rightarrow> bool \<Rightarrow> bool \<Rightarrow> byte \<Rightarrow> byte list \<Rightarrow> bool" where
  "operand_round cfg str i A nt eq t arg \<equiv>
    arstr_loop cfg str (AS i A (Some (if t \<in> {AR_FLAG2, AR_FLAG3, AR_FLAG4} then AR_FLAG1 else t)) nt eq True)
    = arstr_loop cfg str (AS (i + length (operand_text t arg)) (A @ expr_code (Test nt eq t arg)) (Some t) False False False)"

lemma letter_round:
  assumes d: "drop i str = operand_text t arg @ 0x20 # r" and t: "test_ok eq t arg" "\<not> ar_no_arg t"
    and room: "length A + length (expr_code (Test nt eq t arg)) \<le> 1024"
    and letter: "ar_letter t"
  shows "operand_round cfg str i A nt eq t arg"
proof -
  obtain c where c: "arg = [c]" "0x41 \<le> c" "c \<le> 0x5A" using letter t(1) by (auto simp: test_ok_def)
  show ?thesis
  proof (cases "t \<in> {AR_FLAG2, AR_FLAG3, AR_FLAG4}")
    case True
    then have o: "drop i str = (t + 34) # c # 0x20 # r" using t(2) d by (auto simp: operand_text_def c(1) Let_def)
    have l: "length (operand_text t arg) = 2" using True t(2) by (auto simp: operand_text_def c(1) Let_def)
    have d2: "drop (i + 1) str = c # 0x20 # r" using drop_step [of i str "[t + 34]"] o by simp
    have "length A + length (marks nt eq) \<le> 1024" "length (A @ marks nt eq) + length (marks False False @ [t, c]) \<le> 1024"
      using room by (simp_all add: opt_byte_def c(1))
    then show ?thesis
      using loop_flag_set [OF o True, of A nt eq cfg] loop_letter [OF d2 c(2,3) letter, of "A @ marks nt eq" False False cfg] True l
      by (simp add: opt_byte_def c(1))
  next
    case False
    then have "operand_text t arg = [c]" using t(2) letter by (simp add: operand_text_def c(1) Let_def)
    then show ?thesis using loop_letter [OF _ c(2,3) letter, of i str r A nt eq cfg] d room False by (simp add: c(1))
  qed
qed

lemma string_round:
  assumes d: "drop i str = operand_text t arg @ 0x20 # r" and t: "test_ok eq t arg" "\<not> ar_no_arg t"
    and room: "length A + length (expr_code (Test nt eq t arg)) \<le> 1024"
    and strg: "ar_string_arg (Some t)"
  shows "operand_round cfg str i A nt eq t arg"
proof -
  obtain n1 i1 s1 where op: "ar_operand t arg n1 i1 s1" using t(1) by (auto simp: test_ok_def)
  have no: "\<not> eq" "argument_ok t (butlast arg)" using t strg by (simp_all add: test_ok_def)
  have tt: "\<not> ar_letter t" "t \<notin> {AR_FLAG2, AR_FLAG3, AR_FLAG4}" "\<not> ar_short_arg t"
    using strg by (auto simp: ar_string_arg_def ar_letter_def ar_short_arg_def)
  have o: "operand_text t arg = butlast arg" using strg tt t(2) by (simp add: operand_text_def Let_def)
  have a: "arg = butlast arg @ [0]" using op strg tt(3) t(2) by (auto simp: ar_operand_def)
  have "length A + length (opt_byte nt AR_NOT @ t # butlast arg @ [0]) \<le> 1024" using room a no(1) by (simp add: opt_byte_def)
  then show ?thesis
    using loop_string [OF d [unfolded o] strg no(2), of A nt cfg] tt(2) no(1) a o by (simp add: opt_byte_def)
qed

lemma time_round:
  assumes d: "drop i str = operand_text t arg @ 0x20 # r" and t: "test_ok eq t arg" "\<not> ar_no_arg t"
    and room: "length A + length (expr_code (Test nt eq t arg)) \<le> 1024"
    and tim: "t = AR_TIME"
  shows "operand_round cfg str i A nt eq t arg"
proof -
  let ?n = "unat (un_le16 arg)"
  have n: "?n < 65536" using unsigned_less [of "un_le16 arg"] by simp
  obtain n1 i1 s1 where op: "ar_operand t arg n1 i1 s1" using t(1) by (auto simp: test_ok_def)
  have arg: "length arg = 2" using op tim by (simp add: ar_operand_def ar_no_arg_def ar_short_arg_def)
  then obtain b0 b1 where b: "arg = [b0, b1]" by (auto simp: length_Suc_conv numeral_2_eq_2)
  have o: "operand_text t arg = dec_nat (?n div 60) @ 0x3A # dec_nat (?n mod 60)"
    by (simp add: operand_text_def tim ar_no_arg_def ar_letter_def ar_string_arg_def Let_def)
  have "low16 (word_of_nat (?n div 60 * 60 + ?n mod 60)) = [b0, b1]" using low16_operand [OF arg] b by simp
  then show ?thesis
    using loop_time [of i str "?n div 60" "?n mod 60" r A nt eq b0 b1 cfg] d o n room b tim by simp
qed

lemma area_round:
  assumes d: "drop i str = operand_text t arg @ 0x20 # r" and t: "test_ok eq t arg" "\<not> ar_no_arg t"
    and room: "length A + length (expr_code (Test nt eq t arg)) \<le> 1024"
    and area: "t \<in> {AR_GROUP, AR_LIB, AR_DIR, AR_SUB}"
  shows "operand_round cfg str i A nt eq t arg"
proof -
  let ?n = "unat (un_le16 arg)"
  have n: "?n < 65536" using unsigned_less [of "un_le16 arg"] by simp
  obtain n1 i1 s1 where op: "ar_operand t arg n1 i1 s1" using t(1) by (auto simp: test_ok_def)
  have arg: "length arg = 2" using op area by (auto simp: ar_operand_def ar_no_arg_def ar_short_arg_def)
  have o: "operand_text t arg = dec_nat (?n + 1)"
    using area by (auto simp: operand_text_def ar_no_arg_def ar_letter_def ar_string_arg_def Let_def)
  have "(word_of_nat (?n + 1) :: u32) \<noteq> 0" using n unfolding word_of_nat_eq_0_iff by (auto dest: dvd_imp_le)
  then have "ars_number t (word_of_nat (?n + 1)) = Some (low16 (word_of_nat (?n + 1) - 1))"
    using area unfolding ars_number_def by (elim insertE emptyE) simp_all
  then have "ars_number t (word_of_nat (?n + 1)) = Some arg" using low16_operand [OF arg] by simp
  then show ?thesis
    using loop_number [of i str "?n + 1" r t arg A nt eq cfg] d o n room area by (auto simp: ar_string_arg_def)
qed

lemma short_round:
  assumes d: "drop i str = operand_text t arg @ 0x20 # r" and t: "test_ok eq t arg" "\<not> ar_no_arg t"
    and room: "length A + length (expr_code (Test nt eq t arg)) \<le> 1024"
    and sh: "ar_short_arg t" "t \<noteq> AR_TIME" "t \<notin> {AR_GROUP, AR_LIB, AR_DIR, AR_SUB}"
  shows "operand_round cfg str i A nt eq t arg"
proof -
  let ?n = "unat (un_le16 arg)"
  have n: "?n < 65536" using unsigned_less [of "un_le16 arg"] by simp
  obtain n1 i1 s1 where op: "ar_operand t arg n1 i1 s1" using t(1) by (auto simp: test_ok_def)
  have tt: "\<not> ar_letter t" "\<not> ar_string_arg (Some t)" "t \<notin> {AR_FLAG2, AR_FLAG3, AR_FLAG4}" "t \<noteq> AR_RANDOM"
    using sh(1) op by (auto simp: ar_string_arg_def ar_letter_def ar_short_arg_def ar_operand_def)
  have arg: "length arg = 2" using op sh(1) t(2) by (simp add: ar_operand_def)
  have o: "operand_text t arg = dec_nat ?n" using sh tt t(2) by (simp add: operand_text_def Let_def)
  have u: "unat (word_of_nat ?n :: u32) = ?n" using n by (subst unat_of_nat) simp
  have "\<not> (word_of_nat ?n :: u32) < 300" if "t = AR_BPS"
    using t(1) that unfolding word_less_nat_alt u test_ok_def by simp
  then have "ars_number t (word_of_nat ?n) = Some arg"
    using sh low16_operand [OF arg] by (auto simp: ars_number_def ar_short_arg_def)
  then show ?thesis using loop_number [of i str ?n r t arg A nt eq cfg] d o n room tt sh(2) by simp
qed

lemma byte_round:
  assumes d: "drop i str = operand_text t arg @ 0x20 # r" and t: "test_ok eq t arg" "\<not> ar_no_arg t"
    and room: "length A + length (expr_code (Test nt eq t arg)) \<le> 1024"
    and one: "\<not> ar_letter t" "\<not> ar_string_arg (Some t)" "\<not> ar_short_arg t"
  shows "operand_round cfg str i A nt eq t arg"
proof -
  obtain n1 i1 s1 where op: "ar_operand t arg n1 i1 s1" using t(1) by (auto simp: test_ok_def)
  obtain c where c: "arg = [c]" using op one t(2) by (auto simp: ar_operand_def)
  have tt: "t \<in> {AR_DAY, AR_AGE, AR_PCR, AR_UDR, AR_UDFR, AR_NODE, AR_LEVEL, AR_TLEFT, AR_TUSED}"
    using byte_operands op one t(2) by (simp add: ar_operand_def)
  have o: "operand_text t arg = dec_nat (unat c)"
    using one t(2) by (simp add: operand_text_def ar_letter_def ar_short_arg_def c)
  have "unat c \<le> 6" if "t = AR_DAY" using t(1) that by (simp add: test_ok_def c)
  moreover have c8: "unat c < 256" using unsigned_less [of c] by simp
  then have "unat (ucast c :: u32) = unat c" by (subst unsigned_ucast_eq) (simp add: take_bit_nat_eq_self)
  ultimately have "ars_number t (word_of_nat (unat c)) = Some arg"
    using tt unfolding ars_number_def c
    by (elim insertE emptyE) (simp_all add: word_less_nat_alt ucast_up_ucast_id is_up)
  then show ?thesis
    using loop_number [of i str "unat c" r t arg A nt eq cfg] d o room one(2) tt c8 by auto
qed

lemma operand_run:
  assumes "drop i str = operand_text t arg @ 0x20 # r" "test_ok eq t arg" "\<not> ar_no_arg t"
    and "length A + length (expr_code (Test nt eq t arg)) \<le> 1024"
  shows "operand_round cfg str i A nt eq t arg"
  using letter_round [OF assms] string_round [OF assms] time_round [OF assms] area_round [OF assms]
    short_round [OF assms] byte_round [OF assms] by blast

text \<open>A whole test with the blank after it.\<close>

lemma test_run:
  assumes d: "drop i str = test_text nt eq t arg @ r" and t: "test_ok eq t arg"
    and room: "length A + length (expr_code (Test nt eq t arg)) \<le> 1024"
  shows "\<exists>T1. arstr_loop cfg str (AS i A T False False False)
    = arstr_loop cfg str (AS (i + length (test_text nt eq t arg)) (A @ expr_code (Test nt eq t arg)) T1 False False False)"
proof -
  let ?w = "ar_name t"
  obtain n1 i1 s1 where op: "ar_operand t arg n1 i1 s1" using t by (auto simp: test_ok_def)
  then have w: "(?w, if t \<in> {AR_FLAG2, AR_FLAG3, AR_FLAG4} then AR_FLAG1 else t) \<in> set ar_keywords"
    by (intro ar_name_keyword) (simp_all add: ar_operand_def)
  have len: "length (cs ?w) = length ?w" by (simp add: cs_byte_of)
  show ?thesis
  proof (cases "ar_no_arg t")
    case True
    have "t \<notin> {AR_FLAG2, AR_FLAG3, AR_FLAG4}" using True by (auto simp: ar_no_arg_def)
    then have no: "\<not> eq" "arg = []" "operand_text t arg = []" "ars_boolean t" "t \<notin> {AR_FLAG2, AR_FLAG3, AR_FLAG4}"
      using True t op no_arg_boolean [of t] by (simp_all add: test_ok_def ar_operand_def operand_text_def Let_def)
    let ?i1 = "i + length (opt_byte nt 0x21)"
    have d0: "drop i str = opt_byte nt 0x21 @ cs ?w @ 0x20 # 0x20 # r"
      using d no by (simp add: test_text_def opt_byte_def)
    have d1: "drop ?i1 str = cs ?w @ 0x20 # 0x20 # r" by (rule drop_step [OF d0])
    have d2: "drop (?i1 + length ?w) str = 0x20 # 0x20 # r" using drop_step [OF d1] by (simp add: len)
    have d3: "drop (?i1 + length ?w + 1) str = 0x20 # r" using drop_step [of "?i1 + length ?w" str "[0x20]"] d2 by simp
    let ?A = "A @ opt_byte nt AR_NOT @ [t]"
    have "arstr_loop cfg str (AS i A T False False False) = arstr_loop cfg str (AS (?i1 + length ?w + 1 + 1) ?A None False False False)"
      using loop_opt_not [OF d0, of cfg A T False False] loop_keyword [OF _ d1, of t A nt cfg T False] w no room
        loop_blank [OF d2, of cfg ?A None False False False] loop_blank [OF d3, of cfg ?A None False False False]
      by (simp add: opt_byte_def)
    then show ?thesis using no by (intro exI [of _ None]) (simp add: test_text_def opt_byte_def len)
  next
    case False
    let ?pre = "opt_byte nt 0x21 @ cs ?w @ 0x20 # opt_byte eq 0x3D"
    have d0: "drop i str = opt_byte nt 0x21 @ cs ?w @ 0x20 # opt_byte eq 0x3D @ operand_text t arg @ 0x20 # r"
      using d by (simp add: test_text_def)
    then have d1: "drop (i + length ?pre) str = operand_text t arg @ 0x20 # r" using drop_step [of i str ?pre] by simp
    have d2: "drop (i + length ?pre + length (operand_text t arg)) str = 0x20 # r" by (rule drop_step [OF d1])
    have "\<not> ars_boolean (if t \<in> {AR_FLAG2, AR_FLAG3, AR_FLAG4} then AR_FLAG1 else t)"
      using False no_arg_boolean [of t] by (simp add: ars_boolean_def)
    then show ?thesis
      using test_start [OF d0 w, of cfg A T] operand_run [OF d1 t False room, of cfg]
        loop_blank [OF d2, of cfg "A @ expr_code (Test nt eq t arg)" "Some t" False False False]
      by (intro exI [of _ "Some t"]) (simp add: test_text_def add.assoc)
  qed
qed


section \<open>A whole requirement\<close>

lemma seq_run:
  "expr_printable e \<Longrightarrow> drop i str = expr_text e @ r \<Longrightarrow> length A + length (expr_code e) \<le> 1024 \<Longrightarrow>
    \<exists>T1. arstr_loop cfg str (AS i A T False False False)
      = arstr_loop cfg str (AS (i + length (expr_text e)) (A @ expr_code e) T1 False False False)"
  "seq_printable es \<Longrightarrow> drop i str = seq_text es @ r \<Longrightarrow> length A + length (seq_code es) \<le> 1024 \<Longrightarrow>
    \<exists>T1. arstr_loop cfg str (AS i A T False False False)
      = arstr_loop cfg str (AS (i + length (seq_text es)) (A @ seq_code es) T1 False False False)"
proof (induction e and es arbitrary: i A T r and i A T r)
  case (Test nt eq t arg)
  then show ?case using test_run [of i str nt eq t arg r A cfg T] by simp
next
  case (Nest nt es)
  let ?i1 = "i + length (opt_byte nt 0x21) + 1" and ?A = "A @ opt_byte nt AR_NOT @ [AR_BEGNEST]"
  have d0: "drop i str = opt_byte nt 0x21 @ 0x28 # seq_text es @ 0x29 # r" using Nest.prems(2) by simp
  have d1: "drop (i + length (opt_byte nt 0x21)) str = 0x28 # seq_text es @ 0x29 # r" by (rule drop_step [OF d0])
  have d2: "drop ?i1 str = seq_text es @ 0x29 # r" using drop_step [of _ str "[0x28]"] d1 by simp
  have d3: "drop (?i1 + length (seq_text es)) str = 0x29 # r" by (rule drop_step [OF d2])
  obtain T1 where "arstr_loop cfg str (AS ?i1 ?A T False False False)
      = arstr_loop cfg str (AS (?i1 + length (seq_text es)) (?A @ seq_code es) T1 False False False)"
    using Nest.IH [OF _ d2, of ?A T] Nest.prems by auto
  then show ?case
    using loop_opt_not [OF d0, of cfg A T False False] loop_begnest [OF d1, of A nt cfg T False False]
      loop_endnest [OF d3, of "?A @ seq_code es" cfg T1 False False False] Nest.prems(3)
    by (intro exI [of _ T1]) (simp add: add.assoc)
next
  case Last
  then show ?case by auto
next
  case (Item alt e es)
  let ?i1 = "i + length (opt_byte alt 0x7C)" and ?A = "A @ opt_byte alt AR_OR"
  have d0: "drop i str = opt_byte alt 0x7C @ expr_text e @ seq_text es @ r" using Item.prems(2) by simp
  have d1: "drop ?i1 str = expr_text e @ seq_text es @ r" by (rule drop_step [OF d0])
  have d2: "drop (?i1 + length (expr_text e)) str = seq_text es @ r" by (rule drop_step [OF d1])
  have o: "arstr_loop cfg str (AS i A T False False False) = arstr_loop cfg str (AS ?i1 ?A T False False False)"
    using loop_or [of i str "expr_text e @ seq_text es @ r" A cfg T False False False] d0 Item.prems(3)
    by (cases alt) (simp_all add: opt_byte_def)
  obtain T1 where t1: "arstr_loop cfg str (AS ?i1 ?A T False False False)
      = arstr_loop cfg str (AS (?i1 + length (expr_text e)) (?A @ expr_code e) T1 False False False)"
    using Item.IH(1) [OF _ d1, of ?A T] Item.prems by auto
  obtain T2 where "arstr_loop cfg str (AS (?i1 + length (expr_text e)) (?A @ expr_code e) T1 False False False)
      = arstr_loop cfg str (AS (?i1 + length (expr_text e) + length (seq_text es)) ((?A @ expr_code e) @ seq_code es) T2 False False False)"
    using Item.IH(2) [OF _ d2, of "?A @ expr_code e" T1] Item.prems by auto
  then show ?case using o t1 by (intro exI [of _ T2]) (simp add: add.assoc)
qed

text \<open>
  C5: a requirement written as text is compiled to its code: the text that \<open>seq_text\<close> gives for a
  requirement, through the compiler, gives the code of exactly this requirement with its
  terminator and padding, whatever the configuration. The requirement must fit into the buffer and
  be one that has a text: operands as the compiler reads them, numbers in the range of their
  type, and no comparison by EQUAL where the compiler has none.
\<close>

theorem arstr_text_code:
  assumes "seq_printable es" "es \<noteq> Last" "length (seq_code es) \<le> 1023"
  shows "arstr True cfg (seq_text es) = Some (length (seq_code es) + 1, Some (seq_code es @ replicate 5 0))"
proof -
  let ?str = "seq_text es"
  obtain T1 where "arstr_loop cfg ?str (AS 0 [] None False False False)
      = arstr_loop cfg ?str (AS (length ?str) (seq_code es) T1 False False False)"
    using seq_run(2) [OF assms(1), of 0 ?str "[]" "[]" cfg None] assms(3) by auto
  moreover have "arstr_loop cfg ?str (AS (length ?str) (seq_code es) T1 False False False)
      = Some (AS (length ?str) (seq_code es) T1 False False False)"
    by (subst arstr_loop.simps) (simp add: str_at_def)
  moreover have "seq_code es \<noteq> []"
  proof (cases es)
    case (Item alt e es1)
    then show ?thesis by (cases e) auto
  qed (use assms(2) in simp)
  ultimately show ?thesis
    using assms(3) by (simp add: arstr_def AS_def [symmetric] numeral_eq_Suc)
qed

section \<open>The limits of the compiler\<close>

text \<open>The code so far with the marks that are still due, and a round that keeps within three bytes a character.\<close>

definition as_size :: "ar_state \<Rightarrow> nat" where
  "as_size s = length (as_ar s) + of_bool (as_not s) + of_bool (as_equal s)"

definition fits :: "byte list \<Rightarrow> ar_state \<Rightarrow> ar_state option \<Rightarrow> bool" where
  "fits str s r \<longleftrightarrow> (\<exists>s1. r = Some s1 \<and> as_i s < as_i s1 \<and> as_i s1 \<le> length str \<and> as_size s1 \<le> 3 * as_i s1)"

lemma fits_skip: "as_i s1 = as_i s \<Longrightarrow> as_size s1 \<le> 3 * (as_i s + k) \<Longrightarrow> 0 < k \<Longrightarrow> as_i s + k \<le> length str \<Longrightarrow> fits str s (Some (skip k s1))"
  by (simp add: fits_def skip_def as_size_def)

lemma fits_emit:
  "as_i s1 = as_i s \<Longrightarrow> as_size s1 + length bs \<le> 3 * (as_i s + k) \<Longrightarrow> 0 < k \<Longrightarrow> as_i s + k \<le> length str \<Longrightarrow> length str \<le> 340 \<Longrightarrow>
    fits str s (map_option (skip k) (emit bs s1))"
  by (simp add: fits_def skip_def as_size_def emit_def)

lemma size_flags:
  "as_size (s\<lparr>as_not := b\<rparr>) \<le> as_size s + 1" "as_size (s\<lparr>as_equal := b\<rparr>) \<le> as_size s + 1"
  "as_size (s\<lparr>as_arg := b\<rparr>) = as_size s" "as_size (s\<lparr>as_type := t\<rparr>) = as_size s"
  by (simp_all add: as_size_def)

lemma word_room: "is_word str i w \<Longrightarrow> i < length str \<Longrightarrow> i + length w \<le> length str"
  and prefix_room: "has_prefix str i w \<Longrightarrow> i < length str \<Longrightarrow> i + length w \<le> length str"
proof -
  have "i + length w \<le> length str" if "i < length str" "map toupper_c (take (length w) (drop i str)) = cs w"
    using arg_cong [OF that(2), of length] that(1) by (simp add: cs_def min_def split: if_splits)
  then show "is_word str i w \<Longrightarrow> i < length str \<Longrightarrow> i + length w \<le> length str"
    "has_prefix str i w \<Longrightarrow> i < length str \<Longrightarrow> i + length w \<le> length str"
    by (auto simp: is_word_def has_prefix_def)
qed

lemma operator_fits:
  assumes op: "arstr_operator str c s = Some r" and i: "as_i s < length str" "length str \<le> 340" and sz: "as_size s \<le> 3 * as_i s"
  shows "fits str s r"
proof -
  have w: "as_i s + length w \<le> length str" if "is_word str (as_i s) w" for w using word_room [OF that i(1)] .
  have fl: "as_size (s\<lparr>as_not := b\<rparr>) \<le> 3 * (as_i s + k)" "as_size (s\<lparr>as_equal := b\<rparr>) \<le> 3 * (as_i s + k)" if "0 < k" for b k
    using size_flags(1) [where s = s and b = b] size_flags(2) [where s = s and b = b] sz that by simp_all
  have nest: "fits str s (do {
        s1 \<leftarrow> (if as_not s then emit [AR_NOT] s else Some s);
        s2 \<leftarrow> emit [AR_BEGNEST] (s1\<lparr>as_not := False, as_equal := False\<rparr>);
        Some (skip 1 s2) })"
    using i sz by (cases "as_not s") (auto simp: fits_def emit_def skip_def as_size_def)
  have one: "fits str s (map_option (skip 1) (emit [b] s))" "fits str s (Some (skip 1 s))"
      "fits str s (Some (skip 1 (s\<lparr>as_not := True\<rparr>)))" "fits str s (Some (skip 1 (s\<lparr>as_equal := True\<rparr>)))" for b
    using i sz fl [of 1 True] by (auto intro!: fits_emit fits_skip)
  have words: "is_word str (as_i s) ''OR'' \<Longrightarrow> fits str s (map_option (skip 2) (emit [AR_OR] s))"
      "is_word str (as_i s) ''AND'' \<Longrightarrow> fits str s (Some (skip 3 s))"
      "is_word str (as_i s) ''NOT'' \<Longrightarrow> fits str s (Some (skip 3 (s\<lparr>as_not := True\<rparr>)))"
      "is_word str (as_i s) ''TO'' \<Longrightarrow> fits str s (Some (skip 2 s))"
      "is_word str (as_i s) ''EQUAL'' \<Longrightarrow> fits str s (Some (skip 5 (s\<lparr>as_equal := True\<rparr>)))"
      "is_word str (as_i s) ''EQUALS'' \<Longrightarrow> fits str s (Some (skip 6 (s\<lparr>as_equal := True\<rparr>)))"
    using w [of "''OR''"] w [of "''AND''"] w [of "''NOT''"] w [of "''TO''"] w [of "''EQUAL''"] w [of "''EQUALS''"] i sz
      fl(1) [of 3 True] fl(2) [of 5 True] fl(2) [of 6 True]
    by - (rule fits_emit fits_skip; simp)+
  show ?thesis
    using op one nest words unfolding arstr_operator_def by (simp only: option.inject option.simps split: if_split_asm) blast+
qed

lemma boolean_size:
  assumes "as_size s \<le> 1020"
  shows "\<exists>s1. emit_boolean t s = Some s1 \<and> as_i s1 = as_i s \<and> as_size s1 = as_size s + 1"
  using assms by (cases "as_not s") (auto simp: emit_boolean_def emit_def emit_not_def as_size_def)

lemma dollar_fits:
  assumes "as_i s + 1 < length str" "length str \<le> 340" "as_size s \<le> 3 * as_i s"
  shows "fits str s (arstr_dollar str s)"
proof -
  have c: "str_at str (Suc (as_i s)) = Some (str ! Suc (as_i s))" using assms(1) by (simp add: str_at_def)
  have b: "\<exists>s1. emit_boolean t (s\<lparr>as_arg := True\<rparr>) = Some s1 \<and> as_i s1 = as_i s \<and> as_size s1 = as_size s + 1" for t
    using boolean_size [of "s\<lparr>as_arg := True\<rparr>" t] assms by (simp add: size_flags)
  let ?ch = "toupper_c (str ! Suc (as_i s))"
  obtain s2 where "arstr_dollar str s = Some (skip 2 s2)" "as_i s2 = as_i s" "as_size s2 \<le> as_size s + 1"
  proof (cases "lookup_char dollar_types ?ch")
    case (Some t)
    then show ?thesis using that [of "s\<lparr>as_arg := True, as_type := Some t\<rparr>"] by (simp add: arstr_dollar_def c Let_def size_flags)
  next
    case None
    show ?thesis
    proof (cases "lookup_char dollar_boolean ?ch")
      case (Some t)
      then show ?thesis using None b [of t] that by (auto simp: arstr_dollar_def c Let_def)
    qed (use None that [of "s\<lparr>as_arg := True\<rparr>"] in \<open>simp add: arstr_dollar_def c Let_def size_flags\<close>)
  qed
  then show ?thesis using fits_skip [of s2 s 2 str] assms by simp
qed

lemma keyword_fits:
  assumes "arstr_keyword str s = Some r" "as_i s < length str" "length str \<le> 340" "as_size s \<le> 3 * as_i s"
  shows "fits str s r"
proof -
  obtain w t where w: "find (\<lambda>(w, t). has_prefix str (as_i s) w) ar_keywords = Some (w, t)"
    and r: "r = map_option (skip (length w)) (if ars_boolean t then emit_boolean t (s\<lparr>as_type := Some t, as_arg := True\<rparr>)
      else Some (s\<lparr>as_type := Some t, as_arg := True\<rparr>))"
    using assms(1) by (auto simp: arstr_keyword_def ar_keywords_def split: option.splits)
  have k: "(w, t) \<in> set ar_keywords" "has_prefix str (as_i s) w"
    using w unfolding find_Some_iff by (metis (no_types, lifting) nth_mem case_prodD)+
  then have "w \<noteq> []" using keywords_word unfolding list_all_iff by fast
  then have l: "as_i s + length w \<le> length str" "0 < length w" using prefix_room [OF k(2) assms(2)] by auto
  obtain s1 where s1: "r = Some (skip (length w) s1)" "as_i s1 = as_i s" "as_size s1 \<le> as_size s + 1"
  proof (cases "ars_boolean t")
    case True
    then show ?thesis
      using boolean_size [of "s\<lparr>as_type := Some t, as_arg := True\<rparr>" t] assms(2-4) that r by (auto simp: size_flags)
  next
    case False
    then show ?thesis using that [of "s\<lparr>as_type := Some t, as_arg := True\<rparr>"] r by (simp add: size_flags)
  qed
  then show ?thesis using fits_skip [of s1 s "length w" str] assms(4) l by simp
qed

lemma skip_while_room: "as_i s < length str \<Longrightarrow> as_i s < as_i (skip_while P str s) \<and> as_i (skip_while P str s) \<le> length str"
  and skip_while_size: "as_size (skip_while P str s) = as_size s"
  using length_takeWhile_le [of P "drop (as_i s + 1) str"] by (auto simp: skip_while_def skip_def as_size_def)


lemma text_fits:
  assumes i: "as_i s < length str" "length str \<le> 340" and sz: "as_size s \<le> 3 * as_i s + 1"
    and c: "str ! as_i s = c" "\<not> ars_separator c"
  shows "fits str s (arstr_text cfg str c t s)"
proof -
  let ?rest = "drop (as_i s) str"
  have wh: "fits str s (map_option (skip_while P str) (emit bs s))" if "length bs \<le> 2" for P bs
    using that sz i skip_while_room [of "s\<lparr>as_ar := as_ar s @ bs\<rparr>" str P] skip_while_size [of P str "s\<lparr>as_ar := as_ar s @ bs\<rparr>"]
    by (auto simp: fits_def emit_def as_size_def)
  have un: "as_size (unemit s) \<le> as_size s" by (simp add: as_size_def unemit_def)
  have wh0: "fits str s (map_option (skip_while P str) (Some (unemit s)))" for P
    using sz i un skip_while_room [of "unemit s" str P] skip_while_size [of P str "unemit s"]
    by (auto simp: fits_def unemit_def)
  have str: "fits str s (map_option (skip (length arg)) (emit (map toupper_c arg @ [0]) s))"
    if "arg = take n (takeWhile (\<lambda>c. \<not> ars_separator c) ?rest)" "0 < n" for n arg
  proof -
    have "?rest = c # drop (Suc (as_i s)) str" using i(1) c(1) by (simp flip: Cons_nth_drop_Suc)
    then have "0 < length arg" using c(2) that by simp
    moreover have "length arg \<le> length ?rest" using that(1) length_takeWhile_le [of "\<lambda>c. \<not> ars_separator c" ?rest] by simp
    moreover from calculation have "as_size s + (length arg + 1) \<le> 3 * (as_i s + length arg)" using sz by presburger
    ultimately show ?thesis using i by (intro fits_emit) simp_all
  qed
  have "fits str s (map_option (skip 1) (emit [b] s))" for b using i sz by (intro fits_emit) simp_all
  moreover have "fits str s (Some (skip 1 (unemit s)))" using i sz un by (intro fits_skip) (simp_all add: unemit_def)
  moreover have "length (low16 n) \<le> 2" for n by (simp add: low16_def)
  ultimately show ?thesis
    using wh wh0 str [OF refl] unfolding arstr_text_def Let_def by (simp split: option.split)
qed

lemma number_fits:
  assumes i: "as_i s < length str" "length str \<le> 340" and sz: "as_size s \<le> 3 * as_i s + 1"
  shows "fits str s (arstr_number str t s)"
proof -
  have wh: "fits str s (map_option (skip_while P str) (emit bs s))" if "length bs \<le> 2" for P bs
    using that sz i skip_while_room [of "s\<lparr>as_ar := as_ar s @ bs\<rparr>" str P] skip_while_size [of P str "s\<lparr>as_ar := as_ar s @ bs\<rparr>"]
    by (auto simp: fits_def emit_def as_size_def)
  have wh0: "fits str s (map_option (skip_while P str) (Some (unemit s)))" for P
    using sz i skip_while_room [of "unemit s" str P] skip_while_size [of P str "unemit s"]
    by (auto simp: fits_def unemit_def as_size_def)
  have "length bs \<le> 2" if "ars_number t n = Some bs" for n bs
    using that by (auto simp: ars_number_def low16_def split: if_splits)
  then show ?thesis using wh wh0 by (simp add: arstr_number_def low16_def split: option.split)
qed

lemma fits_from: "fits str s1 r \<Longrightarrow> as_i s1 = as_i s \<Longrightarrow> fits str s r"
  by (simp add: fits_def)

lemma argument_fits:
  assumes i: "as_i s < length str" "length str \<le> 340" and sz: "as_size s \<le> 3 * as_i s"
    and c: "str ! as_i s = c" "\<not> ars_separator c"
  shows "fits str s (arstr_argument cfg str c s)"
proof -
  let ?A = "as_ar s @ (if as_not s then [AR_NOT] else []) @ (if as_equal s \<and> \<not> ar_string_arg (as_type s) then [AR_EQUAL] else [])"
  define s3 where "s3 = s\<lparr>as_ar := ?A, as_not := False, as_equal := False\<rparr>"
  define t where "t = (case as_type s of None \<Rightarrow> AR_LEVEL | Some t \<Rightarrow>
          if t = AR_SUB \<and> \<not> isdigit_c c then AR_SUBCODE
          else if t = AR_DIR \<and> \<not> isdigit_c c then AR_DIRCODE else t)"
  define s4 where "s4 = s3\<lparr>as_arg := False, as_type := Some t, as_ar := ?A @ [t]\<rparr>"
  have s3: "as_i s3 = as_i s" "as_size s3 \<le> as_size s" by (auto simp: s3_def as_size_def)
  then have s4: "as_i s4 = as_i s" "as_size s4 \<le> 3 * as_i s + 1" using sz by (auto simp: s4_def s3_def as_size_def)
  have "arstr_argument cfg str c s = (if as_type s = Some AR_FLAG1 \<and> isdigit_c c
      then Some (skip 1 (s3\<lparr>as_type := Some (if c = 0x32 then AR_FLAG2 else if c = 0x33 then AR_FLAG3
                                           else if c = 0x34 then AR_FLAG4 else AR_FLAG1)\<rparr>))
      else if isdigit_c c \<and> \<not> ar_string_arg (Some t) then arstr_number str t s4 else arstr_text cfg str c t s4)"
  proof -
    have room: "length (as_ar s) \<le> 3 * as_i s" "length ?A \<le> 3 * as_i s" using sz by (auto simp: as_size_def)
    obtain s1 where s1: "emit_not s = Some s1" "(if as_equal s \<and> \<not> ar_string_arg (as_type s) then emit [AR_EQUAL] s1 else Some s1)
        = Some (s\<lparr>as_ar := ?A, as_not := False\<rparr>)"
      using room i by (cases "as_not s"; cases "as_equal s \<and> \<not> ar_string_arg (as_type s)") (simp_all add: emit_not_def emit_def)
    have "emit [t] (s3\<lparr>as_arg := False, as_type := Some t\<rparr>) = Some s4" using room(2) i by (simp add: emit_def s4_def s3_def)
    then show ?thesis
      using s1 unfolding arstr_argument_def Let_def t_def [symmetric] by (simp add: s3_def)
  qed
  moreover have "fits str s (Some (skip 1 (s3\<lparr>as_type := T\<rparr>)))" for T
    using s3 i sz by (intro fits_skip) (simp_all add: size_flags)
  moreover have "fits str s (arstr_number str t s4)"
    using s4 i by (intro fits_from [OF number_fits]) simp_all
  moreover have "fits str s (arstr_text cfg str c t s4)"
    using s4 i c by (intro fits_from [OF text_fits]) simp_all
  ultimately show ?thesis by simp
qed

lemma step_fits:
  assumes i: "as_i s < length str" "length str \<le> 340" and sz: "as_size s \<le> 3 * as_i s"
    and c: "str ! as_i s = c" and d: "last str \<noteq> 0x24"
  shows "fits str s (arstr_step cfg str c s)"
proof (cases "arstr_operator str c s")
  case (Some r)
  then show ?thesis using operator_fits [OF Some i sz] by (simp add: arstr_step_def)
next
  case None
  then have sep: "\<not> ars_separator c" by (auto simp: arstr_operator_def ars_separator_def split: if_splits)
  have "as_i s + 1 < length str" if "c = 0x24"
  proof (rule ccontr)
    assume "\<not> ?thesis"
    then have "as_i s = length str - 1" "str \<noteq> []" using i(1) by auto
    then show False using that c d by (simp add: last_conv_nth)
  qed
  then show ?thesis
    using None dollar_fits [of s str] keyword_fits [of str s] argument_fits [OF i sz c sep] i sz
    by (auto simp: arstr_step_def split: option.split)
qed

lemma loop_fits:
  assumes "as_i s \<le> length str" "length str \<le> 340" "as_size s \<le> 3 * as_i s" "last str \<noteq> 0x24"
  shows "\<exists>s1. arstr_loop cfg str s = Some s1 \<and> length (as_ar s1) \<le> 3 * length str"
  using assms
proof (induction "length str - as_i s" arbitrary: s rule: less_induct)
  case less
  show ?case
  proof (cases "as_i s < length str \<and> str ! as_i s \<noteq> 0")
    case True
    then obtain s1 where "arstr_step cfg str (str ! as_i s) s = Some s1" "as_i s < as_i s1" "as_i s1 \<le> length str"
      "as_size s1 \<le> 3 * as_i s1"
      using step_fits [of s str "str ! as_i s" cfg] less.prems by (auto simp: fits_def)
    then show ?thesis
      using less.hyps [of s1] less.prems True by (subst arstr_loop.simps) (simp add: str_at_def)
  next
    case False
    then have "str_at str (as_i s) = Some 0" using less.prems(1) by (auto simp: str_at_def)
    then show ?thesis using less.prems by (subst arstr_loop.simps) (simp add: as_size_def)
  qed
qed

text \<open>
  C13: every requirement of at most 340 characters that does not end in a dollar sign is compiled
  inside the buffers, into at most three bytes for a character and the terminator, and both
  evaluators decide the code for every user without leaving it. The requirements of the
  configuration have at most 40 characters.
\<close>

theorem requirement_decided:
  assumes "length str \<le> 340" "last str \<noteq> 0x24"
  shows "\<exists>n code. arstr alloc cfg str = Some (n, code) \<and> n \<le> 3 * length str + 1
    \<and> (\<exists>r st1. sbbs_chk_ar cfg w code u cl st = Some (r, st1))
    \<and> (\<exists>r st1. chk_ar (Some cfg) w code uo cl st = Some (r, st1))"
proof -
  obtain s where s: "arstr_loop cfg str \<lparr>as_i = 0, as_ar = [], as_type = None, as_not = False, as_equal = False, as_arg = False\<rparr> = Some s"
    "length (as_ar s) \<le> 3 * length str"
    using loop_fits [of "\<lparr>as_i = 0, as_ar = [], as_type = None, as_not = False, as_equal = False, as_arg = False\<rparr>" str cfg] assms
    by (auto simp: as_size_def)
  have pad: "replicate 5 (0 :: byte) = 0 # replicate 4 0" by (simp add: numeral_eq_Suc)
  consider (nular) "arstr alloc cfg str = Some (0, Some [0])" | (failed) "arstr alloc cfg str = Some (0, None)"
    | (code) "arstr alloc cfg str = Some (length (as_ar s) + 1, Some (as_ar s @ replicate 5 0))"
    using s assms(1) by (cases "as_ar s = []"; cases alloc) (auto simp: arstr_def emit_def pad)
  then show ?thesis
  proof cases
    case nular
    have "ar_exp draw test [0] 0 st = Some (True, 0, st)" for draw test
      unfolding ar_exp_def by (subst ar_loop.simps) (simp add: byte_at_def)
    then show ?thesis using nular by (auto simp: sbbs_chk_ar_def chk_ar_def)
  next
    case failed
    then show ?thesis by (auto simp: sbbs_chk_ar_def chk_ar_def)
  next
    case code
    moreover have "length (as_ar s) + 1 \<le> 3 * length str + 1" using s(2) by simp
    ultimately show ?thesis
      using chk_ar_returns [of cfg w "as_ar s" u cl st uo]
      by (intro exI [of _ "length (as_ar s) + 1"] exI [of _ "Some (as_ar s @ replicate 5 0)"] conjI) (assumption | erule conjunct1 conjunct2)+
  qed
qed

lemma parens_run:
  "i \<le> n \<Longrightarrow> i \<le> 1024 \<Longrightarrow> arstr_loop cfg (replicate n 0x28) (AS 0 [] None False False False)
    = arstr_loop cfg (replicate n 0x28) (AS i (replicate i AR_BEGNEST) None False False False)"
proof (induction i)
  case (Suc i)
  have "drop i (replicate n 0x28) = (0x28 :: byte) # replicate (n - Suc i) 0x28"
    using Suc.prems(1) by (simp add: Suc_diff_Suc [symmetric] del: Suc_diff_Suc)
  then show ?case
    using loop_begnest [of i "replicate n 0x28" "replicate (n - Suc i) 0x28" "replicate i AR_BEGNEST" False cfg None False False] Suc
    by (simp add: opt_byte_def replicate_append_same)
qed simp

text \<open>
  C39: the compiler does not watch its limits: 1024 opening parentheses overflow the buffer of the
  code, and a dollar sign at the end of the source makes it read on after the terminator.
\<close>

theorem arstr_overruns:
  assumes "1024 \<le> n"
  shows "arstr alloc cfg (replicate n 0x28) = None \<and> arstr alloc cfg (cs ''LEVEL 50$'') = None"
proof
  let ?s = "AS 1024 (replicate 1024 AR_BEGNEST) None False False False"
  have "arstr_loop cfg (replicate n 0x28) (AS 0 [] None False False False) = arstr_loop cfg (replicate n 0x28) ?s"
    using parens_run [of 1024 n cfg] assms by simp
  also have "\<dots> = (if n = 1024 then Some ?s else None)"
    using assms by (subst arstr_loop.simps) (simp add: str_at_def arstr_step_def arstr_operator_def)
  finally show "arstr alloc cfg (replicate n 0x28) = None"
    by (simp add: arstr_def AS_def [symmetric])
  show "arstr alloc cfg (cs ''LEVEL 50$'') = None" by code_simp
qed

theorem arstr_overruns_witness: "\<forall>cfg. arstr True cfg (replicate 1024 0x28) = None"
  using arstr_overruns [of 1024 True] by simp

text \<open>
  A time without minutes takes those of a later time: \<open>TIME 19 OR TIME 21:30\<close> asks for half
  past seven.
\<close>

theorem time_takes_later_minutes:
  "arstr True cfg (cs ''TIME 19 OR TIME 21:30'')
    = Some (8, Some (AR_TIME # low16 (19 * 60 + 30) @ AR_OR # AR_TIME # low16 (21 * 60 + 30) @ replicate 5 0))"
  by code_simp

section \<open>Samples\<close>

text \<open>The text is \<open>!(LEVEL 50 |FLAG B )|SEX M\<close>.\<close>

theorem arstr_text_code_witness:
  "\<forall>cfg. arstr True cfg (seq_text sample_requirement)
    = Some (12, Some ([2, 4, 6, 50, 1, 15, 0x42, 5, 1, 21] @ 0x4D # replicate 5 0))"
proof -
  have "\<exists>n i str. ar_operand t [c] n i str" if "t \<in> {AR_LEVEL, AR_FLAG1, AR_SEX}" for t c
    using that by (auto simp: ar_operand_def ar_no_arg_def ar_short_arg_def ar_string_arg_def)
  then have "seq_printable sample_requirement"
    by (simp add: sample_requirement_def test_ok_def ar_no_arg_def ar_letter_def ar_string_arg_def)
  moreover have "sample_requirement \<noteq> Last" "seq_code sample_requirement = [2, 4, 6, 50, 1, 15, 0x42, 5, 1, 21, 0x4D]"
    by (simp_all add: sample_requirement_def opt_byte_def)
  ultimately show ?thesis using arstr_text_code [of sample_requirement] by simp
qed

theorem requirement_decided_witness:
  "\<forall>cfg w u. \<exists>n code r st1. arstr True cfg (cs ''LEVEL 50 AND NOT ($F1A OR SEX=F)'') = Some (n, code)
    \<and> sbbs_chk_ar cfg w code u None \<lparr>noaccess_str = None, noaccess_val = 0, drawn = 0\<rparr> = Some (r, st1)"
  using requirement_decided [of "cs ''LEVEL 50 AND NOT ($F1A OR SEX=F)''"] by (fastforce simp: cs_def)

end
