(* ===== verification/StrList.thy ===== *)
theory StrList
  imports CText
begin

text \<open>
  String lists of xpdev/str\_list.c: arrays of C strings ended by NULL, here lists of byte lists;
  the NULL entry is the one at the length of the list. Allocations succeed. A file is the list of
  its bytes. The functions that split a string, read lines and pack a list into one block are
  here with what \<open>strtok\<close>, \<open>fgets\<close> and \<open>strcmp\<close> do.
\<close>

type_synonym str_list = "byte list list"

text \<open>STR\_LIST\_LAST\_INDEX, the largest size\_t, is never the index of an entry: it is None.\<close>

abbreviation (input) "STR_LIST_LAST_INDEX \<equiv> None :: nat option"

section \<open>Entries\<close>

definition strListInit :: str_list where
  "strListInit = []"

definition strListCount :: "str_list \<Rightarrow> nat" where
  "strListCount list = length list"

text \<open>Writing at an index behind the end would leave entries without a value: None.\<close>

definition str_list_append :: "str_list \<Rightarrow> byte list \<Rightarrow> nat \<Rightarrow> str_list option" where
  "str_list_append list str i = (if i \<le> length list then Some (take i list @ [str]) else None)"

definition str_list_insert :: "str_list \<Rightarrow> byte list \<Rightarrow> nat \<Rightarrow> byte list option \<times> str_list" where
  "str_list_insert list str i =
     (if strListCount list < i then (None, list) else (Some str, take i list @ str # drop i list))"

text \<open>The index of an entry; there is none in an empty list, whatever the index.\<close>

definition list_index :: "str_list \<Rightarrow> nat option \<Rightarrow> nat" where
  "list_index list i = (case i of None \<Rightarrow> strListCount list - 1 | Some n \<Rightarrow> n)"

definition strListRemove :: "str_list \<Rightarrow> nat option \<Rightarrow> byte list option \<times> str_list" where
  "strListRemove list i0 =
     (let i = list_index list i0 in
      if strListCount list \<le> i then (None, list) else (Some (list ! i), take i list @ drop (Suc i) list))"

definition strListDelete :: "str_list \<Rightarrow> nat option \<Rightarrow> bool \<times> str_list" where
  "strListDelete list i = (case strListRemove list i of (r, list1) \<Rightarrow> (r \<noteq> None, list1))"

definition strListReplace :: "str_list \<Rightarrow> nat option \<Rightarrow> byte list option \<Rightarrow> byte list option \<times> str_list" where
  "strListReplace list i0 str =
     (case str of None \<Rightarrow> (None, list) | Some s \<Rightarrow>
        let i = list_index list i0 in
        if strListCount list \<le> i then (None, list) else (Some s, list[i := s]))"

definition strListSwap :: "str_list \<Rightarrow> nat option \<Rightarrow> nat option \<Rightarrow> bool \<times> str_list" where
  "strListSwap list a b =
     (let i = list_index list a; j = list_index list b in
      if strListCount list \<le> i \<or> strListCount list \<le> j \<or> i = j then (False, list)
      else (True, list[i := list ! j, j := list ! i]))"

definition strListAppend :: "str_list \<Rightarrow> byte list option \<Rightarrow> nat option \<Rightarrow> (byte list option \<times> str_list) option" where
  "strListAppend list str i =
     (case str of None \<Rightarrow> Some (None, list) | Some s \<Rightarrow>
        map_option (Pair (Some s)) (str_list_append list s (case i of None \<Rightarrow> strListCount list | Some n \<Rightarrow> n)))"

definition strListAppendList :: "str_list \<Rightarrow> str_list \<Rightarrow> nat \<times> str_list" where
  "strListAppendList list add =
     (let list1 = fold (\<lambda>s acc. snd (the (strListAppend acc (Some s) (Some (strListCount acc))))) add list
      in (strListCount list + strListCount add, list1))"

definition strListInsert :: "str_list \<Rightarrow> byte list option \<Rightarrow> nat \<Rightarrow> byte list option \<times> str_list" where
  "strListInsert list str i = (case str of None \<Rightarrow> (None, list) | Some s \<Rightarrow> str_list_insert list s i)"

text \<open>The count of the strings that were inserted, up to the first that was not.\<close>

fun insertlist_loop :: "str_list \<Rightarrow> str_list \<Rightarrow> nat \<Rightarrow> nat \<times> str_list" where
  "insertlist_loop list [] i = (0, list)"
| "insertlist_loop list (s # add) i =
     (case strListInsert list (Some s) i of (None, list1) \<Rightarrow> (0, list1)
      | (Some r, list1) \<Rightarrow> map_prod Suc (\<lambda>l. l) (insertlist_loop list1 add (Suc i)))"

definition strListInsertList :: "str_list \<Rightarrow> str_list \<Rightarrow> nat \<Rightarrow> nat \<times> str_list" where
  "strListInsertList list add i = insertlist_loop list add i"

definition strListMerge :: "str_list \<Rightarrow> str_list \<Rightarrow> nat \<times> str_list" where
  "strListMerge list add = (strListCount add, snd (strListAppendList list add))"

definition strListDup :: "str_list \<Rightarrow> str_list" where
  "strListDup list = snd (strListAppendList strListInit list)"

section \<open>Splitting and joining\<close>

text \<open>\<open>strtok\<close> until it returns NULL: the pieces between the delimiters that are not empty.\<close>

function strtok_all :: "byte list \<Rightarrow> byte list \<Rightarrow> byte list list" where
  "strtok_all delimit [] = []"
| "strtok_all delimit (c # s) =
     (if c \<in> set delimit then strtok_all delimit s
      else (c # takeWhile (\<lambda>x. x \<notin> set delimit) s) # strtok_all delimit (dropWhile (\<lambda>x. x \<notin> set delimit) s))"
  by pat_completeness auto
termination
  by (relation "measure (\<lambda>(d, s). length s)") (auto simp: le_imp_less_Suc length_dropWhile_le)

definition strListSplit :: "str_list option \<Rightarrow> byte list option \<Rightarrow> byte list option \<Rightarrow> str_list option" where
  "strListSplit lp str delimit =
     (case (str, delimit) of
        (Some s, Some d) \<Rightarrow> Some (snd (strListAppendList (case lp of None \<Rightarrow> strListInit | Some l \<Rightarrow> l) (strtok_all d s)))
      | _ \<Rightarrow> None)"

definition strListSplitCopy :: "str_list option \<Rightarrow> byte list option \<Rightarrow> byte list option \<Rightarrow> str_list option" where
  "strListSplitCopy lp str delimit = strListSplit lp str delimit"

text \<open>\<open>safe_snprintf\<close> into the rest of the buffer cuts the text off; so does every later one.\<close>

fun combine_text :: "byte list \<Rightarrow> bool \<Rightarrow> str_list \<Rightarrow> byte list" where
  "combine_text delimit started [] = []"
| "combine_text delimit started (s # list) = (if started then delimit else []) @ s @ combine_text delimit True list"

definition strListCombine :: "str_list option \<Rightarrow> nat \<Rightarrow> byte list \<Rightarrow> byte list option" where
  "strListCombine list maxlen delimit =
     (case list of None \<Rightarrow> None
      | Some l \<Rightarrow> if maxlen < 1 then None else Some (take (maxlen - 1) (combine_text delimit False l)))"

section \<open>Comparing\<close>

text \<open>The sign of \<open>strcmp\<close>; a string ends before the first byte that differs.\<close>

fun strcmp_c :: "byte list \<Rightarrow> byte list \<Rightarrow> int" where
  "strcmp_c [] [] = 0"
| "strcmp_c [] (b # bs) = -1"
| "strcmp_c (a # as) [] = 1"
| "strcmp_c (a # as) (b # bs) = (if a = b then strcmp_c as bs else if a < b then -1 else 1)"

text \<open>\<open>qsort\<close> leaves the order of equal entries open; those equal for \<open>strcmp\<close> are the same string.\<close>

fun insert_str :: "byte list \<Rightarrow> str_list \<Rightarrow> str_list" where
  "insert_str s [] = [s]"
| "insert_str s (t # list) = (if strcmp_c s t \<le> 0 then s # t # list else t # insert_str s list)"

definition strListSortAlphaCase :: "str_list \<Rightarrow> str_list" where
  "strListSortAlphaCase list = foldr insert_str list []"

definition strListSortAlphaCaseReverse :: "str_list \<Rightarrow> str_list" where
  "strListSortAlphaCaseReverse list = rev (strListSortAlphaCase list)"

text \<open>The loop over both sorted lists; the second advances before the comparison.\<close>

fun strlistcmp_loop :: "str_list \<Rightarrow> str_list \<Rightarrow> int" where
  "strlistcmp_loop [] l2 = (if tl l2 = [] then 0 else -1)"
| "strlistcmp_loop (a # l1) l2 =
     (case tl l2 of [] \<Rightarrow> 1
      | b # l3 \<Rightarrow> if strcmp_c a b \<noteq> 0 then strcmp_c a b else strlistcmp_loop l1 (b # l3))"

definition strListCmp :: "str_list \<Rightarrow> str_list \<Rightarrow> int" where
  "strListCmp list1 list2 =
     (let l1 = strListDup list1; l2 = strListDup list2 in
      if l1 = [] \<and> l2 = [] then 0
      else if l1 = [] then -1
      else if l2 = [] then 1
      else strlistcmp_loop (strListSortAlphaCase l1) (strListSortAlphaCase l2))"

section \<open>Files\<close>

text \<open>\<open>fgets\<close> with room for n characters: through the next line feed.\<close>

fun fgets_line :: "nat \<Rightarrow> byte list \<Rightarrow> byte list \<times> byte list" where
  "fgets_line 0 bs = ([], bs)"
| "fgets_line (Suc n) [] = ([], [])"
| "fgets_line (Suc n) (c # bs) = (if c = 0x0A then ([c], bs) else map_prod (Cons c) (\<lambda>r. r) (fgets_line n bs))"

lemma fgets_line_rest: "bs \<noteq> [] \<Longrightarrow> length (snd (fgets_line (Suc n) bs)) < length bs"
proof -
  have "length (snd (fgets_line n bs)) \<le> length bs" for n bs
    by (induction n bs rule: fgets_line.induct) auto
  then show "bs \<noteq> [] \<Longrightarrow> ?thesis" by (cases bs) (auto simp: le_imp_less_Suc)
qed

text \<open>The lines of a file, each as the C string that is in the buffer.\<close>

function file_lines :: "nat \<Rightarrow> byte list \<Rightarrow> str_list" where
  "file_lines n bs =
     (if bs = [] \<or> n = 0 then [] else cstr (fst (fgets_line n bs)) # file_lines n (snd (fgets_line n bs)))"
  by auto
termination
proof (relation "measure (\<lambda>(n, bs). length bs)", simp)
  fix n :: nat and bs :: "byte list"
  assume "\<not> (bs = [] \<or> n = 0)"
  then show "((n, snd (fgets_line n bs)), n, bs) \<in> measure (\<lambda>(n, bs). length bs)"
    using fgets_line_rest [of bs "n - 1"] by (cases n) auto
qed

declare file_lines.simps [simp del]

definition str_list_read_file :: "byte list option \<Rightarrow> str_list option \<Rightarrow> nat \<Rightarrow> str_list" where
  "str_list_read_file fp lp max_line_len =
     (let list = (case lp of None \<Rightarrow> strListInit | Some l \<Rightarrow> l)
      in case fp of None \<Rightarrow> list
         | Some bs \<Rightarrow> snd (strListAppendList list (file_lines (if max_line_len < 1 then 2048 else max_line_len) bs)))"

definition strListReadFile :: "byte list option \<Rightarrow> str_list option \<Rightarrow> nat \<Rightarrow> str_list" where
  "strListReadFile fp lp max_line_len = str_list_read_file fp lp max_line_len"

definition strListInsertFile :: "byte list option \<Rightarrow> str_list \<Rightarrow> nat \<Rightarrow> nat \<Rightarrow> nat \<times> str_list" where
  "strListInsertFile fp lp i max_line_len = strListInsertList lp (str_list_read_file fp None max_line_len) i"

text \<open>Writing a list to a file that takes everything: the count and the bytes.\<close>

definition strListWriteFile :: "str_list option \<Rightarrow> byte list option \<Rightarrow> nat \<times> byte list" where
  "strListWriteFile list separator =
     (case list of None \<Rightarrow> (0, [])
      | Some l \<Rightarrow> (length l, concat (map (\<lambda>s. s @ (case separator of None \<Rightarrow> [] | Some sep \<Rightarrow> sep)) l)))"

section \<open>Blocks\<close>

text \<open>A block holds strings one after the other, each with its terminator, and an empty one at the end.\<close>

function block_strings :: "byte list \<Rightarrow> str_list" where
  "block_strings block = (if cstr block = [] then [] else cstr block # block_strings (drop (length (cstr block) + 1) block))"
  by auto
termination
proof (relation "measure length", simp)
  fix block :: "byte list"
  assume "cstr block \<noteq> []"
  then show "(drop (length (cstr block) + 1) block, block) \<in> measure length"
    by (cases block) (auto simp: cstr_def)
qed

declare block_strings.simps [simp del]

definition strListBlockLength :: "byte list option \<Rightarrow> nat" where
  "strListBlockLength block =
     (case block of None \<Rightarrow> 0
      | Some b \<Rightarrow> let n = sum_list (map (\<lambda>s. length s + 1) (block_strings b)) in (if n = 0 then 1 else n) + 1)"

definition strListCopyBlock :: "byte list option \<Rightarrow> byte list option" where
  "strListCopyBlock block = (case block of None \<Rightarrow> None | Some b \<Rightarrow> Some (take (strListBlockLength block) b))"

definition strListAppendBlock :: "byte list option \<Rightarrow> str_list \<Rightarrow> byte list" where
  "strListAppendBlock block list =
     (let old = (case block of None \<Rightarrow> [] | Some b \<Rightarrow> take (strListBlockLength block - 1) b);
          text = old @ concat (map (\<lambda>s. s @ [0]) (filter (\<lambda>s. s \<noteq> []) list));
          n = (if text = [] then 1 else length text) + 1
      in take (n - 2) text @ [0, 0])"

definition strListCreateBlock :: "str_list \<Rightarrow> byte list" where
  "strListCreateBlock list = strListAppendBlock None list"

section \<open>Properties\<close>

lemma strListAppendList_append: "strListAppendList list add = (length list + length add, list @ add)"
proof -
  have "fold (\<lambda>s acc. snd (the (strListAppend acc (Some s) (Some (strListCount acc))))) add list = list @ add"
    by (induction add arbitrary: list) (simp_all add: strListAppend_def str_list_append_def strListCount_def)
  then show ?thesis by (simp add: strListAppendList_def strListCount_def)
qed

lemma strListDup_same [simp]: "strListDup list = list"
  by (simp add: strListDup_def strListAppendList_append strListInit_def)

lemma strListSplit_new: "strListSplit None (Some s) (Some d) = Some (strtok_all d s)"
  by (simp add: strListSplit_def strListAppendList_append strListInit_def)

lemma strcmp_c_eq: "strcmp_c a b = 0 \<longleftrightarrow> a = b"
  by (induction a b rule: strcmp_c.induct) auto

lemma strlistcmp_loop_zero: "strlistcmp_loop l1 l2 = 0 \<longleftrightarrow> tl l2 = l1"
  by (induction l1 l2 rule: strlistcmp_loop.induct) (auto simp: strcmp_c_eq split: list.split)

lemma length_insert_str [simp]: "length (insert_str s list) = Suc (length list)"
  by (induction list) auto

lemma length_strListSortAlphaCase [simp]: "length (strListSortAlphaCase list) = length list"
  by (induction list) (auto simp: strListSortAlphaCase_def)

text \<open>
  Two string lists compare as equal only when both are empty or the second has one string
  more: it is advanced before the first comparison. A list that is not empty never equals
  itself, so the comparison of a server's interfaces with the global ones never succeeds.
\<close>

theorem strListCmp_zero:
  "(strListCmp list1 list2 = 0 \<longleftrightarrow>
      list1 = [] \<and> list2 = [] \<or> (list1 \<noteq> [] \<and> strListSortAlphaCase list1 = tl (strListSortAlphaCase list2)))
   \<and> (strListCmp list1 list1 = 0 \<longleftrightarrow> list1 = [])"
proof -
  let ?s = strListSortAlphaCase
  have e: "?s l = [] \<longleftrightarrow> l = []" for l using length_strListSortAlphaCase [of l] by (metis length_0_conv)
  have nil: "?s [] = []" by (simp add: strListSortAlphaCase_def)
  have z: "strListCmp a b = 0 \<longleftrightarrow> a = [] \<and> b = [] \<or> (a \<noteq> [] \<and> ?s a = tl (?s b))" for a b
  proof (cases "a = [] \<or> b = []")
    case True
    then show ?thesis using e [of a] nil by (cases "b = []") (auto simp: strListCmp_def)
  next
    case False
    then show ?thesis by (auto simp: strListCmp_def strlistcmp_loop_zero)
  qed
  have "?s list1 \<noteq> tl (?s list1)" if "list1 \<noteq> []"
  proof
    assume "?s list1 = tl (?s list1)"
    then have "length (?s list1) = length (tl (?s list1))" by simp
    then show False using that by (cases list1) simp_all
  qed
  then show ?thesis using z by blast
qed

end
