(* ===== verification/Ini.thy ===== *)
theory Ini
  imports StrList "HOL-Library.Monad_Syntax"
begin

text \<open>
  Configuration files of xpdev/ini\_file.c. The functions with Get and Set work on the lines of a
  file in memory, those with Read on the file itself. A section is ROOT\_SECTION, here None, or a
  name. A pointer into a line of the list is the number of the line and the offset in it.
\<close>

abbreviation (input) "INI_MAX_VALUE_LEN \<equiv> 1024 :: nat"
abbreviation (input) "INI_MAX_LINE_LEN \<equiv> 2048 :: nat"
abbreviation (input) "INI_COMMENT_CHAR \<equiv> 0x3B :: byte"
abbreviation (input) "INI_OPEN_SECTION_CHAR \<equiv> 0x5B :: byte"
abbreviation (input) "INI_CLOSE_SECTION_CHAR \<equiv> 0x5D :: byte"
abbreviation (input) "INI_BIT_SEP \<equiv> 0x7C :: byte"
abbreviation (input) "INI_INCLUDE_MAX \<equiv> 10000 :: nat"

type_synonym ini_section = "byte list option"

section \<open>Lines\<close>

text \<open>\<open>SAFECOPY\<close> into the two buffers the lines are parsed in.\<close>

definition line_copy :: "byte list \<Rightarrow> byte list" where
  "line_copy l = take (INI_MAX_LINE_LEN - 1) l"

definition value_copy :: "byte list \<Rightarrow> byte list" where
  "value_copy l = take (INI_MAX_VALUE_LEN - 1) l"

text \<open>The end directive; looking for it trims a line that starts with an exclamation mark.\<close>

definition is_eof :: "byte list \<Rightarrow> bool" where
  "is_eof str \<longleftrightarrow> take 1 str = [0x21] \<and> stricmp_eq (truncsp str) (cs ''!eof'')"

definition eof_trunc :: "byte list \<Rightarrow> byte list" where
  "eof_trunc str = (if take 1 str = [0x21] then truncsp str else str)"

definition section_name :: "byte list \<Rightarrow> byte list option" where
  "section_name str =
     (let p = skipsp str in
      if take 1 p \<noteq> [INI_OPEN_SECTION_CHAR] then None
      else let q = skipsp (tl p) in
        if INI_CLOSE_SECTION_CHAR \<notin> set q then None
        else Some (truncsp (rev (tl (dropWhile (\<lambda>c. c \<noteq> INI_CLOSE_SECTION_CHAR) (rev q))))))"

text \<open>Names separated by bars stand for several sections.\<close>

definition section_match :: "byte list \<Rightarrow> byte list \<Rightarrow> bool" where
  "section_match name compare \<longleftrightarrow>
     list_ex (\<lambda>n. list_ex (\<lambda>c. stricmp_eq (skipsp (truncsp n)) (skipsp (truncsp c))) (strtok_all [0x7C] compare))
       (strtok_all [0x7C] name)"

datatype key_line = NoKey | INI_NEW_SECTION | Key "byte list" "byte list" nat

text \<open>The key of a line, its value, trimmed as the separator tells, and where the value starts.\<close>

definition key_name :: "byte list \<Rightarrow> key_line" where
  "key_name str =
     (let p = skipsp str;
          equal = length (takeWhile (\<lambda>c. c \<noteq> 0x3D) p);
          colon = length (takeWhile (\<lambda>c. c \<noteq> 0x3A) p);
          k = (if equal < colon then equal else colon);
          v = skipsp (drop (k + 1) p)
      in if take 1 p = [INI_COMMENT_CHAR] then NoKey
         else if take 1 p = [INI_OPEN_SECTION_CHAR] then INI_NEW_SECTION
         else if length p \<le> k then NoKey
         else Key (truncsp (take k p)) (if equal < colon then truncsp v else truncnl v) (length str - length v))"

section \<open>Searching\<close>

text \<open>The index of a section's line; the count of lines where there is none before the end directive.\<close>

fun find_section_index :: "str_list \<Rightarrow> byte list \<Rightarrow> nat" where
  "find_section_index [] section = 0"
| "find_section_index (l # list) section =
     (let str = value_copy l in
      if is_eof str then Suc (strListCount list)
      else case section_name (eof_trunc str) of
        Some p \<Rightarrow> if section_match p section then 0 else Suc (find_section_index list section)
      | None \<Rightarrow> Suc (find_section_index list section))"

definition find_section :: "str_list \<Rightarrow> ini_section \<Rightarrow> nat" where
  "find_section list section =
     (case section of None \<Rightarrow> 0
      | Some s \<Rightarrow> let i = find_section_index list s in if i < strListCount list then i + 1 else i)"

text \<open>The loop of \<open>get_value\<close>: the line where it stops, and the value with its offset when it found the key.\<close>

fun value_scan :: "str_list \<Rightarrow> byte list \<Rightarrow> nat \<times> (byte list \<times> nat) option" where
  "value_scan [] key = (0, None)"
| "value_scan (l # list) key =
     (let str = line_copy l in
      if is_eof str then (0, None)
      else case key_name (eof_trunc str) of
        INI_NEW_SECTION \<Rightarrow> (0, None)
      | NoKey \<Rightarrow> map_prod Suc (\<lambda>r. r) (value_scan list key)
      | Key k v off \<Rightarrow> if stricmp_eq k key then (0, Some (v, off)) else map_prod Suc (\<lambda>r. r) (value_scan list key))"

text \<open>The line, what the value buffer holds, and the pointer.\<close>

definition get_value :: "str_list \<Rightarrow> ini_section \<Rightarrow> byte list \<Rightarrow> nat \<times> byte list \<times> nat option" where
  "get_value list section key =
     (let i = find_section list section; (j, r) = value_scan (drop i list) key
      in (i + j, (case r of None \<Rightarrow> [] | Some (v, off) \<Rightarrow> value_copy v), map_option snd r))"

text \<open>The string that the pointer of \<open>get_value\<close> points to, in the list itself.\<close>

definition value_at :: "str_list \<Rightarrow> ini_section \<Rightarrow> byte list \<Rightarrow> byte list option" where
  "value_at list section key =
     (case get_value list section key of (i, v, vp) \<Rightarrow> map_option (\<lambda>off. drop off (list ! i)) vp)"

definition iniSectionExists :: "str_list \<Rightarrow> ini_section \<Rightarrow> bool" where
  "iniSectionExists list section =
     (case section of None \<Rightarrow> True | Some s \<Rightarrow> find_section_index list s < strListCount list)"

definition opens_section :: "byte list \<Rightarrow> bool" where
  "opens_section l \<longleftrightarrow> take 1 l = [INI_OPEN_SECTION_CHAR]"

definition iniGetSection :: "str_list option \<Rightarrow> ini_section \<Rightarrow> str_list option" where
  "iniGetSection list section =
     (case list of None \<Rightarrow> None | Some lines \<Rightarrow>
        (case drop (find_section lines section) lines of [] \<Rightarrow> Some []
         | l # rest \<Rightarrow> Some (l # takeWhile (\<lambda>x. \<not> opens_section (skipsp x)) rest)))"

definition iniKeyExists :: "str_list option \<Rightarrow> ini_section \<Rightarrow> byte list \<Rightarrow> bool" where
  "iniKeyExists list section key =
     (case list of None \<Rightarrow> False | Some lines \<Rightarrow>
        let i = fst (get_value lines section key)
        in \<not> (strListCount lines \<le> i \<or> opens_section (lines ! i)))"

definition iniValueExists :: "str_list \<Rightarrow> ini_section \<Rightarrow> byte list \<Rightarrow> bool" where
  "iniValueExists list section key = (case value_at list section key of None \<Rightarrow> False | Some v \<Rightarrow> v \<noteq> [])"

section \<open>Removing and renaming\<close>

definition iniRemoveKey :: "str_list \<Rightarrow> ini_section \<Rightarrow> byte list \<Rightarrow> bool \<times> str_list" where
  "iniRemoveKey list section key =
     (case get_value list section key of (i, v, vp) \<Rightarrow>
        if vp = None then (False, list) else strListDelete list (Some i))"

definition iniRemoveValue :: "str_list \<Rightarrow> ini_section \<Rightarrow> byte list \<Rightarrow> bool \<times> str_list" where
  "iniRemoveValue list section key =
     (case get_value list section key of (i, v, vp) \<Rightarrow>
        (case vp of None \<Rightarrow> (False, list) | Some off \<Rightarrow> (True, list[i := take off (list ! i)])))"

text \<open>The line of the section and the lines up to the next that opens one.\<close>

definition iniRemoveSection :: "str_list \<Rightarrow> byte list \<Rightarrow> bool \<times> str_list" where
  "iniRemoveSection list section =
     (let i = find_section_index list section in
      if strListCount list \<le> i then (False, list)
      else (True, take i list @ dropWhile (\<lambda>l. \<not> opens_section l) (drop (i + 1) list)))"

definition section_line :: "byte list \<Rightarrow> byte list" where
  "section_line name = line_copy (INI_OPEN_SECTION_CHAR # name @ [INI_CLOSE_SECTION_CHAR])"

definition iniRenameSection :: "str_list \<Rightarrow> ini_section \<Rightarrow> byte list \<Rightarrow> bool \<times> str_list" where
  "iniRenameSection list section newname =
     (case section of None \<Rightarrow> (False, list) | Some s \<Rightarrow>
        if find_section_index list newname < strListCount list then (False, list)
        else let i = find_section_index list s in
          if strListCount list \<le> i then (False, list)
          else (case strListReplace list (Some i) (Some (section_line newname)) of (r, list1) \<Rightarrow> (r \<noteq> None, list1)))"

section \<open>Setting\<close>

record ini_style_t =
  st_key_len :: nat
  st_key_prefix :: "byte list option"
  st_section_separator :: "byte list option"
  st_value_separator :: "byte list option"
  st_bit_separator :: "byte list option"

definition default_style :: ini_style_t where
  "default_style = \<lparr>st_key_len = 0, st_key_prefix = None, st_section_separator = None, st_value_separator = None, st_bit_separator = None\<rparr>"

definition str_append :: "str_list \<Rightarrow> byte list \<Rightarrow> str_list" where
  "str_append list s = snd (the (strListAppend list (Some s) STR_LIST_LAST_INDEX))"

definition ini_add_section :: "str_list \<Rightarrow> ini_section \<Rightarrow> ini_style_t \<Rightarrow> nat \<Rightarrow> nat \<times> str_list" where
  "ini_add_section list section style index =
     (case section of None \<Rightarrow> (0, list) | Some s \<Rightarrow>
        if index < strListCount list then (index, list)
        else let list1 = (if 0 < index then (case st_section_separator style of None \<Rightarrow> list | Some sep \<Rightarrow> str_append list sep) else list)
             in (strListCount list1, str_append list1 (section_line s)))"

definition iniAddSection :: "str_list \<Rightarrow> ini_section \<Rightarrow> ini_style_t \<Rightarrow> nat \<times> str_list" where
  "iniAddSection list section style =
     (case section of None \<Rightarrow> (0, list) | Some s \<Rightarrow> ini_add_section list section style (find_section_index list s))"

definition iniAppendSection :: "str_list \<Rightarrow> ini_section \<Rightarrow> ini_style_t \<Rightarrow> nat \<times> str_list" where
  "iniAppendSection list section style =
     (case section of None \<Rightarrow> (0, list) | Some s \<Rightarrow> ini_add_section list section style (strListCount list))"

text \<open>The line of a key; the style gives what stands before, between and how wide the key is.\<close>

definition key_text :: "ini_style_t \<Rightarrow> byte list \<Rightarrow> byte list \<Rightarrow> byte list" where
  "key_text style key value =
     line_copy ((case st_key_prefix style of None \<Rightarrow> [] | Some p \<Rightarrow> p)
       @ key @ replicate (st_key_len style - length key) 0x20
       @ (case st_value_separator style of None \<Rightarrow> [0x3D] | Some s \<Rightarrow> s) @ value)"

text \<open>Before the blank lines that end at i.\<close>

definition before_blank :: "str_list \<Rightarrow> nat \<Rightarrow> nat" where
  "before_blank list i = i - length (takeWhile (\<lambda>l. l = []) (rev (take i list)))"

definition iniSetString ::
  "str_list \<Rightarrow> ini_section \<Rightarrow> byte list option \<Rightarrow> byte list option \<Rightarrow> ini_style_t \<Rightarrow> byte list option \<times> str_list" where
  "iniSetString list section key value style =
     (let list1 = snd (iniAddSection list section style) in
      case key of None \<Rightarrow> (None, list1) | Some k \<Rightarrow>
        let v = (case value of None \<Rightarrow> [] | Some v \<Rightarrow> v);
            str = key_text style k v;
            (i, curval, vp) = get_value list1 section k
        in if strListCount list1 \<le> i \<or> opens_section (list1 ! i) then strListInsert list1 (Some str) (before_blank list1 i)
           else if curval = v then (Some (list1 ! i), list1)
           else strListReplace list1 (Some i) (Some str))"

section \<open>Getting strings\<close>

text \<open>What is left in the value buffer, and the pointer that is returned.\<close>

definition default_value :: "byte list option \<Rightarrow> byte list \<Rightarrow> byte list" where
  "default_value deflt buf = (case deflt of None \<Rightarrow> buf | Some d \<Rightarrow> value_copy d)"

definition iniGetString :: "str_list \<Rightarrow> ini_section \<Rightarrow> byte list \<Rightarrow> byte list option \<Rightarrow> byte list option \<times> byte list" where
  "iniGetString list section key deflt =
     (let buf = fst (snd (get_value list section key)) in
      case value_at list section key of
        None \<Rightarrow> (deflt, default_value deflt buf)
      | Some v \<Rightarrow> if v = [] then (deflt, default_value deflt buf) else (Some v, buf))"

definition iniPopKey :: "str_list \<Rightarrow> ini_section \<Rightarrow> byte list \<Rightarrow> byte list option \<times> str_list" where
  "iniPopKey list section key =
     (case get_value list section key of (i, v, vp) \<Rightarrow>
        if strListCount list \<le> i then (None, list) else (Some v, snd (strListDelete list (Some i))))"

definition iniGetExistingString ::
  "str_list \<Rightarrow> ini_section \<Rightarrow> byte list \<Rightarrow> byte list option \<Rightarrow> byte list option \<times> byte list" where
  "iniGetExistingString list section key deflt =
     (if \<not> iniKeyExists (Some list) section key then (None, []) else iniGetString list section key deflt)"

definition splitList :: "byte list \<Rightarrow> byte list option \<Rightarrow> str_list" where
  "splitList list sep =
     (let d = (case sep of None \<Rightarrow> [0x2C] | Some d \<Rightarrow> d)
      in snd (strListAppendList strListInit (map (\<lambda>t. truncsp (skipsp t)) (strtok_all d list))))"

definition iniGetStringList :: "str_list \<Rightarrow> ini_section \<Rightarrow> byte list \<Rightarrow> byte list option \<Rightarrow> byte list option \<Rightarrow> str_list option" where
  "iniGetStringList list section key sep deflt =
     (let value = fst (snd (get_value list section key)) in
      if value = [] then map_option (\<lambda>d. splitList (value_copy d) sep) deflt else Some (splitList value sep))"

section \<open>Lists of names\<close>

text \<open>The lines before the end directive, as they are parsed.\<close>

definition parsed_lines :: "str_list \<Rightarrow> str_list" where
  "parsed_lines list = map eof_trunc (takeWhile (\<lambda>l. \<not> is_eof l) (map line_copy list))"

definition prefix_ok :: "byte list option \<Rightarrow> byte list \<Rightarrow> bool" where
  "prefix_ok prefix p \<longleftrightarrow> (case prefix of None \<Rightarrow> True | Some q \<Rightarrow> stricmp_eq (take (length q) p) q)"

definition iniGetSectionList :: "str_list option \<Rightarrow> byte list option \<Rightarrow> str_list" where
  "iniGetSectionList list prefix =
     (case list of None \<Rightarrow> [] | Some lines \<Rightarrow> filter (prefix_ok prefix) (List.map_filter section_name (parsed_lines lines)))"

definition iniGetSectionCount :: "str_list option \<Rightarrow> byte list option \<Rightarrow> nat" where
  "iniGetSectionCount list prefix = length (iniGetSectionList list prefix)"

text \<open>The keys and values from a line to the next section.\<close>

fun named_strings :: "str_list \<Rightarrow> (byte list \<times> byte list) list" where
  "named_strings [] = []"
| "named_strings (str # rest) =
     (case key_name str of INI_NEW_SECTION \<Rightarrow> [] | NoKey \<Rightarrow> named_strings rest | Key k v off \<Rightarrow> (k, v) # named_strings rest)"

definition iniGetKeyList :: "str_list option \<Rightarrow> ini_section \<Rightarrow> str_list" where
  "iniGetKeyList list section =
     (case list of None \<Rightarrow> []
      | Some lines \<Rightarrow> map fst (named_strings (parsed_lines (drop (find_section lines section) lines))))"

definition iniGetNamedStringList :: "str_list option \<Rightarrow> ini_section \<Rightarrow> (byte list \<times> byte list) list option" where
  "iniGetNamedStringList list section =
     (case list of None \<Rightarrow> None
      | Some lines \<Rightarrow> (case drop (find_section lines section) lines of [] \<Rightarrow> None
          | rest \<Rightarrow> Some (named_strings (parsed_lines rest))))"

section \<open>Typed values\<close>

text \<open>\<open>strtol\<close> and \<open>strtoul\<close> with base 0, for 64 bits.\<close>

definition signed_text :: "byte list \<Rightarrow> bool \<times> nat" where
  "signed_text s =
     (let t = skipsp s
      in if take 1 t = [0x2D] then (True, strtol0 (tl t))
         else if take 1 t = [0x2B] then (False, strtol0 (tl t)) else (False, strtol0 t))"

definition strtol_c :: "byte list \<Rightarrow> int" where
  "strtol_c s = (case signed_text s of (neg, n) \<Rightarrow>
     if neg then - int (min n (2 ^ 63)) else int (min n (2 ^ 63 - 1)))"

definition strtoul_c :: "byte list \<Rightarrow> ulong" where
  "strtoul_c s = (case signed_text s of (neg, n) \<Rightarrow>
     if 2 ^ 64 \<le> n then - 1 else if neg then - word_of_nat n else word_of_nat n)"

definition isTrue :: "byte list \<Rightarrow> bool" where
  "isTrue v \<longleftrightarrow> stricmp_eq v (cs ''TRUE'') \<or> stricmp_eq v (cs ''YES'') \<or> stricmp_eq v (cs ''ON'')"

definition parseInteger :: "byte list \<Rightarrow> int" where
  "parseInteger v = (if isTrue v then 1 else strtol_c v)"

definition parseLongInteger :: "byte list \<Rightarrow> ulong" where
  "parseLongInteger v = (if isTrue v then 1 else strtoul_c v)"

definition parseBool :: "byte list \<Rightarrow> bool" where
  "parseBool v \<longleftrightarrow> parseInteger v \<noteq> 0"

text \<open>The parser on the value of a key, and the default where it is missing or blank.\<close>

definition get_with :: "(byte list \<Rightarrow> 'a) \<Rightarrow> str_list \<Rightarrow> ini_section \<Rightarrow> byte list \<Rightarrow> 'a \<Rightarrow> 'a" where
  "get_with parse list section key deflt =
     (case value_at list section key of None \<Rightarrow> deflt | Some v \<Rightarrow> if v = [] then deflt else parse v)"

definition iniGetInteger :: "str_list \<Rightarrow> ini_section \<Rightarrow> byte list \<Rightarrow> int \<Rightarrow> int" where
  "iniGetInteger = get_with parseInteger"

definition iniGetShortInt :: "str_list \<Rightarrow> ini_section \<Rightarrow> byte list \<Rightarrow> u16 \<Rightarrow> u16" where
  "iniGetShortInt list section key deflt = word_of_int (iniGetInteger list section key (uint deflt))"

definition iniGetLongInt :: "str_list \<Rightarrow> ini_section \<Rightarrow> byte list \<Rightarrow> ulong \<Rightarrow> ulong" where
  "iniGetLongInt = get_with parseLongInteger"

definition iniGetBool :: "str_list \<Rightarrow> ini_section \<Rightarrow> byte list \<Rightarrow> bool \<Rightarrow> bool" where
  "iniGetBool = get_with parseBool"

text \<open>The first name for which a test holds.\<close>

definition find_name :: "(byte list \<Rightarrow> bool) \<Rightarrow> byte list list \<Rightarrow> nat option" where
  "find_name P names = (let n = length (takeWhile (\<lambda>x. \<not> P x) names) in if n < length names then Some n else None)"

definition parseEnum :: "byte list \<Rightarrow> byte list list \<Rightarrow> nat" where
  "parseEnum value names =
     (let val = takeWhile (\<lambda>c. \<not> isspace_c c) (value_copy value); count = strListCount names
      in if count = 0 then 0
         else case find_name (\<lambda>n. stricmp_eq n val) names of Some i \<Rightarrow> i
            | None \<Rightarrow> (case find_name (\<lambda>n. stricmp_eq (take (length val) n) val) names of Some i \<Rightarrow> i
                | None \<Rightarrow> let i = unat (ucast (strtoul_c val) :: u32) in if count \<le> i then count - 1 else i))"

definition parseEnumList :: "byte list option \<Rightarrow> byte list option \<Rightarrow> byte list list \<Rightarrow> nat list option" where
  "parseEnumList values sep names =
     (case values of None \<Rightarrow> None
      | Some v \<Rightarrow> let list = splitList v sep in if list = [] then None else Some (map (\<lambda>e. parseEnum e names) list))"

definition iniGetEnum :: "str_list \<Rightarrow> ini_section \<Rightarrow> byte list \<Rightarrow> byte list list \<Rightarrow> nat \<Rightarrow> nat" where
  "iniGetEnum list section key names deflt = get_with (\<lambda>v. parseEnum v names) list section key deflt"

definition iniGetEnumList ::
  "str_list \<Rightarrow> ini_section \<Rightarrow> byte list \<Rightarrow> byte list list \<Rightarrow> byte list option \<Rightarrow> byte list option \<Rightarrow> nat list option" where
  "iniGetEnumList list section key names sep deflt =
     parseEnumList (case value_at list section key of None \<Rightarrow> deflt | Some v \<Rightarrow> if v = [] then deflt else Some v) sep names"

definition parseNamedInt :: "byte list \<Rightarrow> (byte list \<times> int) list \<Rightarrow> int" where
  "parseNamedInt value names =
     (case find_name (\<lambda>n. stricmp_eq n value) (map fst names) of Some i \<Rightarrow> snd (names ! i)
      | None \<Rightarrow> (case find_name (\<lambda>n. stricmp_eq (take (length value) n) value) (map fst names) of Some i \<Rightarrow> snd (names ! i)
          | None \<Rightarrow> parseInteger value))"

definition iniGetNamedInt :: "str_list \<Rightarrow> ini_section \<Rightarrow> byte list \<Rightarrow> (byte list \<times> int) list \<Rightarrow> int \<Rightarrow> int" where
  "iniGetNamedInt list section key names deflt = get_with (\<lambda>v. parseNamedInt v names) list section key deflt"

text \<open>
  The parser of bit fields ends the words in the text it reads: the result is the value and the
  text that is left, up to the first terminator it wrote.
\<close>

definition bit_value :: "(ulong \<times> byte list) list \<Rightarrow> byte list \<Rightarrow> ulong" where
  "bit_value bitdesc p =
     (case find_name (\<lambda>n. stricmp_eq n p) (map snd bitdesc) of Some i \<Rightarrow> fst (bitdesc ! i) | None \<Rightarrow> strtoul_c p)"

function bit_words :: "byte list \<Rightarrow> byte list list" where
  "bit_words p =
     (if p = [] then []
      else let w = takeWhile (\<lambda>c. c \<noteq> INI_BIT_SEP) p in
        truncsp w # (if INI_BIT_SEP \<in> set p then bit_words (skipsp (drop (length w + 1) p)) else []))"
  by auto
termination
proof (relation "measure length", simp)
  fix p w :: "byte list"
  assume "p \<noteq> []"
  then have "length (drop (length w + 1) p) < length p" by simp
  then show "(skipsp (drop (length w + 1) p), p) \<in> measure length"
    using length_dropWhile_le [of isspace_c "drop (length w + 1) p"] by simp
qed

declare bit_words.simps [simp del]

definition parseBitField :: "byte list \<Rightarrow> (ulong \<times> byte list) list \<Rightarrow> ulong \<times> byte list" where
  "parseBitField value bitdesc =
     (fold (\<lambda>w v. v OR bit_value bitdesc w) (bit_words value) 0, hd (bit_words value @ [[]]))"

definition iniGetBitField ::
  "str_list \<Rightarrow> ini_section \<Rightarrow> byte list \<Rightarrow> (ulong \<times> byte list) list \<Rightarrow> ulong \<Rightarrow> ulong \<times> str_list" where
  "iniGetBitField list section key bitdesc deflt =
     (case get_value list section key of (i, v, vp) \<Rightarrow>
        (case vp of None \<Rightarrow> (deflt, list)
         | Some off \<Rightarrow> (case parseBitField (drop off (list ! i)) bitdesc of (bits, left) \<Rightarrow>
              (bits, list[i := take off (list ! i) @ left]))))"

section \<open>Setting typed values\<close>

definition iniSetInteger :: "str_list \<Rightarrow> ini_section \<Rightarrow> byte list \<Rightarrow> int \<Rightarrow> ini_style_t \<Rightarrow> byte list option \<times> str_list" where
  "iniSetInteger list section key value style = iniSetString list section (Some key) (Some (itoa_c value)) style"

definition iniSetShortInt :: "str_list \<Rightarrow> ini_section \<Rightarrow> byte list \<Rightarrow> u16 \<Rightarrow> ini_style_t \<Rightarrow> byte list option \<times> str_list" where
  "iniSetShortInt list section key value style = iniSetString list section (Some key) (Some (dec_nat (unat value))) style"

definition iniSetLongInt :: "str_list \<Rightarrow> ini_section \<Rightarrow> byte list \<Rightarrow> ulong \<Rightarrow> ini_style_t \<Rightarrow> byte list option \<times> str_list" where
  "iniSetLongInt list section key value style = iniSetString list section (Some key) (Some (dec_nat (unat value))) style"

definition iniSetHexInt :: "str_list \<Rightarrow> ini_section \<Rightarrow> byte list \<Rightarrow> ulong \<Rightarrow> ini_style_t \<Rightarrow> byte list option \<times> str_list" where
  "iniSetHexInt list section key value style =
     iniSetString list section (Some key) (Some (cs ''0x'' @ map tolower_c (hex_nat (unat value)))) style"

definition iniSetBool :: "str_list \<Rightarrow> ini_section \<Rightarrow> byte list \<Rightarrow> bool \<Rightarrow> ini_style_t \<Rightarrow> byte list option \<times> str_list" where
  "iniSetBool list section key value style =
     iniSetString list section (Some key) (Some (if value then cs ''true'' else cs ''false'')) style"

definition iniSetEnum ::
  "str_list \<Rightarrow> ini_section \<Rightarrow> byte list \<Rightarrow> byte list list \<Rightarrow> nat \<Rightarrow> ini_style_t \<Rightarrow> byte list option \<times> str_list" where
  "iniSetEnum list section key names value style =
     (if value < strListCount names then iniSetString list section (Some key) (Some (names ! value)) style
      else iniSetLongInt list section key (word_of_nat value) style)"

definition iniSetNamedInt ::
  "str_list \<Rightarrow> ini_section \<Rightarrow> byte list \<Rightarrow> (byte list \<times> int) list \<Rightarrow> int \<Rightarrow> ini_style_t \<Rightarrow> byte list option \<times> str_list" where
  "iniSetNamedInt list section key names value style =
     (case find (\<lambda>(n, x). x = value) names of
        Some (n, x) \<Rightarrow> iniSetString list section (Some key) (Some n) style
      | None \<Rightarrow> iniSetInteger list section key value style)"

text \<open>The names of the bits that are set, each taking its bits away, and what is left in hexadecimal.\<close>

fun bit_names :: "(ulong \<times> byte list) list \<Rightarrow> ulong \<Rightarrow> byte list list" where
  "bit_names [] value = (if value = 0 then [] else [cs ''0x'' @ hex_nat (unat value)])"
| "bit_names ((b, n) # bitdesc) value =
     (if value AND b = 0 then bit_names bitdesc value else n # bit_names bitdesc (value AND NOT b))"

text \<open>Words put together by \<open>strcat\<close>; it does not look where the buffer ends: None when the text goes past it.\<close>

definition word_list :: "byte list \<Rightarrow> byte list list \<Rightarrow> byte list option" where
  "word_list sep words =
     (let str = fold (\<lambda>w str. (if str = [] then [] else str @ sep) @ w) words []
      in if length str < INI_MAX_VALUE_LEN then Some str else None)"

definition iniSetBitField ::
  "str_list \<Rightarrow> ini_section \<Rightarrow> byte list \<Rightarrow> (ulong \<times> byte list) list \<Rightarrow> ulong \<Rightarrow> ini_style_t \<Rightarrow> (byte list option \<times> str_list) option" where
  "iniSetBitField list section key bitdesc value style =
     map_option (\<lambda>str. iniSetString list section (Some key) (Some str) style)
       (word_list (case st_bit_separator style of None \<Rightarrow> [0x7C] | Some s \<Rightarrow> s) (bit_names bitdesc value))"

definition iniSetEnumList ::
  "str_list \<Rightarrow> ini_section \<Rightarrow> byte list \<Rightarrow> byte list option \<Rightarrow> byte list list \<Rightarrow> u32 list option \<Rightarrow> ini_style_t
    \<Rightarrow> (byte list option \<times> str_list) option" where
  "iniSetEnumList list section key sep names val_list style =
     map_option (\<lambda>str. iniSetString list section (Some key) (Some str) style)
       (word_list (case sep of None \<Rightarrow> [0x2C] | Some d \<Rightarrow> d)
         (map (\<lambda>v. if unat v < strListCount names then names ! unat v else dec_nat (unat v))
           (case val_list of None \<Rightarrow> [] | Some vs \<Rightarrow> vs)))"

definition iniSetStringList ::
  "str_list \<Rightarrow> ini_section \<Rightarrow> byte list \<Rightarrow> byte list option \<Rightarrow> str_list option \<Rightarrow> ini_style_t \<Rightarrow> byte list option \<times> str_list" where
  "iniSetStringList list section key sep val_list style =
     iniSetString list section (Some key)
       (strListCombine val_list INI_MAX_VALUE_LEN (case sep of None \<Rightarrow> [0x2C] | Some d \<Rightarrow> d)) style"

section \<open>Files\<close>

text \<open>The lines \<open>fgets\<close> gives with the line buffer; those after the line of a section.\<close>

definition fp_lines :: "byte list \<Rightarrow> str_list" where
  "fp_lines fp = file_lines (INI_MAX_LINE_LEN - 1) fp"

fun seek_lines :: "str_list \<Rightarrow> byte list \<Rightarrow> str_list option" where
  "seek_lines [] section = None"
| "seek_lines (str # list) section =
     (if is_eof str then None
      else case section_name (eof_trunc str) of
        Some p \<Rightarrow> if section_match p section then Some list else seek_lines list section
      | None \<Rightarrow> seek_lines list section)"

definition seek_section :: "byte list \<Rightarrow> ini_section \<Rightarrow> str_list option" where
  "seek_section fp section = (case section of None \<Rightarrow> Some (fp_lines fp) | Some s \<Rightarrow> seek_lines (fp_lines fp) s)"

fun read_scan :: "str_list \<Rightarrow> byte list \<Rightarrow> byte list option" where
  "read_scan [] key = None"
| "read_scan (str # list) key =
     (if is_eof str then None
      else case key_name (eof_trunc str) of
        INI_NEW_SECTION \<Rightarrow> None
      | NoKey \<Rightarrow> read_scan list key
      | Key k v off \<Rightarrow> if stricmp_eq k key then Some (value_copy v) else read_scan list key)"

definition read_value :: "byte list option \<Rightarrow> ini_section \<Rightarrow> byte list \<Rightarrow> byte list option" where
  "read_value fp section key = do {
     bs \<leftarrow> fp;
     lines \<leftarrow> seek_section bs section;
     read_scan lines key }"

text \<open>The string that is returned; the value buffer holds it too, or the default cut to its size.\<close>

definition iniReadString :: "byte list option \<Rightarrow> ini_section \<Rightarrow> byte list \<Rightarrow> byte list option \<Rightarrow> byte list option" where
  "iniReadString fp section key deflt =
     (case read_value fp section key of None \<Rightarrow> deflt | Some v \<Rightarrow> if v = [] then deflt else Some v)"

definition iniReadExistingString :: "byte list option \<Rightarrow> ini_section \<Rightarrow> byte list \<Rightarrow> byte list option \<Rightarrow> byte list option" where
  "iniReadExistingString fp section key deflt =
     (case read_value fp section key of None \<Rightarrow> None | Some v \<Rightarrow> if v = [] then deflt else Some v)"

definition iniReadStringList ::
  "byte list option \<Rightarrow> ini_section \<Rightarrow> byte list \<Rightarrow> byte list option \<Rightarrow> byte list option \<Rightarrow> str_list option" where
  "iniReadStringList fp section key sep deflt =
     map_option (\<lambda>v. splitList (value_copy v) sep) (iniReadString fp section key deflt)"

definition read_with :: "(byte list \<Rightarrow> 'a) \<Rightarrow> byte list option \<Rightarrow> ini_section \<Rightarrow> byte list \<Rightarrow> 'a \<Rightarrow> 'a" where
  "read_with parse fp section key deflt =
     (case read_value fp section key of None \<Rightarrow> deflt | Some v \<Rightarrow> if v = [] then deflt else parse v)"

definition iniReadInteger :: "byte list option \<Rightarrow> ini_section \<Rightarrow> byte list \<Rightarrow> int \<Rightarrow> int" where
  "iniReadInteger = read_with parseInteger"

definition iniReadShortInt :: "byte list option \<Rightarrow> ini_section \<Rightarrow> byte list \<Rightarrow> u16 \<Rightarrow> u16" where
  "iniReadShortInt fp section key deflt = word_of_int (iniReadInteger fp section key (uint deflt))"

definition iniReadLongInt :: "byte list option \<Rightarrow> ini_section \<Rightarrow> byte list \<Rightarrow> ulong \<Rightarrow> ulong" where
  "iniReadLongInt = read_with parseLongInteger"

definition iniReadBool :: "byte list option \<Rightarrow> ini_section \<Rightarrow> byte list \<Rightarrow> bool \<Rightarrow> bool" where
  "iniReadBool = read_with parseBool"

definition iniReadEnum :: "byte list option \<Rightarrow> ini_section \<Rightarrow> byte list \<Rightarrow> byte list list \<Rightarrow> nat \<Rightarrow> nat" where
  "iniReadEnum fp section key names deflt = read_with (\<lambda>v. parseEnum v names) fp section key deflt"

definition iniReadEnumList ::
  "byte list option \<Rightarrow> ini_section \<Rightarrow> byte list \<Rightarrow> byte list list \<Rightarrow> byte list option \<Rightarrow> byte list option \<Rightarrow> nat list option" where
  "iniReadEnumList fp section key names sep deflt = parseEnumList (iniReadString fp section key deflt) sep names"

definition iniReadNamedInt :: "byte list option \<Rightarrow> ini_section \<Rightarrow> byte list \<Rightarrow> (byte list \<times> int) list \<Rightarrow> int \<Rightarrow> int" where
  "iniReadNamedInt fp section key names deflt = read_with (\<lambda>v. parseNamedInt v names) fp section key deflt"

definition iniReadBitField :: "byte list option \<Rightarrow> ini_section \<Rightarrow> byte list \<Rightarrow> (ulong \<times> byte list) list \<Rightarrow> ulong \<Rightarrow> ulong" where
  "iniReadBitField fp section key bitdesc deflt =
     (case read_value fp section key of None \<Rightarrow> deflt | Some v \<Rightarrow> fst (parseBitField v bitdesc))"

definition read_lines :: "str_list \<Rightarrow> str_list" where
  "read_lines list = map eof_trunc (takeWhile (\<lambda>l. \<not> is_eof l) list)"

definition iniReadSectionList :: "byte list option \<Rightarrow> byte list option \<Rightarrow> str_list" where
  "iniReadSectionList fp prefix =
     (case fp of None \<Rightarrow> [] | Some bs \<Rightarrow> filter (prefix_ok prefix) (List.map_filter section_name (read_lines (fp_lines bs))))"

definition iniReadSectionCount :: "byte list option \<Rightarrow> byte list option \<Rightarrow> nat" where
  "iniReadSectionCount fp prefix = length (iniReadSectionList fp prefix)"

definition iniReadKeyList :: "byte list option \<Rightarrow> ini_section \<Rightarrow> str_list" where
  "iniReadKeyList fp section =
     (case Option.bind fp (\<lambda>bs. seek_section bs section) of None \<Rightarrow> []
      | Some lines \<Rightarrow> map fst (named_strings (read_lines lines)))"

definition iniReadNamedStringList :: "byte list option \<Rightarrow> ini_section \<Rightarrow> (byte list \<times> byte list) list option" where
  "iniReadNamedStringList fp section =
     map_option (\<lambda>lines. named_strings (read_lines lines)) (Option.bind fp (\<lambda>bs. seek_section bs section))"

text \<open>
  Reading a file: a line with the include directive becomes a comment and is followed by the lines
  of the file it names. \<open>files\<close> gives the bytes of a file that can be opened, or the text of
  the error. At most 10000 files are included.
\<close>

definition include_name :: "byte list \<Rightarrow> byte list \<times> byte list" where
  "include_name l =
     (let a = takeWhile (\<lambda>c. \<not> isspace_c c) (drop 8 l);
          b = drop (8 + length a) l;
          name = truncsp (skipsp b)
      in (name, take (length l - length (skipsp b)) l @ name))"

function include_lines :: "(byte list \<Rightarrow> byte list + byte list) \<Rightarrow> nat \<Rightarrow> str_list \<Rightarrow> str_list" where
  "include_lines files n [] = []"
| "include_lines files n (l # list) =
     (if \<not> stricmp_eq (take 8 l) (cs ''!include'') then l # include_lines files n list
      else case include_name l of (name, l1) \<Rightarrow>
        if INI_INCLUDE_MAX \<le> n
        then line_copy (INI_COMMENT_CHAR # l1 @ cs '' - MAXIMUM INCLUDES REACHED: 10000'') # include_lines files n list
        else (case files name of
            Inl err \<Rightarrow> line_copy (INI_COMMENT_CHAR # l1 @ cs '' - FAILURE: '' @ err) # include_lines files n list
          | Inr bs \<Rightarrow> line_copy (INI_COMMENT_CHAR # l1) # include_lines files (n + 1) (file_lines INI_MAX_LINE_LEN bs @ list)))"
  by pat_completeness auto
termination
  by (relation "measures [\<lambda>(f, n, l). INI_INCLUDE_MAX - n, \<lambda>(f, n, l). length l]") auto

definition iniReadFile :: "(byte list \<Rightarrow> byte list + byte list) \<Rightarrow> byte list option \<Rightarrow> str_list" where
  "iniReadFile files fp = map truncnl (include_lines files 0 (strListReadFile fp None INI_MAX_LINE_LEN))"

text \<open>The new contents of the file, when it can be truncated and takes all that is written.\<close>

definition iniWriteFile :: "bool \<Rightarrow> byte list \<Rightarrow> str_list \<Rightarrow> bool \<times> byte list" where
  "iniWriteFile chsize_ok fp list =
     (if \<not> chsize_ok then (False, fp)
      else case strListWriteFile (Some list) (Some [0x0A]) of (count, bs) \<Rightarrow> (count = strListCount list, bs))"

end
