(* ===== verification/IniProps.thy ===== *)
theory IniProps
  imports Ini
begin

text \<open>
  A configuration file as a map: \<open>iniSetString\<close> changes the value of its key and no other, in
  memory, and the file that is written is read back as it was.
\<close>

section \<open>Well-formed names, styles and lines\<close>

definition trimmed :: "byte list \<Rightarrow> bool" where
  "trimmed s \<longleftrightarrow> skipsp s = s \<and> truncsp s = s"

definition blank :: "byte list \<Rightarrow> bool" where
  "blank s \<longleftrightarrow> (\<forall>c \<in> set s. isspace_c c)"

text \<open>
  The name of a section is not a list of names; a key holds no separator and is not taken for a
  comment, a directive or a section.
\<close>

definition section_ok :: "ini_section \<Rightarrow> bool" where
  "section_ok section \<longleftrightarrow> (case section of None \<Rightarrow> True
     | Some s \<Rightarrow> s \<noteq> [] \<and> trimmed s \<and> INI_BIT_SEP \<notin> set s \<and> length s \<le> 1000)"

definition key_ok :: "byte list \<Rightarrow> bool" where
  "key_ok k \<longleftrightarrow> k \<noteq> [] \<and> trimmed k \<and> 0x3D \<notin> set k \<and> 0x3A \<notin> set k
     \<and> hd k \<notin> {INI_COMMENT_CHAR, INI_OPEN_SECTION_CHAR, 0x21}"

definition separator_text :: "ini_style_t \<Rightarrow> byte list" where
  "separator_text style = (case st_value_separator style of None \<Rightarrow> [0x3D] | Some s \<Rightarrow> s)"

definition prefix_text :: "ini_style_t \<Rightarrow> byte list" where
  "prefix_text style = (case st_key_prefix style of None \<Rightarrow> [] | Some s \<Rightarrow> s)"

text \<open>
  A style adds blanks only, around an equal sign or a colon, and sections are set apart by blank
  lines.
\<close>

abbreviation (input) "no_sep \<equiv> \<lambda>c :: byte. c \<noteq> 0x3D \<and> c \<noteq> 0x3A"

definition style_ok :: "ini_style_t \<Rightarrow> bool" where
  "style_ok style \<longleftrightarrow> blank (prefix_text style)
     \<and> blank (takeWhile no_sep (separator_text style)) \<and> dropWhile no_sep (separator_text style) \<noteq> []
     \<and> blank (tl (dropWhile no_sep (separator_text style)))
     \<and> (case st_section_separator style of None \<Rightarrow> True | Some s \<Rightarrow> blank s \<and> length s \<le> 1023)"

definition setting_ok :: "ini_style_t \<Rightarrow> byte list \<Rightarrow> byte list \<Rightarrow> bool" where
  "setting_ok style k v \<longleftrightarrow> style_ok style \<and> key_ok k \<and> trimmed v
     \<and> length (prefix_text style) + max (length k) (st_key_len style) + length (separator_text style) + length v \<le> 1023"

text \<open>
  Lines that fit into the buffers, no end directive, sections in the first column and none with
  several names.
\<close>

definition line_ok :: "byte list \<Rightarrow> bool" where
  "line_ok l \<longleftrightarrow> length l \<le> 1023 \<and> \<not> is_eof l
     \<and> (opens_section (skipsp l) \<longrightarrow> opens_section l \<and> INI_BIT_SEP \<notin> set l)"

definition ini_ok :: "str_list \<Rightarrow> bool" where
  "ini_ok list \<longleftrightarrow> (\<forall>l \<in> set list. line_ok l)"

definition same_section :: "ini_section \<Rightarrow> ini_section \<Rightarrow> bool" where
  "same_section a b \<longleftrightarrow> (case (a, b) of (None, None) \<Rightarrow> True | (Some s, Some t) \<Rightarrow> stricmp_eq s t | _ \<Rightarrow> False)"

section \<open>Trimming\<close>

lemma skipsp_blank: "blank w \<Longrightarrow> skipsp (w @ s) = skipsp s"
  by (simp add: blank_def dropWhile_append2)

lemma truncsp_blank: "blank w \<Longrightarrow> truncsp (s @ w) = truncsp s"
  using dropWhile_append2 [of "rev w" isspace_c "rev s"] by (simp add: blank_def truncsp_def)

lemma truncsp_hd: "skipsp s = s \<Longrightarrow> skipsp (truncsp s) = truncsp s"
proof (cases "truncsp s")
  case (Cons c r)
  assume s: "skipsp s = s"
  have "s = truncsp s @ rev (takeWhile isspace_c (rev s))"
    unfolding truncsp_def by (metis rev_append rev_rev_ident takeWhile_dropWhile_id)
  then have "hd s = c" "s \<noteq> []" using Cons by (metis append_Cons list.sel(1), auto)
  then have "\<not> isspace_c c" using s by (metis hd_dropWhile)
  then show ?thesis using Cons by simp
qed simp

lemma trimmed_hd: "trimmed s \<Longrightarrow> s \<noteq> [] \<Longrightarrow> \<not> isspace_c (hd s)"
  unfolding trimmed_def by (metis hd_dropWhile)

lemma trimmed_last: "trimmed s \<Longrightarrow> s \<noteq> [] \<Longrightarrow> \<not> isspace_c (last s)"
proof -
  assume t: "trimmed s" "s \<noteq> []"
  then have "dropWhile isspace_c (rev s) = rev s" unfolding trimmed_def truncsp_def by (metis rev_rev_ident)
  then have "\<not> isspace_c (hd (rev s))" using t(2) by (metis hd_dropWhile rev_is_Nil_conv)
  then show ?thesis using t(2) by (simp add: hd_rev)
qed

lemma trimmed_nl: "trimmed s \<Longrightarrow> truncnl s = s"
proof (cases s rule: rev_cases)
  case (snoc r c)
  assume "trimmed s"
  then have "\<not> isspace_c c" using trimmed_last [of s] snoc by simp
  then show ?thesis using snoc by (auto simp: truncnl_def isspace_c_def)
qed (simp add: truncnl_def)

lemma skipsp_start: "\<not> isspace_c (hd s) \<Longrightarrow> skipsp s = s"
  by (cases s) auto

lemma truncsp_end: "s = [] \<or> \<not> isspace_c (last s) \<Longrightarrow> truncsp s = s"
  by (cases s rule: rev_cases) (auto simp: truncsp_def)

lemma blank_find: "blank w \<Longrightarrow> \<not> isspace_c c \<Longrightarrow> c \<notin> set w"
  by (auto simp: blank_def)

lemma specials_not_space: "\<not> isspace_c 0x3D" "\<not> isspace_c 0x3A" "\<not> isspace_c 0x5B" "\<not> isspace_c 0x5D" "\<not> isspace_c 0x21" "\<not> isspace_c 0x3B"
  "isspace_c 0x20"
  by (simp_all add: isspace_c_def)

section \<open>The lines a setting writes\<close>

lemma key_line:
  assumes ok: "setting_ok style k v"
  shows "key_name (key_text style k v) = Key k v (length (key_text style k v) - length v)"
    and "drop (length (key_text style k v) - length v) (key_text style k v) = v"
    and "line_ok (key_text style k v)" "\<not> opens_section (skipsp (key_text style k v))" "take 1 (key_text style k v) \<noteq> [0x21]"
proof -
  let ?P = "prefix_text style" and ?pad = "replicate (st_key_len style - length k) (0x20 :: byte)"
  obtain w1 c w2 where sep: "separator_text style = w1 @ c # w2" "blank w1" "blank w2" "c = 0x3D \<or> c = 0x3A"
  proof
    let ?s = "separator_text style"
    have s: "dropWhile no_sep ?s \<noteq> []" "blank (takeWhile no_sep ?s)" "blank (tl (dropWhile no_sep ?s))"
      using ok by (auto simp: setting_ok_def style_ok_def)
    then show "?s = takeWhile no_sep ?s @ hd (dropWhile no_sep ?s) # tl (dropWhile no_sep ?s)"
      by (simp only: list.collapse [OF s(1)] takeWhile_dropWhile_id)
    show "blank (takeWhile no_sep ?s)" "blank (tl (dropWhile no_sep ?s))" by (rule s)+
    show "hd (dropWhile no_sep ?s) = 0x3D \<or> hd (dropWhile no_sep ?s) = 0x3A" using hd_dropWhile [OF s(1)] by blast
  qed
  define a where "a = k @ ?pad @ w1"
  have bp: "blank ?P" "blank (?pad @ w1)" using ok sep(2) by (auto simp: setting_ok_def style_ok_def blank_def specials_not_space)
  have k: "k \<noteq> []" "trimmed k" "0x3D \<notin> set k" "0x3A \<notin> set k" "hd k \<notin> {INI_COMMENT_CHAR, INI_OPEN_SECTION_CHAR, 0x21}" "trimmed v"
    using ok by (auto simp: setting_ok_def key_ok_def)
  have full: "?P @ k @ ?pad @ separator_text style @ v = ?P @ a @ c # w2 @ v" by (simp add: a_def sep)
  have len: "length (?P @ a @ c # w2 @ v) \<le> 1023"
    using ok sep(1) by (auto simp: setting_ok_def a_def max_def split: if_splits)
  have line: "key_text style k v = ?P @ a @ c # w2 @ v"
  proof -
    have "key_text style k v = line_copy (?P @ k @ ?pad @ separator_text style @ v)"
      by (simp add: key_text_def prefix_text_def separator_text_def)
    then show ?thesis unfolding full line_copy_def using len by simp
  qed
  have hk: "\<not> isspace_c (hd k)" using trimmed_hd k(1,2) by blast
  have sk: "skipsp (?P @ a @ c # w2 @ v) = a @ c # w2 @ v"
    using skipsp_blank [OF bp(1)] skipsp_start [of "a @ c # w2 @ v"] hk k(1) by (simp add: a_def)
  have no: "0x3D \<notin> set a" "0x3A \<notin> set a"
    using k(3,4) blank_find [OF bp(2)] specials_not_space by (auto simp: a_def)
  have eq: "takeWhile (\<lambda>x. x \<noteq> c) (a @ c # w2 @ v) = a" using no sep(4) by (subst takeWhile_append2) auto
  have col: "length a < length (takeWhile (\<lambda>x. x \<noteq> d) (a @ c # w2 @ v))" if "d \<noteq> c" "d \<notin> set a" for d
    using that by (subst takeWhile_append2) auto
  have ha: "hd a = hd k" "a \<noteq> []" using k(1) by (simp_all add: a_def)
  have t1: "take 1 (a @ c # w2 @ v) = [hd k]" using ha by (cases a) auto
  have v: "skipsp (w2 @ v) = v" "truncsp v = v" "truncnl v = v"
    using skipsp_blank [OF sep(3)] k(6) trimmed_nl [OF k(6)] by (simp_all add: trimmed_def)
  have tk: "truncsp a = k" using truncsp_blank [OF bp(2), of k] k(2) by (simp add: a_def trimmed_def)
  show "key_name (key_text style k v) = Key k v (length (key_text style k v) - length v)"
    using sep(4)
  proof
    assume c: "c = 0x3D"
    have "takeWhile (\<lambda>x. x \<noteq> 0x3D) (a @ c # w2 @ v) = a" using eq c by simp
    then show ?thesis unfolding line key_name_def Let_def sk using col [of "0x3A"] no c t1 k(5) v tk ha(2) by simp
  next
    assume c: "c = 0x3A"
    have "takeWhile (\<lambda>x. x \<noteq> 0x3A) (a @ c # w2 @ v) = a" using eq c by simp
    then show ?thesis unfolding line key_name_def Let_def sk using col [of "0x3D"] no c t1 k(5) v tk ha(2) by simp
  qed
  show "drop (length (key_text style k v) - length v) (key_text style k v) = v" unfolding line by simp
  show ns: "\<not> opens_section (skipsp (key_text style k v))" unfolding line sk opens_section_def t1 using k(5) by simp
  show nb: "take 1 (key_text style k v) \<noteq> [0x21]"
  proof (cases ?P)
    case Nil
    then show ?thesis unfolding line using t1 k(5) by simp
  next
    case (Cons c r)
    then show ?thesis unfolding line using bp(1) specials_not_space by (auto simp: blank_def)
  qed
  show "line_ok (key_text style k v)" using len ns nb by (simp add: line_ok_def line is_eof_def)
qed

section \<open>Lines of sections\<close>

lemma strtok_all_one: "d \<notin> set s \<Longrightarrow> strtok_all [d] s = (if s = [] then [] else [s])"
proof (cases s)
  case (Cons c r)
  assume "d \<notin> set s"
  then have "takeWhile (\<lambda>x. x \<notin> set [d]) r = r" "dropWhile (\<lambda>x. x \<notin> set [d]) r = []" using Cons by auto
  then have "strtok_all [d] (c # r) = (c # r) # strtok_all [d] []"
    using Cons \<open>d \<notin> set s\<close> by (simp only: strtok_all.simps) auto
  then show ?thesis by (simp add: Cons)
qed simp

lemma section_match_one:
  assumes "INI_BIT_SEP \<notin> set p" "section_ok (Some s)"
  shows "section_match p s \<longleftrightarrow> p \<noteq> [] \<and> stricmp_eq (skipsp (truncsp p)) s"
  using assms by (auto simp: section_match_def strtok_all_one section_ok_def trimmed_def)

lemma stricmp_eq_simps [simp]: "stricmp_eq s s" "stricmp_eq s t \<Longrightarrow> stricmp_eq t s"
  by (simp_all add: stricmp_eq_def)

lemma stricmp_trans: "stricmp_eq s t \<Longrightarrow> stricmp_eq s u \<Longrightarrow> stricmp_eq t u"
  by (simp add: stricmp_eq_def)

text \<open>Whether a line is the line of a section, and what the line is to the search for keys.\<close>

definition is_hdr :: "byte list \<Rightarrow> byte list \<Rightarrow> bool" where
  "is_hdr l s \<longleftrightarrow> (case section_name (eof_trunc l) of None \<Rightarrow> False | Some p \<Rightarrow> section_match p s)"

definition line_key :: "byte list \<Rightarrow> key_line" where
  "line_key l = key_name (eof_trunc l)"

lemma eof_trunc_open: "opens_section (skipsp (eof_trunc l)) \<longleftrightarrow> opens_section (skipsp l)"
proof (cases "take 1 l = [0x21]")
  case True
  then obtain r where r: "l = 0x21 # r" by (cases l) auto
  have "skipsp l = l" using r specials_not_space by simp
  then have "skipsp (truncsp l) = truncsp l" by (rule truncsp_hd)
  moreover have "take 1 (truncsp l) \<noteq> [0x5B]"
  proof -
    have "l = truncsp l @ rev (takeWhile isspace_c (rev l))"
      unfolding truncsp_def by (metis rev_append rev_rev_ident takeWhile_dropWhile_id)
    then show ?thesis using r by (cases "truncsp l") auto
  qed
  ultimately show ?thesis using \<open>skipsp l = l\<close> True by (simp add: eof_trunc_def opens_section_def)
qed (simp add: eof_trunc_def)

lemma line_key_section: "line_key l = INI_NEW_SECTION \<longleftrightarrow> opens_section (skipsp l)"
  using eof_trunc_open [of l] by (auto simp: line_key_def key_name_def opens_section_def Let_def)

lemma is_hdr_opens: "is_hdr l s \<Longrightarrow> opens_section (skipsp l)"
  using eof_trunc_open [of l] by (auto simp: is_hdr_def section_name_def opens_section_def Let_def split: option.splits if_splits)

lemma is_hdr_new: "is_hdr l s \<Longrightarrow> line_key l = INI_NEW_SECTION"
  using is_hdr_opens line_key_section by blast

lemma section_name_subset: "section_name l = Some p \<Longrightarrow> set p \<subseteq> set l"
proof
  fix x
  assume n: "section_name l = Some p" "x \<in> set p"
  then obtain q where q: "q = skipsp (tl (skipsp l))" "p = truncsp (rev (tl (dropWhile (\<lambda>c. c \<noteq> INI_CLOSE_SECTION_CHAR) (rev q))))"
    by (auto simp: section_name_def Let_def split: if_splits)
  have "x \<in> set (tl (dropWhile (\<lambda>c. c \<noteq> INI_CLOSE_SECTION_CHAR) (rev q)))"
    using n(2) unfolding q(2) truncsp_def by (metis set_dropWhileD set_rev)
  then have "x \<in> set q" by (metis list.set_sel(2) set_dropWhileD set_rev tl_Nil)
  then show "x \<in> set l" unfolding q(1) by (metis list.set_sel(2) set_dropWhileD tl_Nil)
qed

lemma is_hdr_same:
  assumes "line_ok l" "is_hdr l s" "is_hdr l t" "section_ok (Some s)" "section_ok (Some t)"
  shows "stricmp_eq s t"
proof -
  obtain p where p: "section_name (eof_trunc l) = Some p" "section_match p s" "section_match p t"
    using assms(2,3) by (auto simp: is_hdr_def split: option.splits)
  have "opens_section l" "INI_BIT_SEP \<notin> set l" using is_hdr_opens [OF assms(2)] assms(1) by (auto simp: line_ok_def)
  then have "eof_trunc l = l" by (auto simp: eof_trunc_def opens_section_def)
  then have "INI_BIT_SEP \<notin> set p" using section_name_subset [OF p(1)] \<open>INI_BIT_SEP \<notin> set l\<close> by auto
  then show ?thesis using p(2,3) section_match_one assms(4,5) stricmp_trans by blast
qed

lemma section_line_facts:
  assumes s: "section_ok (Some s)"
  shows "is_hdr (section_line s) t = section_match s t" "line_ok (section_line s)" "line_key (section_line s) = INI_NEW_SECTION"
    "is_hdr (section_line s) s"
proof -
  have s': "s \<noteq> []" "trimmed s" "INI_BIT_SEP \<notin> set s" "length s \<le> 1000" using s by (auto simp: section_ok_def)
  have l: "section_line s = 0x5B # s @ [0x5D]" using s'(4) by (simp add: section_line_def line_copy_def)
  have e: "eof_trunc (section_line s) = section_line s" by (simp add: eof_trunc_def l)
  have "skipsp (s @ [0x5D]) = s @ [0x5D]" using trimmed_hd [OF s'(2,1)] s'(1) by (intro skipsp_start) simp
  then have n: "section_name (section_line s) = Some s"
    using s'(2) by (simp add: section_name_def l specials_not_space trimmed_def)
  then show m: "is_hdr (section_line s) t = section_match s t" for t by (simp add: is_hdr_def e)
  show "is_hdr (section_line s) s" unfolding m using section_match_one [OF s'(3) s] s'(1,2) by (simp add: trimmed_def)
  have o: "opens_section (skipsp (section_line s))" "opens_section (section_line s)"
    by (simp_all add: l specials_not_space opens_section_def)
  then show "line_key (section_line s) = INI_NEW_SECTION" using line_key_section by blast
  show "line_ok (section_line s)" using s'(3,4) o by (simp add: line_ok_def l is_eof_def)
qed

lemma blank_line:
  assumes "blank w"
  shows "\<not> is_hdr w t" "line_key w = NoKey" "length w \<le> 1023 \<Longrightarrow> line_ok w"
proof -
  have sk: "skipsp w = []" using assms by (simp add: blank_def)
  have "take 1 w \<noteq> [0x21]" using assms specials_not_space by (cases w) (auto simp: blank_def)
  then have e: "eof_trunc w = w" "\<not> is_eof w" by (simp_all add: eof_trunc_def is_eof_def)
  show "\<not> is_hdr w t" using is_hdr_opens [of w t] by (auto simp: sk opens_section_def)
  show "line_key w = NoKey" by (simp add: line_key_def e(1) key_name_def sk Let_def)
  show "length w \<le> 1023 \<Longrightarrow> line_ok w" using e(2) by (simp add: line_ok_def sk opens_section_def)
qed

section \<open>The entries of a file\<close>

fun key_entry :: "str_list \<Rightarrow> byte list \<Rightarrow> (byte list \<times> byte list) option" where
  "key_entry [] key = None"
| "key_entry (l # list) key =
     (case line_key l of INI_NEW_SECTION \<Rightarrow> None | NoKey \<Rightarrow> key_entry list key
      | Key k v off \<Rightarrow> if stricmp_eq k key then Some (v, drop off l) else key_entry list key)"

fun section_entry :: "str_list \<Rightarrow> byte list \<Rightarrow> byte list \<Rightarrow> (byte list \<times> byte list) option" where
  "section_entry [] s key = None"
| "section_entry (l # list) s key = (if is_hdr l s then key_entry list key else section_entry list s key)"

definition ini_entry :: "str_list \<Rightarrow> ini_section \<Rightarrow> byte list \<Rightarrow> (byte list \<times> byte list) option" where
  "ini_entry list section key = (case section of None \<Rightarrow> key_entry list key | Some s \<Rightarrow> section_entry list s key)"

lemma ok_copies: "line_ok l \<Longrightarrow> line_copy l = l \<and> value_copy l = l \<and> \<not> is_eof l"
  by (simp add: line_ok_def line_copy_def value_copy_def)

lemma index_split:
  "ini_ok list \<Longrightarrow> \<exists>pre post. list = pre @ post \<and> find_section_index list s = length pre
    \<and> (\<forall>l \<in> set pre. \<not> is_hdr l s) \<and> (post = [] \<or> is_hdr (hd post) s)"
proof (induction list)
  case (Cons l list)
  have ok: "line_ok l" "ini_ok list" using Cons.prems by (auto simp: ini_ok_def)
  note c = ok_copies [OF ok(1)]
  have f: "find_section_index (l # list) s = (if is_hdr l s then 0 else Suc (find_section_index list s))"
    using c by (auto simp: is_hdr_def Let_def split: option.splits)
  show ?case
  proof (cases "is_hdr l s")
    case True
    then show ?thesis using f by (intro exI [of _ "[]"] exI [of _ "l # list"]) simp
  next
    case False
    obtain pre post where "list = pre @ post" "find_section_index list s = length pre"
      "\<forall>l \<in> set pre. \<not> is_hdr l s" "post = [] \<or> is_hdr (hd post) s" using Cons.IH [OF ok(2)] by blast
    then show ?thesis using f False by (intro exI [of _ "l # pre"] exI [of _ post]) simp
  qed
qed simp

text \<open>A line that the search for a key passes over.\<close>

definition passed :: "byte list \<Rightarrow> byte list \<Rightarrow> bool" where
  "passed l key \<longleftrightarrow> (case line_key l of NoKey \<Rightarrow> True | INI_NEW_SECTION \<Rightarrow> False | Key k v off \<Rightarrow> \<not> stricmp_eq k key)"

lemma scan_split:
  "ini_ok list \<Longrightarrow> \<exists>a b. list = a @ b \<and> fst (value_scan list key) = length a \<and> (\<forall>l \<in> set a. passed l key)
    \<and> (b = [] \<and> snd (value_scan list key) = None
       \<or> (\<exists>l c. b = l # c \<and> (line_key l = INI_NEW_SECTION \<and> snd (value_scan list key) = None
           \<or> (\<exists>k v off. line_key l = Key k v off \<and> stricmp_eq k key \<and> snd (value_scan list key) = Some (v, off)))))"
proof (induction list)
  case (Cons l list)
  have ok: "line_ok l" "ini_ok list" using Cons.prems by (auto simp: ini_ok_def)
  note c = ok_copies [OF ok(1)]
  obtain a b where IH: "list = a @ b" "fst (value_scan list key) = length a" "\<forall>l \<in> set a. passed l key"
    "b = [] \<and> snd (value_scan list key) = None
       \<or> (\<exists>l c. b = l # c \<and> (line_key l = INI_NEW_SECTION \<and> snd (value_scan list key) = None
           \<or> (\<exists>k v off. line_key l = Key k v off \<and> stricmp_eq k key \<and> snd (value_scan list key) = Some (v, off))))"
    using Cons.IH [OF ok(2)] by blast
  show ?case
  proof (cases "passed l key")
    case True
    then have "value_scan (l # list) key = map_prod Suc (\<lambda>r. r) (value_scan list key)"
      using c by (auto simp: passed_def line_key_def Let_def split: key_line.splits)
    then show ?thesis using IH True by (intro exI [of _ "l # a"] exI [of _ b]) simp
  next
    case False
    then show ?thesis
      using c by (intro exI [of _ "[]"] exI [of _ "l # list"]) (auto simp: passed_def line_key_def Let_def split: key_line.splits)
  qed
qed simp

definition region :: "str_list \<Rightarrow> ini_section \<Rightarrow> bool" where
  "region P section \<longleftrightarrow> (case section of None \<Rightarrow> P = []
     | Some s \<Rightarrow> \<exists>pre h. P = pre @ [h] \<and> is_hdr h s \<and> (\<forall>l \<in> set pre. \<not> is_hdr l s))"

lemma key_entry_passed: "\<forall>l \<in> set a. passed l key \<Longrightarrow> key_entry (a @ b) key = key_entry b key"
  by (induction a) (auto simp: passed_def split: key_line.splits)

lemma section_entry_before: "\<forall>l \<in> set a. \<not> is_hdr l s \<Longrightarrow> section_entry (a @ b) s key = section_entry b s key"
  by (induction a) auto

lemma region_entry: "region P section \<Longrightarrow> ini_entry (P @ b) section key = key_entry b key"
  by (auto simp: region_def ini_entry_def section_entry_before split: option.splits)

lemma find_region:
  assumes "ini_ok list"
  shows "\<exists>P B. list = P @ B \<and> find_section list section = length P
    \<and> (region P section \<or> B = [] \<and> (\<exists>s. section = Some s \<and> (\<forall>l \<in> set list. \<not> is_hdr l s)))"
proof (cases "section")
  case None
  then show ?thesis by (intro exI [of _ "[]"] exI [of _ list]) (simp add: find_section_def region_def)
next
  case (Some s)
  obtain pre post where p: "list = pre @ post" "find_section_index list s = length pre"
    "\<forall>l \<in> set pre. \<not> is_hdr l s" "post = [] \<or> is_hdr (hd post) s"
    using index_split [OF assms] by blast
  show ?thesis
  proof (cases post)
    case Nil
    then show ?thesis using p Some
      by (intro exI [of _ pre] exI [of _ "[]"]) (simp add: find_section_def strListCount_def)
  next
    case (Cons h post1)
    then have "region (pre @ [h]) (Some s)" using p by (auto simp: region_def)
    then show ?thesis using p Some Cons
      by (intro exI [of _ "pre @ [h]"] exI [of _ post1]) (simp add: find_section_def strListCount_def)
  qed
qed

lemma missing_entry: "\<forall>l \<in> set list. \<not> is_hdr l s \<Longrightarrow> ini_entry list (Some s) key = None"
  using section_entry_before [of list s "[]" key] by (simp add: ini_entry_def)

text \<open>What the search of the library finds is the entry.\<close>

lemma get_value_entry:
  assumes ok: "ini_ok list"
  shows "value_at list section key = map_option snd (ini_entry list section key)"
    and "fst (snd (get_value list section key)) = (case ini_entry list section key of None \<Rightarrow> [] | Some (v, p) \<Rightarrow> value_copy v)"
proof -
  obtain P B where PB: "list = P @ B" "find_section list section = length P"
    and r: "region P section \<or> B = [] \<and> (\<exists>s. section = Some s \<and> (\<forall>l \<in> set list. \<not> is_hdr l s))"
    using find_region [OF ok] by blast
  have "ini_ok B" using ok PB(1) by (simp add: ini_ok_def)
  obtain a b where ab: "B = a @ b" "fst (value_scan B key) = length a" "\<forall>l \<in> set a. passed l key"
    "b = [] \<and> snd (value_scan B key) = None
       \<or> (\<exists>l c. b = l # c \<and> (line_key l = INI_NEW_SECTION \<and> snd (value_scan B key) = None
           \<or> (\<exists>k v off. line_key l = Key k v off \<and> stricmp_eq k key \<and> snd (value_scan B key) = Some (v, off))))"
    using scan_split [OF \<open>ini_ok B\<close>, of key] by blast
  have e: "ini_entry list section key = key_entry b key"
  proof (cases "region P section")
    case True
    then show ?thesis using region_entry key_entry_passed [OF ab(3)] PB(1) ab(1) by simp
  next
    case False
    then show ?thesis using r missing_entry ab(1) by auto
  qed
  have g: "get_value list section key = (length P + length a, (case snd (value_scan B key) of None \<Rightarrow> [] | Some (v, off) \<Rightarrow> value_copy v), map_option snd (snd (value_scan B key)))"
    using PB ab(2) by (simp add: get_value_def Let_def split_beta)
  have at: "list ! (length P + length a) = hd b" if "b \<noteq> []" using that PB(1) ab(1) by (cases b) (auto simp: nth_append)
  show "value_at list section key = map_option snd (ini_entry list section key)"
    using ab(4) at unfolding value_at_def g e by auto
  show "fst (snd (get_value list section key)) = (case ini_entry list section key of None \<Rightarrow> [] | Some (v, p) \<Rightarrow> value_copy v)"
    using ab(4) unfolding g e by auto
qed

text \<open>A key line in the place of none or of another for the same key.\<close>

definition sets_key :: "byte list \<Rightarrow> byte list \<Rightarrow> bool" where
  "sets_key l key \<longleftrightarrow> (case line_key l of Key k v off \<Rightarrow> stricmp_eq k key | _ \<Rightarrow> False)"

lemma sets_passed: "sets_key l key \<Longrightarrow> \<not> stricmp_eq key key1 \<Longrightarrow> passed l key1"
  by (cases "line_key l") (auto simp: sets_key_def passed_def stricmp_eq_def)

lemma key_entry_other:
  assumes "\<forall>l \<in> set M \<union> set N. sets_key l key" "\<not> stricmp_eq key key1"
  shows "key_entry (a @ M @ b) key1 = key_entry (a @ N @ b) key1"
proof -
  have "\<forall>l \<in> set M \<union> set N. passed l key1"
    using assms sets_passed by blast
  then have "key_entry (M @ b) key1 = key_entry (N @ b) key1" using key_entry_passed by (metis Un_iff)
  then show ?thesis by (induction a) (auto split: key_line.splits)
qed

lemma sets_key_no_hdr: "sets_key l key \<Longrightarrow> \<not> is_hdr l s"
  using is_hdr_new by (auto simp: sets_key_def split: key_line.splits)

lemma section_entry_other:
  assumes "\<forall>l \<in> set M \<union> set N. sets_key l key" "\<not> stricmp_eq key key1"
  shows "section_entry (a @ M @ b) s key1 = section_entry (a @ N @ b) s key1"
proof (induction a)
  case Nil
  have "\<forall>l \<in> set M \<union> set N. \<not> is_hdr l s" using assms(1) sets_key_no_hdr by blast
  then show ?case using section_entry_before by (metis UnI1 UnI2 append_Nil)
next
  case (Cons l a)
  then show ?case using key_entry_other [OF assms, of a b] by simp
qed

lemma key_entry_stop: "line_key h = INI_NEW_SECTION \<Longrightarrow> key_entry (a @ h # b) key = key_entry (a @ h # c) key"
  by (induction a) (auto split: key_line.splits)

lemma section_entry_stop:
  "line_key h = INI_NEW_SECTION \<Longrightarrow> \<not> is_hdr h t \<Longrightarrow> section_entry b t key = section_entry c t key \<Longrightarrow>
    section_entry (a @ h # b) t key = section_entry (a @ h # c) t key"
  by (induction a) (auto simp: key_entry_stop)

lemma passed_no_hdr: "passed l key \<Longrightarrow> \<not> is_hdr l s"
  using is_hdr_new by (auto simp: passed_def split: key_line.splits)

lemma entries_replaced:
  assumes ok: "ini_ok P" and P: "region P section" "\<forall>l \<in> set R. passed l key" and sec: "section_ok section" "section_ok section1"
    and M: "\<forall>l \<in> set M \<union> set N. sets_key l key" and other: "\<not> (same_section section section1 \<and> stricmp_eq key key1)"
  shows "ini_entry (P @ R @ M @ b) section1 key1 = ini_entry (P @ R @ N @ b) section1 key1"
proof (cases "stricmp_eq key key1")
  case False
  then show ?thesis
    using key_entry_other [OF M False, of "P @ R"] section_entry_other [OF M False, of "P @ R"]
    by (simp add: ini_entry_def split: option.split)
next
  case True
  then have d: "\<not> same_section section section1" using other by simp
  have R: "section_entry (R @ M @ b) t key1 = section_entry (R @ N @ b) t key1" for t
  proof -
    have "\<forall>l \<in> set (R @ M). \<not> is_hdr l t" "\<forall>l \<in> set (R @ N). \<not> is_hdr l t"
      using P(2) M passed_no_hdr sets_key_no_hdr unfolding set_append by blast+
    then show ?thesis using section_entry_before by (metis append.assoc)
  qed
  show ?thesis
  proof (cases "section")
    case None
    then obtain t where "section1 = Some t" using d by (auto simp: same_section_def split: option.splits)
    then show ?thesis using None P(1) R by (simp add: ini_entry_def region_def)
  next
    case (Some s)
    then obtain pre h where h: "P = pre @ [h]" "is_hdr h s" using P(1) by (auto simp: region_def)
    note new = is_hdr_new [OF h(2)]
    show ?thesis
    proof (cases section1)
      case None
      then show ?thesis using key_entry_stop [OF new] h(1) by (simp add: ini_entry_def)
    next
      case (Some t)
      have "line_ok h" using ok h(1) by (simp add: ini_ok_def)
      then have "\<not> is_hdr h t"
        using is_hdr_same [of h s t] h(2) d sec Some \<open>section = Some s\<close> by (auto simp: same_section_def)
      then show ?thesis using section_entry_stop [OF new _ R, of t pre] h(1) Some by (simp add: ini_entry_def)
    qed
  qed
qed

lemma is_hdr_same_name:
  assumes "line_ok l" "section_ok (Some s)" "section_ok (Some t)" "stricmp_eq s t"
  shows "is_hdr l s \<longleftrightarrow> is_hdr l t"
proof (cases "opens_section (skipsp l)")
  case True
  then have "INI_BIT_SEP \<notin> set l" "eof_trunc l = l" using assms(1) by (auto simp: line_ok_def eof_trunc_def opens_section_def)
  then show ?thesis
    using section_match_one [of _ s] section_match_one [of _ t] section_name_subset [of l] assms(2-4)
    by (fastforce simp: is_hdr_def stricmp_eq_def split: option.split)
next
  case False
  then show ?thesis using is_hdr_opens by blast
qed

lemma region_same:
  assumes "ini_ok P" "region P section" "section_ok section" "section_ok section1" "same_section section section1"
  shows "region P section1"
proof (cases "section")
  case None
  then show ?thesis using assms(2,5) by (auto simp: region_def same_section_def split: option.splits)
next
  case (Some s)
  then obtain t where t: "section1 = Some t" "stricmp_eq s t" using assms(5) by (auto simp: same_section_def split: option.splits)
  obtain pre h where h: "P = pre @ [h]" "is_hdr h s" "\<forall>l \<in> set pre. \<not> is_hdr l s" using assms(2) Some by (auto simp: region_def)
  have "is_hdr l s \<longleftrightarrow> is_hdr l t" if "l \<in> set P" for l
    using is_hdr_same_name [of l s t] assms(1,3,4) that Some t by (auto simp: ini_ok_def)
  then have "is_hdr h t" "\<forall>l \<in> set pre. \<not> is_hdr l t" using h by auto
  then show ?thesis using h(1) t(1) by (auto simp: region_def)
qed

section \<open>Setting a value\<close>

lemma str_append_end [simp]: "str_append list s = list @ [s]"
  by (simp add: str_append_def strListAppend_def str_list_append_def strListCount_def)

lemma entry_append:
  assumes "\<forall>l \<in> set W. line_key l = NoKey \<and> \<not> is_hdr l t" "line_key h = INI_NEW_SECTION"
  shows "key_entry (a @ W @ [h]) key = key_entry a key" "section_entry (a @ W @ [h]) t key = section_entry a t key"
proof -
  have "\<forall>l \<in> set W. passed l key" using assms(1) by (simp add: passed_def)
  then have w: "key_entry (W @ [h]) key = None" using key_entry_passed assms(2) by simp
  show k: "key_entry (a @ W @ [h]) key = key_entry a key" for a by (induction a) (auto simp: w split: key_line.splits)
  have "section_entry (W @ [h]) t key = None" using section_entry_before [of W t "[h]" key] assms(1) by simp
  then show "section_entry (a @ W @ [h]) t key = section_entry a t key" by (induction a) (simp_all add: k)
qed

lemma add_section:
  assumes ok: "ini_ok list" "section_ok section" "style_ok style"
  defines "list1 \<equiv> snd (iniAddSection list section style)"
  shows "ini_ok list1" "\<exists>P B. list1 = P @ B \<and> find_section list1 section = length P \<and> region P section"
    "ini_entry list1 section1 key1 = ini_entry list section1 key1"
proof -
  have found: "\<exists>P B. list1 = P @ B \<and> find_section list1 section = length P \<and> region P section"
    if "ini_ok list1" "section = None \<or> (\<exists>s. section = Some s \<and> (\<exists>l \<in> set list1. is_hdr l s))"
    using find_region [OF that(1), of "section"] that(2) by auto
  show "ini_ok list1" "\<exists>P B. list1 = P @ B \<and> find_section list1 section = length P \<and> region P section"
    "ini_entry list1 section1 key1 = ini_entry list section1 key1"
  proof (atomize(full), cases "section")
    case None
    then have "list1 = list" by (simp add: list1_def iniAddSection_def)
    then show "ini_ok list1 \<and> (\<exists>P B. list1 = P @ B \<and> find_section list1 section = length P \<and> region P section)
        \<and> ini_entry list1 section1 key1 = ini_entry list section1 key1" using found ok(1) None by simp
  next
    case (Some s)
    obtain pre post where p: "list = pre @ post" "find_section_index list s = length pre"
      "\<forall>l \<in> set pre. \<not> is_hdr l s" "post = [] \<or> is_hdr (hd post) s"
      using index_split [OF ok(1), of s] by blast
    show "ini_ok list1 \<and> (\<exists>P B. list1 = P @ B \<and> find_section list1 section = length P \<and> region P section)
        \<and> ini_entry list1 section1 key1 = ini_entry list section1 key1"
    proof (cases post)
      case (Cons h post1)
      then have "list1 = list" using p Some by (simp add: list1_def iniAddSection_def ini_add_section_def strListCount_def)
      moreover have "\<exists>l \<in> set list. is_hdr l s" using p(1,4) Cons by auto
      ultimately show ?thesis using found ok(1) Some by simp
    next
      case Nil
      define W where "W = (if 0 < length list then (case st_section_separator style of None \<Rightarrow> [] | Some sep \<Rightarrow> [sep]) else [])"
      have l1: "list1 = list @ W @ [section_line s]"
        unfolding list1_def iniAddSection_def Some using p(1,2) Nil
        by (simp add: ini_add_section_def strListCount_def W_def split: option.split)
      note f = section_line_facts [OF ok(2) [unfolded Some]]
      have W: "\<forall>l \<in> set W. blank l \<and> length l \<le> 1023"
      proof (cases "st_section_separator style")
        case None
        then have "W = []" unfolding W_def by simp
        then show ?thesis by simp
      next
        case sep: (Some sep)
        then have "blank sep \<and> length sep \<le> 1023" using ok(3) by (simp add: style_ok_def)
        moreover have "W = [] \<or> W = [sep]" unfolding W_def sep by (cases "0 < length list") (simp_all only: if_True if_False option.case simp_thms)
        ultimately show ?thesis by auto
      qed
      have o: "ini_ok list1" using ok(1) W blank_line(3) f(2) by (auto simp: l1 ini_ok_def)
      have w: "\<forall>l \<in> set W. line_key l = NoKey \<and> \<not> is_hdr l t" for t using W blank_line(1,2) by blast
      have "\<exists>l \<in> set list1. is_hdr l s" using f(4) by (auto simp: l1)
      then have "\<exists>P B. list1 = P @ B \<and> find_section list1 section = length P \<and> region P section" using found [OF o] Some by blast
      moreover have "ini_entry list1 section1 key1 = ini_entry list section1 key1"
        using entry_append [OF w f(3)] by (simp add: ini_entry_def l1 split: option.split)
      ultimately show ?thesis using o by blast
    qed
  qed
qed

lemma takeWhile_all: "\<forall>x \<in> set a. x = [] \<Longrightarrow> takeWhile (\<lambda>l. l = []) (rev a) = rev a"
  by (simp add: takeWhile_eq_all_conv)

text \<open>The new line stands in the region of the section after lines that do not hold the key.\<close>

lemma set_shape:
  assumes ok: "ini_ok list1" and P: "list1 = P @ B" "find_section list1 section = length P" "region P section"
    and i: "get_value list1 section k = (i, curval, vp)"
  shows "\<exists>R M b. B = R @ M @ b \<and> (\<forall>l \<in> set R. passed l k) \<and> (\<forall>l \<in> set M. sets_key l k)
    \<and> (if strListCount list1 \<le> i \<or> opens_section (list1 ! i)
       then M = [] \<and> before_blank list1 i = length P + length R
       else \<exists>y. M = [y] \<and> i = length P + length R \<and> list1 ! i = y)"
proof -
  have "ini_ok B" using ok P(1) by (simp add: ini_ok_def)
  obtain a b where ab: "B = a @ b" "fst (value_scan B k) = length a" "\<forall>l \<in> set a. passed l k"
    "b = [] \<and> snd (value_scan B k) = None
       \<or> (\<exists>l c. b = l # c \<and> (line_key l = INI_NEW_SECTION \<and> snd (value_scan B k) = None
           \<or> (\<exists>k' v off. line_key l = Key k' v off \<and> stricmp_eq k' k \<and> snd (value_scan B k) = Some (v, off))))"
    using scan_split [OF \<open>ini_ok B\<close>, of k] by blast
  have i': "i = length P + length a" using i P ab(2) by (simp add: get_value_def Let_def split_beta)
  show ?thesis
  proof (cases "\<exists>l c. b = l # c \<and> sets_key l k")
    case True
    then obtain l c where l: "b = l # c" "sets_key l k" by blast
    have "line_key l \<noteq> INI_NEW_SECTION" using l(2) by (auto simp: sets_key_def)
    then have "\<not> opens_section (skipsp l)" using line_key_section by blast
    then have "\<not> opens_section l" using specials_not_space by (cases l) (auto simp: opens_section_def)
    moreover have "list1 ! i = l" "i < length list1" using i' P(1) ab(1) l(1) by (simp_all add: nth_append)
    ultimately show ?thesis using ab(1,3) l i'
      by (intro exI [of _ a] exI [of _ "[l]"] exI [of _ c]) (simp add: strListCount_def)
  next
    case False
    let ?z = "takeWhile (\<lambda>l. l = []) (rev a)"
    define R where "R = rev (dropWhile (\<lambda>l. l = []) (rev a))"
    have aR: "a = R @ rev ?z" unfolding R_def by (metis rev_append rev_rev_ident takeWhile_dropWhile_id)
    have "takeWhile (\<lambda>l. l = []) (rev P) = []"
    proof (cases "P = []")
      case False
      then obtain pre h where "P = pre @ [h]" "opens_section (skipsp h)" using P(3) is_hdr_opens by (auto simp: region_def split: option.splits)
      then show ?thesis by (auto simp: opens_section_def)
    qed simp
    then have "takeWhile (\<lambda>l. l = []) (rev a @ rev P) = ?z"
      by (cases "\<forall>l \<in> set a. l = []") (simp_all add: takeWhile_append takeWhile_all)
    moreover have "take i list1 = P @ a" using i' P(1) ab(1) by simp
    moreover have "length a = length R + length ?z" using arg_cong [OF aR, of length] by simp
    ultimately have bb: "before_blank list1 i = length P + length R" unfolding before_blank_def by (simp add: i')
    have "strListCount list1 \<le> i \<or> opens_section (list1 ! i)"
    proof (cases b)
      case (Cons l c)
      then have "line_key l = INI_NEW_SECTION" using ab(4) False by (auto simp: sets_key_def)
      then have "opens_section (skipsp l)" using line_key_section by blast
      then have "opens_section l" using \<open>ini_ok B\<close> ab(1) Cons by (auto simp: ini_ok_def line_ok_def)
      then show ?thesis using i' P(1) ab(1) Cons by (simp add: nth_append)
    qed (use i' P(1) ab(1) in \<open>simp add: strListCount_def\<close>)
    moreover have "B = R @ [] @ (rev ?z @ b)" using ab(1) aR by (metis append.assoc append_Nil)
    moreover have "\<forall>l \<in> set R. passed l k" using ab(3) aR by (metis UnI1 set_append)
    ultimately show ?thesis using bb
      by (rule_tac exI [of _ R], rule_tac exI [of _ "[]"], rule_tac exI [of _ "rev ?z @ b"]) simp
  qed
qed

lemma key_text_key:
  assumes "setting_ok style k v"
  shows "line_key (key_text style k v) = Key k v (length (key_text style k v) - length v)" "sets_key (key_text style k v) k"
    "stricmp_eq k key1 \<Longrightarrow> key_entry (key_text style k v # b) key1 = Some (v, v)"
proof -
  note f = key_line [OF assms]
  show g: "line_key (key_text style k v) = Key k v (length (key_text style k v) - length v)"
    using f(1,5) by (simp add: line_key_def eof_trunc_def)
  show "sets_key (key_text style k v) k" by (simp add: sets_key_def g)
  show "stricmp_eq k key1 \<Longrightarrow> key_entry (key_text style k v # b) key1 = Some (v, v)" by (simp add: g f(2))
qed

text \<open>The pointer to the value of a line: the value, and what the line has behind it.\<close>

lemma key_name_pointer:
  assumes "key_name y = Key k0 v0 off"
  shows "\<exists>w. blank w \<and> drop off y = v0 @ w \<and> (v0 = [] \<longrightarrow> w = [])"
proof -
  let ?p = "skipsp y"
  define v where "v = skipsp (drop (Suc (min (length (takeWhile (\<lambda>c. c \<noteq> 0x3D) ?p)) (length (takeWhile (\<lambda>c. c \<noteq> 0x3A) ?p)))) ?p)"
  have k: "v0 = truncsp v \<or> v0 = truncnl v" "off = length y - length v"
    using assms by (auto simp: key_name_def Let_def v_def min_def split: if_splits)
  have sp: "\<exists>pre. s = pre @ skipsp s" for s by (metis takeWhile_dropWhile_id)
  have "\<exists>pre. y = pre @ v" unfolding v_def by (metis append.assoc append_take_drop_id sp)
  then have d: "drop off y = v" using k(2) by auto
  have "\<exists>w. blank w \<and> v = v0 @ w"
    using k(1)
  proof
    assume "v0 = truncsp v"
    moreover have "v = truncsp v @ rev (takeWhile isspace_c (rev v))"
      unfolding truncsp_def by (metis rev_append rev_rev_ident takeWhile_dropWhile_id)
    moreover have "blank (rev (takeWhile isspace_c (rev v)))" by (auto simp: blank_def dest: set_takeWhileD)
    ultimately show ?thesis by metis
  next
    let ?nl = "\<lambda>c :: byte. c = 0x0D \<or> c = 0x0A"
    assume "v0 = truncnl v"
    moreover have "v = truncnl v @ rev (takeWhile ?nl (rev v))"
      unfolding truncnl_def by (metis rev_append rev_rev_ident takeWhile_dropWhile_id)
    moreover have "blank (rev (takeWhile ?nl (rev v)))" by (auto simp: blank_def isspace_c_def dest: set_takeWhileD)
    ultimately show ?thesis by metis
  qed
  then obtain w where w: "blank w" "v = v0 @ w" by blast
  moreover have "w = []" if "v0 = []"
  proof -
    have "skipsp v = v" by (simp add: v_def)
    moreover have "skipsp w = []" using w(1) by (simp add: blank_def)
    ultimately show ?thesis using w(2) that by simp
  qed
  ultimately show ?thesis using d by blast
qed

lemma key_pointer:
  assumes "line_key y = Key k0 v0 off" "key_ok k" "stricmp_eq k0 k"
  shows "\<exists>w. blank w \<and> drop off y = v0 @ w \<and> (v0 = [] \<longrightarrow> w = [])"
proof -
  have "take 1 y \<noteq> [0x21]"
  proof
    assume "take 1 y = [0x21]"
    then obtain r where y: "y = 0x21 # r" by (cases y) auto
    have t: "truncsp (0x21 # s) = 0x21 # truncsp s" for s :: "byte list"
      by (simp add: truncsp_def dropWhile_append specials_not_space)
    have "\<exists>s. k0 = 0x21 # s"
      using assms(1) t by (auto simp: line_key_def eof_trunc_def y key_name_def Let_def specials_not_space split: if_splits)
    moreover have "c = 0x21" if "tolower_c c = tolower_c 0x21" for c
      using that by (auto simp: tolower_c_def split: if_splits) (unat_arith)+
    ultimately have "hd k = 0x21" using assms(2,3) by (cases k) (auto simp: stricmp_eq_def key_ok_def)
    then show False using assms(2) by (simp add: key_ok_def)
  qed
  then show ?thesis using key_name_pointer assms(1) by (simp add: line_key_def eof_trunc_def)
qed

text \<open>The list after a setting: the line is new, or replaced, or holds the value already.\<close>

lemma set_string_cases:
  assumes ok: "ini_ok list" "section_ok section" "setting_ok style k v"
  obtains P R M N b where "snd (iniAddSection list section style) = P @ R @ M @ b"
    "snd (iniSetString list section (Some k) (Some v) style) = P @ R @ N @ b"
    "region P section" "\<forall>l \<in> set R. passed l k" "\<forall>l \<in> set M \<union> set N. sets_key l k"
    "N = [key_text style k v] \<or> (\<exists>y k0 v0 off. N = [y] \<and> M = [y] \<and> line_key y = Key k0 v0 off \<and> value_copy v0 = v)"
proof -
  let ?list1 = "snd (iniAddSection list section style)" and ?x = "key_text style k v"
  have st: "style_ok style" using ok(3) by (simp add: setting_ok_def)
  note add = add_section [OF ok(1,2) st]
  obtain P B where P: "?list1 = P @ B" "find_section ?list1 section = length P" "region P section" using add(2) by blast
  obtain i curval vp where g: "get_value ?list1 section k = (i, curval, vp)" by (metis prod_cases3)
  obtain R M b where sh: "B = R @ M @ b" "\<forall>l \<in> set R. passed l k" "\<forall>l \<in> set M. sets_key l k"
    "if strListCount ?list1 \<le> i \<or> opens_section (?list1 ! i)
       then M = [] \<and> before_blank ?list1 i = length P + length R
       else \<exists>y. M = [y] \<and> i = length P + length R \<and> ?list1 ! i = y"
    using set_shape [OF add(1) P g] by blast
  have x: "sets_key ?x k" using key_text_key(2) [OF ok(3)] .
  have res: "snd (iniSetString list section (Some k) (Some v) style)
      = (if strListCount ?list1 \<le> i \<or> opens_section (?list1 ! i) then snd (strListInsert ?list1 (Some ?x) (before_blank ?list1 i))
         else if curval = v then ?list1 else snd (strListReplace ?list1 (Some i) (Some ?x)))"
    by (simp add: iniSetString_def Let_def g)
  show ?thesis
  proof (cases "strListCount ?list1 \<le> i \<or> opens_section (?list1 ! i)")
    case True
    then have m: "M = []" "before_blank ?list1 i = length P + length R" using sh(4) by auto
    then have "snd (iniSetString list section (Some k) (Some v) style) = P @ R @ [?x] @ b"
      using res True P(1) sh(1) by (simp add: strListInsert_def str_list_insert_def strListCount_def)
    then show ?thesis using that [of P R "[]" b "[?x]"] P(1,3) sh(1,2) m(1) x by simp
  next
    case False
    then obtain y where m: "M = [y]" "i = length P + length R" using sh(4) by auto
    have y: "sets_key y k" using sh(3) m(1) by simp
    show ?thesis
    proof (cases "curval = v")
      case True
      then have "snd (iniSetString list section (Some k) (Some v) style) = P @ R @ [y] @ b" using res False P(1) sh(1) m(1) by simp
      moreover obtain k0 v0 off where ly: "line_key y = Key k0 v0 off" "stricmp_eq k0 k" using y by (auto simp: sets_key_def split: key_line.splits)
      have "ini_entry ?list1 section k = Some (v0, drop off y)"
        using region_entry [OF P(3), of B k] key_entry_passed [OF sh(2)] P(1) sh(1) m(1) ly by simp
      then have "value_copy v0 = v" using get_value_entry(2) [OF add(1), of "section" k] g True by simp
      ultimately show ?thesis using that [of P R "[y]" b "[y]"] P(1,3) sh(1,2) m(1) y ly(1) by simp
    next
      case new: False
      have "i < length ?list1" "list_index ?list1 (Some i) = i" using m P(1) sh(1) by (simp_all add: list_index_def)
      then have "snd (iniSetString list section (Some k) (Some v) style) = P @ R @ [?x] @ b"
        using res False new P(1) sh(1) m by (simp add: strListReplace_def strListCount_def list_update_append)
      then show ?thesis using that [of P R "[y]" b "[?x]"] P(1,3) sh(1,2) m(1) y x by simp
    qed
  qed
qed

lemma set_string_entries:
  assumes ok: "ini_ok list" "section_ok section" "setting_ok style k v" "section_ok section1"
  defines "list2 \<equiv> snd (iniSetString list section (Some k) (Some v) style)"
  shows "ini_ok list2"
    and "same_section section section1 \<Longrightarrow> stricmp_eq k key1 \<Longrightarrow> \<exists>w. ini_entry list2 section1 key1 = Some (v, v @ w) \<and> blank w
      \<and> (v = [] \<longrightarrow> w = []) \<and> (w = [] \<or> ini_entry list section1 key1 = Some (v, v @ w))"
    and "\<not> (same_section section section1 \<and> stricmp_eq k key1) \<Longrightarrow> ini_entry list2 section1 key1 = ini_entry list section1 key1"
proof -
  obtain P R M N b where c: "snd (iniAddSection list section style) = P @ R @ M @ b" "list2 = P @ R @ N @ b"
    "region P section" "\<forall>l \<in> set R. passed l k" "\<forall>l \<in> set M \<union> set N. sets_key l k"
    "N = [key_text style k v] \<or> (\<exists>y k0 v0 off. N = [y] \<and> M = [y] \<and> line_key y = Key k0 v0 off \<and> value_copy v0 = v)"
    unfolding list2_def by (rule set_string_cases [OF ok(1-3)])
  have st: "style_ok style" using ok(3) by (simp add: setting_ok_def)
  note add = add_section [OF ok(1,2) st]
  have P: "ini_ok P" using add(1) c(1) by (simp add: ini_ok_def)
  have v: "value_copy v = v" using ok(3) by (simp add: setting_ok_def value_copy_def)
  have l1: "\<forall>l \<in> set (P @ R @ M @ b). line_ok l" using add(1) c(1) by (simp add: ini_ok_def)
  moreover have "set N \<subseteq> insert (key_text style k v) (set M)" using c(6) by auto
  ultimately have "\<forall>l \<in> set (P @ R @ N @ b). line_ok l" using key_line(3) [OF ok(3)] by auto
  then show "ini_ok list2" by (simp add: ini_ok_def c(2))
  show "\<exists>w. ini_entry list2 section1 key1 = Some (v, v @ w) \<and> blank w \<and> (v = [] \<longrightarrow> w = [])
      \<and> (w = [] \<or> ini_entry list section1 key1 = Some (v, v @ w))"
    if s: "same_section section section1" "stricmp_eq k key1"
  proof -
    have R: "\<forall>l \<in> set R. passed l key1" using c(4) s(2) by (auto simp: passed_def stricmp_eq_def split: key_line.splits)
    then have e: "ini_entry list2 section1 key1 = key_entry (N @ b) key1"
      using region_entry [OF region_same [OF P c(3) ok(2,4) s(1)]] key_entry_passed c(2) by simp
    show ?thesis
    proof (cases "N = [key_text style k v]")
      case True
      then show ?thesis using e key_text_key(3) [OF ok(3) s(2)] by (intro exI [of _ "[]"]) (simp add: blank_def)
    next
      case False
      then obtain y k0 v0 off where y: "N = [y]" "M = [y]" "line_key y = Key k0 v0 off" "value_copy v0 = v" using c(6) by blast
      then have k0: "stricmp_eq k0 k" using c(5) by (simp add: sets_key_def)
      obtain w where w: "blank w" "drop off y = v0 @ w" "v0 = [] \<longrightarrow> w = []"
        using key_pointer [OF y(3) _ k0] ok(3) by (auto simp: setting_ok_def)
      have "length y \<le> 1023" using l1 y(2) by (simp add: line_ok_def)
      then have "length (drop off y) \<le> 1023" by (metis diff_le_self length_drop order.trans)
      then have v0: "v0 = v" using y(4) w(2) by (simp add: value_copy_def)
      have "ini_entry list2 section1 key1 = Some (v, v @ w)" using e y k0 s(2) w(2) v0 by (simp add: stricmp_eq_def)
      moreover have "list2 = snd (iniAddSection list section style)" using c(1,2) y(1,2) by simp
      ultimately show ?thesis using w v0 add(3) by metis
    qed
  qed
  show "ini_entry list2 section1 key1 = ini_entry list section1 key1" if "\<not> (same_section section section1 \<and> stricmp_eq k key1)"
    using entries_replaced [OF P c(3,4) ok(2,4) c(5) that, of b] add(3) c(1,2) by simp
qed

lemma get_string_entry:
  assumes "ini_ok list"
  shows "iniGetString list section key deflt =
    (case ini_entry list section key of None \<Rightarrow> (deflt, default_value deflt [])
     | Some (v, p) \<Rightarrow> if p = [] then (deflt, default_value deflt (value_copy v)) else (Some p, value_copy v))"
  using get_value_entry [OF assms, of "section" key] by (auto simp: iniGetString_def split: option.splits)


end
