(* ===== verification/Settings.thy ===== *)
theory Settings
  imports Main
begin

text \<open>
  The contract of a store of settings, which configuration files and the records of the user
  base fulfil: an update sets its key, and no key that is not the same one.
\<close>

locale setting_store =
  fixes ok :: "'s \<Rightarrow> bool" and valid :: "'k \<Rightarrow> 'v \<Rightarrow> bool" and same :: "'k \<Rightarrow> 'k \<Rightarrow> bool"
    and lookup :: "'s \<Rightarrow> 'k \<Rightarrow> 'v" and update :: "'k \<Rightarrow> 'v \<Rightarrow> 's \<Rightarrow> 's"
  assumes ok_update: "ok s \<Longrightarrow> valid k v \<Longrightarrow> ok (update k v s)"
    and lookup_same: "ok s \<Longrightarrow> valid k v \<Longrightarrow> lookup (update k v s) k = v"
    and lookup_other: "ok s \<Longrightarrow> valid k v \<Longrightarrow> valid k1 v1 \<Longrightarrow> \<not> same k k1 \<Longrightarrow> lookup (update k v s) k1 = lookup s k1"
begin

text \<open>A configuration is saved by one setting after the other.\<close>

lemma ok_all: "ok s \<Longrightarrow> \<forall>(k, v) \<in> set kvs. valid k v \<Longrightarrow> ok (fold (\<lambda>(k, v). update k v) kvs s)"
  by (induction kvs arbitrary: s) (auto simp: ok_update)

lemma lookup_untouched:
  "ok s \<Longrightarrow> \<forall>(k, v) \<in> set kvs. valid k v \<and> \<not> same k k1 \<Longrightarrow> valid k1 v1 \<Longrightarrow>
    lookup (fold (\<lambda>(k, v). update k v) kvs s) k1 = lookup s k1"
  by (induction kvs arbitrary: s) (auto simp: ok_update lookup_other)

lemma lookup_all:
  assumes "ok s" "\<forall>(k, v) \<in> set kvs. valid k v" "sorted_wrt (\<lambda>a b. \<not> same (fst b) (fst a)) kvs" "(k, v) \<in> set kvs"
  shows "lookup (fold (\<lambda>(k, v). update k v) kvs s) k = v"
  using assms
proof (induction kvs arbitrary: s)
  case (Cons a kvs)
  obtain k0 v0 where a: "a = (k0, v0)" by (cases a)
  have s1: "ok (update k0 v0 s)" "valid k0 v0" using Cons.prems(1,2) a ok_update by auto
  show ?case
  proof (cases "a = (k, v)")
    case True
    then have "\<forall>(k1, v1) \<in> set kvs. valid k1 v1 \<and> \<not> same k1 k" using Cons.prems(2,3) by auto
    then show ?thesis using lookup_untouched [OF s1(1), of kvs k v] lookup_same [OF Cons.prems(1)] s1(2) True a by simp
  next
    case False
    then show ?thesis using Cons.IH [OF s1(1)] Cons.prems(2-4) a by auto
  qed
qed simp

end

end
