(* ===== verification/IniFiles.thy ===== *)
theory IniFiles
  imports IniProps Settings
begin

text \<open>
  Configurations that are saved: the files in memory as a store of settings, and what is read back
  from the file that is written. Also where the functions damage a file.
\<close>

section \<open>Files\<close>

text \<open>Text of a line, and a setting that is one line.\<close>

definition text_ok :: "byte list \<Rightarrow> bool" where
  "text_ok s \<longleftrightarrow> 0 \<notin> set s \<and> 0x0A \<notin> set s"

definition opt_text :: "byte list option \<Rightarrow> bool" where
  "opt_text s \<longleftrightarrow> (case s of None \<Rightarrow> True | Some t \<Rightarrow> text_ok t)"

definition file_ok :: "str_list \<Rightarrow> bool" where
  "file_ok list \<longleftrightarrow> ini_ok list \<and> (\<forall>l \<in> set list. text_ok l)"

definition set_valid :: "ini_style_t \<Rightarrow> ini_section \<times> byte list \<Rightarrow> byte list \<Rightarrow> bool" where
  "set_valid style sk v \<longleftrightarrow> section_ok (fst sk) \<and> setting_ok style (snd sk) v \<and> opt_text (fst sk) \<and> text_ok (snd sk) \<and> text_ok v
     \<and> opt_text (st_key_prefix style) \<and> opt_text (st_value_separator style) \<and> opt_text (st_section_separator style)"

definition same_key :: "ini_section \<times> byte list \<Rightarrow> ini_section \<times> byte list \<Rightarrow> bool" where
  "same_key a b \<longleftrightarrow> same_section (fst a) (fst b) \<and> stricmp_eq (snd a) (snd b)"

definition ini_set :: "ini_style_t \<Rightarrow> ini_section \<times> byte list \<Rightarrow> byte list \<Rightarrow> str_list \<Rightarrow> str_list" where
  "ini_set style sk v list = snd (iniSetString list (fst sk) (Some (snd sk)) (Some v) style)"

definition ini_get :: "str_list \<Rightarrow> ini_section \<times> byte list \<Rightarrow> byte list" where
  "ini_get list sk = snd (iniGetString list (fst sk) (snd sk) None)"

lemma same_section_refl [simp]: "same_section s s"
  by (simp add: same_section_def split: option.split)

lemma ini_get_entry:
  "ini_ok list \<Longrightarrow> ini_get list sk = (case ini_entry list (fst sk) (snd sk) of None \<Rightarrow> [] | Some (v, p) \<Rightarrow> value_copy v)"
  by (simp add: ini_get_def get_string_entry default_value_def split: option.split)

lemma text_ok_line_copy: "text_ok l \<Longrightarrow> text_ok (line_copy l)"
  by (auto simp: text_ok_def line_copy_def dest: in_set_takeD)

lemma text_ok_append [simp]: "text_ok (a @ b) \<longleftrightarrow> text_ok a \<and> text_ok b"
  by (auto simp: text_ok_def)

lemma file_ok_set:
  assumes "file_ok list" "set_valid style sk v"
  shows "file_ok (ini_set style sk v list)"
proof -
  obtain s k where sk: "sk = (s, k)" by (cases sk)
  have ok: "ini_ok list" "section_ok s" "setting_ok style k v" using assms by (auto simp: file_ok_def set_valid_def sk)
  obtain P R M N b where c: "snd (iniAddSection list s style) = P @ R @ M @ b"
    "snd (iniSetString list s (Some k) (Some v) style) = P @ R @ N @ b"
    "N = [key_text style k v] \<or> (\<exists>y k0 v0 off. N = [y] \<and> M = [y] \<and> line_key y = Key k0 v0 off \<and> value_copy v0 = v)"
    using set_string_cases [OF ok] by metis
  have "text_ok (key_text style k v)"
    unfolding key_text_def using assms(2)
    by (intro text_ok_line_copy) (auto simp: set_valid_def sk opt_text_def text_ok_def split: option.splits)
  moreover have "\<forall>l \<in> set (snd (iniAddSection list s style)). text_ok l"
  proof (cases s)
    case None
    then show ?thesis using assms(1) by (simp add: iniAddSection_def file_ok_def)
  next
    case (Some t)
    then have "text_ok (section_line t)"
      using assms(2) unfolding section_line_def
      by (intro text_ok_line_copy) (simp add: set_valid_def sk opt_text_def text_ok_def)
    then show ?thesis using assms Some
      by (auto simp: iniAddSection_def ini_add_section_def file_ok_def set_valid_def opt_text_def split: option.splits)
  qed
  ultimately have "\<forall>l \<in> set (ini_set style sk v list). text_ok l" using c by (auto simp: ini_set_def sk)
  then show ?thesis using set_string_entries(1) [OF ok, of None] by (simp add: file_ok_def ini_set_def sk section_ok_def)
qed

interpretation ini_store: setting_store file_ok "set_valid style" same_key ini_get "ini_set style" for style
proof unfold_locales
  fix list sk v
  assume ok: "file_ok list" "set_valid style sk v"
  show "file_ok (ini_set style sk v list)" by (rule file_ok_set [OF ok])
  have ok1: "ini_ok list" "section_ok (fst sk)" "setting_ok style (snd sk) v" using ok by (auto simp: file_ok_def set_valid_def)
  note e = set_string_entries [OF ok1]
  have "value_copy v = v" using ok1(3) by (simp add: setting_ok_def value_copy_def)
  then show "ini_get (ini_set style sk v list) sk = v"
    using e(1) [of "fst sk"] e(2) [of "fst sk" "snd sk"] ok1(2) ini_get_entry [of "ini_set style sk v list" sk] by (auto simp: ini_set_def)
  fix sk1 v1
  assume "set_valid style sk1 v1" "\<not> same_key sk sk1"
  then show "ini_get (ini_set style sk v list) sk1 = ini_get list sk1"
    using e(1) [of "fst sk1"] e(3) [of "fst sk1" "snd sk1"] ini_get_entry [of "ini_set style sk v list" sk1] ini_get_entry [OF ok1(1), of sk1]
    by (simp add: same_key_def ini_set_def set_valid_def)
qed

section \<open>Reading what was written\<close>

abbreviation nl :: "byte list \<Rightarrow> byte list" where "nl l \<equiv> l @ [0x0A]"

lemma fgets_nl: "0x0A \<notin> set s \<Longrightarrow> length s < n \<Longrightarrow> fgets_line n (s @ 0x0A # rest) = (nl s, rest)"
proof (induction s arbitrary: n)
  case Nil
  then show ?case by (cases n) auto
next
  case (Cons c s)
  then show ?case by (cases n) auto
qed

lemma file_lines_nl:
  "\<forall>l \<in> set list. text_ok l \<and> length l < n \<Longrightarrow> file_lines n (concat (map nl list)) = map nl list"
proof (induction list)
  case Nil
  then show ?case by (subst file_lines.simps) simp
next
  case (Cons l list)
  then have l: "0x0A \<notin> set l" "0 \<notin> set l" "length l < n" by (auto simp: text_ok_def)
  have "cstr (nl l) = nl l" using l(2) unfolding cstr_def by (subst takeWhile_eq_all_conv) auto
  then show ?case
    using Cons fgets_nl [OF l(1,3), of "concat (map nl list)"] by (subst file_lines.simps) auto
qed

lemma truncnl_nl [simp]: "truncnl (nl s) = truncnl s"
  by (simp add: truncnl_def)

lemma truncsp_nl [simp]: "truncsp (nl s) = truncsp s"
  by (simp add: truncsp_def isspace_c_def)

lemma space_nl: "isspace_c 0x0A"
  by (simp add: isspace_c_def)

lemma skipsp_nl: "skipsp (nl s) = (if skipsp s = [] then [] else nl (skipsp s))"
  by (induction s) (simp_all add: space_nl)

lemma first_nl: "take 1 (nl l) = [c] \<longleftrightarrow> (if l = [] then c = 0x0A else take 1 l = [c])"
  by (cases l) auto

lemma eof_nl: "is_eof (nl l) = is_eof l" "eof_trunc (nl l) = (if take 1 l = [0x21] then truncsp l else nl l)"
  unfolding is_eof_def eof_trunc_def first_nl by auto

lemma eof_trunc_nl: "eof_trunc (nl l) = eof_trunc l \<or> eof_trunc (nl l) = nl l \<and> eof_trunc l = l"
  by (cases "take 1 l = [0x21]") (simp_all only: eof_nl(2) if_True if_False simp_thms, simp_all only: eof_trunc_def if_True if_False simp_thms)

lemma section_name_nl: "section_name (nl l) = section_name l"
proof (cases "skipsp l")
  case (Cons c p)
  then show ?thesis
    by (cases "skipsp p = []") (simp_all add: section_name_def skipsp_nl Let_def del: dropWhile_eq_Nil_conv)
next
  case Nil
  then have "skipsp (nl l) = []" using skipsp_nl [of l] by (simp only: if_True simp_thms)
  then show ?thesis unfolding section_name_def Let_def Nil by (simp only: list.size take_Nil)
qed

text \<open>The key and the value of a line do not depend on the line feed.\<close>

definition key_value :: "key_line \<Rightarrow> (byte list \<times> byte list) option option" where
  "key_value kl = (case kl of INI_NEW_SECTION \<Rightarrow> None | NoKey \<Rightarrow> Some None | Key k v off \<Rightarrow> Some (Some (k, v)))"

lemma takeWhile_nl: "c \<noteq> 0x0A \<Longrightarrow> length (takeWhile (\<lambda>x. x \<noteq> c) (nl p)) = (if c \<in> set p then length (takeWhile (\<lambda>x. x \<noteq> c) p) else length p + 1)"
  by (induction p) auto

lemma takeWhile_full: "length (takeWhile (\<lambda>x. x \<noteq> c) p) < length p \<longleftrightarrow> c \<in> set p"
  by (induction p) auto

lemma key_name_nl: "key_value (key_name (nl l)) = key_value (key_name l)"
proof (cases "skipsp l")
  case (Cons c q)
  define p where "p = skipsp l"
  have p: "p \<noteq> []" "skipsp (nl l) = nl p" using Cons by (auto simp: p_def skipsp_nl)
  have t: "take 1 (nl p) = take 1 p" using p(1) by (cases p) auto
  let ?f = "\<lambda>c p. length (takeWhile (\<lambda>x. x \<noteq> c) p)"
  define k where "k = (if ?f 0x3D p < ?f 0x3A p then ?f 0x3D p else ?f 0x3A p)"
  have le: "?f c p \<le> length p" for c by (rule length_takeWhile_le)
  show ?thesis
  proof (cases "0x3D \<in> set p \<or> 0x3A \<in> set p")
    case True
    have lt: "?f 0x3D (nl p) < ?f 0x3A (nl p) \<longleftrightarrow> ?f 0x3D p < ?f 0x3A p"
      using True takeWhile_full [of "0x3D" p] takeWhile_full [of "0x3A" p] le [of "0x3D"] le [of "0x3A"] by (auto simp: takeWhile_nl)
    have k: "(if ?f 0x3D p < ?f 0x3A p then ?f 0x3D (nl p) else ?f 0x3A (nl p)) = k" "k < length p"
      using True takeWhile_full [of "0x3D" p] takeWhile_full [of "0x3A" p] le [of "0x3D"] le [of "0x3A"]
      by (auto simp: takeWhile_nl k_def)
    have v: "skipsp (drop (k + 1) (nl p)) = (if skipsp (drop (k + 1) p) = [] then [] else nl (skipsp (drop (k + 1) p)))"
      using k(2) skipsp_nl [of "drop (k + 1) p"] by simp
    have v2: "truncsp (skipsp (drop (k + 1) (nl p))) = truncsp (skipsp (drop (k + 1) p))"
      "truncnl (skipsp (drop (k + 1) (nl p))) = truncnl (skipsp (drop (k + 1) p))"
      unfolding v by (simp_all del: dropWhile_eq_Nil_conv)
    have tk: "take k (nl p) = take k p" using k(2) by simp
    have nl: "key_value (key_name (nl l)) = (if take 1 p = [INI_COMMENT_CHAR] then Some None
        else if take 1 p = [INI_OPEN_SECTION_CHAR] then None
        else Some (Some (truncsp (take k p), if ?f 0x3D p < ?f 0x3A p then truncsp (skipsp (drop (k + 1) p)) else truncnl (skipsp (drop (k + 1) p)))))"
      using k(2) unfolding key_name_def Let_def p(2) lt k(1) t tk v2 by (simp add: key_value_def)
    have "key_value (key_name l) = (if take 1 p = [INI_COMMENT_CHAR] then Some None
        else if take 1 p = [INI_OPEN_SECTION_CHAR] then None
        else Some (Some (truncsp (take k p), if ?f 0x3D p < ?f 0x3A p then truncsp (skipsp (drop (k + 1) p)) else truncnl (skipsp (drop (k + 1) p)))))"
      using k(2) unfolding key_name_def Let_def p_def [symmetric] k_def [symmetric] by (simp add: key_value_def)
    then show ?thesis using nl by simp
  next
    case False
    then have f: "?f 0x3D p = length p" "?f 0x3A p = length p" "?f 0x3D (nl p) = length (nl p)" "?f 0x3A (nl p) = length (nl p)"
      using takeWhile_full [of "0x3D" p] takeWhile_full [of "0x3A" p] le [of "0x3D"] le [of "0x3A"] by (auto simp: takeWhile_nl)
    have "key_value (key_name (nl l)) = (if take 1 p = [INI_COMMENT_CHAR] then Some None
        else if take 1 p = [INI_OPEN_SECTION_CHAR] then None else Some None)"
      unfolding key_name_def Let_def p(2) f t by (simp add: key_value_def)
    moreover have "key_value (key_name l) = (if take 1 p = [INI_COMMENT_CHAR] then Some None
        else if take 1 p = [INI_OPEN_SECTION_CHAR] then None else Some None)"
      unfolding key_name_def Let_def p_def [symmetric] f by (simp add: key_value_def)
    ultimately show ?thesis by simp
  qed
next
  case Nil
  then have "skipsp (nl l) = []" using skipsp_nl [of l] by (simp only: if_True simp_thms)
  then show ?thesis unfolding key_name_def Let_def Nil by (simp add: key_value_def)
qed

lemma line_key_nl: "key_value (key_name (eof_trunc (nl l))) = key_value (line_key l)"
  using eof_trunc_nl [of l] key_name_nl [of l] by (auto simp only: line_key_def)

lemma read_scan_entry:
  "\<forall>l \<in> set list. \<not> is_eof l \<Longrightarrow> read_scan (map nl list) key = map_option (\<lambda>(v, p). value_copy v) (key_entry list key)"
proof (induction list)
  case (Cons l list)
  have "key_value (key_name (eof_trunc (nl l))) = key_value (line_key l)" by (rule line_key_nl)
  then show ?case using Cons
    by (cases "key_name (eof_trunc (nl l))"; cases "line_key l") (auto simp: key_value_def eof_nl(1))
qed simp

lemma is_hdr_nl: "is_hdr (nl l) s = is_hdr l s"
  using eof_trunc_nl [of l] section_name_nl [of l] by (auto simp only: is_hdr_def)

lemma seek_entry:
  "\<forall>l \<in> set list. \<not> is_eof l \<Longrightarrow> Option.bind (seek_lines (map nl list) s) (\<lambda>lines. read_scan lines key)
    = map_option (\<lambda>(v, p). value_copy v) (section_entry list s key)"
proof (induction list)
  case (Cons l list)
  have "seek_lines (nl l # map nl list) s = (if is_hdr (nl l) s then Some (map nl list) else seek_lines (map nl list) s)"
    using Cons.prems eof_nl(1) [of l] by (simp add: is_hdr_def split: option.split)
  then have "seek_lines (nl l # map nl list) s = (if is_hdr l s then Some (map nl list) else seek_lines (map nl list) s)"
    by (simp only: is_hdr_nl)
  then show ?case using Cons read_scan_entry by simp
qed simp

lemma read_value_written:
  assumes "file_ok list"
  shows "read_value (Some (snd (iniWriteFile True old list))) section key
    = map_option (\<lambda>(v, p). value_copy v) (ini_entry list section key)"
proof -
  have ok: "\<forall>l \<in> set list. \<not> is_eof l" "\<forall>l \<in> set list. text_ok l \<and> length l < 2047"
    using assms by (auto simp: file_ok_def ini_ok_def line_ok_def)
  have w: "snd (iniWriteFile True old list) = concat (map nl list)" by (simp add: iniWriteFile_def strListWriteFile_def)
  have "fp_lines (concat (map nl list)) = map nl list" unfolding fp_lines_def by (rule file_lines_nl) (use ok(2) in simp)
  then show ?thesis unfolding w
    by (cases "section") (simp_all add: read_value_def seek_section_def ini_entry_def read_scan_entry [OF ok(1)] seek_entry [OF ok(1)])
qed


section \<open>What damages a list\<close>

text \<open>
  C40: taking out a key that a section does not have removes the line that opens the next
  section, so that its keys go to the section before; the value is then reported as blank
  instead of missing.
\<close>

theorem iniPopKey_drops_section:
  assumes "ini_ok list" "get_value list section key = (i, buf, None)" "i < length list"
  shows "opens_section (list ! i) \<and> iniPopKey list section key = (Some [], take i list @ drop (Suc i) list)"
proof -
  obtain P B where PB: "list = P @ B" "find_section list section = length P" using find_region [OF assms(1)] by blast
  have "ini_ok B" using assms(1) PB(1) by (simp add: ini_ok_def)
  obtain a b where ab: "B = a @ b" "fst (value_scan B key) = length a"
    "b = [] \<and> snd (value_scan B key) = None
       \<or> (\<exists>l c. b = l # c \<and> (line_key l = INI_NEW_SECTION \<and> snd (value_scan B key) = None
           \<or> (\<exists>k v off. line_key l = Key k v off \<and> stricmp_eq k key \<and> snd (value_scan B key) = Some (v, off))))"
    using scan_split [OF \<open>ini_ok B\<close>, of key] by blast
  have g: "i = length P + length a" "snd (value_scan B key) = None" "buf = []"
    using assms(2) PB ab(2) by (auto simp: get_value_def Let_def split_beta)
  then obtain l c where l: "b = l # c" "line_key l = INI_NEW_SECTION" using ab(1,3) assms(3) PB(1) by auto
  then have "opens_section (skipsp l)" using line_key_section by blast
  then have "opens_section l" using \<open>ini_ok B\<close> ab(1) l(1) by (auto simp: ini_ok_def line_ok_def)
  moreover have "list ! i = l" using g(1) PB(1) ab(1) l(1) by (simp add: nth_append)
  ultimately show ?thesis
    using assms(2,3) g(3) by (simp add: iniPopKey_def strListDelete_def strListRemove_def list_index_def strListCount_def)
qed

text \<open>
  Getting a bit field from the list ends its words in place: the second time only the first name
  is left. A truth value with a blank after it is false in the list and true in the file. An
  empty section is listed with the lines of the next.
\<close>

lemma iniGetBitField_destroys:
  "iniGetBitField [cs ''f=A|B''] None (cs ''f'') [(1, cs ''A''), (2, cs ''B'')] 0 = (3, [cs ''f=A''])"
  by code_simp

lemma iniGetBitField_again:
  "iniGetBitField [cs ''f=A''] None (cs ''f'') [(1, cs ''A''), (2, cs ''B'')] 0 = (1, [cs ''f=A''])"
  by code_simp

lemma iniGetBool_blank:
  "\<not> iniGetBool [cs ''f=true ''] None (cs ''f'') False
    \<and> iniReadBool (Some (cs ''f=true '' @ [0x0A])) None (cs ''f'') False"
proof -
  have "value_at [cs ''f=true ''] None (cs ''f'') = Some (cs ''true '')" "\<not> isTrue (cs ''true '')"
    "signed_text (cs ''true '') = (False, 0)" by code_simp+
  then have "\<not> iniGetBool [cs ''f=true ''] None (cs ''f'') False"
    by (simp add: iniGetBool_def get_with_def parseBool_def parseInteger_def strtol_c_def cs_def)
  moreover have "read_value (Some (cs ''f=true '' @ [0x0A])) None (cs ''f'') = Some (cs ''true'')" "isTrue (cs ''true'')" by code_simp+
  then have "iniReadBool (Some (cs ''f=true '' @ [0x0A])) None (cs ''f'') False"
    by (simp add: iniReadBool_def read_with_def parseBool_def parseInteger_def cs_def)
  ultimately show ?thesis ..
qed

lemma iniGetSection_empty:
  "iniGetSection (Some [cs ''[a]'', cs ''[b]'', cs ''k=v'']) (Some (cs ''a'')) = Some [cs ''[b]'', cs ''k=v'']"
  by code_simp

section \<open>Samples\<close>

definition sample_ini :: str_list where
  "sample_ini = [cs ''; sample'', cs ''[a]'', cs ''k = 1'', [], cs ''[b]'', cs ''k = 2'']"

lemma sample_ini_ok: "file_ok sample_ini" "set_valid default_style (Some (cs ''A''), cs ''new'') (cs ''x y'')"
  "set_valid default_style (Some (cs ''c''), cs ''k'') (cs ''3'')"
  by code_simp+

text \<open>The menu editor writes a colon and a blank between a key and its value.\<close>

definition colon_style :: ini_style_t where
  "colon_style = default_style\<lparr>st_value_separator := Some [0x3A, 0x20]\<rparr>"



theorem iniPopKey_drops_section_witness:
  "iniPopKey sample_ini (Some (cs ''a'')) (cs ''missing'') = (Some [], take 4 sample_ini @ drop (Suc 4) sample_ini)"
proof -
  have "get_value sample_ini (Some (cs ''a'')) (cs ''missing'') = (4, [], None)" "4 < length sample_ini" by code_simp+
  then show ?thesis using iniPopKey_drops_section sample_ini_ok(1) unfolding file_ok_def by blast
qed

end
