(* ===== verification/UserRec.thy ===== *)
theory UserRec
  imports ArsEval
begin

text \<open>
  The record of a user in user/user.dat (sbbs3/userdat.c, dat\_rec.c, sbbsdefs.h): a text of fixed
  length with its fields at fixed offsets, filled up with ETX. Here are the layout, the record as
  \<open>putuserdat\<close> writes it, the user as \<open>getuserdat\<close> reads him, and that reading undoes writing.
\<close>

section \<open>Fields of fixed length (dat\_rec.c)\<close>

abbreviation (input) "ETX \<equiv> 0x03 :: byte"
abbreviation (input) "CR \<equiv> 0x0D :: byte"
abbreviation (input) "LF \<equiv> 0x0A :: byte"

definition crlf :: "byte list" where
  "crlf = [CR, LF]"

text \<open>The string that is left in the destination ends at a terminator that was copied.\<close>

definition getrec :: "byte list \<Rightarrow> nat \<Rightarrow> nat \<Rightarrow> byte list" where
  "getrec strin start len = cstr (takeWhile (\<lambda>c. c \<noteq> ETX \<and> c \<noteq> CR \<and> c \<noteq> LF) (take len (drop start strin)))"

definition etx_fill :: "nat \<Rightarrow> byte list \<Rightarrow> byte list" where
  "etx_fill len s = take len s @ replicate (len - length s) ETX"

definition putrec :: "byte list \<Rightarrow> nat \<Rightarrow> nat \<Rightarrow> byte list \<Rightarrow> byte list" where
  "putrec strout start len strin = overwrite strout start (etx_fill len strin)"

section \<open>Numbers as text\<close>

text \<open>\<open>ultoa\<close> in base 10 and 16, and \<open>ahtoul\<close>, which reads to the first blank or terminator.\<close>

definition ultoa10 :: "ulong \<Rightarrow> byte list" where
  "ultoa10 v = dec_nat (unat v)"

definition ultoa16 :: "ulong \<Rightarrow> byte list" where
  "ultoa16 v = map tolower_c (hex_nat (unat v))"

definition ahtoul :: "byte list \<Rightarrow> ulong" where
  "ahtoul str =
     foldl (\<lambda>val c. ucast (c AND 0x0F) + (if bit c 6 then 9 else 0) + val * 16) 0 (takeWhile (\<lambda>c. c OR 0x20 \<noteq> 0x20) str)"

definition get_ushort :: "byte list \<Rightarrow> u16" where
  "get_ushort s = word_of_int (atoi_c s)"

definition get_uchar :: "byte list \<Rightarrow> byte" where
  "get_uchar s = word_of_int (atoi_c s)"

definition get_ulong :: "byte list \<Rightarrow> ulong" where
  "get_ulong s = word_of_int (atoi_c s)"

text \<open>A time is an int32\_t.\<close>

definition get_time :: "byte list \<Rightarrow> int" where
  "get_time s = sint (ucast (ahtoul s) :: u32)"

definition put_time :: "int \<Rightarrow> byte list" where
  "put_time t = ultoa16 (word_of_int t)"

section \<open>The layout (sbbsdefs.h)\<close>

definition LEN_ALIAS :: nat where "LEN_ALIAS = 25"
definition LEN_NAME :: nat where "LEN_NAME = 25"
definition LEN_HANDLE :: nat where "LEN_HANDLE = 8"
definition LEN_NOTE :: nat where "LEN_NOTE = 30"
definition LEN_COMP :: nat where "LEN_COMP = 30"
definition LEN_COMMENT :: nat where "LEN_COMMENT = 60"
definition LEN_NETMAIL :: nat where "LEN_NETMAIL = 60"
definition LEN_PASS :: nat where "LEN_PASS = 8"
definition LEN_PHONE :: nat where "LEN_PHONE = 12"
definition LEN_BIRTH :: nat where "LEN_BIRTH = 8"
definition LEN_ADDRESS :: nat where "LEN_ADDRESS = 30"
definition LEN_LOCATION :: nat where "LEN_LOCATION = 30"
definition LEN_ZIPCODE :: nat where "LEN_ZIPCODE = 10"
definition LEN_MODEM :: nat where "LEN_MODEM = 8"
definition LEN_MAIN_CMD :: nat where "LEN_MAIN_CMD = 34"
definition LEN_XFER_CMD :: nat where "LEN_XFER_CMD = 40"
definition LEN_SCAN_CMD :: nat where "LEN_SCAN_CMD = 40"
definition LEN_MAIL_CMD :: nat where "LEN_MAIL_CMD = 40"
definition LEN_EXTCODE :: nat where "LEN_EXTCODE = 16"

definition U_ALIAS :: nat where "U_ALIAS = 0"
definition U_NAME :: nat where "U_NAME = U_ALIAS + LEN_ALIAS"
definition U_HANDLE :: nat where "U_HANDLE = U_NAME + LEN_NAME"
definition U_NOTE :: nat where "U_NOTE = U_HANDLE + LEN_HANDLE + 2"
definition U_COMP :: nat where "U_COMP = U_NOTE + LEN_NOTE"
definition U_COMMENT :: nat where "U_COMMENT = U_COMP + LEN_COMP + 2"
definition U_NETMAIL :: nat where "U_NETMAIL = U_COMMENT + LEN_COMMENT + 2"
definition U_ADDRESS :: nat where "U_ADDRESS = U_NETMAIL + LEN_NETMAIL + 2"
definition U_LOCATION :: nat where "U_LOCATION = U_ADDRESS + LEN_ADDRESS"
definition U_ZIPCODE :: nat where "U_ZIPCODE = U_LOCATION + LEN_LOCATION"
definition U_PASS :: nat where "U_PASS = U_ZIPCODE + LEN_ZIPCODE + 2"
definition U_PHONE :: nat where "U_PHONE = U_PASS + 8"
definition U_BIRTH :: nat where "U_BIRTH = U_PHONE + 12"
definition U_MODEM :: nat where "U_MODEM = U_BIRTH + 8"
definition U_LASTON :: nat where "U_LASTON = U_MODEM + 8"
definition U_FIRSTON :: nat where "U_FIRSTON = U_LASTON + 8"
definition U_EXPIRE :: nat where "U_EXPIRE = U_FIRSTON + 8"
definition U_PWMOD :: nat where "U_PWMOD = U_EXPIRE + 8"
definition U_LOGONS :: nat where "U_LOGONS = U_PWMOD + 8 + 2"
definition U_LTODAY :: nat where "U_LTODAY = U_LOGONS + 5"
definition U_TIMEON :: nat where "U_TIMEON = U_LTODAY + 5"
definition U_TEXTRA :: nat where "U_TEXTRA = U_TIMEON + 5"
definition U_TTODAY :: nat where "U_TTODAY = U_TEXTRA + 5"
definition U_TLAST :: nat where "U_TLAST = U_TTODAY + 5"
definition U_POSTS :: nat where "U_POSTS = U_TLAST + 5"
definition U_EMAILS :: nat where "U_EMAILS = U_POSTS + 5"
definition U_FBACKS :: nat where "U_FBACKS = U_EMAILS + 5"
definition U_ETODAY :: nat where "U_ETODAY = U_FBACKS + 5"
definition U_PTODAY :: nat where "U_PTODAY = U_ETODAY + 5"
definition U_ULB :: nat where "U_ULB = U_PTODAY + 5 + 2"
definition U_ULS :: nat where "U_ULS = U_ULB + 10"
definition U_DLB :: nat where "U_DLB = U_ULS + 5"
definition U_DLS :: nat where "U_DLS = U_DLB + 10"
definition U_CDT :: nat where "U_CDT = U_DLS + 5"
definition U_MIN :: nat where "U_MIN = U_CDT + 10"
definition U_LEVEL :: nat where "U_LEVEL = U_MIN + 10 + 2"
definition U_FLAGS1 :: nat where "U_FLAGS1 = U_LEVEL + 2"
definition U_TL :: nat where "U_TL = U_FLAGS1 + 8"
definition U_FLAGS2 :: nat where "U_FLAGS2 = U_TL + 2"
definition U_EXEMPT :: nat where "U_EXEMPT = U_FLAGS2 + 8"
definition U_REST :: nat where "U_REST = U_EXEMPT + 8"
definition U_ROWS :: nat where "U_ROWS = U_REST + 8 + 2"
definition U_SEX :: nat where "U_SEX = U_ROWS + 2"
definition U_MISC :: nat where "U_MISC = U_SEX + 1"
definition U_OLDXEDIT :: nat where "U_OLDXEDIT = U_MISC + 8"
definition U_LEECH :: nat where "U_LEECH = U_OLDXEDIT + 2"
definition U_CURSUB :: nat where "U_CURSUB = U_LEECH + 2"
definition U_CURXTRN :: nat where "U_CURXTRN = U_CURSUB + 16"
definition U_MAIN_CMD :: nat where "U_MAIN_CMD = U_CURXTRN + 8 + 2"
definition U_XFER_CMD :: nat where "U_XFER_CMD = U_MAIN_CMD + LEN_MAIN_CMD"
definition U_SCAN_CMD :: nat where "U_SCAN_CMD = U_XFER_CMD + LEN_XFER_CMD + 2"
definition U_MAIL_CMD :: nat where "U_MAIL_CMD = U_SCAN_CMD + LEN_SCAN_CMD"
definition U_FREECDT :: nat where "U_FREECDT = U_MAIL_CMD + LEN_MAIL_CMD + 2"
definition U_FLAGS3 :: nat where "U_FLAGS3 = U_FREECDT + 10"
definition U_FLAGS4 :: nat where "U_FLAGS4 = U_FLAGS3 + 8"
definition U_XEDIT :: nat where "U_XEDIT = U_FLAGS4 + 8"
definition U_SHELL :: nat where "U_SHELL = U_XEDIT + 8"
definition U_QWK :: nat where "U_QWK = U_SHELL + 8"
definition U_TMPEXT :: nat where "U_TMPEXT = U_QWK + 8"
definition U_CHAT :: nat where "U_CHAT = U_TMPEXT + 3"
definition U_NS_TIME :: nat where "U_NS_TIME = U_CHAT + 8"
definition U_PROT :: nat where "U_PROT = U_NS_TIME + 8"
definition U_LOGONTIME :: nat where "U_LOGONTIME = U_PROT + 1"
definition U_CURDIR :: nat where "U_CURDIR = U_LOGONTIME + 8"
definition U_UNUSED :: nat where "U_UNUSED = U_CURDIR + 16"
definition U_LEN :: nat where "U_LEN = U_UNUSED + 4 + 2"

text \<open>The offsets as numbers, for the automation.\<close>

named_theorems user_layout

lemma user_lengths [user_layout]:
  "LEN_ALIAS = 25"
  "LEN_NAME = 25"
  "LEN_HANDLE = 8"
  "LEN_NOTE = 30"
  "LEN_COMP = 30"
  "LEN_COMMENT = 60"
  "LEN_NETMAIL = 60"
  "LEN_PASS = 8"
  "LEN_PHONE = 12"
  "LEN_BIRTH = 8"
  "LEN_ADDRESS = 30"
  "LEN_LOCATION = 30"
  "LEN_ZIPCODE = 10"
  "LEN_MODEM = 8"
  "LEN_MAIN_CMD = 34"
  "LEN_XFER_CMD = 40"
  "LEN_SCAN_CMD = 40"
  "LEN_MAIL_CMD = 40"
  "LEN_EXTCODE = 16"
  by (simp_all add: LEN_ALIAS_def LEN_NAME_def LEN_HANDLE_def LEN_NOTE_def LEN_COMP_def LEN_COMMENT_def LEN_NETMAIL_def LEN_PASS_def LEN_PHONE_def LEN_BIRTH_def LEN_ADDRESS_def LEN_LOCATION_def LEN_ZIPCODE_def LEN_MODEM_def LEN_MAIN_CMD_def LEN_XFER_CMD_def LEN_SCAN_CMD_def LEN_MAIL_CMD_def LEN_EXTCODE_def)

lemma user_offsets [user_layout]:
  "U_ALIAS = 0"
  "U_NAME = 25"
  "U_HANDLE = 50"
  "U_NOTE = 60"
  "U_COMP = 90"
  "U_COMMENT = 122"
  "U_NETMAIL = 184"
  "U_ADDRESS = 246"
  "U_LOCATION = 276"
  "U_ZIPCODE = 306"
  "U_PASS = 318"
  "U_PHONE = 326"
  "U_BIRTH = 338"
  "U_MODEM = 346"
  "U_LASTON = 354"
  "U_FIRSTON = 362"
  "U_EXPIRE = 370"
  "U_PWMOD = 378"
  "U_LOGONS = 388"
  "U_LTODAY = 393"
  "U_TIMEON = 398"
  "U_TEXTRA = 403"
  "U_TTODAY = 408"
  "U_TLAST = 413"
  "U_POSTS = 418"
  "U_EMAILS = 423"
  "U_FBACKS = 428"
  "U_ETODAY = 433"
  "U_PTODAY = 438"
  "U_ULB = 445"
  "U_ULS = 455"
  "U_DLB = 460"
  "U_DLS = 470"
  "U_CDT = 475"
  "U_MIN = 485"
  "U_LEVEL = 497"
  "U_FLAGS1 = 499"
  "U_TL = 507"
  "U_FLAGS2 = 509"
  "U_EXEMPT = 517"
  "U_REST = 525"
  "U_ROWS = 535"
  "U_SEX = 537"
  "U_MISC = 538"
  "U_OLDXEDIT = 546"
  "U_LEECH = 548"
  "U_CURSUB = 550"
  "U_CURXTRN = 566"
  "U_MAIN_CMD = 576"
  "U_XFER_CMD = 610"
  "U_SCAN_CMD = 652"
  "U_MAIL_CMD = 692"
  "U_FREECDT = 734"
  "U_FLAGS3 = 744"
  "U_FLAGS4 = 752"
  "U_XEDIT = 760"
  "U_SHELL = 768"
  "U_QWK = 776"
  "U_TMPEXT = 784"
  "U_CHAT = 787"
  "U_NS_TIME = 795"
  "U_PROT = 803"
  "U_LOGONTIME = 804"
  "U_CURDIR = 812"
  "U_UNUSED = 828"
  "U_LEN = 834"
  by (simp_all add: user_lengths U_ALIAS_def U_NAME_def U_HANDLE_def U_NOTE_def U_COMP_def U_COMMENT_def U_NETMAIL_def U_ADDRESS_def U_LOCATION_def U_ZIPCODE_def U_PASS_def U_PHONE_def U_BIRTH_def U_MODEM_def U_LASTON_def U_FIRSTON_def U_EXPIRE_def U_PWMOD_def U_LOGONS_def U_LTODAY_def U_TIMEON_def U_TEXTRA_def U_TTODAY_def U_TLAST_def U_POSTS_def U_EMAILS_def U_FBACKS_def U_ETODAY_def U_PTODAY_def U_ULB_def U_ULS_def U_DLB_def U_DLS_def U_CDT_def U_MIN_def U_LEVEL_def U_FLAGS1_def U_TL_def U_FLAGS2_def U_EXEMPT_def U_REST_def U_ROWS_def U_SEX_def U_MISC_def U_OLDXEDIT_def U_LEECH_def U_CURSUB_def U_CURXTRN_def U_MAIN_CMD_def U_XFER_CMD_def U_SCAN_CMD_def U_MAIL_CMD_def U_FREECDT_def U_FLAGS3_def U_FLAGS4_def U_XEDIT_def U_SHELL_def U_QWK_def U_TMPEXT_def U_CHAT_def U_NS_TIME_def U_PROT_def U_LOGONTIME_def U_CURDIR_def U_UNUSED_def U_LEN_def)

section \<open>Users\<close>

text \<open>The fields of \<open>user_t\<close> that access requirements do not look at.\<close>

record user_rec = user_t +
  ur_emails :: u16
  ur_fbacks :: u16
  ur_etoday :: u16
  ur_ptoday :: u16
  ur_timeon :: u16
  ur_textra :: u16
  ur_ttoday :: u16
  ur_tlast :: u16
  ur_ltoday :: u16
  ur_xedit :: u16
  ur_alias :: "byte list"
  ur_name :: "byte list"
  ur_handle :: "byte list"
  ur_address :: "byte list"
  ur_location :: "byte list"
  ur_zipcode :: "byte list"
  ur_pass :: "byte list"
  ur_phone :: "byte list"
  ur_netmail :: "byte list"
  ur_tmpext :: "byte list"
  ur_comment :: "byte list"
  ur_curxtrn :: "byte list"
  ur_rows :: byte
  ur_prot :: byte
  ur_leech :: byte
  ur_qwk :: ulong
  ur_chat :: ulong
  ur_min :: ulong
  ur_firston :: int
  ur_pwmod :: int
  ur_ns_time :: int
  ur_logontime :: int

text \<open>
  The part of the configuration the user records depend on: external editors with their internal
  codes and requirements, extensions of the archive types, and the settings of the security
  levels. The tables of the levels have 100 entries; what a level beyond them reads is open.
\<close>

record user_cfg = scfg +
  cfg_xedits :: "(byte list \<times> byte list option) list"
  cfg_fcomps :: "byte list list"
  cfg_freecdtperday :: "byte \<Rightarrow> ulong"
  cfg_sys_nodes :: nat
  cfg_sys_id :: "byte list"
  cfg_sys_deldays :: int
  cfg_data_dir :: "byte list"

section \<open>Writing a record\<close>

text \<open>
  What \<open>putuserdat\<close> puts into the record, in its order: offset, length and text. The two single
  characters are written without \<open>putrec\<close>. The editor and the shell are indices into the
  configuration; one that is out of range is read from beyond the tables: None.
\<close>

definition user_fields :: "byte list \<Rightarrow> byte list \<Rightarrow> user_rec \<Rightarrow> (nat \<times> nat \<times> byte list) list" where
  "user_fields xedit_code shell_code u =
    [(U_ALIAS, LEN_ALIAS + 5, ur_alias u),
     (U_NAME, LEN_NAME, ur_name u),
     (U_HANDLE, LEN_HANDLE, ur_handle u),
     (U_HANDLE + LEN_HANDLE, 2, crlf),
     (U_NOTE, LEN_NOTE, u_note u),
     (U_COMP, LEN_COMP, u_comp u),
     (U_COMP + LEN_COMP, 2, crlf),
     (U_COMMENT, LEN_COMMENT, ur_comment u),
     (U_COMMENT + LEN_COMMENT, 2, crlf),
     (U_NETMAIL, LEN_NETMAIL, ur_netmail u),
     (U_NETMAIL + LEN_NETMAIL, 2, crlf),
     (U_ADDRESS, LEN_ADDRESS, ur_address u),
     (U_LOCATION, LEN_LOCATION, ur_location u),
     (U_ZIPCODE, LEN_ZIPCODE, ur_zipcode u),
     (U_ZIPCODE + LEN_ZIPCODE, 2, crlf),
     (U_PASS, LEN_PASS, ur_pass u),
     (U_PHONE, LEN_PHONE, ur_phone u),
     (U_BIRTH, LEN_BIRTH, u_birth u),
     (U_MODEM, LEN_MODEM, u_modem u),
     (U_LASTON, 8, put_time (u_laston u)),
     (U_FIRSTON, 8, put_time (ur_firston u)),
     (U_EXPIRE, 8, put_time (u_expire u)),
     (U_PWMOD, 8, put_time (ur_pwmod u)),
     (U_PWMOD + 8, 2, crlf),
     (U_LOGONS, 5, ultoa10 (ucast (u_logons u))),
     (U_LTODAY, 5, ultoa10 (ucast (ur_ltoday u))),
     (U_TIMEON, 5, ultoa10 (ucast (ur_timeon u))),
     (U_TEXTRA, 5, ultoa10 (ucast (ur_textra u))),
     (U_TTODAY, 5, ultoa10 (ucast (ur_ttoday u))),
     (U_TLAST, 5, ultoa10 (ucast (ur_tlast u))),
     (U_POSTS, 5, ultoa10 (ucast (u_posts u))),
     (U_EMAILS, 5, ultoa10 (ucast (ur_emails u))),
     (U_FBACKS, 5, ultoa10 (ucast (ur_fbacks u))),
     (U_ETODAY, 5, ultoa10 (ucast (ur_etoday u))),
     (U_PTODAY, 5, ultoa10 (ucast (ur_ptoday u))),
     (U_PTODAY + 5, 2, crlf),
     (U_ULB, 10, ultoa10 (u_ulb u)),
     (U_ULS, 5, ultoa10 (ucast (u_uls u))),
     (U_DLB, 10, ultoa10 (u_dlb u)),
     (U_DLS, 5, ultoa10 (ucast (u_dls u))),
     (U_CDT, 10, ultoa10 (u_cdt u)),
     (U_MIN, 10, ultoa10 (ur_min u)),
     (U_MIN + 10, 2, crlf),
     (U_LEVEL, 2, ultoa10 (ucast (u_level u))),
     (U_FLAGS1, 8, ultoa16 (u_flags1 u)),
     (U_TL, 2, []),
     (U_FLAGS2, 8, ultoa16 (u_flags2 u)),
     (U_EXEMPT, 8, ultoa16 (u_exempt u)),
     (U_REST, 8, ultoa16 (u_rest u)),
     (U_REST + 8, 2, crlf),
     (U_ROWS, 2, ultoa10 (ucast (ur_rows u))),
     (U_SEX, 1, [u_sex u]),
     (U_PROT, 1, [ur_prot u]),
     (U_MISC, 8, ultoa16 (u_misc u)),
     (U_LEECH, 2, ultoa16 (ucast (ur_leech u))),
     (U_CURSUB, LEN_EXTCODE, u_cursub u),
     (U_CURDIR, LEN_EXTCODE, u_curdir u),
     (U_CURXTRN, 8, ur_curxtrn u),
     (U_CURXTRN + 8, 2, crlf),
     (U_XFER_CMD + LEN_XFER_CMD, 2, crlf),
     (U_MAIL_CMD + LEN_MAIL_CMD, 2, crlf),
     (U_FREECDT, 10, ultoa10 (u_freecdt u)),
     (U_FLAGS3, 8, ultoa16 (u_flags3 u)),
     (U_FLAGS4, 8, ultoa16 (u_flags4 u)),
     (U_XEDIT, 8, xedit_code),
     (U_SHELL, 8, shell_code),
     (U_QWK, 8, ultoa16 (ur_qwk u)),
     (U_TMPEXT, 3, ur_tmpext u),
     (U_CHAT, 8, ultoa16 (ur_chat u)),
     (U_NS_TIME, 8, put_time (ur_ns_time u)),
     (U_LOGONTIME, 8, put_time (ur_logontime u)),
     (U_UNUSED, U_LEN - U_UNUSED - 2, crlf),
     (U_UNUSED + (U_LEN - U_UNUSED - 2), 2, crlf)]"

definition user_codes :: "user_cfg \<Rightarrow> user_rec \<Rightarrow> (byte list \<times> byte list) option" where
  "user_codes cfg u =
     (let x = unat (ur_xedit u); s = unat (u_shell u) in
      if length (cfg_xedits cfg) < x \<or> length (cfg_shells cfg) \<le> s then None
      else Some (if x = 0 then [] else fst (cfg_xedits cfg ! (x - 1)), cfg_shells cfg ! s))"

definition put_fields :: "(nat \<times> nat \<times> byte list) list \<Rightarrow> byte list" where
  "put_fields fs = fold (\<lambda>(start, len, s) userdat. putrec userdat start len s) fs (replicate U_LEN ETX)"

definition user_record :: "user_cfg \<Rightarrow> user_rec \<Rightarrow> byte list option" where
  "user_record cfg u = map_option (\<lambda>(x, s). put_fields (user_fields x s u)) (user_codes cfg u)"

section \<open>Reading a record\<close>

abbreviation (input) "SPIN \<equiv> 0x20 :: ulong"
abbreviation (input) "QWK_DEFAULT \<equiv> 267 :: ulong"
abbreviation (input) "QWK_RETCTLA \<equiv> 128 :: ulong"

text \<open>The fields up to the free credits; those after them are still zero.\<close>

definition user_head :: "u16 \<Rightarrow> byte list \<Rightarrow> user_rec" where
  "user_head number userdat =
     (let get = getrec userdat; laston = get_time (get U_LASTON 8); ns_time = get_time (get U_NS_TIME 8);
          rows = get_uchar (get U_ROWS 2); rest = ahtoul (get U_REST 8); misc = ahtoul (get U_MISC 8)
      in \<lparr>u_number = number,
          u_uls = get_ushort (get U_ULS 5),
          u_dls = get_ushort (get U_DLS 5),
          u_posts = get_ushort (get U_POSTS 5),
          u_logons = get_ushort (get U_LOGONS 5),
          u_shell = 0,
          u_comp = get U_COMP LEN_COMP,
          u_note = get U_NOTE LEN_NOTE,
          u_birth = get U_BIRTH LEN_BIRTH,
          u_modem = get U_MODEM LEN_MODEM,
          u_cursub = get U_CURSUB LEN_EXTCODE,
          u_curdir = get U_CURDIR LEN_EXTCODE,
          u_level = get_uchar (get U_LEVEL 2),
          u_sex = (if userdat ! U_SEX = 0 then 0x20 else userdat ! U_SEX),
          u_misc = (if rest AND FLAG 0x51 \<noteq> 0 then misc AND NOT SPIN else misc),
          u_flags1 = ahtoul (get U_FLAGS1 8),
          u_flags2 = ahtoul (get U_FLAGS2 8),
          u_flags3 = ahtoul (get U_FLAGS3 8),
          u_flags4 = ahtoul (get U_FLAGS4 8),
          u_exempt = ahtoul (get U_EXEMPT 8),
          u_rest = rest,
          u_ulb = get_ulong (get U_ULB 10),
          u_dlb = get_ulong (get U_DLB 10),
          u_cdt = get_ulong (get U_CDT 10),
          u_freecdt = get_ulong (get U_FREECDT 10),
          u_laston = laston,
          u_expire = get_time (get U_EXPIRE 8),
          ur_emails = get_ushort (get U_EMAILS 5),
          ur_fbacks = get_ushort (get U_FBACKS 5),
          ur_etoday = get_ushort (get U_ETODAY 5),
          ur_ptoday = get_ushort (get U_PTODAY 5),
          ur_timeon = get_ushort (get U_TIMEON 5),
          ur_textra = get_ushort (get U_TEXTRA 5),
          ur_ttoday = get_ushort (get U_TTODAY 5),
          ur_tlast = get_ushort (get U_TLAST 5),
          ur_ltoday = get_ushort (get U_LTODAY 5),
          ur_xedit = 0,
          ur_alias = get U_ALIAS LEN_ALIAS,
          ur_name = get U_NAME LEN_NAME,
          ur_handle = get U_HANDLE LEN_HANDLE,
          ur_address = get U_ADDRESS LEN_ADDRESS,
          ur_location = get U_LOCATION LEN_LOCATION,
          ur_zipcode = get U_ZIPCODE LEN_ZIPCODE,
          ur_pass = get U_PASS LEN_PASS,
          ur_phone = get U_PHONE LEN_PHONE,
          ur_netmail = get U_NETMAIL LEN_NETMAIL,
          ur_tmpext = [],
          ur_comment = get U_COMMENT LEN_COMMENT,
          ur_curxtrn = get U_CURXTRN 8,
          ur_rows = (if rows \<noteq> 0 \<and> rows < 10 then 10 else rows),
          ur_prot = (if userdat ! U_PROT < 0x20 then 0x20 else userdat ! U_PROT),
          ur_leech = ucast (ahtoul (get U_LEECH 2)),
          ur_qwk = 0,
          ur_chat = 0,
          ur_min = get_ulong (get U_MIN 10),
          ur_firston = get_time (get U_FIRSTON 8),
          ur_pwmod = get_time (get U_PWMOD 8),
          ur_ns_time = (if ns_time < 0x20000000 then laston else ns_time),
          ur_logontime = get_time (get U_LOGONTIME 8)\<rparr>)"

text \<open>The index of the first editor with the code that the user may use; their number if there is none.\<close>

fun xedit_loop ::
  "(byte list option \<Rightarrow> ar_seen \<Rightarrow> (bool \<times> ar_seen) option) \<Rightarrow> byte list \<Rightarrow> (byte list \<times> byte list option) list
    \<Rightarrow> ar_seen \<Rightarrow> (nat \<times> ar_seen) option" where
  "xedit_loop chk str [] st = Some (0, st)"
| "xedit_loop chk str ((code, ar) # xedits) st =
     (if \<not> stricmp_eq str code then map_option (map_prod Suc (\<lambda>s. s)) (xedit_loop chk str xedits st)
      else case chk ar st of None \<Rightarrow> None | Some (ok, st1) \<Rightarrow>
        if ok then Some (0, st1) else map_option (map_prod Suc (\<lambda>s. s)) (xedit_loop chk str xedits st1))"

definition shell_index :: "byte list \<Rightarrow> byte list list \<Rightarrow> nat" where
  "shell_index str shells =
     (let i = length (takeWhile (\<lambda>code. \<not> stricmp_eq str code) shells) in if i = length shells then 0 else i)"

definition resetdaily :: "user_cfg \<Rightarrow> user_rec \<Rightarrow> user_rec" where
  "resetdaily cfg u = u\<lparr>ur_ltoday := 0, ur_etoday := 0, ur_ptoday := 0,
     u_freecdt := cfg_freecdtperday cfg (u_level u), ur_ttoday := 0, ur_textra := 0\<rparr>"

text \<open>
  \<open>day_of\<close> is \<open>localtime_r\<close>: year, month and day of a time, None when it fails. The result carries
  what evaluating the requirements of editors has left behind.
\<close>

definition user_tail ::
  "user_cfg \<Rightarrow> world \<Rightarrow> (int \<Rightarrow> (int \<times> int \<times> int) option) \<Rightarrow> byte list \<Rightarrow> user_rec \<Rightarrow> nat \<Rightarrow> user_rec" where
  "user_tail cfg w day_of userdat u xedit =
     (let get = getrec userdat; qwk = get U_QWK 8; tmpext = get U_TMPEXT 3;
          u1 = u\<lparr>ur_xedit := (if length (cfg_xedits cfg) < xedit + 1 then 0 else word_of_nat (xedit + 1)),
                 u_shell := word_of_nat (shell_index (get U_SHELL 8) (cfg_shells cfg)),
                 ur_qwk := (if qwk = [] \<or> sint (hd qwk) < 0x20
                            then if u_rest u AND FLAG 0x51 \<noteq> 0 then QWK_DEFAULT OR QWK_RETCTLA else QWK_DEFAULT
                            else ahtoul qwk),
                 ur_tmpext := (if (tmpext = [] \<or> tmpext = [0x30]) \<and> cfg_fcomps cfg \<noteq> [] then hd (cfg_fcomps cfg) else tmpext),
                 ur_chat := ahtoul (get U_CHAT 8)\<rparr>
      in if ur_ltoday u1 = 0 \<and> ur_etoday u1 = 0 \<and> ur_ptoday u1 = 0 \<and> ur_ttoday u1 = 0 then u1
         else case (day_of (w_now w), day_of (ur_logontime u1)) of
           (Some now, Some logon) \<Rightarrow> if now \<noteq> logon then resetdaily cfg u1 else u1
         | _ \<Rightarrow> u1)"

definition user_parse ::
  "user_cfg \<Rightarrow> world \<Rightarrow> (int \<Rightarrow> (int \<times> int \<times> int) option) \<Rightarrow> u16 \<Rightarrow> byte list \<Rightarrow> ar_seen \<Rightarrow> (user_rec \<times> ar_seen) option" where
  "user_parse cfg w day_of number userdat st =
     (let u = user_head number userdat in
      case xedit_loop (\<lambda>ar s. chk_ar (Some (scfg.truncate cfg)) w ar (Some (user_t.truncate u)) None s)
          (getrec userdat U_XEDIT 8) (cfg_xedits cfg) st of
        None \<Rightarrow> None
      | Some (i, st1) \<Rightarrow> Some (user_tail cfg w day_of userdat u i, st1))"

end
