(* ===== verification/UserLay.thy ===== *)
theory UserLay
  imports UserRec
begin

text \<open>
  What the fields of a user record hold after all of them are written, and the texts and numbers
  that fit into a field and are read back.
\<close>

section \<open>Fields that do not overlap\<close>

abbreviation put_field :: "nat \<times> nat \<times> byte list \<Rightarrow> byte list \<Rightarrow> byte list" where
  "put_field \<equiv> (\<lambda>(start, len, s) userdat. putrec userdat start len s)"

lemma length_etx_fill [simp]: "length (etx_fill len s) = len"
  by (simp add: etx_fill_def)

lemma length_putrec: "start + len \<le> length buf \<Longrightarrow> length (putrec buf start len s) = length buf"
  by (simp add: putrec_def)

lemma length_put_fields:
  "\<forall>(o1, l, s) \<in> set fs. o1 + l \<le> length buf \<Longrightarrow> length (fold put_field fs buf) = length buf"
proof (induction fs arbitrary: buf)
  case (Cons f fs)
  obtain o1 l s where f: "f = (o1, l, s)" by (cases f)
  then have "length (putrec buf o1 l s) = length buf" using Cons.prems by (simp add: length_putrec)
  then show ?case using Cons f by simp
qed simp

lemma read_putrec:
  assumes "start + len \<le> length buf"
  shows "n \<le> len \<Longrightarrow> take n (drop start (putrec buf start len s)) = take n (etx_fill len s)"
    and "o1 + n \<le> start \<or> start + len \<le> o1 \<Longrightarrow> take n (drop o1 (putrec buf start len s)) = take n (drop o1 buf)"
proof -
  show "n \<le> len \<Longrightarrow> take n (drop start (putrec buf start len s)) = take n (etx_fill len s)"
    using assms take_drop_overwrite [of "etx_fill len s" start buf]
    by (metis length_etx_fill min.absorb1 putrec_def take_take)
  assume a: "o1 + n \<le> start \<or> start + len \<le> o1"
  show "take n (drop o1 (putrec buf start len s)) = take n (drop o1 buf)"
    unfolding putrec_def
    by (rule nth_equalityI) (use assms a in \<open>auto simp: nth_overwrite\<close>)
qed

lemma read_later:
  assumes "\<forall>(o1, l, s) \<in> set fs. o1 + l \<le> length buf" "\<forall>(o1, l, s) \<in> set fs. o1 + l \<le> start \<or> start + n \<le> o1"
  shows "take n (drop start (fold put_field fs buf)) = take n (drop start buf)"
  using assms
proof (induction fs arbitrary: buf)
  case (Cons f fs)
  obtain o1 l s where f: "f = (o1, l, s)" by (cases f)
  then have b: "o1 + l \<le> length buf" "start + n \<le> o1 \<or> o1 + l \<le> start" using Cons.prems by auto
  have "take n (drop start (fold put_field fs (putrec buf o1 l s))) = take n (drop start (putrec buf o1 l s))"
    by (rule Cons.IH) (use Cons.prems f length_putrec [OF b(1)] in auto)
  then show ?case using read_putrec(2) [OF b] f by simp
qed simp

text \<open>A list of fields in which no later one overlaps the fields before it.\<close>

definition apart :: "nat \<times> nat \<Rightarrow> nat \<times> nat \<Rightarrow> bool" where
  "apart a b \<longleftrightarrow> fst a + snd a \<le> fst b \<or> fst b + snd b \<le> fst a"

lemma read_field:
  assumes "\<forall>(o1, l, s) \<in> set fs. o1 + l \<le> length buf" "i < length fs" "fs ! i = (start, len, s)" "n \<le> len"
    and "\<forall>(o1, l, s) \<in> set (drop (Suc i) fs). apart (start, n) (o1, l)"
  shows "take n (drop start (fold put_field fs buf)) = take n (etx_fill len s)"
proof -
  let ?buf = "fold put_field (take i fs) buf"
  have len: "length ?buf = length buf"
    by (rule length_put_fields) (use assms(1) in \<open>auto dest: in_set_takeD\<close>)
  have b: "start + len \<le> length ?buf" using assms(1-3) len nth_mem [OF assms(2)] by auto
  have fs: "fs = take i fs @ (start, len, s) # drop (Suc i) fs" using assms(2,3) id_take_nth_drop by metis
  have "take n (drop start (fold put_field (drop (Suc i) fs) (putrec ?buf start len s))) = take n (drop start (putrec ?buf start len s))"
  proof (rule read_later)
    show "\<forall>(o1, l, s1) \<in> set (drop (Suc i) fs). o1 + l \<le> length (putrec ?buf start len s)"
      using assms(1) length_putrec [OF b] len by (auto dest: in_set_dropD)
  qed (use assms(5) in \<open>auto simp: apart_def\<close>)
  moreover have "fold put_field fs buf = fold put_field (drop (Suc i) fs) (putrec ?buf start len s)"
    by (subst fs) simp
  ultimately show ?thesis using read_putrec(1) [OF b assms(4)] by simp
qed

section \<open>Texts that fit\<close>

definition rec_char :: "byte \<Rightarrow> bool" where
  "rec_char c \<longleftrightarrow> c \<noteq> 0 \<and> c \<noteq> ETX \<and> c \<noteq> CR \<and> c \<noteq> LF"

definition rec_text :: "nat \<Rightarrow> byte list \<Rightarrow> bool" where
  "rec_text n s \<longleftrightarrow> length s \<le> n \<and> (\<forall>c \<in> set s. rec_char c)"

lemma takeWhile_fill:
  "\<forall>c \<in> set s. c \<noteq> ETX \<and> P c \<Longrightarrow> \<not> P ETX \<Longrightarrow> takeWhile P (s @ replicate k ETX) = s"
  by (cases k) (auto simp: takeWhile_append2)

lemma getrec_fill:
  assumes "rec_text n s" "take n (drop start buf) = take n (etx_fill l s)" "n \<le> l"
  shows "getrec buf start n = s"
proof -
  have l: "length s \<le> n" "\<forall>c \<in> set s. c \<noteq> 0 \<and> c \<noteq> ETX \<and> c \<noteq> CR \<and> c \<noteq> LF"
    using assms(1) by (auto simp: rec_text_def rec_char_def)
  have "take n (drop start buf) = s @ replicate (n - length s) ETX"
    using assms(2,3) l(1) by (simp add: etx_fill_def)
  moreover have "takeWhile (\<lambda>c. c \<noteq> ETX \<and> c \<noteq> CR \<and> c \<noteq> LF) (s @ replicate (n - length s) ETX) = s"
    by (rule takeWhile_fill) (use l(2) in auto)
  moreover have "cstr s = s" using l(2) by (auto intro: cstr_id)
  ultimately show ?thesis by (simp add: getrec_def)
qed

section \<open>The fields of a record\<close>

text \<open>The layout as numbers: offsets and lengths in the order in which they are written.\<close>

definition user_lay :: "(nat \<times> nat) list" where
  "user_lay =
    [(0, 30), (25, 25), (50, 8), (58, 2), (60, 30), (90, 30), (120, 2), (122, 60), (182, 2), (184, 60), (244, 2),
     (246, 30), (276, 30), (306, 10), (316, 2), (318, 8), (326, 12), (338, 8), (346, 8), (354, 8), (362, 8), (370,
     8), (378, 8), (386, 2), (388, 5), (393, 5), (398, 5), (403, 5), (408, 5), (413, 5), (418, 5), (423, 5), (428,
     5), (433, 5), (438, 5), (443, 2), (445, 10), (455, 5), (460, 10), (470, 5), (475, 10), (485, 10), (495, 2),
     (497, 2), (499, 8), (507, 2), (509, 8), (517, 8), (525, 8), (533, 2), (535, 2), (537, 1), (803, 1), (538, 8),
     (548, 2), (550, 16), (812, 16), (566, 8), (574, 2), (650, 2), (732, 2), (734, 10), (744, 8), (752, 8), (760,
     8), (768, 8), (776, 8), (784, 3), (787, 8), (795, 8), (804, 8), (828, 4), (832, 2)]"

lemma user_fields_lay: "map (\<lambda>(o1, l, s). (o1, l)) (user_fields x sh u) = user_lay"
  by (simp add: user_fields_def user_lay_def user_layout)

lemma user_lay_apart: "sorted_wrt apart ((0, 25) # tl user_lay)"
  by (simp add: user_lay_def apart_def)

lemma user_lay_inside: "\<forall>(o1, l) \<in> set user_lay. o1 + l \<le> 834"
  by (simp add: user_lay_def apart_def)

lemma user_fields_at:
  "user_fields x sh u ! 0 = (U_ALIAS, LEN_ALIAS + 5, ur_alias u)"
  "user_fields x sh u ! 1 = (U_NAME, LEN_NAME, ur_name u)"
  "user_fields x sh u ! 2 = (U_HANDLE, LEN_HANDLE, ur_handle u)"
  "user_fields x sh u ! 4 = (U_NOTE, LEN_NOTE, u_note u)"
  "user_fields x sh u ! 5 = (U_COMP, LEN_COMP, u_comp u)"
  "user_fields x sh u ! 7 = (U_COMMENT, LEN_COMMENT, ur_comment u)"
  "user_fields x sh u ! 9 = (U_NETMAIL, LEN_NETMAIL, ur_netmail u)"
  "user_fields x sh u ! 11 = (U_ADDRESS, LEN_ADDRESS, ur_address u)"
  "user_fields x sh u ! 12 = (U_LOCATION, LEN_LOCATION, ur_location u)"
  "user_fields x sh u ! 13 = (U_ZIPCODE, LEN_ZIPCODE, ur_zipcode u)"
  "user_fields x sh u ! 15 = (U_PASS, LEN_PASS, ur_pass u)"
  "user_fields x sh u ! 16 = (U_PHONE, LEN_PHONE, ur_phone u)"
  "user_fields x sh u ! 17 = (U_BIRTH, LEN_BIRTH, u_birth u)"
  "user_fields x sh u ! 18 = (U_MODEM, LEN_MODEM, u_modem u)"
  "user_fields x sh u ! 19 = (U_LASTON, 8, put_time (u_laston u))"
  "user_fields x sh u ! 20 = (U_FIRSTON, 8, put_time (ur_firston u))"
  "user_fields x sh u ! 21 = (U_EXPIRE, 8, put_time (u_expire u))"
  "user_fields x sh u ! 22 = (U_PWMOD, 8, put_time (ur_pwmod u))"
  "user_fields x sh u ! 24 = (U_LOGONS, 5, ultoa10 (ucast (u_logons u)))"
  "user_fields x sh u ! 25 = (U_LTODAY, 5, ultoa10 (ucast (ur_ltoday u)))"
  "user_fields x sh u ! 26 = (U_TIMEON, 5, ultoa10 (ucast (ur_timeon u)))"
  "user_fields x sh u ! 27 = (U_TEXTRA, 5, ultoa10 (ucast (ur_textra u)))"
  "user_fields x sh u ! 28 = (U_TTODAY, 5, ultoa10 (ucast (ur_ttoday u)))"
  "user_fields x sh u ! 29 = (U_TLAST, 5, ultoa10 (ucast (ur_tlast u)))"
  "user_fields x sh u ! 30 = (U_POSTS, 5, ultoa10 (ucast (u_posts u)))"
  "user_fields x sh u ! 31 = (U_EMAILS, 5, ultoa10 (ucast (ur_emails u)))"
  "user_fields x sh u ! 32 = (U_FBACKS, 5, ultoa10 (ucast (ur_fbacks u)))"
  "user_fields x sh u ! 33 = (U_ETODAY, 5, ultoa10 (ucast (ur_etoday u)))"
  "user_fields x sh u ! 34 = (U_PTODAY, 5, ultoa10 (ucast (ur_ptoday u)))"
  "user_fields x sh u ! 36 = (U_ULB, 10, ultoa10 (u_ulb u))"
  "user_fields x sh u ! 37 = (U_ULS, 5, ultoa10 (ucast (u_uls u)))"
  "user_fields x sh u ! 38 = (U_DLB, 10, ultoa10 (u_dlb u))"
  "user_fields x sh u ! 39 = (U_DLS, 5, ultoa10 (ucast (u_dls u)))"
  "user_fields x sh u ! 40 = (U_CDT, 10, ultoa10 (u_cdt u))"
  "user_fields x sh u ! 41 = (U_MIN, 10, ultoa10 (ur_min u))"
  "user_fields x sh u ! 43 = (U_LEVEL, 2, ultoa10 (ucast (u_level u)))"
  "user_fields x sh u ! 44 = (U_FLAGS1, 8, ultoa16 (u_flags1 u))"
  "user_fields x sh u ! 46 = (U_FLAGS2, 8, ultoa16 (u_flags2 u))"
  "user_fields x sh u ! 47 = (U_EXEMPT, 8, ultoa16 (u_exempt u))"
  "user_fields x sh u ! 48 = (U_REST, 8, ultoa16 (u_rest u))"
  "user_fields x sh u ! 50 = (U_ROWS, 2, ultoa10 (ucast (ur_rows u)))"
  "user_fields x sh u ! 51 = (U_SEX, 1, [u_sex u])"
  "user_fields x sh u ! 52 = (U_PROT, 1, [ur_prot u])"
  "user_fields x sh u ! 53 = (U_MISC, 8, ultoa16 (u_misc u))"
  "user_fields x sh u ! 54 = (U_LEECH, 2, ultoa16 (ucast (ur_leech u)))"
  "user_fields x sh u ! 55 = (U_CURSUB, LEN_EXTCODE, u_cursub u)"
  "user_fields x sh u ! 56 = (U_CURDIR, LEN_EXTCODE, u_curdir u)"
  "user_fields x sh u ! 57 = (U_CURXTRN, 8, ur_curxtrn u)"
  "user_fields x sh u ! 61 = (U_FREECDT, 10, ultoa10 (u_freecdt u))"
  "user_fields x sh u ! 62 = (U_FLAGS3, 8, ultoa16 (u_flags3 u))"
  "user_fields x sh u ! 63 = (U_FLAGS4, 8, ultoa16 (u_flags4 u))"
  "user_fields x sh u ! 64 = (U_XEDIT, 8, x)"
  "user_fields x sh u ! 65 = (U_SHELL, 8, sh)"
  "user_fields x sh u ! 66 = (U_QWK, 8, ultoa16 (ur_qwk u))"
  "user_fields x sh u ! 67 = (U_TMPEXT, 3, ur_tmpext u)"
  "user_fields x sh u ! 68 = (U_CHAT, 8, ultoa16 (ur_chat u))"
  "user_fields x sh u ! 69 = (U_NS_TIME, 8, put_time (ur_ns_time u))"
  "user_fields x sh u ! 70 = (U_LOGONTIME, 8, put_time (ur_logontime u))"
  by (simp_all add: user_fields_def)

lemma length_user_fields: "length (user_fields x sh u) = 73"
  by (simp add: user_fields_def)

lemma read_user:
  assumes i: "i < 73" "user_fields x sh u ! i = (start, l, s)" and n: "n \<le> l" "i = 0 \<Longrightarrow> n = 25"
  shows "take n (drop start (put_fields (user_fields x sh u))) = take n (etx_fill l s)"
proof -
  let ?fs = "user_fields x sh u" and ?f = "\<lambda>(o1, l, s :: byte list). (o1 :: nat, l :: nat)"
  have lay: "user_lay = map ?f ?fs" by (rule user_fields_lay [symmetric])
  have len: "length user_lay = 73" by (simp add: user_lay_def)
  have at: "user_lay ! j = ?f (?fs ! j)" if "j < 73" for j
    by (subst lay, subst nth_map) (use that length_user_fields [of x sh u] in auto)
  have ap: "apart (((0, 25) # tl user_lay) ! i) (((0, 25) # tl user_lay) ! j)" if "i < j" "j < 73" for j
    using sorted_wrt_nth_less [OF user_lay_apart, of i j] that len by simp
  have later: "apart (start, n) (?f (?fs ! j))" if ij: "i < j" "j < 73" for j
  proof -
    obtain k where k: "j = Suc k" using ij(1) by (cases j) simp_all
    then have j: "((0, 25) # tl user_lay) ! j = ?f (?fs ! j)" using at [OF ij(2)] len ij(2) by (simp add: nth_tl)
    show ?thesis
    proof (cases i)
      case 0
      have "start = 0" using i(2) 0 by (simp add: user_fields_def U_ALIAS_def)
      then show ?thesis using ap [OF ij] j n(2) 0 by simp
    next
      case (Suc k)
      then have "((0, 25) # tl user_lay) ! i = (start, l)" using at [OF i(1)] i len by (simp add: nth_tl)
      then have "apart (start, l) (?f (?fs ! j))" using ap [OF ij] j by simp
      then show ?thesis using n(1) by (auto simp: apart_def)
    qed
  qed
  have "\<forall>(o1, l) \<in> set user_lay. o1 + l \<le> 834" by (rule user_lay_inside)
  then have "\<forall>(o1, l, s) \<in> set ?fs. o1 + l \<le> length (replicate U_LEN ETX)"
    unfolding lay by (auto simp: user_offsets)
  then show ?thesis unfolding put_fields_def
  proof (rule read_field)
    show "\<forall>(o1, l, s) \<in> set (drop (Suc i) ?fs). apart (start, n) (o1, l)"
    proof
      fix f assume "f \<in> set (drop (Suc i) ?fs)"
      then obtain j where "j < length (drop (Suc i) ?fs)" "drop (Suc i) ?fs ! j = f" by (auto simp: in_set_conv_nth)
      then have "Suc i + j < 73" "?fs ! (Suc i + j) = f" using length_user_fields [of x sh u] by auto
      then show "case f of (o1, l, s) \<Rightarrow> apart (start, n) (o1, l)" using later [of "Suc i + j"] by (auto split: prod.splits)
    qed
  qed (use i n length_user_fields [of x sh u] in auto)
qed

lemma getrec_put:
  assumes "user_fields x sh u ! i = (start, l, s)" "i < 73" "n \<le> l" "i = 0 \<Longrightarrow> n = 25" "rec_text n s"
  shows "getrec (put_fields (user_fields x sh u)) start n = s"
  by (rule getrec_fill [OF assms(5) read_user [OF assms(2,1,3,4)] assms(3)])

section \<open>Numbers that fit\<close>

lemma length_dec_nat: "n < 10 ^ k \<Longrightarrow> 0 < k \<Longrightarrow> length (dec_nat n) \<le> k"
proof (induction k arbitrary: n)
  case (Suc k)
  show ?case
  proof (cases "n < 10")
    case True
    then show ?thesis by (subst dec_nat.simps) simp
  next
    case False
    then have "0 < k" using Suc.prems(1) by (cases k) auto
    moreover have "n div 10 < 10 ^ k" using Suc.prems(1) by auto
    ultimately have "length (dec_nat (n div 10)) \<le> k" using Suc.IH by simp
    then show ?thesis using False by (subst dec_nat.simps) simp
  qed
qed simp

lemma isdigit_rec_char: "isdigit_c c \<Longrightarrow> rec_char c"
  by (auto simp: isdigit_c_def rec_char_def word_le_nat_alt)

lemma ultoa10_text: "unat v < 10 ^ k \<Longrightarrow> 0 < k \<Longrightarrow> rec_text k (ultoa10 v)"
  using length_dec_nat [of "unat v" k] dec_nat_digits [of "unat v"] isdigit_rec_char by (auto simp: rec_text_def ultoa10_def)

lemma atoi_ultoa10 [simp]: "atoi_c (ultoa10 v) = uint v"
  using atoi_dec_nat [of "[]" "unat v"] by (simp add: ultoa10_def)

lemma uint_ucast_ulong: "uint (ucast (v :: u16) :: ulong) = uint v" "uint (ucast (b :: byte) :: ulong) = uint b"
  using unsigned_less [of v, where ?'a = int] unsigned_less [of b, where ?'a = int]
  by (simp_all add: unsigned_ucast_eq take_bit_int_eq_self)

lemma get_ushort_put [simp]: "get_ushort (ultoa10 (ucast (v :: u16))) = v"
  by (simp add: get_ushort_def uint_ucast_ulong)

lemma get_uchar_put [simp]: "get_uchar (ultoa10 (ucast (v :: byte))) = v"
  by (simp add: get_uchar_def uint_ucast_ulong)

lemma get_ulong_put [simp]: "get_ulong (ultoa10 v) = v"
  by (simp add: get_ulong_def)

text \<open>Hexadecimal digits in lower case.\<close>

lemma lower_digit:
  assumes "d < 16"
  shows "rec_char (tolower_c (hexdigit_c d))" "tolower_c (hexdigit_c d) OR 0x20 \<noteq> 0x20"
    "(ucast (tolower_c (hexdigit_c d) AND 0x0F) :: ulong) + (if bit (tolower_c (hexdigit_c d)) 6 then 9 else 0) = word_of_nat d"
proof -
  have all: "\<forall>d \<in> set [0..<16]. rec_char (tolower_c (hexdigit_c d)) \<and> tolower_c (hexdigit_c d) OR 0x20 \<noteq> 0x20
      \<and> (ucast (tolower_c (hexdigit_c d) AND 0x0F) :: ulong) + (if bit (tolower_c (hexdigit_c d)) 6 then 9 else 0) = word_of_nat d"
    by code_simp
  then show "rec_char (tolower_c (hexdigit_c d))" "tolower_c (hexdigit_c d) OR 0x20 \<noteq> 0x20"
    "(ucast (tolower_c (hexdigit_c d) AND 0x0F) :: ulong) + (if bit (tolower_c (hexdigit_c d)) 6 then 9 else 0) = word_of_nat d"
    using assms by auto
qed

lemma ahtoul_snoc:
  "\<forall>c \<in> set s. c OR 0x20 \<noteq> 0x20 \<Longrightarrow> c OR 0x20 \<noteq> 0x20 \<Longrightarrow>
    ahtoul (s @ [c]) = ucast (c AND 0x0F) + (if bit c 6 then 9 else 0) + ahtoul s * 16"
  by (simp add: ahtoul_def takeWhile_append2 takeWhile_eq_all_conv [THEN iffD2])

lemma hex_text:
  "\<forall>c \<in> set (map tolower_c (hex_nat n)). rec_char c \<and> c OR 0x20 \<noteq> 0x20"
proof (induction n rule: hex_nat.induct)
  case (1 n)
  then show ?case using lower_digit(1,2) [of n] lower_digit(1,2) [of "n mod 16"] by (subst hex_nat.simps) auto
qed

lemma ahtoul_hex: "ahtoul (map tolower_c (hex_nat n)) = word_of_nat n"
proof (induction n rule: hex_nat.induct)
  case (1 n)
  show ?case
  proof (cases "n < 16")
    case True
    then show ?thesis using ahtoul_snoc [of "[]" "tolower_c (hexdigit_c n)"] lower_digit(2,3) [of n]
      by (subst hex_nat.simps) (simp add: ahtoul_def)
  next
    case False
    let ?c = "tolower_c (hexdigit_c (n mod 16))"
    have "map tolower_c (hex_nat n) = map tolower_c (hex_nat (n div 16)) @ [?c]"
      using False by (subst hex_nat.simps) simp
    then have "ahtoul (map tolower_c (hex_nat n)) = word_of_nat (n mod 16) + ahtoul (map tolower_c (hex_nat (n div 16))) * 16"
      using ahtoul_snoc [of "map tolower_c (hex_nat (n div 16))" ?c] hex_text [of "n div 16"] lower_digit(2,3) [of "n mod 16"] by simp
    also have "\<dots> = word_of_nat (n mod 16 + n div 16 * 16)"
      using 1 [OF False] by (simp only: of_nat_add of_nat_mult of_nat_numeral)
    finally show ?thesis by (simp only: mod_div_mult_eq)
  qed
qed

lemma length_hex_nat: "n < 16 ^ k \<Longrightarrow> 0 < k \<Longrightarrow> length (hex_nat n) \<le> k"
proof (induction k arbitrary: n)
  case (Suc k)
  show ?case
  proof (cases "n < 16")
    case True
    then show ?thesis by (subst hex_nat.simps) simp
  next
    case False
    then have "0 < k" using Suc.prems(1) by (cases k) auto
    moreover have "n div 16 < 16 ^ k" using Suc.prems(1) by auto
    ultimately have "length (hex_nat (n div 16)) \<le> k" using Suc.IH by simp
    then show ?thesis using False by (subst hex_nat.simps) simp
  qed
qed simp

lemma ahtoul_ultoa16 [simp]: "ahtoul (ultoa16 v) = v"
  by (simp add: ultoa16_def ahtoul_hex)

lemma ultoa16_text: "unat v < 16 ^ k \<Longrightarrow> 0 < k \<Longrightarrow> rec_text k (ultoa16 v)"
  using length_hex_nat [of "unat v" k] hex_text [of "unat v"] by (simp add: rec_text_def ultoa16_def)

lemma put_time_text:
  assumes "0 \<le> t" "t < 2 ^ 31"
  shows "rec_text 8 (put_time t)"
proof -
  obtain n where "t = int n" using assms(1) nonneg_int_cases by blast
  then have "unat (word_of_int t :: ulong) < 16 ^ 8" using assms(2) by (simp add: unat_of_nat_ulong)
  then show ?thesis unfolding put_time_def by (rule ultoa16_text) simp
qed

lemma get_put_time:
  assumes "0 \<le> t" "t < 2 ^ 31"
  shows "get_time (put_time t) = t"
proof -
  have "(ucast (word_of_int t :: ulong) :: u32) = word_of_int t"
    by transfer simp
  then show ?thesis using assms by (simp add: get_time_def put_time_def signed_of_int signed_take_bit_int_eq_self)
qed

end
