(* ===== verification/UserTrip.thy ===== *)
theory UserTrip
  imports UserLay
begin

text \<open>
  Reading a user record undoes writing it, for every user whose texts and numbers fit into the
  fields.
\<close>

section \<open>Users that fit\<close>

text \<open>
  The limits of the record. Sixteen-bit numbers always fit. A time is not before 1970, and the
  time of the last scan for files not before 1987, where the code takes an older record for one
  of version 2.00.
\<close>

definition user_fits :: "user_rec \<Rightarrow> bool" where
  "user_fits u \<longleftrightarrow>
     rec_text LEN_ALIAS (ur_alias u) \<and> rec_text LEN_NAME (ur_name u) \<and> rec_text LEN_HANDLE (ur_handle u)
     \<and> rec_text LEN_NOTE (u_note u) \<and> rec_text LEN_COMP (u_comp u) \<and> rec_text LEN_COMMENT (ur_comment u)
     \<and> rec_text LEN_NETMAIL (ur_netmail u) \<and> rec_text LEN_ADDRESS (ur_address u) \<and> rec_text LEN_LOCATION (ur_location u)
     \<and> rec_text LEN_ZIPCODE (ur_zipcode u) \<and> rec_text LEN_PASS (ur_pass u) \<and> rec_text LEN_PHONE (ur_phone u)
     \<and> rec_text LEN_BIRTH (u_birth u) \<and> rec_text LEN_MODEM (u_modem u) \<and> rec_text LEN_EXTCODE (u_cursub u)
     \<and> rec_text LEN_EXTCODE (u_curdir u) \<and> rec_text 8 (ur_curxtrn u) \<and> rec_text 3 (ur_tmpext u)
     \<and> list_all (\<lambda>t. 0 \<le> t \<and> t < 2 ^ 31) [u_laston u, ur_firston u, u_expire u, ur_pwmod u, ur_ns_time u, ur_logontime u]
     \<and> 0x20000000 \<le> ur_ns_time u
     \<and> list_all (\<lambda>v. unat v < 10 ^ 10) [u_ulb u, u_dlb u, u_cdt u, ur_min u, u_freecdt u]
     \<and> list_all (\<lambda>v. unat v < 16 ^ 8) [u_flags1 u, u_flags2 u, u_flags3 u, u_flags4 u, u_exempt u, u_rest u, u_misc u, ur_qwk u, ur_chat u]
     \<and> unat (u_level u) < 100 \<and> unat (ur_rows u) < 100 \<and> (ur_rows u = 0 \<or> 10 \<le> ur_rows u)
     \<and> u_sex u \<noteq> 0 \<and> 0x20 \<le> ur_prot u \<and> (u_rest u AND FLAG 0x51 = 0 \<or> u_misc u AND SPIN = 0)"

lemma u16_fits: "unat (v :: u16) < 10 ^ 5"
  using unat_u16_bound [of v] by simp

lemma ushort_text: "rec_text 5 (ultoa10 (ucast (v :: u16)))"
proof (rule ultoa10_text)
  have "unat (ucast v :: ulong) = unat v" using uint_ucast_ulong(1) [where v = v] by (metis uint_nat nat_int unat_eq_nat_uint)
  then show "unat (ucast v :: ulong) < 10 ^ 5" using u16_fits [of v] by simp
qed simp

lemma unat_ucast_byte: "unat (ucast (b :: byte) :: ulong) = unat b"
  using uint_ucast_ulong(2) [where b = b] by (metis nat_int unat_eq_nat_uint)

lemma uchar_text: "unat (b :: byte) < 100 \<Longrightarrow> rec_text 2 (ultoa10 (ucast b))"
  by (rule ultoa10_text) (simp_all add: unat_ucast_byte)

lemma leech_text: "rec_text 2 (ultoa16 (ucast (b :: byte)))"
  by (rule ultoa16_text) (use unat_byte_bound [of b] in \<open>simp_all add: unat_ucast_byte\<close>)

lemma ucast_ucast_byte [simp]: "(ucast (ucast (b :: byte) :: ulong) :: byte) = b"
  by transfer simp

section \<open>What is read\<close>

lemmas user_get = user_fields_at [THEN getrec_put]

lemma read_char: "i < 73 \<Longrightarrow> user_fields x sh u ! i = (start, Suc 0, [c]) \<Longrightarrow> 0 < i \<Longrightarrow> put_fields (user_fields x sh u) ! start = c"
proof -
  assume a: "i < 73" "user_fields x sh u ! i = (start, Suc 0, [c])" "0 < i"
  have "take 1 (drop start (put_fields (user_fields x sh u))) = take 1 (etx_fill 1 [c])"
    using read_user [OF a(1,2), of 1] a(3) by simp
  then have "take 1 (drop start (put_fields (user_fields x sh u))) = [c]" by (simp add: etx_fill_def)
  then show ?thesis by (cases "drop start (put_fields (user_fields x sh u))") (auto simp: nth_via_drop)
qed

lemma user_chars:
  "put_fields (user_fields x sh u) ! U_SEX = u_sex u" "put_fields (user_fields x sh u) ! U_PROT = ur_prot u"
  using read_char [of 51 x sh u] read_char [of 52 x sh u] by (simp_all add: user_fields_at)

lemma and_not_zero: "(m :: ulong) AND s = 0 \<Longrightarrow> m AND NOT s = m"
proof (rule bit_eqI)
  fix n
  assume m: "m AND s = 0"
  have "\<not> (bit m n \<and> bit s n)" using arg_cong [OF m, of "\<lambda>x. bit x n"] by (simp add: bit_and_iff)
  moreover assume "possible_bit TYPE(ulong) n"
  ultimately show "bit (m AND NOT s) n = bit m n" by (auto simp: bit_and_iff bit_not_iff)
qed

lemma user_head_put:
  assumes "user_fits u"
  shows "user_head (u_number u) (put_fields (user_fields x sh u))
    = u\<lparr>u_shell := 0, ur_xedit := 0, ur_tmpext := [], ur_qwk := 0, ur_chat := 0\<rparr>"
proof -
  have n10: "rec_text 10 (ultoa10 v)" if "unat v < 10 ^ 10" for v by (rule ultoa10_text [OF that]) simp
  have h8: "rec_text 8 (ultoa16 v)" if "unat v < 16 ^ 8" for v by (rule ultoa16_text [OF that]) simp
  note f = assms [unfolded user_fits_def list.pred_inject]
  note texts = ushort_text uchar_text leech_text put_time_text get_put_time n10 h8
  have "ur_rows u = 0 \<or> \<not> ur_rows u < 10" "\<not> ur_prot u < 0x20" using f by auto
  moreover have "u_misc u AND NOT SPIN = u_misc u" if "u_rest u AND FLAG 0x51 \<noteq> 0"
    by (rule and_not_zero) (use f that in simp)
  ultimately show ?thesis
    unfolding user_head_def Let_def
    by - (rule user_rec.equality; use f in \<open>simp add: user_get user_chars texts user_lengths; blast?\<close>)
qed

section \<open>The round trip\<close>

text \<open>The configuration gives codes that fit, no two editors or shells with the same, and no editor without one.\<close>

definition codes_fit :: "user_cfg \<Rightarrow> bool" where
  "codes_fit cfg \<longleftrightarrow>
     list_all (\<lambda>(code, ar). rec_text 8 code \<and> code \<noteq> []) (cfg_xedits cfg) \<and> list_all (rec_text 8) (cfg_shells cfg)
     \<and> distinct (map (map tolower_c) (map fst (cfg_xedits cfg))) \<and> distinct (map (map tolower_c) (cfg_shells cfg))"

text \<open>
  Whether the user meets the requirement of his editor. It is evaluated before the shell is known,
  which is 0 until then.
\<close>

definition editor_verdict :: "user_cfg \<Rightarrow> world \<Rightarrow> user_rec \<Rightarrow> ar_seen \<Rightarrow> (bool \<times> ar_seen) option" where
  "editor_verdict cfg w u st =
     (if ur_xedit u = 0 then Some (True, st)
      else chk_ar (Some (scfg.truncate cfg)) w (snd (cfg_xedits cfg ! (unat (ur_xedit u) - 1)))
        (Some (user_t.truncate (u\<lparr>u_shell := 0\<rparr>))) None st)"

text \<open>The user has counts of another day than today.\<close>

definition other_day :: "world \<Rightarrow> (int \<Rightarrow> (int \<times> int \<times> int) option) \<Rightarrow> user_rec \<Rightarrow> bool" where
  "other_day w day_of u \<longleftrightarrow>
     \<not> (ur_ltoday u = 0 \<and> ur_etoday u = 0 \<and> ur_ptoday u = 0 \<and> ur_ttoday u = 0)
     \<and> day_of (w_now w) \<noteq> None \<and> day_of (ur_logontime u) \<noteq> None \<and> day_of (w_now w) \<noteq> day_of (ur_logontime u)"

text \<open>
  What loading changes on purpose: an editor that is not allowed is dropped, a missing archive type
  is the first of the configuration, and the counts of another day start again, with the free
  credits of the day.
\<close>

definition as_loaded :: "user_cfg \<Rightarrow> world \<Rightarrow> (int \<Rightarrow> (int \<times> int \<times> int) option) \<Rightarrow> bool \<Rightarrow> user_rec \<Rightarrow> user_rec" where
  "as_loaded cfg w day_of allowed u =
     (let u1 = u\<lparr>ur_xedit := (if allowed then ur_xedit u else 0),
                 ur_tmpext := (if ur_tmpext u \<in> {[], [0x30]} \<and> cfg_fcomps cfg \<noteq> [] then hd (cfg_fcomps cfg) else ur_tmpext u)\<rparr>
      in if other_day w day_of u
         then u1\<lparr>ur_ltoday := 0, ur_etoday := 0, ur_ptoday := 0, ur_ttoday := 0, ur_textra := 0,
                u_freecdt := cfg_freecdtperday cfg (u_level u)\<rparr>
         else u1)"

lemma stricmp_lower: "stricmp_eq a b \<longleftrightarrow> map tolower_c a = map tolower_c b"
  by (simp add: stricmp_eq_def)

lemma shell_index_code:
  assumes "distinct (map (map tolower_c) shells)" "i < length shells"
  shows "shell_index (shells ! i) shells = i"
proof -
  let ?P = "\<lambda>code. \<not> stricmp_eq (shells ! i) code"
  have "takeWhile ?P shells = take i shells"
  proof (rule takeWhile_eq_take_P_nth)
    fix j assume j: "j < i" "j < length shells"
    then show "?P (shells ! j)"
      using assms nth_eq_iff_index_eq [OF assms(1), of i j] by (simp add: stricmp_lower)
  qed (simp add: stricmp_lower)
  then show ?thesis using assms(2) by (simp add: shell_index_def)
qed

lemma xedit_none:
  "\<forall>(code, ar) \<in> set xedits. code \<noteq> [] \<Longrightarrow> xedit_loop chk [] xedits st = Some (length xedits, st)"
  by (induction xedits) (auto simp: stricmp_lower)

lemma xedit_found:
  "distinct (map (map tolower_c) (map fst xedits)) \<Longrightarrow> i < length xedits \<Longrightarrow> chk (snd (xedits ! i)) st = Some (True, st1) \<Longrightarrow>
    xedit_loop chk (fst (xedits ! i)) xedits st = Some (i, st1)"
proof (induction xedits arbitrary: i)
  case (Cons x xedits)
  show ?case
  proof (cases i)
    case 0
    then show ?thesis using Cons.prems(3) by (cases x) (simp add: stricmp_lower)
  next
    case (Suc j)
    then have j: "j < length xedits" using Cons.prems(2) by simp
    have "\<not> stricmp_eq (fst (xedits ! j)) (fst x)"
      using Cons.prems(1) j by (auto simp: stricmp_lower) (metis nth_mem image_eqI)
    then show ?thesis using Cons.IH [of j] Cons.prems Suc j by (cases x) simp
  qed
qed simp

lemma xedit_other:
  "\<forall>(code, ar) \<in> set xedits. \<not> stricmp_eq str code \<Longrightarrow> xedit_loop chk str xedits st = Some (length xedits, st)"
  by (induction xedits) auto

lemma xedit_denied:
  "distinct (map (map tolower_c) (map fst xedits)) \<Longrightarrow> i < length xedits \<Longrightarrow> chk (snd (xedits ! i)) st = Some (False, st1) \<Longrightarrow>
    xedit_loop chk (fst (xedits ! i)) xedits st = Some (length xedits, st1)"
proof (induction xedits arbitrary: i)
  case (Cons x xedits)
  show ?case
  proof (cases i)
    case 0
    have "\<forall>(code, ar) \<in> set xedits. \<not> stricmp_eq (fst x) code"
      using Cons.prems(1) by (force simp: stricmp_lower image_iff)
    then show ?thesis using Cons.prems(3) 0 xedit_other [of xedits "fst x" chk st1] by (cases x) (simp add: stricmp_lower)
  next
    case (Suc j)
    then have j: "j < length xedits" using Cons.prems(2) by simp
    have "\<not> stricmp_eq (fst (xedits ! j)) (fst x)"
      using Cons.prems(1) j by (auto simp: stricmp_lower) (metis nth_mem image_eqI)
    then show ?thesis using Cons.IH [of j] Cons.prems Suc j by (cases x) simp
  qed
qed simp

lemma lower_digit_sint: "d < 16 \<Longrightarrow> \<not> sint (tolower_c (hexdigit_c d)) < 0x20"
proof -
  have "\<forall>d \<in> set [0..<16]. \<not> sint (tolower_c (hexdigit_c d)) < 0x20" by code_simp
  then show "d < 16 \<Longrightarrow> ?thesis" by auto
qed

lemma ultoa16_print: "ultoa16 v \<noteq> []" "\<not> sint (hd (ultoa16 v)) < 0x20"
proof -
  have all: "hex_nat n \<noteq> [] \<and> (\<forall>c \<in> set (map tolower_c (hex_nat n)). \<not> sint c < 0x20)" for n
  proof (induction n rule: hex_nat.induct)
    case (1 n)
    then show ?case using lower_digit_sint [of n] lower_digit_sint [of "n mod 16"] by (subst (1 2) hex_nat.simps) auto
  qed
  then have n: "map tolower_c (hex_nat (unat v)) \<noteq> []" by simp
  then show "ultoa16 v \<noteq> []" by (simp add: ultoa16_def)
  show "\<not> sint (hd (ultoa16 v)) < 0x20" unfolding ultoa16_def using all hd_in_set [OF n] by blast
qed

text \<open>
  The record that \<open>putuserdat\<close> makes of a user is parsed by \<open>getuserdat\<close> to the same user, but
  for what loading changes.
\<close>

lemma user_record_parse:
  assumes "user_fits u" "codes_fit cfg" "user_record cfg u = Some userdat" "editor_verdict cfg w u st = Some (allowed, st1)"
  shows "user_parse cfg w day_of (u_number u) userdat st = Some (as_loaded cfg w day_of allowed u, st1)"
proof -
  let ?x = "unat (ur_xedit u)" and ?s = "unat (u_shell u)"
  define x where "x = (if ?x = 0 then [] else fst (cfg_xedits cfg ! (?x - 1)))"
  define sh where "sh = cfg_shells cfg ! ?s"
  have in_range: "?x \<le> length (cfg_xedits cfg)" "?s < length (cfg_shells cfg)" and dat: "userdat = put_fields (user_fields x sh u)"
    using assms(3) by (auto simp: user_record_def user_codes_def Let_def x_def sh_def split: if_splits)
  note c = assms(2) [unfolded codes_fit_def list_all_iff]
  note f = assms(1) [unfolded user_fits_def list.pred_inject]
  have xs: "rec_text 8 x" "rec_text 8 sh"
    using c in_range by (auto simp: x_def sh_def rec_text_def split: prod.splits)
      (metis (no_types, lifting) Suc_le_eq Suc_pred nth_mem prod.collapse)+
  define h where "h = u\<lparr>u_shell := 0, ur_xedit := 0, ur_tmpext := [], ur_qwk := 0, ur_chat := 0\<rparr>"
  have head: "user_head (u_number u) userdat = h" unfolding dat h_def by (rule user_head_put [OF assms(1)])
  have trunc: "user_t.truncate h = user_t.truncate (u\<lparr>u_shell := 0\<rparr>)"
    by (simp add: h_def user_t.truncate_def)
  let ?chk = "\<lambda>ar s. chk_ar (Some (scfg.truncate cfg)) w ar (Some (user_t.truncate h)) None s"
  have get: "getrec userdat U_XEDIT 8 = x" "getrec userdat U_SHELL 8 = sh" "getrec userdat U_QWK 8 = ultoa16 (ur_qwk u)"
    "getrec userdat U_TMPEXT 3 = ur_tmpext u" "getrec userdat U_CHAT 8 = ultoa16 (ur_chat u)"
    unfolding dat using f xs by (simp_all add: user_get ultoa16_text)
  define i where "i = (if ?x = 0 \<or> \<not> allowed then length (cfg_xedits cfg) else ?x - 1)"
  have loop: "xedit_loop ?chk x (cfg_xedits cfg) st = Some (i, st1)"
  proof (cases "?x = 0")
    case True
    then have "ur_xedit u = 0" by (simp add: unat_eq_zero)
    then show ?thesis using xedit_none [of "cfg_xedits cfg" ?chk st] c assms(4) by (auto simp: i_def x_def editor_verdict_def)
  next
    case False
    then have "ur_xedit u \<noteq> 0" by auto
    then have "?chk (snd (cfg_xedits cfg ! (?x - 1))) st = Some (allowed, st1)"
      using assms(4) trunc by (simp add: editor_verdict_def)
    moreover have "?x - 1 < length (cfg_xedits cfg)" using False in_range(1) by simp
    ultimately show ?thesis
      using xedit_found [of "cfg_xedits cfg" "?x - 1" ?chk st st1] xedit_denied [of "cfg_xedits cfg" "?x - 1" ?chk st st1] c False
      by (cases allowed) (simp_all add: i_def x_def)
  qed
  have i: "(if length (cfg_xedits cfg) < i + 1 then 0 else word_of_nat (i + 1)) = (if allowed then ur_xedit u else 0)"
  proof (cases "?x = 0 \<or> \<not> allowed")
    case True
    then show ?thesis by (auto simp: i_def unat_eq_zero)
  next
    case False
    then have j: "i + 1 = ?x" by (simp add: i_def)
    show ?thesis unfolding j using in_range(1) False by simp
  qed
  have s: "word_of_nat (shell_index sh (cfg_shells cfg)) = u_shell u"
    using shell_index_code [of "cfg_shells cfg" ?s] c in_range(2) by (simp add: sh_def)
  have all: "h\<lparr>ur_xedit := e, u_shell := u_shell u, ur_qwk := ur_qwk u, ur_tmpext := t, ur_chat := ur_chat u\<rparr>
      = u\<lparr>ur_xedit := e, ur_tmpext := t\<rparr>" for e t
    by (rule user_rec.equality) (simp_all add: h_def)
  have qwk: "\<not> (ultoa16 (ur_qwk u) = [] \<or> sint (hd (ultoa16 (ur_qwk u))) < 0x20)" using ultoa16_print by blast
  have "user_tail cfg w day_of userdat h i = as_loaded cfg w day_of allowed u"
    unfolding user_tail_def as_loaded_def Let_def get i s ahtoul_ultoa16 if_not_P [OF qwk] all
    by (auto simp: other_day_def resetdaily_def split: option.splits)
  then show ?thesis using loop by (simp add: user_parse_def head get(1))
qed

section \<open>A sample\<close>

definition sample_user :: user_rec where
  "sample_user =
    \<lparr>u_number = 7, u_uls = 3, u_dls = 12, u_posts = 100, u_logons = 250, u_shell = 1,
     u_comp = cs ''PC'', u_note = cs ''Hi'', u_birth = cs ''01/31/70'', u_modem = [], u_cursub = cs ''LOCALGEN'', u_curdir = [],
     u_level = 60, u_sex = 0x4D, u_misc = 0x41F, u_flags1 = 1, u_flags2 = 0, u_flags3 = 0, u_flags4 = 0x80000000,
     u_exempt = 0, u_rest = 0, u_ulb = 123456, u_dlb = 9999999999, u_cdt = 5000, u_freecdt = 0,
     u_laston = 1300000000, u_expire = 0,
     ur_emails = 5, ur_fbacks = 1, ur_etoday = 0, ur_ptoday = 0, ur_timeon = 65535, ur_textra = 0, ur_ttoday = 0, ur_tlast = 9,
     ur_ltoday = 0, ur_xedit = 0, ur_alias = cs ''Guest'', ur_name = cs ''A. User'', ur_handle = [], ur_address = [],
     ur_location = [], ur_zipcode = [], ur_pass = cs ''SECRET'', ur_phone = [], ur_netmail = [], ur_tmpext = cs ''ZIP'',
     ur_comment = [], ur_curxtrn = [], ur_rows = 24, ur_prot = 0x5A, ur_leech = 255, ur_qwk = 267, ur_chat = 0, ur_min = 0,
     ur_firston = 1200000000, ur_pwmod = 0, ur_ns_time = 1299999999, ur_logontime = 1299990000\<rparr>"

definition sample_ucfg :: user_cfg where
  "sample_ucfg =
    \<lparr>cfg_subs = [], cfg_dirs = [], cfg_shells = [cs ''DEFAULT'', cs ''MAJOR''], cfg_node = 1, cfg_eurodate = False,
     cfg_xedits = [(cs ''FSE'', None)], cfg_fcomps = [cs ''ZIP''], cfg_freecdtperday = (\<lambda>level. 0), cfg_sys_nodes = 2,
     cfg_sys_id = cs ''VERT'', cfg_sys_deldays = 30, cfg_data_dir = cs ''../data/''\<rparr>"

lemma sample_user_fits: "user_fits sample_user"
  by (simp add: user_fits_def sample_user_def rec_text_def rec_char_def user_lengths cs_def)

lemma sample_codes_fit: "codes_fit sample_ucfg"
  by (simp add: codes_fit_def sample_ucfg_def rec_text_def rec_char_def cs_def tolower_c_def)

lemma sample_as_loaded: "as_loaded sample_ucfg w day_of True sample_user = sample_user"
  by (simp add: as_loaded_def other_day_def sample_user_def cs_def)

end
