(* ===== verification/UserFile.thy ===== *)
theory UserFile
  imports UserLay "HOL-Library.Monad_Syntax"
begin

text \<open>
  The files of the user base and the functions on them (sbbs3/userdat.c, nopen.c): user.dat with a
  record for every user, name.dat with his name for searching, and node.dab, in which the nodes
  where he is logged on are told that his record has changed.

  What the operating system and other processes do is the environment, fixed during a call: the
  error number of every attempt to open a file (0 when it opens), which attempts to lock a region
  succeed, the error of writing (a write is whole or not at all), and the clock. None stands for
  what C leaves undefined and for a call that never returns. A user number below 1 is 0.
\<close>

section \<open>Files\<close>

datatype user_file = USER_DAT | NAME_DAT | NODE_DAB

record user_env =
  e_sopen :: "user_file \<Rightarrow> nat \<Rightarrow> int"
  e_lock :: "user_file \<Rightarrow> nat \<Rightarrow> nat \<Rightarrow> bool"
  e_write :: "user_file \<Rightarrow> int"
  e_time :: int

record user_base =
  ub_disk :: "user_file \<Rightarrow> byte list option"
  ub_env :: user_env

definition LOOP_NOPEN :: nat where "LOOP_NOPEN = 50"
definition LOOP_NODEDAB :: nat where "LOOP_NODEDAB = 50"

abbreviation (input) "ENOENT \<equiv> 2 :: int"

text \<open>EACCES, EAGAIN and EDEADLOCK.\<close>

definition open_again :: "int \<Rightarrow> bool" where
  "open_again err \<longleftrightarrow> err \<in> {13, 11, 35}"

function nopen_loop :: "(nat \<Rightarrow> int) \<Rightarrow> nat \<Rightarrow> int" where
  "nopen_loop tries count =
     (if open_again (tries count) \<and> count < LOOP_NOPEN then nopen_loop tries (count + 1) else tries count)"
  by auto
termination
  by (relation "measure (\<lambda>(t, count). LOOP_NOPEN - count)") auto

declare nopen_loop.simps [simp del]

text \<open>The error number, 0 when the file is open; with O\_CREAT a missing file is made.\<close>

definition nopen :: "user_base \<Rightarrow> user_file \<Rightarrow> bool \<Rightarrow> int \<times> user_base" where
  "nopen b f creat =
     (if ub_disk b f = None \<and> \<not> creat then (ENOENT, b)
      else let err = nopen_loop (e_sopen (ub_env b) f) 0 in
        (err, if err = 0 \<and> ub_disk b f = None then b\<lparr>ub_disk := (ub_disk b)(f := Some [])\<rparr> else b))"

definition file_bytes :: "user_base \<Rightarrow> user_file \<Rightarrow> byte list" where
  "file_bytes b f = (case ub_disk b f of None \<Rightarrow> [] | Some bs \<Rightarrow> bs)"

definition file_read :: "user_base \<Rightarrow> user_file \<Rightarrow> nat \<Rightarrow> nat \<Rightarrow> byte list" where
  "file_read b f pos n = take n (drop pos (file_bytes b f))"

definition file_write :: "user_base \<Rightarrow> user_file \<Rightarrow> nat \<Rightarrow> byte list \<Rightarrow> int \<times> user_base" where
  "file_write b f pos bs =
     (if e_write (ub_env b) f \<noteq> 0 then (e_write (ub_env b) f, b)
      else (0, b\<lparr>ub_disk := (ub_disk b)(f := Some (overwrite (file_bytes b f) pos bs))\<rparr>))"

function lock_loop :: "(nat \<Rightarrow> bool) \<Rightarrow> nat \<Rightarrow> bool" where
  "lock_loop tries i = (if i < LOOP_NODEDAB then tries i \<or> lock_loop tries (i + 1) else False)"
  by auto
termination
  by (relation "measure (\<lambda>(t, i). LOOP_NODEDAB - i)") auto

declare lock_loop.simps [simp del]

definition file_lock :: "user_base \<Rightarrow> user_file \<Rightarrow> nat \<Rightarrow> bool" where
  "file_lock b f pos = lock_loop (e_lock (ub_env b) f pos) 0"

section \<open>Nodes\<close>

record node_t =
  n_status :: byte
  n_errors :: byte
  n_action :: byte
  n_useron :: u16
  n_connection :: u16
  n_misc :: u16
  n_aux :: u16
  n_extaux :: u32

definition SIZEOF_NODE_T :: nat where "SIZEOF_NODE_T = 15"

definition node_zero :: node_t where
  "node_zero = \<lparr>n_status = 0, n_errors = 0, n_action = 0, n_useron = 0, n_connection = 0, n_misc = 0, n_aux = 0, n_extaux = 0\<rparr>"

definition enc_node :: "node_t \<Rightarrow> byte list" where
  "enc_node n = [n_status n, n_errors n, n_action n] @ le16 (n_useron n) @ le16 (n_connection n) @ le16 (n_misc n)
     @ le16 (n_aux n) @ le32 (n_extaux n)"

definition dec_node :: "byte list \<Rightarrow> node_t" where
  "dec_node bs = \<lparr>n_status = bs ! 0, n_errors = bs ! 1, n_action = bs ! 2, n_useron = un_le16 (take 2 (drop 3 bs)),
     n_connection = un_le16 (take 2 (drop 5 bs)), n_misc = un_le16 (take 2 (drop 7 bs)), n_aux = un_le16 (take 2 (drop 9 bs)),
     n_extaux = un_le32 (take 4 (drop 11 bs))\<rparr>"

abbreviation (input) "NODE_INUSE \<equiv> 3 :: byte"
abbreviation (input) "NODE_QUIET \<equiv> 4 :: byte"
abbreviation (input) "NODE_UDAT \<equiv> 0x40 :: u16"

text \<open>
  Reading a node; with \<open>lock\<close> its record stays locked and the file open when 0 is returned. A file
  that is too short leaves the node zero, without an error and without the lock.
\<close>

definition getnodedat :: "user_cfg \<Rightarrow> nat \<Rightarrow> node_t \<Rightarrow> bool \<Rightarrow> user_base \<Rightarrow> int \<times> node_t" where
  "getnodedat cfg number node lock b =
     (if number < 1 \<or> cfg_sys_nodes cfg < number then (-1, node)
      else case nopen b NODE_DAB False of (err, b1) \<Rightarrow>
        if err \<noteq> 0 then (err, node_zero)
        else if length (file_bytes b NODE_DAB) < number * SIZEOF_NODE_T then (0, node_zero)
        else let pos = (number - 1) * SIZEOF_NODE_T in
          if lock \<and> \<not> file_lock b NODE_DAB pos then (-2, node_zero)
          else (0, dec_node (file_read b NODE_DAB pos SIZEOF_NODE_T)))"

text \<open>All ten attempts to write end in the same way.\<close>

definition putnodedat :: "user_cfg \<Rightarrow> nat \<Rightarrow> node_t \<Rightarrow> user_base \<Rightarrow> int \<times> user_base" where
  "putnodedat cfg number node b =
     (if number < 1 \<or> cfg_sys_nodes cfg < number then (-1, b)
      else file_write b NODE_DAB ((number - 1) * SIZEOF_NODE_T) (enc_node node))"

text \<open>The nodes from i on: the first where the user is on gets the flag.\<close>

fun dirty_loop :: "user_cfg \<Rightarrow> nat \<Rightarrow> nat list \<Rightarrow> user_base \<Rightarrow> user_base" where
  "dirty_loop cfg usernumber [] b = b"
| "dirty_loop cfg usernumber (i # is) b =
     (let node = snd (getnodedat cfg i node_zero False b) in
      if unat (n_useron node) = usernumber \<and> (n_status node = NODE_INUSE \<or> n_status node = NODE_QUIET)
      then case getnodedat cfg i node True b of (err, node1) \<Rightarrow>
        if err = 0 then snd (putnodedat cfg i (node1\<lparr>n_misc := n_misc node1 OR NODE_UDAT\<rparr>) b) else b
      else dirty_loop cfg usernumber is b)"

definition dirtyuserdat :: "user_cfg \<Rightarrow> nat \<Rightarrow> user_base \<Rightarrow> user_base" where
  "dirtyuserdat cfg usernumber b = dirty_loop cfg usernumber [1..<cfg_sys_nodes cfg + 1] b"

section \<open>Whole records\<close>

definition user_pos :: "nat \<Rightarrow> nat" where
  "user_pos number = (number - 1) * U_LEN"

text \<open>The user is None where the code leaves him zero.\<close>

definition getuserdat ::
  "user_cfg \<Rightarrow> world \<Rightarrow> (int \<Rightarrow> (int \<times> int \<times> int) option) \<Rightarrow> u16 \<Rightarrow> user_base \<Rightarrow> ar_seen
    \<Rightarrow> (int \<times> (user_rec \<times> ar_seen) option) option" where
  "getuserdat cfg w day_of number b st =
     (let n = unat number in
      if n < 1 then Some (-1, None)
      else case nopen b USER_DAT False of (err, b1) \<Rightarrow>
        if err \<noteq> 0 then Some (err, None)
        else if length (file_bytes b USER_DAT) div U_LEN < n then Some (-1, None)
        else if \<not> file_lock b USER_DAT (user_pos n) then Some (-2, None)
        else map_option (\<lambda>r. (0, Some r)) (user_parse cfg w day_of number (file_read b USER_DAT (user_pos n) U_LEN) st))"

definition putuserdat :: "user_cfg \<Rightarrow> user_rec \<Rightarrow> user_base \<Rightarrow> (int \<times> user_base) option" where
  "putuserdat cfg u b =
     (let n = unat (u_number u) in
      if n < 1 then Some (-1, b)
      else case user_record cfg u of None \<Rightarrow> None | Some userdat \<Rightarrow> Some
        (case nopen b USER_DAT True of (err, b1) \<Rightarrow>
          if err \<noteq> 0 then (err, b1)
          else if length (file_bytes b1 USER_DAT) < user_pos n then (-4, b1)
          else if \<not> file_lock b1 USER_DAT (user_pos n) then (-2, b1)
          else case file_write b1 USER_DAT (user_pos n) userdat of (err, b2) \<Rightarrow>
            if err \<noteq> 0 then (-3, b2) else (0, dirtyuserdat cfg n b2)))"

definition lastuser :: "user_base \<Rightarrow> nat" where
  "lastuser b = length (file_bytes b USER_DAT) div U_LEN"

definition del_lastuser :: "user_base \<Rightarrow> bool \<times> user_base" where
  "del_lastuser b =
     (case nopen b USER_DAT False of (err, b1) \<Rightarrow>
        let len = length (file_bytes b USER_DAT) in
        if err \<noteq> 0 \<or> len < U_LEN then (False, b)
        else (True, b\<lparr>ub_disk := (ub_disk b)(USER_DAT := Some (take (len - U_LEN) (file_bytes b USER_DAT)))\<rparr>))"

abbreviation (input) "DELETED \<equiv> 1 :: ulong"
abbreviation (input) "INACTIVE \<equiv> 0x40 :: ulong"

text \<open>The records from l on; one whose flags are cut off is not counted.\<close>

function count_users :: "user_base \<Rightarrow> nat \<Rightarrow> nat" where
  "count_users b l =
     (if length (file_bytes b USER_DAT) \<le> l then 0
      else let str = file_read b USER_DAT (l + U_MISC) 8
        in (if length str \<noteq> 8 \<or> ahtoul (getrec str 0 8) AND (DELETED OR INACTIVE) \<noteq> 0 then 0 else 1) + count_users b (l + U_LEN))"
  by auto
termination
  by (relation "measure (\<lambda>(b, l). length (file_bytes b USER_DAT) - l)") (auto simp: user_offsets)

declare count_users.simps [simp del]

definition total_users :: "user_base \<Rightarrow> nat" where
  "total_users b = (case nopen b USER_DAT False of (err, b1) \<Rightarrow> if err \<noteq> 0 then 0 else count_users b 0)"

section \<open>Single fields\<close>

text \<open>The length of the field at an offset, -1 when no field starts there.\<close>

definition user_rec_len :: "nat \<Rightarrow> int" where
  "user_rec_len offset =
     (if offset = U_ALIAS then int LEN_ALIAS
      else if offset = U_NAME then int LEN_NAME
      else if offset = U_HANDLE then int LEN_HANDLE
      else if offset = U_NOTE then int LEN_NOTE
      else if offset = U_COMP then int LEN_COMP
      else if offset = U_COMMENT then int LEN_COMMENT
      else if offset = U_NETMAIL then int LEN_NETMAIL
      else if offset = U_ADDRESS then int LEN_ADDRESS
      else if offset = U_LOCATION then int LEN_LOCATION
      else if offset = U_ZIPCODE then int LEN_ZIPCODE
      else if offset = U_PASS then int LEN_PASS
      else if offset = U_PHONE then int LEN_PHONE
      else if offset = U_BIRTH then int LEN_BIRTH
      else if offset = U_MODEM then int LEN_MODEM
      else if offset \<in> {U_CURSUB, U_CURDIR} then 16
      else if offset \<in> {U_LASTON, U_FIRSTON, U_EXPIRE, U_PWMOD, U_NS_TIME, U_LOGONTIME, U_FLAGS1, U_FLAGS2, U_FLAGS3, U_FLAGS4,
        U_EXEMPT, U_REST, U_MISC, U_QWK, U_CHAT, U_CURXTRN, U_XEDIT, U_SHELL} then 8
      else if offset \<in> {U_LOGONS, U_LTODAY, U_TIMEON, U_TEXTRA, U_TTODAY, U_TLAST, U_POSTS, U_EMAILS, U_FBACKS, U_ETODAY,
        U_PTODAY, U_ULS, U_DLS} then 5
      else if offset \<in> {U_ULB, U_DLB, U_CDT, U_MIN, U_FREECDT} then 10
      else if offset = U_TMPEXT then 3
      else if offset \<in> {U_LEVEL, U_TL, U_ROWS, U_LEECH} then 2
      else if offset \<in> {U_SEX, U_PROT} then 1
      else -1)"

text \<open>A length of 0 is looked up; without a field to look up the code works with a length of -1.\<close>

definition auto_length :: "nat \<Rightarrow> nat \<Rightarrow> nat option" where
  "auto_length start len =
     (if len \<noteq> 0 then Some len else if user_rec_len start < 0 then None else Some (nat (user_rec_len start)))"

text \<open>The string that a field holds, up to ETX or CR.\<close>

definition field_text :: "byte list \<Rightarrow> byte list" where
  "field_text str = cstr (takeWhile (\<lambda>c. c \<noteq> ETX \<and> c \<noteq> CR) str)"

text \<open>
  The caller's buffer: what is read goes to its start, a terminator after the text. It is kept
  when nothing is read.
\<close>

definition end_field :: "nat \<Rightarrow> byte list \<Rightarrow> byte list" where
  "end_field len str = str[length (takeWhile (\<lambda>c. c \<noteq> ETX \<and> c \<noteq> CR) (take len str)) := 0]"

definition getuserrec :: "nat \<Rightarrow> nat \<Rightarrow> nat \<Rightarrow> byte list \<Rightarrow> user_base \<Rightarrow> (int \<times> byte list) option" where
  "getuserrec usernumber start len0 str b =
     (if usernumber < 1 then Some (-1, str)
      else case nopen b USER_DAT False of (err, b1) \<Rightarrow>
        let pos = user_pos usernumber + start in
        if err \<noteq> 0 then Some (err, str)
        else if length (file_bytes b USER_DAT) < pos then Some (-2, str)
        else case auto_length start len0 of None \<Rightarrow> None | Some len \<Rightarrow>
          if \<not> file_lock b USER_DAT pos then Some (-3, str)
          else let bs = file_read b USER_DAT pos len; str1 = bs @ drop (length bs) str in
            if length bs \<noteq> len then Some (-4, str1) else Some (0, end_field len str1))"

text \<open>The buffer that is written has 256 bytes.\<close>

definition putuserrec :: "user_cfg \<Rightarrow> nat \<Rightarrow> nat \<Rightarrow> nat \<Rightarrow> byte list \<Rightarrow> user_base \<Rightarrow> (int \<times> user_base) option" where
  "putuserrec cfg usernumber start len0 str b =
     (if usernumber < 1 then Some (-1, b)
      else case nopen b USER_DAT False of (err, b1) \<Rightarrow>
        let pos = user_pos usernumber + start in
        if err \<noteq> 0 then Some (err, b)
        else if length (file_bytes b USER_DAT) < user_pos usernumber then Some (-4, b)
        else case auto_length start len0 of None \<Rightarrow> None | Some len \<Rightarrow>
          if 255 < length str \<or> 255 < len then None
          else if \<not> file_lock b USER_DAT pos then Some (-3, b)
          else Some (0, dirtyuserdat cfg usernumber (snd (file_write b USER_DAT pos (etx_fill len str)))))"

text \<open>\<open>atol\<close>, for 64 bits; the sum must be in their range.\<close>

definition atol_c :: "byte list \<Rightarrow> int" where
  "atol_c s = max (- (2 ^ 63)) (min (2 ^ 63 - 1) (atoi_c s))"

definition adjusted :: "int \<Rightarrow> int \<Rightarrow> int option" where
  "adjusted val adj =
     (if adj = - (2 ^ 63) then None
      else let v = (if adj < 0 \<and> val < - adj then 0 else val + adj) in if v < 2 ^ 63 then Some v else None)"

definition adjustuserrec :: "user_cfg \<Rightarrow> nat \<Rightarrow> nat \<Rightarrow> nat \<Rightarrow> int \<Rightarrow> user_base \<Rightarrow> (ulong \<times> user_base) option" where
  "adjustuserrec cfg usernumber start len0 adj b =
     (if usernumber < 1 then Some (0, b)
      else case nopen b USER_DAT False of (err, b1) \<Rightarrow>
        let pos = user_pos usernumber + start in
        if err \<noteq> 0 \<or> length (file_bytes b USER_DAT) < user_pos usernumber then Some (0, b)
        else case auto_length start len0 of None \<Rightarrow> None | Some len \<Rightarrow>
          if 255 < len then None
          else if \<not> file_lock b USER_DAT pos then Some (0, b)
          else let str = file_read b USER_DAT pos len in
            if length str \<noteq> len then Some (0, b)
            else case adjusted (atol_c (field_text str)) adj of None \<Rightarrow> None | Some val \<Rightarrow>
              case file_write b USER_DAT pos (etx_fill len (ultoa10 (word_of_int val))) of (err, b2) \<Rightarrow>
                Some (word_of_int val, if err \<noteq> 0 then b2 else dirtyuserdat cfg usernumber b2))"

section \<open>Credits and counters\<close>

text \<open>The free credits of the day are used before the user's own.\<close>

definition subtract_cdt :: "user_cfg \<Rightarrow> int \<Rightarrow> user_rec \<times> user_base \<Rightarrow> (user_rec \<times> user_base) option" where
  "subtract_cdt cfg amt = (\<lambda>(u, b).
     let n = unat (u_number u) in
     if amt = 0 then Some (u, b)
     else if u_freecdt u \<noteq> 0
     then if u_freecdt u < word_of_int amt
          then do { (err, b1) \<leftarrow> putuserrec cfg n U_FREECDT 10 [0x30] b;
                    (cdt, b2) \<leftarrow> adjustuserrec cfg n U_CDT 10 (- sint (word_of_int amt - u_freecdt u)) b1;
                    Some (u\<lparr>u_freecdt := 0, u_cdt := cdt\<rparr>, b2) }
          else do { (err, b1) \<leftarrow> putuserrec cfg n U_FREECDT 10 (ultoa10 (u_freecdt u - word_of_int amt)) b;
                    Some (u\<lparr>u_freecdt := u_freecdt u - word_of_int amt\<rparr>, b1) }
     else do { (cdt, b1) \<leftarrow> adjustuserrec cfg n U_CDT 10 (- amt) b; Some (u\<lparr>u_cdt := cdt\<rparr>, b1) })"

text \<open>Adjusting a counter in the file and taking the result as the value in memory, a ushort.\<close>

definition adjust_ushort ::
  "user_cfg \<Rightarrow> nat \<Rightarrow> (u16 \<Rightarrow> user_rec \<Rightarrow> user_rec) \<Rightarrow> int \<Rightarrow> user_rec \<times> user_base \<Rightarrow> (user_rec \<times> user_base) option" where
  "adjust_ushort cfg start put adj = (\<lambda>(u, b). do {
     (v, b1) \<leftarrow> adjustuserrec cfg (unat (u_number u)) start 5 adj b;
     Some (put (ucast v) u, b1) })"

definition adjust_ulong ::
  "user_cfg \<Rightarrow> nat \<Rightarrow> (ulong \<Rightarrow> user_rec \<Rightarrow> user_rec) \<Rightarrow> int \<Rightarrow> user_rec \<times> user_base \<Rightarrow> (user_rec \<times> user_base) option" where
  "adjust_ulong cfg start put adj = (\<lambda>(u, b). do {
     (v, b1) \<leftarrow> adjustuserrec cfg (unat (u_number u)) start 10 adj b;
     Some (put v u, b1) })"

definition user_posted_msg :: "user_cfg \<Rightarrow> int \<Rightarrow> user_rec \<times> user_base \<Rightarrow> (user_rec \<times> user_base) option" where
  "user_posted_msg cfg count ub = do {
     ub1 \<leftarrow> adjust_ushort cfg U_POSTS (\<lambda>v u. u\<lparr>u_posts := v\<rparr>) count ub;
     adjust_ushort cfg U_PTODAY (\<lambda>v u. u\<lparr>ur_ptoday := v\<rparr>) count ub1 }"

definition user_sent_email :: "user_cfg \<Rightarrow> int \<Rightarrow> bool \<Rightarrow> user_rec \<times> user_base \<Rightarrow> (user_rec \<times> user_base) option" where
  "user_sent_email cfg count feedback ub = do {
     ub1 \<leftarrow> (if feedback then adjust_ushort cfg U_FBACKS (\<lambda>v u. u\<lparr>ur_fbacks := v\<rparr>) count ub
             else adjust_ushort cfg U_EMAILS (\<lambda>v u. u\<lparr>ur_emails := v\<rparr>) count ub);
     adjust_ushort cfg U_ETODAY (\<lambda>v u. u\<lparr>ur_etoday := v\<rparr>) count ub1 }"

definition user_downloaded :: "user_cfg \<Rightarrow> int \<Rightarrow> int \<Rightarrow> user_rec \<times> user_base \<Rightarrow> (user_rec \<times> user_base) option" where
  "user_downloaded cfg files bytes ub = do {
     ub1 \<leftarrow> adjust_ushort cfg U_DLS (\<lambda>v u. u\<lparr>u_dls := v\<rparr>) files ub;
     adjust_ulong cfg U_DLB (\<lambda>v u. u\<lparr>u_dlb := v\<rparr>) bytes ub1 }"

definition user_uploaded :: "user_cfg \<Rightarrow> int \<Rightarrow> int \<Rightarrow> user_rec \<times> user_base \<Rightarrow> (user_rec \<times> user_base) option" where
  "user_uploaded cfg files bytes ub = do {
     ub1 \<leftarrow> adjust_ushort cfg U_ULS (\<lambda>v u. u\<lparr>u_uls := v\<rparr>) files ub;
     adjust_ulong cfg U_ULB (\<lambda>v u. u\<lparr>u_ulb := v\<rparr>) bytes ub1 }"

definition user_adjust_credits :: "user_cfg \<Rightarrow> int \<Rightarrow> user_rec \<times> user_base \<Rightarrow> (user_rec \<times> user_base) option" where
  "user_adjust_credits cfg amount ub =
     (if amount < 0 then subtract_cdt cfg (- amount) ub else adjust_ulong cfg U_CDT (\<lambda>v u. u\<lparr>u_cdt := v\<rparr>) amount ub)"

definition user_adjust_minutes :: "user_cfg \<Rightarrow> int \<Rightarrow> user_rec \<times> user_base \<Rightarrow> (user_rec \<times> user_base) option" where
  "user_adjust_minutes cfg amount ub = adjust_ulong cfg U_MIN (\<lambda>v u. u\<lparr>ur_min := v\<rparr>) amount ub"

text \<open>The counters of the day in memory and, with \<open>write\<close>, in the file; errors of writing are ignored.\<close>

fun put_all :: "user_cfg \<Rightarrow> nat \<Rightarrow> (nat \<times> nat \<times> byte list) list \<Rightarrow> user_base \<Rightarrow> user_base option" where
  "put_all cfg n [] b = Some b"
| "put_all cfg n ((start, len, str) # fs) b =
     (case putuserrec cfg n start len str b of None \<Rightarrow> None | Some (err, b1) \<Rightarrow> put_all cfg n fs b1)"

definition resetdailyuserdat :: "user_cfg \<Rightarrow> bool \<Rightarrow> user_rec \<times> user_base \<Rightarrow> (user_rec \<times> user_base) option" where
  "resetdailyuserdat cfg write = (\<lambda>(u, b).
     let u1 = resetdaily cfg u in
     if \<not> write then Some (u1, b)
     else do { b1 \<leftarrow> put_all cfg (unat (u_number u))
                 [(U_LTODAY, 5, [0x30]), (U_ETODAY, 5, [0x30]), (U_PTODAY, 5, [0x30]), (U_FREECDT, 10, ultoa10 (u_freecdt u1)),
                  (U_TTODAY, 5, [0x30]), (U_TEXTRA, 5, [0x30])] b;
               Some (u1, b1) })"

text \<open>
  A time of 0 is the current time. C divides towards zero, and a difference that does not fit in a
  ushort is cut at its maximum; a negative one keeps its low bits.
\<close>

definition logoutuserdat ::
  "user_cfg \<Rightarrow> (int \<Rightarrow> (int \<times> int \<times> int) option) \<Rightarrow> int \<Rightarrow> int \<Rightarrow> user_rec \<times> user_base \<Rightarrow> (bool \<times> user_rec \<times> user_base) option" where
  "logoutuserdat cfg day_of now0 logontime = (\<lambda>(u, b).
     let now = (if now0 = 0 then e_time (ub_env b) else now0);
         tused = tdiv (now - logontime) 60;
         tlast = (if 65535 < tused then 65535 else word_of_int tused :: u16);
         u1 = u\<lparr>ur_tlast := tlast\<rparr>; n = unat (u_number u)
     in do {
       b1 \<leftarrow> put_all cfg n [(U_LASTON, 8, put_time now), (U_TLAST, 5, ultoa10 (ucast tlast))] b;
       (v2, b2) \<leftarrow> adjustuserrec cfg n U_TIMEON 5 (uint tlast) b1;
       (v3, b3) \<leftarrow> adjustuserrec cfg n U_TTODAY 5 (uint tlast) b2;
       (case (day_of now, day_of logontime) of
          (Some (y1, m1, d1), Some (y2, m2, d2)) \<Rightarrow>
            if d2 \<noteq> d1 then map_option (Pair True) (resetdailyuserdat cfg True (u1, b3)) else Some (True, u1, b3)
        | _ \<Rightarrow> Some (False, u1, b3)) })"

end
