(* ===== verification/UserName.thy ===== *)
theory UserName
  imports UserFile
begin

text \<open>
  The names of the users in name.dat, a record of 27 bytes for every user, finding a user by his
  name, and the number of a new user (sbbs3/userdat.c, str\_util.c).
\<close>

section \<open>Names\<close>

definition NAME_LEN :: nat where "NAME_LEN = LEN_ALIAS + 2"

text \<open>The name in a record of the file, up to ETX.\<close>

definition name_text :: "byte list \<Rightarrow> byte list" where
  "name_text dat = cstr (takeWhile (\<lambda>c. c \<noteq> ETX) (take LEN_ALIAS dat))"

definition username :: "nat \<Rightarrow> user_base \<Rightarrow> byte list" where
  "username usernumber b =
     (if usernumber < 1 \<or> length (file_bytes b NAME_DAT) < 1 then []
      else case nopen b NAME_DAT False of (err, b1) \<Rightarrow>
        if err \<noteq> 0 \<or> length (file_bytes b NAME_DAT) < usernumber * NAME_LEN then []
        else let name = file_read b NAME_DAT ((usernumber - 1) * NAME_LEN) LEN_ALIAS
          in if hd name = ETX then cs ''DELETED USER'' else name_text name)"

definition name_record :: "byte list \<Rightarrow> byte list" where
  "name_record name = etx_fill LEN_ALIAS name @ crlf"

text \<open>Empty records up to the one of a number; a write that fails is tried for ever: None.\<close>

function fill_names :: "nat \<Rightarrow> user_base \<Rightarrow> user_base option" where
  "fill_names len b =
     (if len \<le> length (file_bytes b NAME_DAT) then Some b
      else if e_write (ub_env b) NAME_DAT \<noteq> 0 then None
      else fill_names len (b\<lparr>ub_disk := (ub_disk b)(NAME_DAT := Some (file_bytes b NAME_DAT @ name_record []))\<rparr>))"
  by auto
termination
  by (relation "measure (\<lambda>(n, b). n - length (file_bytes b NAME_DAT))")
    (auto simp: file_bytes_def name_record_def etx_fill_def crlf_def)

declare fill_names.simps [simp del]

definition putusername :: "nat \<Rightarrow> byte list \<Rightarrow> user_base \<Rightarrow> (int \<times> user_base) option" where
  "putusername number name b =
     (if number < 1 then Some (-1, b)
      else case nopen b NAME_DAT True of (err, b1) \<Rightarrow>
        if err \<noteq> 0 then Some (err, b1)
        else let len = length (file_bytes b1 NAME_DAT); total = lastuser b1;
                 b2 = (if total < len div NAME_LEN
                       then b1\<lparr>ub_disk := (ub_disk b1)(NAME_DAT := Some (take (total * NAME_LEN) (file_bytes b1 NAME_DAT)))\<rparr> else b1)
          in if len mod NAME_LEN \<noteq> 0 then Some (-3, b2)
             else case (if len < (number - 1) * NAME_LEN then fill_names (number * NAME_LEN) b2 else Some b2) of
               None \<Rightarrow> None
             | Some b3 \<Rightarrow> Some (file_write b3 NAME_DAT ((number - 1) * NAME_LEN) (name_record name)))"

section \<open>Finding a user by name\<close>

definition strip_space :: "byte list \<Rightarrow> byte list" where
  "strip_space str = filter (\<lambda>c. \<not> isspace_c c) str"

definition replace_chars :: "byte list \<Rightarrow> byte \<Rightarrow> byte \<Rightarrow> byte list" where
  "replace_chars str c1 c2 = map (\<lambda>c. if c = c1 then c2 else c) str"

text \<open>One kind of separator in the name of the file is replaced by another, all of them; or blanks are left out.\<close>

definition name_replaced :: "byte list \<Rightarrow> byte list \<Rightarrow> bool" where
  "name_replaced dat name \<longleftrightarrow>
     stricmp_eq dat name
     \<or> stricmp_eq (replace_chars dat 0x2E 0x20) name
     \<or> stricmp_eq (replace_chars dat 0x20 0x2E) name
     \<or> stricmp_eq (replace_chars dat 0x2E 0x5F) name
     \<or> stricmp_eq (replace_chars dat 0x5F 0x2E) name
     \<or> stricmp_eq (replace_chars dat 0x20 0x5F) name
     \<or> stricmp_eq (replace_chars dat 0x5F 0x20) name"

definition name_stripped :: "byte list \<Rightarrow> byte list \<Rightarrow> bool" where
  "name_stripped dat name \<longleftrightarrow> stricmp_eq (strip_space dat) (strip_space name)"

text \<open>
  The position of the record that matches, or the end. \<open>fread\<close> of a record that is cut off leaves
  the rest of the buffer as the record before it left it; None where it was never filled. The name
  without its blanks is copied to a buffer of 256 bytes; None where it does not fit.
\<close>

function match_loop :: "byte list \<Rightarrow> byte list \<Rightarrow> byte list \<Rightarrow> nat \<Rightarrow> nat option" where
  "match_loop names name old l =
     (if length names \<le> l then Some l
      else let bs = take NAME_LEN (drop l names); dat = bs @ drop (length bs) old in
        if length dat < NAME_LEN then None
        else if name_replaced (name_text dat) name then Some l
        else if 255 < length (strip_space name) then None
        else if name_stripped (name_text dat) name then Some l
        else match_loop names name (dat[length (takeWhile (\<lambda>c. c \<noteq> ETX) (take LEN_ALIAS dat)) := 0]) (l + NAME_LEN))"
  by auto
termination
  by (relation "measure (\<lambda>(names, name, old, l). length names - l)") (auto simp: NAME_LEN_def LEN_ALIAS_def)

declare match_loop.simps [simp del]

definition matchuser :: "user_cfg \<Rightarrow> byte list \<Rightarrow> bool \<Rightarrow> user_base \<Rightarrow> nat option" where
  "matchuser cfg name sysop_alias b =
     (if sysop_alias \<and> (stricmp_eq name (cs ''SYSOP'') \<or> stricmp_eq name (cs ''POSTMASTER'') \<or> stricmp_eq name (cfg_sys_id cfg))
      then Some 1
      else case nopen b NAME_DAT False of (err, b1) \<Rightarrow>
        if err \<noteq> 0 then Some 0
        else let names = file_bytes b NAME_DAT in
          map_option (\<lambda>l. if l < length names then l div NAME_LEN + 1 else 0) (match_loop names name [] 0))"

section \<open>New users\<close>

text \<open>
  The numbers from unum to count: the first without a name whose record was deleted long enough
  ago. \<open>str\<close> is the buffer that records and fields are read into. The time that has passed is
  unsigned, so a record from the future is old enough.
\<close>

function free_number :: "user_cfg \<Rightarrow> user_base \<Rightarrow> nat \<Rightarrow> byte list \<Rightarrow> nat \<Rightarrow> (nat \<times> byte list) option" where
  "free_number cfg b count str unum =
     (if count < unum then Some (unum, str)
      else let dat = file_read b NAME_DAT ((unum - 1) * NAME_LEN) NAME_LEN;
               c = length (takeWhile (\<lambda>x. x \<noteq> ETX) (take LEN_ALIAS dat));
               str0 = (dat @ drop NAME_LEN str)[c := 0]
        in if c \<noteq> 0 then free_number cfg b count str0 (unum + 1)
        else case getuserrec unum U_MISC 8 str0 b of None \<Rightarrow> None | Some (e1, str1) \<Rightarrow>
          if ahtoul (cstr str1) AND DELETED = 0 then free_number cfg b count str1 (unum + 1)
          else case getuserrec unum U_LASTON 8 str1 b of None \<Rightarrow> None | Some (e2, str2) \<Rightarrow>
            if cfg_sys_deldays cfg \<le> uint ((word_of_int (e_time (ub_env b)) - ahtoul (cstr str2)) div 86400) then Some (unum, str2)
            else free_number cfg b count str2 (unum + 1))"
  by auto
termination
  by (relation "measure (\<lambda>(cfg, b, count, str, unum). count + 1 - unum)") auto

declare free_number.simps [simp del]

text \<open>The number that a new user gets. Without name.dat the buffer holds its path.\<close>

definition new_number :: "user_cfg \<Rightarrow> user_base \<Rightarrow> (int + nat) option" where
  "new_number cfg b =
     (let path = cfg_data_dir cfg @ cs ''user/name.dat'' @ [0];
          names = (if ub_disk b NAME_DAT = None then Some (Inr (1, path))
                   else let err = fst (nopen b NAME_DAT False) in
                     if err \<noteq> 0 then Some (Inl err)
                     else map_option Inr (free_number cfg b (length (file_bytes b NAME_DAT) div NAME_LEN) path 1))
      in case names of None \<Rightarrow> None | Some (Inl err) \<Rightarrow> Some (Inl err)
         | Some (Inr (unum, str)) \<Rightarrow>
           (let last = lastuser b in
            if last + 1 < unum then Some (Inr (last + 1))
            else if unum \<le> last
            then case getuserrec unum U_MISC 8 str b of None \<Rightarrow> None | Some (e, misc) \<Rightarrow>
              Some (Inr (if ahtoul (cstr misc) AND DELETED = 0 then last + 1 else unum))
            else Some (Inr unum)))"

text \<open>
  Adding a user: the result and the user with his number, a ushort. The files that an earlier
  user of the number has left and the daily statistics are not part of the user base.
\<close>

definition newuserdat :: "user_cfg \<Rightarrow> user_rec \<Rightarrow> user_base \<Rightarrow> (int \<times> user_rec \<times> user_base) option" where
  "newuserdat cfg u b =
     (case new_number cfg b of None \<Rightarrow> None | Some (Inl err) \<Rightarrow> Some (err, u, b)
      | Some (Inr unum) \<Rightarrow>
        let u1 = u\<lparr>u_number := word_of_nat unum\<rparr> in
        case putusername (unat (u_number u1)) (ur_alias u) b of None \<Rightarrow> None | Some (err, b1) \<Rightarrow>
          if err \<noteq> 0 then Some (err, u1, b1)
          else map_option (\<lambda>(err, b2). (err, u1, b2)) (putuserdat cfg u1 b1))"

end
