(* ===== verification/UserProps.thy ===== *)
theory UserProps
  imports UserTrip UserName Settings
begin

text \<open>
  Properties of the user base: what was stored is loaded, writing a record or a field leaves all
  others as they are, and counters and credits add up.
\<close>

section \<open>Calls that are not disturbed\<close>

text \<open>A file that opens, whose regions can be locked, and to which can be written.\<close>

definition file_ready :: "user_base \<Rightarrow> user_file \<Rightarrow> bool" where
  "file_ready b f \<longleftrightarrow> ub_disk b f \<noteq> None \<and> nopen_loop (e_sopen (ub_env b) f) 0 = 0
     \<and> (\<forall>pos. file_lock b f pos) \<and> e_write (ub_env b) f = 0"

lemma nopen_ready: "file_ready b f \<Longrightarrow> nopen b f creat = (0, b)"
  by (auto simp: file_ready_def nopen_def)

lemma lock_ready: "file_ready b f \<Longrightarrow> file_lock b f pos"
  by (simp add: file_ready_def)

lemma file_write_ready:
  "file_ready b f \<Longrightarrow> file_write b f pos bs = (0, b\<lparr>ub_disk := (ub_disk b)(f := Some (overwrite (file_bytes b f) pos bs))\<rparr>)"
  by (simp add: file_ready_def file_write_def)

lemma putnodedat_other: "f \<noteq> NODE_DAB \<Longrightarrow> ub_disk (snd (putnodedat cfg i n b)) f = ub_disk b f"
  "ub_env (snd (putnodedat cfg i n b)) = ub_env b"
  by (auto simp: putnodedat_def file_write_def)

lemma dirty_loop_other:
  "(f \<noteq> NODE_DAB \<longrightarrow> ub_disk (dirty_loop cfg n is b) f = ub_disk b f) \<and> ub_env (dirty_loop cfg n is b) = ub_env b"
proof (induction "is")
  case (Cons i "is")
  then show ?case by (auto simp: Let_def putnodedat_other split: prod.split)
qed simp

lemma dirtyuserdat_other [simp]:
  "f \<noteq> NODE_DAB \<Longrightarrow> ub_disk (dirtyuserdat cfg n b) f = ub_disk b f" "ub_env (dirtyuserdat cfg n b) = ub_env b"
  "f \<noteq> NODE_DAB \<Longrightarrow> file_bytes (dirtyuserdat cfg n b) f = file_bytes b f"
  by (simp_all add: dirtyuserdat_def dirty_loop_other file_bytes_def)

lemma file_lock_env: "ub_env b1 = ub_env b \<Longrightarrow> file_lock b1 f pos = file_lock b f pos"
  by (simp add: file_lock_def)

text \<open>The base after the bytes at a position of user.dat are written.\<close>

definition user_written :: "user_base \<Rightarrow> nat \<Rightarrow> byte list \<Rightarrow> user_base \<Rightarrow> bool" where
  "user_written b pos bs b1 \<longleftrightarrow> file_bytes b1 USER_DAT = overwrite (file_bytes b USER_DAT) pos bs \<and> file_ready b1 USER_DAT"

lemma written_dirty:
  assumes "file_ready b USER_DAT"
  shows "user_written b pos bs (dirtyuserdat cfg n (snd (file_write b USER_DAT pos bs)))"
  using assms by (simp add: user_written_def file_write_ready file_ready_def file_lock_def file_bytes_def)

lemma length_user_record: "user_record cfg u = Some userdat \<Longrightarrow> length userdat = U_LEN"
proof -
  assume "user_record cfg u = Some userdat"
  then obtain x sh where "userdat = put_fields (user_fields x sh u)" by (auto simp: user_record_def)
  moreover have "\<forall>(o1, l) \<in> set user_lay. o1 + l \<le> 834" by (rule user_lay_inside)
  then have "\<forall>(o1, l, s) \<in> set (user_fields x sh u). o1 + l \<le> length (replicate U_LEN ETX)"
    unfolding user_fields_lay [of x sh u, symmetric] by (auto simp: user_offsets)
  ultimately show ?thesis using length_put_fields [of "user_fields x sh u" "replicate U_LEN ETX"] by (simp add: put_fields_def)
qed

lemma U_LEN_pos [simp]: "0 < U_LEN"
  by (simp add: user_offsets)

lemma user_pos_apart:
  assumes "1 \<le> n" "1 \<le> m" "m \<noteq> n"
  shows "user_pos m + U_LEN \<le> user_pos n \<or> user_pos n + U_LEN \<le> user_pos m"
proof -
  have "m - 1 + 1 \<le> n - 1 \<or> n - 1 + 1 \<le> m - 1" using assms by linarith
  then have "(m - 1 + 1) * U_LEN \<le> (n - 1) * U_LEN \<or> (n - 1 + 1) * U_LEN \<le> (m - 1) * U_LEN"
    using mult_le_mono1 by blast
  then show ?thesis by (simp add: user_pos_def algebra_simps)
qed

lemma read_overwrite_apart:
  "pos1 + len \<le> length data \<or> pos + length bs \<le> pos1 \<Longrightarrow> pos1 + len \<le> pos \<or> pos + length bs \<le> pos1 \<Longrightarrow>
    take len (drop pos1 (overwrite data pos bs)) = take len (drop pos1 data)"
  by (rule nth_equalityI) (auto simp: nth_overwrite)

lemma user_inside: "1 \<le> n \<Longrightarrow> n \<le> len div U_LEN \<Longrightarrow> user_pos n + U_LEN \<le> len"
proof -
  assume "1 \<le> n" "n \<le> len div U_LEN"
  then have "user_pos n + U_LEN = n * U_LEN" "n * U_LEN \<le> len div U_LEN * U_LEN"
    by (simp_all add: user_pos_def diff_mult_distrib)
  then show ?thesis using div_times_less_eq_dividend [of len U_LEN] by linarith
qed

lemma unat_pos: "(v :: u16) \<noteq> 0 \<Longrightarrow> 1 \<le> unat v"
  using unat_eq_zero [of v] by linarith

section \<open>Whole records\<close>

lemma records_after:
  assumes "1 \<le> n" "user_pos n \<le> len"
  shows "max len (user_pos n + U_LEN) div U_LEN = max (len div U_LEN) n"
proof -
  have "user_pos n + U_LEN = n * U_LEN" using assms(1) by (simp add: user_pos_def diff_mult_distrib)
  then show ?thesis by (auto simp: max_def less_eq_div_iff_mult_less_eq div_le_mono dest: div_le_mono [of _ _ U_LEN] intro: antisym)
qed

lemma putuserdat_written:
  assumes "file_ready b USER_DAT" "user_record cfg u = Some userdat" "u_number u \<noteq> 0"
    and "user_pos (unat (u_number u)) \<le> length (file_bytes b USER_DAT)"
  obtains b1 where "putuserdat cfg u b = Some (0, b1)" "user_written b (user_pos (unat (u_number u))) userdat b1"
proof -
  have n: "\<not> unat (u_number u) < 1" using unat_pos [OF assms(3)] by simp
  let ?b1 = "dirtyuserdat cfg (unat (u_number u)) (snd (file_write b USER_DAT (user_pos (unat (u_number u))) userdat))"
  have "putuserdat cfg u b = Some (0, ?b1)"
    using assms n by (simp add: putuserdat_def nopen_ready lock_ready file_write_ready Let_def)
  then show ?thesis using that written_dirty [OF assms(1)] by blast
qed

lemma getuserdat_ready:
  assumes "file_ready b USER_DAT" "m \<noteq> 0"
  shows "getuserdat cfg w day_of m b st =
    (if length (file_bytes b USER_DAT) div U_LEN < unat m then Some (-1, None)
     else map_option (\<lambda>r. (0, Some r)) (user_parse cfg w day_of m (file_read b USER_DAT (user_pos (unat m)) U_LEN) st))"
  using assms by (simp add: getuserdat_def nopen_ready lock_ready unat_eq_zero less_Suc_eq)


section \<open>Fields\<close>

text \<open>A field of a user is his number, an offset and a length.\<close>

type_synonym user_field = "nat \<times> nat \<times> nat"

definition get_field :: "user_base \<Rightarrow> user_field \<Rightarrow> byte list" where
  "get_field b k = (case k of (n, start, len) \<Rightarrow>
     (case getuserrec n start len [] b of None \<Rightarrow> [] | Some (err, str) \<Rightarrow> if err = 0 then cstr str else []))"

definition set_field :: "user_cfg \<Rightarrow> user_field \<Rightarrow> byte list \<Rightarrow> user_base \<Rightarrow> user_base" where
  "set_field cfg k v b = (case k of (n, start, len) \<Rightarrow> (case putuserrec cfg n start len v b of None \<Rightarrow> b | Some (err, b1) \<Rightarrow> b1))"

definition users_ok :: "nat \<Rightarrow> user_base \<Rightarrow> bool" where
  "users_ok users b \<longleftrightarrow> file_ready b USER_DAT \<and> users \<le> lastuser b"

definition field_in :: "nat \<Rightarrow> user_field \<Rightarrow> bool" where
  "field_in users k \<longleftrightarrow> (case k of (n, start, len) \<Rightarrow> 1 \<le> n \<and> n \<le> users \<and> 0 < len \<and> len \<le> 255 \<and> start + len \<le> U_LEN)"

definition field_ok :: "nat \<Rightarrow> user_field \<Rightarrow> byte list \<Rightarrow> bool" where
  "field_ok users k v \<longleftrightarrow> field_in users k \<and> rec_text (snd (snd k)) v"

definition same_field :: "user_field \<Rightarrow> user_field \<Rightarrow> bool" where
  "same_field k k1 \<longleftrightarrow> fst k = fst k1 \<and> \<not> apart (snd k) (snd k1)"

lemma cstr_zero: "cstr (a @ 0 # b) = cstr a"
  by (induction a) (auto simp: cstr_def)

lemma cstr_end_field: "cstr (end_field (length bs) bs) = field_text bs"
proof -
  let ?t = "takeWhile (\<lambda>c. c \<noteq> ETX \<and> c \<noteq> CR) bs"
  have t: "?t = take (length ?t) bs" by (metis takeWhile_eq_take)
  show ?thesis
  proof (cases "length ?t < length bs")
    case True
    then have "bs[length ?t := 0] = ?t @ 0 # drop (Suc (length ?t)) bs" using t upd_conv_take_nth_drop [OF True] by simp
    then have "cstr (bs[length ?t := 0]) = cstr ?t" by (simp only: cstr_zero)
    then show ?thesis by (simp add: end_field_def field_text_def)
  next
    case False
    then have "bs[length ?t := 0] = bs" "?t = bs" using t list_update_beyond [of bs "length ?t"] by simp_all
    then show ?thesis unfolding end_field_def field_text_def by (simp only: take_all order_refl)
  qed
qed

lemma field_text_fill: "rec_text len v \<Longrightarrow> field_text (etx_fill len v) = v"
proof -
  assume v: "rec_text len v"
  then have "etx_fill len v = v @ replicate (len - length v) ETX" by (simp add: rec_text_def etx_fill_def)
  moreover have "takeWhile (\<lambda>c. c \<noteq> ETX \<and> c \<noteq> CR) (v @ replicate (len - length v) ETX) = v"
    by (rule takeWhile_fill) (use v in \<open>auto simp: rec_text_def rec_char_def\<close>)
  moreover have "cstr v = v" using v by (auto simp: rec_text_def rec_char_def intro: cstr_id)
  ultimately show ?thesis by (simp add: field_text_def)
qed

lemma field_inside:
  assumes "users_ok users b" "field_in users (n, start, len)"
  shows "user_pos n + start + len \<le> length (file_bytes b USER_DAT)"
  using assms user_inside [of n "length (file_bytes b USER_DAT)"] by (simp add: users_ok_def field_in_def lastuser_def)

lemma get_field_text:
  assumes "users_ok users b" "field_in users (n, start, len)"
  shows "get_field b (n, start, len) = field_text (file_read b USER_DAT (user_pos n + start) len)"
proof -
  let ?bs = "file_read b USER_DAT (user_pos n + start) len"
  have "length ?bs = len" using field_inside [OF assms] by (simp add: file_read_def)
  moreover have "file_ready b USER_DAT" using assms(1) by (simp add: users_ok_def)
  ultimately show ?thesis using assms(2) field_inside [OF assms] cstr_end_field [of ?bs]
    by (simp add: get_field_def getuserrec_def field_in_def nopen_ready lock_ready auto_length_def Let_def)
qed

lemma write_field:
  assumes "users_ok users b" "field_in users (n, start, len)"
    and "user_written b (user_pos n + start) (etx_fill len v) b1"
  shows "users_ok users b1" "get_field b1 (n, start, len) = field_text (etx_fill len v)"
    and "field_in users k \<Longrightarrow> \<not> same_field (n, start, len) k \<Longrightarrow> get_field b1 k = get_field b k"
proof -
  have bytes: "file_bytes b1 USER_DAT = overwrite (file_bytes b USER_DAT) (user_pos n + start) (etx_fill len v)"
    and ready: "file_ready b1 USER_DAT" using assms(3) by (simp_all add: user_written_def)
  have inside: "user_pos n + start + len \<le> length (file_bytes b USER_DAT)" by (rule field_inside [OF assms(1,2)])
  show ok: "users_ok users b1" using assms(1) ready inside by (simp add: users_ok_def lastuser_def bytes max_def)
  have "file_read b1 USER_DAT (user_pos n + start) len = etx_fill len v"
    using take_drop_overwrite [of "etx_fill len v"] by (simp add: file_read_def bytes)
  then show "get_field b1 (n, start, len) = field_text (etx_fill len v)" using get_field_text [OF ok assms(2)] by simp
  assume k: "field_in users k" "\<not> same_field (n, start, len) k"
  obtain n1 s1 l1 where k1: "k = (n1, s1, l1)" by (cases k)
  have inside1: "user_pos n1 + s1 + l1 \<le> length (file_bytes b USER_DAT)" using field_inside [OF assms(1)] k(1) k1 by blast
  have "user_pos n1 + s1 + l1 \<le> user_pos n + start \<or> user_pos n + start + len \<le> user_pos n1 + s1"
  proof (cases "n1 = n")
    case True
    then show ?thesis using k(2) k1 by (auto simp: same_field_def apart_def)
  next
    case False
    then show ?thesis using user_pos_apart [of n n1] k(1) k1 assms(2) by (auto simp: field_in_def)
  qed
  then have "file_read b1 USER_DAT (user_pos n1 + s1) l1 = file_read b USER_DAT (user_pos n1 + s1) l1"
    unfolding file_read_def bytes by (intro read_overwrite_apart) (use inside1 in auto)
  then show "get_field b1 k = get_field b k" using get_field_text [OF ok] get_field_text [OF assms(1)] k(1) k1 by simp
qed

lemma putuserrec_written:
  assumes "users_ok users b" "field_ok users (n, start, len) v"
  obtains b1 where "putuserrec cfg n start len v b = Some (0, b1)" "user_written b (user_pos n + start) (etx_fill len v) b1"
proof -
  have k: "field_in users (n, start, len)" "length v \<le> len" and r: "file_ready b USER_DAT"
    using assms by (simp_all add: field_ok_def users_ok_def rec_text_def)
  have "putuserrec cfg n start len v b
      = Some (0, dirtyuserdat cfg n (snd (file_write b USER_DAT (user_pos n + start) (etx_fill len v))))"
    using k field_inside [OF assms(1) k(1)] r
    by (simp add: putuserrec_def field_in_def nopen_ready lock_ready auto_length_def Let_def)
  then show ?thesis using that written_dirty [OF r] by blast
qed

interpretation user_fields: setting_store "users_ok users" "field_ok users" same_field get_field "set_field cfg" for users cfg
proof unfold_locales
  fix b k v
  assume ok: "users_ok users b" "field_ok users k v"
  obtain n start len where k: "k = (n, start, len)" by (cases k)
  obtain b1 where b1: "putuserrec cfg n start len v b = Some (0, b1)" "user_written b (user_pos n + start) (etx_fill len v) b1"
    by (rule putuserrec_written [OF ok [unfolded k]])
  have kin: "field_in users (n, start, len)" "rec_text len v" using ok(2) k by (simp_all add: field_ok_def)
  have set: "set_field cfg k v b = b1" using b1(1) by (simp add: set_field_def k)
  note w = write_field [OF ok(1) kin(1) b1(2)]
  show "users_ok users (set_field cfg k v b)" using w(1) set by simp
  show "get_field (set_field cfg k v b) k = v" using w(2) set field_text_fill [OF kin(2)] k by simp
  fix k1 v1
  assume "field_ok users k1 v1" "\<not> same_field k k1"
  then show "get_field (set_field cfg k v b) k1 = get_field b k1" using w(3) set k by (simp add: field_ok_def)
qed

section \<open>Counters\<close>

text \<open>The sum, not below zero.\<close>

definition clipped_sum :: "nat \<Rightarrow> int \<Rightarrow> nat" where
  "clipped_sum v adj = nat (int v + adj)"

lemma adjusted_clipped:
  "v < 2 ^ 62 \<Longrightarrow> - (2 ^ 62) < adj \<Longrightarrow> adj < 2 ^ 62 \<Longrightarrow> adjusted (int v) adj = Some (int (clipped_sum v adj))"
  by (auto simp: adjusted_def clipped_sum_def Let_def)

lemma atol_dec_nat: "v < 2 ^ 62 \<Longrightarrow> atol_c (dec_nat v) = int v"
  using atoi_dec_nat [of "[]" v] by (simp add: atol_c_def)

lemma rec_text_digits: "rec_text len (take len (dec_nat v))"
  using dec_nat_digits [of v] isdigit_rec_char by (auto simp: rec_text_def dest: in_set_takeD)

lemma take_fill: "etx_fill len (take len s) = etx_fill len s"
  by (simp add: etx_fill_def)

lemma adjustuserrec_written:
  assumes "users_ok users b" "field_in users (n, start, len)" "get_field b (n, start, len) = dec_nat v"
    and "v < 2 ^ 62" "- (2 ^ 62) < adj" "adj < 2 ^ 62"
  obtains b1 where "adjustuserrec cfg n start len adj b = Some (word_of_nat (clipped_sum v adj), b1)"
    and "user_written b (user_pos n + start) (etx_fill len (dec_nat (clipped_sum v adj))) b1"
proof -
  let ?s = "clipped_sum v adj"
  have ready: "file_ready b USER_DAT" using assms(1) by (simp add: users_ok_def)
  have "length (file_read b USER_DAT (user_pos n + start) len) = len"
    using field_inside [OF assms(1,2)] by (simp add: file_read_def)
  moreover have "adjusted (atol_c (field_text (file_read b USER_DAT (user_pos n + start) len))) adj = Some (int ?s)"
    using assms(3-6) get_field_text [OF assms(1,2)] by (simp add: atol_dec_nat adjusted_clipped)
  moreover have "ultoa10 (word_of_int (int ?s)) = dec_nat ?s"
  proof -
    have "?s < 2 ^ 63" using assms(4,6) by (simp add: clipped_sum_def nat_less_iff)
    then show ?thesis by (simp add: ultoa10_def unat_of_nat_ulong)
  qed
  ultimately have "adjustuserrec cfg n start len adj b = Some (word_of_nat ?s,
      dirtyuserdat cfg n (snd (file_write b USER_DAT (user_pos n + start) (etx_fill len (dec_nat ?s)))))"
    using assms(2) field_inside [OF assms(1,2)] ready
    by (simp add: adjustuserrec_def field_in_def nopen_ready lock_ready auto_length_def Let_def file_write_ready)
  then show ?thesis using that written_dirty [OF ready] by blast
qed

lemma adjustuserrec_field:
  assumes "users_ok users b" "field_in users (n, start, len)" "get_field b (n, start, len) = dec_nat v"
    and "v < 2 ^ 62" "- (2 ^ 62) < adj" "adj < 2 ^ 62"
  obtains b1 where "adjustuserrec cfg n start len adj b = Some (word_of_nat (clipped_sum v adj), b1)"
    and "users_ok users b1" "get_field b1 (n, start, len) = take len (dec_nat (clipped_sum v adj))"
    and "\<And>k. field_in users k \<Longrightarrow> \<not> same_field (n, start, len) k \<Longrightarrow> get_field b1 k = get_field b k"
proof -
  obtain b1 where b1: "adjustuserrec cfg n start len adj b = Some (word_of_nat (clipped_sum v adj), b1)"
    "user_written b (user_pos n + start) (etx_fill len (dec_nat (clipped_sum v adj))) b1"
    by (rule adjustuserrec_written [OF assms])
  note w = write_field [OF assms(1,2) b1(2)]
  have "field_text (etx_fill len (dec_nat (clipped_sum v adj))) = take len (dec_nat (clipped_sum v adj))"
    using field_text_fill [OF rec_text_digits] take_fill by metis
  then show ?thesis using that b1(1) w by simp
qed

text \<open>
  C11: a counter in a user's record is adjusted by exactly the amount, but not below zero, the
  new count is returned, and no other field of any user changes. What is stored are the first
  digits of the count, as many as the field has room for: the count itself as long as it fits.
\<close>

theorem adjustuserrec_adds:
  assumes "users_ok users b" "field_in users (n, start, len)" "get_field b (n, start, len) = dec_nat v"
    and "v < 2 ^ 62" "- (2 ^ 62) < adj" "adj < 2 ^ 62"
  shows "\<exists>b1. adjustuserrec cfg n start len adj b = Some (word_of_nat (nat (int v + adj)), b1)
    \<and> get_field b1 (n, start, len) = take len (dec_nat (nat (int v + adj)))
    \<and> (nat (int v + adj) < 10 ^ len \<longrightarrow> get_field b1 (n, start, len) = dec_nat (nat (int v + adj)))
    \<and> (\<forall>k. field_in users k \<and> \<not> same_field (n, start, len) k \<longrightarrow> get_field b1 k = get_field b k)"
proof -
  obtain b1 where b1: "adjustuserrec cfg n start len adj b = Some (word_of_nat (clipped_sum v adj), b1)"
    "users_ok users b1" "get_field b1 (n, start, len) = take len (dec_nat (clipped_sum v adj))"
    "\<And>k. field_in users k \<Longrightarrow> \<not> same_field (n, start, len) k \<Longrightarrow> get_field b1 k = get_field b k"
    by (rule adjustuserrec_field [OF assms, of cfg]) blast
  have "0 < len" using assms(2) by (simp add: field_in_def)
  then have "clipped_sum v adj < 10 ^ len \<Longrightarrow> take len (dec_nat (clipped_sum v adj)) = dec_nat (clipped_sum v adj)"
    using length_dec_nat by simp
  then show ?thesis using b1 unfolding clipped_sum_def by auto
qed

section \<open>Credits\<close>

text \<open>The credits in memory are those in the file.\<close>

definition credits_agree :: "nat \<Rightarrow> user_rec \<times> user_base \<Rightarrow> bool" where
  "credits_agree users ub \<longleftrightarrow> (case ub of (u, b) \<Rightarrow>
     users_ok users b \<and> 1 \<le> unat (u_number u) \<and> unat (u_number u) \<le> users
     \<and> get_field b (unat (u_number u), U_FREECDT, 10) = ultoa10 (u_freecdt u)
     \<and> get_field b (unat (u_number u), U_CDT, 10) = ultoa10 (u_cdt u)
     \<and> unat (u_freecdt u) < 10 ^ 10 \<and> unat (u_cdt u) < 10 ^ 10)"

lemma credit_fields:
  "1 \<le> n \<Longrightarrow> n \<le> users \<Longrightarrow> field_in users (n, U_FREECDT, 10) \<and> field_in users (n, U_CDT, 10)
    \<and> \<not> same_field (n, U_FREECDT, 10) (n, U_CDT, 10) \<and> \<not> same_field (n, U_CDT, 10) (n, U_FREECDT, 10)"
  by (simp add: field_in_def same_field_def apart_def user_offsets)

lemma adjust_cdt:
  assumes "credits_agree users (u, b)" "0 \<le> amt" "amt < 2 ^ 62"
  obtains b1 where "adjustuserrec cfg (unat (u_number u)) U_CDT 10 (- amt) b = Some (word_of_nat (unat (u_cdt u) - nat amt), b1)"
    and "credits_agree users (u\<lparr>u_cdt := word_of_nat (unat (u_cdt u) - nat amt)\<rparr>, b1)"
proof -
  let ?n = "unat (u_number u)" and ?c = "unat (u_cdt u) - nat amt"
  have a: "users_ok users b" "1 \<le> ?n" "?n \<le> users" "get_field b (?n, U_CDT, 10) = dec_nat (unat (u_cdt u))"
    "unat (u_cdt u) < 2 ^ 62" using assms(1) by (auto simp: credits_agree_def ultoa10_def)
  note f = credit_fields [OF a(2,3)]
  have s: "clipped_sum (unat (u_cdt u)) (- amt) = ?c" using assms(2) by (simp add: clipped_sum_def nat_diff_distrib')
  obtain b1 where b1: "adjustuserrec cfg ?n U_CDT 10 (- amt) b = Some (word_of_nat ?c, b1)" "users_ok users b1"
    "get_field b1 (?n, U_CDT, 10) = take 10 (dec_nat ?c)"
    "\<And>k. field_in users k \<Longrightarrow> \<not> same_field (?n, U_CDT, 10) k \<Longrightarrow> get_field b1 k = get_field b k"
    by (rule adjustuserrec_field [OF a(1) _ a(4,5), where adj = "- amt" and cfg = cfg]) (use f assms(2,3) s in auto)
  have c: "?c < 10 ^ 10" using assms(1) by (auto simp: credits_agree_def)
  then have "take 10 (dec_nat ?c) = ultoa10 (word_of_nat ?c)"
    using length_dec_nat [OF c] by (simp add: ultoa10_def unat_of_nat_ulong)
  then have "credits_agree users (u\<lparr>u_cdt := word_of_nat ?c\<rparr>, b1)"
    using b1(2,3) b1(4) [of "(?n, U_FREECDT, 10)"] f c assms(1) by (simp add: credits_agree_def unat_of_nat_ulong)
  then show ?thesis using that b1(1) by blast
qed

lemma put_freecdt:
  assumes "credits_agree users (u, b)" "unat v < 10 ^ 10"
  obtains b1 where "putuserrec cfg (unat (u_number u)) U_FREECDT 10 (ultoa10 v) b = Some (0, b1)"
    and "credits_agree users (u\<lparr>u_freecdt := v\<rparr>, b1)"
proof -
  let ?n = "unat (u_number u)"
  have a: "users_ok users b" "1 \<le> ?n" "?n \<le> users" using assms(1) by (auto simp: credits_agree_def)
  note f = credit_fields [OF a(2,3)]
  have t: "rec_text 10 (ultoa10 v)" by (rule ultoa10_text [OF assms(2)]) simp
  have fo: "field_ok users (?n, U_FREECDT, 10) (ultoa10 v)" using f t by (simp add: field_ok_def)
  obtain b1 where b1: "putuserrec cfg ?n U_FREECDT 10 (ultoa10 v) b = Some (0, b1)"
    "user_written b (user_pos ?n + U_FREECDT) (etx_fill 10 (ultoa10 v)) b1"
    by (rule putuserrec_written [OF a(1) fo])
  note w = write_field [OF a(1) conjunct1 [OF f] b1(2)]
  have "credits_agree users (u\<lparr>u_freecdt := v\<rparr>, b1)"
    using w(1,2) w(3) [of "(?n, U_CDT, 10)"] f field_text_fill [OF t] assms by (simp add: credits_agree_def)
  then show ?thesis using that b1(1) by blast
qed

text \<open>
  C10: subtracting credits takes them from the free credits of the day first and only the rest from
  the user's own credits, neither below zero, so the two together become less by exactly the
  amount or nothing is left of them; the file agrees with the user in memory afterwards.
\<close>

theorem subtract_cdt_total:
  assumes "credits_agree users (u, b)" "0 \<le> amt" "amt < 2 ^ 62"
  shows "\<exists>u1 b1. subtract_cdt cfg amt (u, b) = Some (u1, b1) \<and> credits_agree users (u1, b1)
    \<and> unat (u_freecdt u1) = unat (u_freecdt u) - nat amt
    \<and> unat (u_cdt u1) = unat (u_cdt u) - (nat amt - unat (u_freecdt u))
    \<and> unat (u_freecdt u1) + unat (u_cdt u1) = unat (u_freecdt u) + unat (u_cdt u) - nat amt"
proof -
  let ?f = "unat (u_freecdt u)" and ?c = "unat (u_cdt u)" and ?a = "nat amt"
  have bound: "?f < 10 ^ 10" "?c < 10 ^ 10" using assms(1) by (auto simp: credits_agree_def)
  have wa: "unat (word_of_int amt :: ulong) = ?a"
    using assms(2,3) by (simp add: unat_eq_nat_uint uint_word_of_int take_bit_int_eq_self)
  have un: "unat (word_of_nat (?c - k) :: ulong) = ?c - k" for k using bound(2) by (simp add: unat_of_nat_ulong)
  consider (zero) "amt = 0" | (own) "amt \<noteq> 0" "u_freecdt u = 0" | (free) "amt \<noteq> 0" "u_freecdt u \<noteq> 0" "?a \<le> ?f"
    | (both) "amt \<noteq> 0" "u_freecdt u \<noteq> 0" "?f < ?a" by linarith
  then show ?thesis
  proof cases
    case zero
    then show ?thesis using assms(1) by (simp add: subtract_cdt_def)
  next
    case own
    obtain b1 where b1: "adjustuserrec cfg (unat (u_number u)) U_CDT 10 (- amt) b = Some (word_of_nat (?c - ?a), b1)"
      "credits_agree users (u\<lparr>u_cdt := word_of_nat (?c - ?a)\<rparr>, b1)" by (rule adjust_cdt [OF assms])
    then show ?thesis using own un by (auto simp: subtract_cdt_def)
  next
    case free
    let ?v = "u_freecdt u - word_of_int amt"
    have v: "unat ?v = ?f - ?a" using free(3) wa by (simp add: unat_sub word_le_nat_alt)
    have "\<not> u_freecdt u < word_of_int amt" using free(3) wa by (simp add: word_less_nat_alt)
    moreover obtain b1 where "putuserrec cfg (unat (u_number u)) U_FREECDT 10 (ultoa10 ?v) b = Some (0, b1)"
      "credits_agree users (u\<lparr>u_freecdt := ?v\<rparr>, b1)" by (rule put_freecdt [OF assms(1), of ?v]) (use v bound in auto)
    ultimately show ?thesis using free v by (auto simp: subtract_cdt_def)
  next
    case both
    have z: "ultoa10 0 = [0x30]" by (simp add: ultoa10_def dec_nat.simps digit_c_def)
    have less: "u_freecdt u < word_of_int amt" using both(3) wa by (simp add: word_less_nat_alt)
    obtain b1 where b1: "putuserrec cfg (unat (u_number u)) U_FREECDT 10 [0x30] b = Some (0, b1)"
      "credits_agree users (u\<lparr>u_freecdt := 0\<rparr>, b1)" using put_freecdt [OF assms(1), of 0 cfg] z by auto
    have d: "unat (word_of_int amt - u_freecdt u) = ?a - ?f" using both(3) wa by (simp add: unat_sub word_le_nat_alt)
    have si: "sint (word_of_int amt - u_freecdt u) = int (?a - ?f)"
    proof -
      have "word_of_int amt - u_freecdt u = word_of_nat (?a - ?f)" using d by (metis unat_of_nat_ulong of_nat_unat ucast_id word_unat_eq_iff)
      then show ?thesis using assms(3) by (simp add: sint_of_nat_small)
    qed
    have less1: "0 \<le> int (?a - ?f)" "int (?a - ?f) < 2 ^ 62" using assms(3) by auto
    obtain b2 where "adjustuserrec cfg (unat (u_number u)) U_CDT 10 (- int (?a - ?f)) b1 = Some (word_of_nat (?c - (?a - ?f)), b2)"
      "credits_agree users (u\<lparr>u_freecdt := 0, u_cdt := word_of_nat (?c - (?a - ?f))\<rparr>, b2)"
      using adjust_cdt [OF b1(2) less1, of cfg] by auto
    then show ?thesis using both less b1(1) si un [of "?a - ?f"] by (auto simp: subtract_cdt_def)
  qed
qed

section \<open>Samples\<close>

definition calm_env :: user_env where
  "calm_env = \<lparr>e_sopen = (\<lambda>f k. 0), e_lock = (\<lambda>f pos k. True), e_write = (\<lambda>f. 0), e_time = 1300000000\<rparr>"

definition sample_base :: "nat \<Rightarrow> user_base" where
  "sample_base users = \<lparr>ub_disk = (\<lambda>f. None)(USER_DAT := Some (replicate (users * U_LEN) ETX), NAME_DAT := Some []), ub_env = calm_env\<rparr>"

lemma calm_ready: "ub_env b = calm_env \<Longrightarrow> ub_disk b f \<noteq> None \<Longrightarrow> file_ready b f"
proof -
  assume "ub_env b = calm_env" "ub_disk b f \<noteq> None"
  moreover have "nopen_loop (\<lambda>k. 0) 0 = 0" by (subst nopen_loop.simps) (simp add: open_again_def)
  moreover have "lock_loop (\<lambda>k. True) 0" by (subst lock_loop.simps) (simp add: LOOP_NODEDAB_def)
  ultimately show ?thesis by (simp add: file_ready_def file_lock_def calm_env_def)
qed

lemma sample_ready: "file_ready (sample_base users) USER_DAT"
  by (rule calm_ready) (simp_all add: sample_base_def)

lemma sample_users: "users_ok users (sample_base users)"
  using sample_ready [of users] by (simp add: users_ok_def lastuser_def) (simp add: sample_base_def file_bytes_def)


text \<open>The five digits of a count of posts: one more than 99999 is stored as 10000.\<close>

lemma dec_99999: "dec_nat 99999 = cs ''99999''" "take 5 (dec_nat 100000) = cs ''10000''"
  by (simp_all add: dec_nat.simps digit_c_def cs_def)

theorem adjustuserrec_adds_witness:
  "\<forall>cfg. \<exists>b b1. get_field b (2, U_POSTS, 5) = cs ''99999'' \<and> adjustuserrec cfg 2 U_POSTS 5 1 b = Some (100000, b1)
    \<and> get_field b1 (2, U_POSTS, 5) = cs ''10000''"
proof
  fix cfg
  let ?k = "(2, U_POSTS, 5)" and ?b = "set_field cfg (2, U_POSTS, 5) (dec_nat 99999) (sample_base 3)"
  have k: "field_in 3 ?k" "field_ok 3 ?k (dec_nat 99999)"
    by (simp_all add: field_ok_def field_in_def user_offsets dec_99999 rec_text_def rec_char_def cs_def)
  have b: "users_ok 3 ?b" "get_field ?b ?k = dec_nat 99999"
    using user_fields.ok_update [OF sample_users k(2)] user_fields.lookup_same [OF sample_users k(2)] by simp_all
  have "\<exists>b1. adjustuserrec cfg 2 U_POSTS 5 1 ?b = Some (word_of_nat (nat (int 99999 + 1)), b1)
      \<and> get_field b1 ?k = take 5 (dec_nat (nat (int 99999 + 1)))"
    using adjustuserrec_adds [OF b(1) k(1) b(2), of 1 cfg] by auto
  then show "\<exists>b b1. get_field b ?k = cs ''99999'' \<and> adjustuserrec cfg 2 U_POSTS 5 1 b = Some (100000, b1)
      \<and> get_field b1 ?k = cs ''10000''"
    using b(2) dec_99999 by auto
qed

theorem subtract_cdt_total_witness:
  "\<forall>cfg. \<exists>b u1 b1. subtract_cdt cfg 120 (sample_user\<lparr>u_freecdt := 100, u_cdt := 50\<rparr>, b) = Some (u1, b1)
    \<and> unat (u_freecdt u1) = 0 \<and> unat (u_cdt u1) = 30"
proof
  fix cfg
  let ?u = "sample_user\<lparr>u_freecdt := 100, u_cdt := 50\<rparr>" and ?f = "(7, U_FREECDT, 10)" and ?c = "(7, U_CDT, 10)"
  let ?b1 = "set_field cfg ?f (ultoa10 100) (sample_base 7)"
  let ?b = "set_field cfg ?c (ultoa10 50) ?b1"
  have t: "rec_text 10 (ultoa10 100)" "rec_text 10 (ultoa10 50)" by (rule ultoa10_text; simp)+
  have f: "field_ok 7 ?f (ultoa10 100)" "field_ok 7 ?c (ultoa10 50)" "\<not> same_field ?c ?f"
    using credit_fields [of 7 7] t by (simp_all add: field_ok_def)
  have ok1: "users_ok 7 ?b1" by (rule user_fields.ok_update [OF sample_users f(1)])
  have "get_field ?b ?f = ultoa10 100" "get_field ?b ?c = ultoa10 50" "users_ok 7 ?b"
    using user_fields.lookup_other [OF ok1 f(2) f(1) f(3)] user_fields.lookup_same [OF sample_users f(1)]
      user_fields.lookup_same [OF ok1 f(2)] user_fields.ok_update [OF ok1 f(2)] by simp_all
  then have "credits_agree 7 (?u, ?b)" by (simp add: credits_agree_def sample_user_def)
  then have "\<exists>u1 b1. subtract_cdt cfg 120 (?u, ?b) = Some (u1, b1) \<and> unat (u_freecdt u1) = 100 - nat 120 \<and> unat (u_cdt u1) = 50 - (nat 120 - 100)"
    using subtract_cdt_total [of 7 ?u ?b 120 cfg] by auto
  then show "\<exists>b u1 b1. subtract_cdt cfg 120 (?u, b) = Some (u1, b1) \<and> unat (u_freecdt u1) = 0 \<and> unat (u_cdt u1) = 30" by auto
qed

end
