(* ===== verification/NewUser.thy ===== *)
theory NewUser
  imports UserProps
begin

text \<open>
  Finding users by their names and adding a user: the number he gets is free, and nobody else's
  record is touched.
\<close>

section \<open>Finding users\<close>

text \<open>The name of the n-th record.\<close>

definition name_at :: "user_base \<Rightarrow> nat \<Rightarrow> byte list" where
  "name_at b n = name_text (file_read b NAME_DAT ((n - 1) * NAME_LEN) NAME_LEN)"

text \<open>
  Two names are the same, apart from case, when every separator of one kind (blank, dot or
  underscore) in the first is replaced by one of another kind, or when both are written without
  white space.
\<close>

definition separators :: "byte set" where
  "separators = {0x20, 0x2E, 0x5F}"

definition same_name :: "byte list \<Rightarrow> byte list \<Rightarrow> bool" where
  "same_name dat name \<longleftrightarrow>
     (\<exists>x \<in> separators. \<exists>y \<in> separators. map (\<lambda>c. tolower_c (if c = x then y else c)) dat = map tolower_c name)
     \<or> filter (\<lambda>c. \<not> isspace_c c) (map tolower_c dat) = filter (\<lambda>c. \<not> isspace_c c) (map tolower_c name)"

lemma isspace_tolower: "isspace_c (tolower_c c) = isspace_c c"
proof (cases "0x41 \<le> c \<and> c \<le> 0x5A")
  case True
  have sp: "\<not> isspace_c d" if "0x41 \<le> d" for d using that by (auto simp: isspace_c_def word_le_nat_alt)
  have u: "0x41 \<le> unat c" "unat c \<le> 0x5A" using True by (simp_all add: word_le_nat_alt)
  then have "unat (c + 0x20) = unat c + 0x20" by (subst unat_add_lem [THEN iffD1]) simp_all
  then have "0x41 \<le> c + 0x20" using u by (simp add: word_le_nat_alt)
  then have "\<not> isspace_c c" "\<not> isspace_c (c + 0x20)" using sp True by auto
  then show ?thesis using True by (simp add: tolower_c_def)
qed (auto simp: tolower_c_def)

lemma same_name_code: "same_name dat name \<longleftrightarrow> name_replaced dat name \<or> name_stripped dat name"
proof -
  have r: "stricmp_eq (replace_chars dat x y) name \<longleftrightarrow> map (\<lambda>c. tolower_c (if c = x then y else c)) dat = map tolower_c name" for x y
    by (simp add: stricmp_eq_def replace_chars_def comp_def)
  have i: "stricmp_eq dat name \<longleftrightarrow> map (\<lambda>c. tolower_c (if c = x then x else c)) dat = map tolower_c name" for x
    by (simp add: stricmp_eq_def cong: if_cong)
  have "map tolower_c (strip_space t) = filter (\<lambda>c. \<not> isspace_c c) (map tolower_c t)" for t
    by (simp add: strip_space_def filter_map comp_def isspace_tolower)
  then have "name_stripped dat name \<longleftrightarrow>
      filter (\<lambda>c. \<not> isspace_c c) (map tolower_c dat) = filter (\<lambda>c. \<not> isspace_c c) (map tolower_c name)"
    by (simp add: name_stripped_def stricmp_eq_def)
  then show ?thesis unfolding same_name_def separators_def name_replaced_def r i [of "0x20"] by (auto simp: i [symmetric])
qed

lemma NAME_LEN_pos [simp]: "0 < NAME_LEN"
  by (simp add: NAME_LEN_def)

lemma match_loop_first:
  assumes "length names = k * NAME_LEN" "length (strip_space name) \<le> 255" "i \<le> k"
  shows "\<exists>j. match_loop names name old (i * NAME_LEN) = Some (j * NAME_LEN) \<and> i \<le> j \<and> j \<le> k
    \<and> (j < k \<longrightarrow> same_name (name_text (take NAME_LEN (drop (j * NAME_LEN) names))) name)
    \<and> (\<forall>m. i \<le> m \<and> m < j \<longrightarrow> \<not> same_name (name_text (take NAME_LEN (drop (m * NAME_LEN) names))) name)"
  using assms(3)
proof (induction "k - i" arbitrary: i old)
  case 0
  then show ?case using assms(1) by (subst match_loop.simps) auto
next
  case (Suc d)
  then have i: "i < k" by simp
  then have le: "(i + 1) * NAME_LEN \<le> length names" unfolding assms(1) by (intro mult_le_mono1) simp
  let ?bs = "take NAME_LEN (drop (i * NAME_LEN) names)"
  have bs: "length ?bs = NAME_LEN" "\<not> length names \<le> i * NAME_LEN" using le NAME_LEN_pos by (simp, simp add: not_le del: NAME_LEN_pos)
  show ?case
  proof (cases "same_name (name_text (?bs @ drop NAME_LEN old)) name")
    case True
    then have "same_name (name_text ?bs) name" using bs(1) by (simp add: name_text_def NAME_LEN_def min_def)
    then show ?thesis using True bs i assms(2)
      by (subst match_loop.simps) (auto simp: Let_def same_name_code not_less intro!: exI [of _ i])
  next
    case False
    then have nm: "\<not> same_name (name_text ?bs) name" using bs(1) by (simp add: name_text_def NAME_LEN_def min_def)
    have "match_loop names name old (i * NAME_LEN) = match_loop names name
        ((?bs @ drop NAME_LEN old)[length (takeWhile (\<lambda>c. c \<noteq> ETX) (take LEN_ALIAS (?bs @ drop NAME_LEN old))) := 0]) ((i + 1) * NAME_LEN)"
      using False bs assms(2) by (subst match_loop.simps) (simp add: Let_def add.commute same_name_code not_less)
    moreover have "d = k - (i + 1)" "i + 1 \<le> k" using Suc.hyps(2) i by auto
    ultimately obtain j where j: "match_loop names name old (i * NAME_LEN) = Some (j * NAME_LEN)" "i + 1 \<le> j" "j \<le> k"
      "j < k \<longrightarrow> same_name (name_text (take NAME_LEN (drop (j * NAME_LEN) names))) name"
      "\<forall>m. i + 1 \<le> m \<and> m < j \<longrightarrow> \<not> same_name (name_text (take NAME_LEN (drop (m * NAME_LEN) names))) name"
      using Suc.hyps(1) [of "i + 1"] by metis
    moreover have "\<not> same_name (name_text (take NAME_LEN (drop (m * NAME_LEN) names))) name" if "i \<le> m" "m < j" for m
      using nm j(5) that by (cases "m = i") auto
    ultimately show ?thesis by (intro exI [of _ j]) auto
  qed
qed


section \<open>New users\<close>

text \<open>What is left in the buffer behind the field does not show.\<close>

lemma end_field_tail: "cstr (end_field (length bs) (bs @ r)) = field_text bs"
proof -
  let ?t = "takeWhile (\<lambda>c. c \<noteq> ETX \<and> c \<noteq> CR) bs"
  have t: "?t = take (length ?t) bs" by (metis takeWhile_eq_take)
  show ?thesis
  proof (cases "length ?t < length bs")
    case True
    then have "end_field (length bs) (bs @ r) = ?t @ 0 # drop (Suc (length ?t)) (bs @ r)"
      using t upd_conv_take_nth_drop [of "length ?t" "bs @ r" 0] by (simp add: end_field_def)
    then show ?thesis by (simp add: field_text_def cstr_zero)
  next
    case False
    then have full: "?t = bs" using t by simp
    have b: "take (length bs) (bs @ r) = bs" by simp
    have "end_field (length bs) (bs @ r) = bs @ r[0 := 0]" unfolding end_field_def b full by (simp add: list_update_append)
    then have "cstr (end_field (length bs) (bs @ r)) = cstr bs" using cstr_zero [of bs] by (cases r) simp_all
    then show ?thesis unfolding field_text_def full by simp
  qed
qed

lemma fill_names_other:
  "fill_names n b = Some b1 \<Longrightarrow> (f \<noteq> NAME_DAT \<longrightarrow> ub_disk b1 f = ub_disk b f) \<and> ub_env b1 = ub_env b \<and> (ub_disk b NAME_DAT \<noteq> None \<longrightarrow> ub_disk b1 NAME_DAT \<noteq> None)"
proof (induction n b rule: fill_names.induct)
  case (1 n b)
  show ?case
  proof (cases "n \<le> length (file_bytes b NAME_DAT) \<or> e_write (ub_env b) NAME_DAT \<noteq> 0")
    case True
    then show ?thesis using 1(2) by (subst (asm) fill_names.simps) (auto split: if_splits)
  next
    case False
    then show ?thesis using 1(1) 1(2) by (subst (asm) (2) fill_names.simps) simp
  qed
qed

lemma putusername_ready:
  assumes "file_ready b NAME_DAT" "1 \<le> n" "putusername n name b = Some (0, b1)"
  shows "ub_disk b1 USER_DAT = ub_disk b USER_DAT \<and> ub_env b1 = ub_env b
    \<and> (\<exists>names. ub_disk b1 NAME_DAT = Some (overwrite names ((n - 1) * NAME_LEN) (name_record name)))"
proof -
  let ?len = "length (file_bytes b NAME_DAT)"
  define b2 where "b2 = (if lastuser b < ?len div NAME_LEN
    then b\<lparr>ub_disk := (ub_disk b)(NAME_DAT := Some (take (lastuser b * NAME_LEN) (file_bytes b NAME_DAT)))\<rparr> else b)"
  have b2: "ub_disk b2 USER_DAT = ub_disk b USER_DAT" "ub_env b2 = ub_env b" by (simp_all add: b2_def)
  have p: "putusername n name b = (if ?len mod NAME_LEN \<noteq> 0 then Some (-3, b2)
      else case (if ?len < (n - 1) * NAME_LEN then fill_names (n * NAME_LEN) b2 else Some b2) of
        None \<Rightarrow> None | Some b3 \<Rightarrow> Some (file_write b3 NAME_DAT ((n - 1) * NAME_LEN) (name_record name)))"
    using assms(1,2) by (simp add: putusername_def nopen_ready Let_def b2_def)
  then obtain b3 where b3: "(if ?len < (n - 1) * NAME_LEN then fill_names (n * NAME_LEN) b2 else Some b2) = Some b3"
    "(0, b1) = file_write b3 NAME_DAT ((n - 1) * NAME_LEN) (name_record name)"
    using assms(3) by (auto split: if_splits option.splits)
  then have "ub_disk b3 USER_DAT = ub_disk b USER_DAT" "ub_env b3 = ub_env b"
    using b2 fill_names_other [of "n * NAME_LEN" b2 b3 USER_DAT] by (auto split: if_splits)
  then show ?thesis using b3(2) by (auto simp: file_write_def split: if_splits)
qed

lemma username_record:
  assumes "file_ready b NAME_DAT" "ub_disk b NAME_DAT = Some (overwrite names ((n - 1) * NAME_LEN) (name_record name))"
    and "1 \<le> n" "rec_text LEN_ALIAS name" "name \<noteq> []"
  shows "username n b = name"
proof -
  let ?pos = "(n - 1) * NAME_LEN"
  have len: "length (name_record name) = NAME_LEN" by (simp add: name_record_def crlf_def NAME_LEN_def)
  have b: "file_bytes b NAME_DAT = overwrite names ?pos (name_record name)" using assms(2) by (simp add: file_bytes_def)
  have n: "?pos + NAME_LEN = n * NAME_LEN" using assms(3) by (simp add: diff_mult_distrib)
  have size: "n * NAME_LEN \<le> length (file_bytes b NAME_DAT)" using n by (simp add: b len)
  then have pos: "\<not> length (file_bytes b NAME_DAT) < 1" using assms(3) NAME_LEN_pos
    by (metis One_nat_def less_Suc0 mult_is_0 not_less_eq_eq order.trans le_zero_eq less_numeral_extra(3))
  have "take NAME_LEN (drop ?pos (file_bytes b NAME_DAT)) = name_record name"
    using take_drop_overwrite [of "name_record name" ?pos names] len by (simp add: b)
  then have "file_read b NAME_DAT ?pos LEN_ALIAS = take LEN_ALIAS (name_record name)"
    by (metis NAME_LEN_def file_read_def le_add1 min.absorb1 take_take)
  then have r: "file_read b NAME_DAT ?pos LEN_ALIAS = etx_fill LEN_ALIAS name" by (simp add: name_record_def)
  have f: "etx_fill LEN_ALIAS name = name @ replicate (LEN_ALIAS - length name) ETX"
    using assms(4) by (simp add: etx_fill_def rec_text_def)
  have "hd (etx_fill LEN_ALIAS name) \<noteq> ETX" using assms(4,5) f by (cases name) (auto simp: rec_text_def rec_char_def)
  moreover have "takeWhile (\<lambda>c. c \<noteq> ETX) (name @ replicate (LEN_ALIAS - length name) ETX) = name"
    by (rule takeWhile_fill) (use assms(4) in \<open>auto simp: rec_text_def rec_char_def\<close>)
  then have "name_text (etx_fill LEN_ALIAS name) = name"
    using assms(4) f by (simp add: name_text_def) (auto simp: rec_text_def rec_char_def intro: cstr_id)
  ultimately show ?thesis using assms(1,3) size pos r by (simp add: username_def nopen_ready Let_def)
qed

lemma free_number_ge: "free_number cfg b count str unum = Some (n, str1) \<Longrightarrow> unum \<le> n"
proof (induction "count + 1 - unum" arbitrary: str unum rule: less_induct)
  case less
  show ?case
  proof (cases "count < unum")
    case True
    then show ?thesis using less(2) by (subst (asm) free_number.simps) simp
  next
    case False
    have later: "unum \<le> n" if "free_number cfg b count str2 (unum + 1) = Some (n, str1)" for str2
      using less(1) [OF _ that] False by (simp add: Suc_diff_le)
    show ?thesis using less(2) False later
      by (subst (asm) free_number.simps) (auto simp: Let_def split: if_splits option.splits)
  qed
qed

lemma getuserrec_ready:
  assumes "users_ok users b" "field_in users (n, start, len)"
  shows "\<exists>str1. getuserrec n start len str b = Some (0, str1) \<and> cstr str1 = get_field b (n, start, len)"
proof -
  let ?bs = "file_read b USER_DAT (user_pos n + start) len"
  have l: "length ?bs = len" using field_inside [OF assms] by (simp add: file_read_def)
  have r: "file_ready b USER_DAT" using assms(1) by (simp add: users_ok_def)
  have "getuserrec n start len str b = Some (0, end_field len (?bs @ drop len str))"
    using l r assms(2) field_inside [OF assms] by (simp add: getuserrec_def field_in_def nopen_ready lock_ready auto_length_def Let_def)
  moreover have "cstr (end_field len (?bs @ drop len str)) = field_text ?bs"
    using end_field_tail [of ?bs "drop len str"] l by simp
  ultimately show ?thesis using get_field_text [OF assms] by simp
qed

lemma new_number_error: "new_number cfg b \<noteq> Some (Inl 0)"
  by (auto simp: new_number_def Let_def split: option.splits sum.splits if_splits)

lemma new_number_free:
  assumes "users_ok users b" "users = lastuser b" "new_number cfg b = Some (Inr n)"
  shows "1 \<le> n \<and> n \<le> users + 1 \<and> (n \<le> users \<longrightarrow> ahtoul (get_field b (n, U_MISC, 8)) AND DELETED \<noteq> 0)"
proof -
  obtain unum str where u: "1 \<le> unum"
    "(if users + 1 < unum then Some (Inr (users + 1))
      else if unum \<le> users
      then case getuserrec unum U_MISC 8 str b of None \<Rightarrow> None | Some (e, misc) \<Rightarrow>
        Some (Inr (if ahtoul (cstr misc) AND DELETED = 0 then users + 1 else unum))
      else Some (Inr unum)) = Some (Inr n :: int + nat)"
  proof -
    show ?thesis
    proof (cases "ub_disk b NAME_DAT = None")
      case True
      then show ?thesis using assms(2,3) that [unfolded assms(2), of 1 "cfg_data_dir cfg @ cs ''user/name.dat'' @ [0]"] by (simp add: new_number_def Let_def del: One_nat_def)
    next
      case False
      then obtain unum str where f: "free_number cfg b (length (file_bytes b NAME_DAT) div NAME_LEN) (cfg_data_dir cfg @ cs ''user/name.dat'' @ [0]) 1 = Some (unum, str)"
        using assms(3) by (auto simp: new_number_def Let_def split: if_splits option.splits sum.splits)
      then show ?thesis using False assms(2,3) that [unfolded assms(2), OF free_number_ge [OF f]] by (simp add: new_number_def Let_def split: if_splits)
    qed
  qed
  show ?thesis
  proof (cases "unum \<le> users")
    case True
    then have "field_in users (unum, U_MISC, 8)" using u(1) by (simp add: field_in_def user_offsets)
    then obtain m where "getuserrec unum U_MISC 8 str b = Some (0, m)" "cstr m = get_field b (unum, U_MISC, 8)"
      using getuserrec_ready [OF assms(1)] by blast
    then show ?thesis using u True by (auto split: if_splits)
  next
    case False
    then show ?thesis using u by (auto split: if_splits)
  qed
qed

lemma putuserdat_stored:
  assumes "file_ready b USER_DAT" "putuserdat cfg u b = Some (0, b1)"
  shows "\<exists>userdat. user_record cfg u = Some userdat \<and> u_number u \<noteq> 0
    \<and> user_pos (unat (u_number u)) \<le> length (file_bytes b USER_DAT)
    \<and> b1 = dirtyuserdat cfg (unat (u_number u)) (snd (file_write b USER_DAT (user_pos (unat (u_number u))) userdat))"
  using assms by (auto simp: putuserdat_def Let_def nopen_ready lock_ready file_write_ready split: if_splits option.splits)

text \<open>
  C9: adding a user never takes over a living one: his number is the next one or that of a user
  marked as deleted, the records of all other users keep every byte, his record is stored under the
  number and his name is found there. The base must have fewer than 65535 records, the range of a
  user number.
\<close>

theorem newuserdat_safe:
  assumes "file_ready b USER_DAT" "file_ready b NAME_DAT" "lastuser b < 65535"
    and "rec_text LEN_ALIAS (ur_alias u)" "ur_alias u \<noteq> []" "newuserdat cfg u b = Some (0, u1, b1)" "n = unat (u_number u1)"
  shows "u1 = u\<lparr>u_number := u_number u1\<rparr> \<and> 1 \<le> n \<and> n \<le> lastuser b + 1
    \<and> (n \<le> lastuser b \<longrightarrow> ahtoul (get_field b (n, U_MISC, 8)) AND DELETED \<noteq> 0)
    \<and> user_record cfg u1 = Some (file_read b1 USER_DAT (user_pos n) U_LEN)
    \<and> (\<forall>m. 1 \<le> m \<and> m \<le> lastuser b \<and> m \<noteq> n \<longrightarrow>
        file_read b1 USER_DAT (user_pos m) U_LEN = file_read b USER_DAT (user_pos m) U_LEN)
    \<and> username n b1 = ur_alias u"
proof -
  have ok: "users_ok (lastuser b) b" using assms(1) by (simp add: users_ok_def)
  obtain unum where num: "new_number cfg b = Some (Inr unum)" "u1 = u\<lparr>u_number := word_of_nat unum\<rparr>"
    using assms(6) new_number_error by (auto simp: newuserdat_def Let_def split: option.splits sum.splits if_splits)
  note free = new_number_free [OF ok refl num(1)]
  have n: "n = unum" using free assms(3,7) num(2) by (simp add: unat_of_nat)
  obtain b2 where b2: "putusername n (ur_alias u) b = Some (0, b2)" "putuserdat cfg u1 b2 = Some (0, b1)"
    using assms(6,7) num by (auto simp: newuserdat_def Let_def split: option.splits if_splits)
  have n1: "1 \<le> n" using free n by simp
  note name = putusername_ready [OF assms(2) n1 b2(1)]
  then obtain names where nm: "ub_disk b2 NAME_DAT = Some (overwrite names ((n - 1) * NAME_LEN) (name_record (ur_alias u)))" by blast
  have r2: "file_ready b2 USER_DAT" "file_bytes b2 USER_DAT = file_bytes b USER_DAT" "file_ready b2 NAME_DAT"
    using assms(1,2) name nm by (auto simp: file_ready_def file_lock_def file_bytes_def)
  obtain userdat where put: "user_record cfg u1 = Some userdat" "user_pos n \<le> length (file_bytes b USER_DAT)"
    "b1 = dirtyuserdat cfg n (snd (file_write b2 USER_DAT (user_pos n) userdat))"
    using putuserdat_stored [OF r2(1) b2(2)] r2(2) assms(7) by auto
  have bytes: "file_bytes b1 USER_DAT = overwrite (file_bytes b USER_DAT) (user_pos n) userdat"
    using written_dirty [OF r2(1)] put(3) r2(2) by (simp add: user_written_def)
  have l: "length userdat = U_LEN" by (rule length_user_record [OF put(1)])
  have "file_read b1 USER_DAT (user_pos n) U_LEN = userdat"
    using take_drop_overwrite [of userdat "user_pos n"] l by (simp add: file_read_def bytes)
  moreover have "file_read b1 USER_DAT (user_pos m) U_LEN = file_read b USER_DAT (user_pos m) U_LEN"
    if m: "1 \<le> m" "m \<le> lastuser b" "m \<noteq> n" for m
    unfolding file_read_def bytes
    by (rule read_overwrite_apart) (use user_inside [OF m(1)] m user_pos_apart [OF n1 m(1,3)] l in \<open>auto simp: lastuser_def\<close>)
  moreover have "username n b1 = ur_alias u"
  proof (rule username_record [OF _ _ n1 assms(4,5)])
    show "ub_disk b1 NAME_DAT = Some (overwrite names ((n - 1) * NAME_LEN) (name_record (ur_alias u)))"
      using nm put(3) file_write_ready [OF r2(1)] by simp
    then show "file_ready b1 NAME_DAT" using r2(3) put(3) file_write_ready [OF r2(1)] by (simp add: file_ready_def file_lock_def)
  qed
  ultimately show ?thesis using put(1) free num(2) n n1 assms(7) by simp
qed

section \<open>Samples\<close>

lemma fill_names_ready: "e_write (ub_env b) NAME_DAT = 0 \<Longrightarrow> \<exists>b1. fill_names n b = Some b1"
proof (induction n b rule: fill_names.induct)
  case (1 n b)
  then show ?case by (subst fill_names.simps) auto
qed

text \<open>Two users with names.\<close>

definition named_base :: user_base where
  "named_base = (sample_base 2)\<lparr>ub_disk := (ub_disk (sample_base 2))(NAME_DAT := Some (name_record (cs ''Rob Swindell'') @ name_record (cs ''Digital Man'')))\<rparr>"


lemma sample_new_number: "new_number sample_ucfg (sample_base 1) = Some (Inr 2)"
proof -
  have users: "users_ok 1 (sample_base 1)" by (rule sample_users)
  have f: "field_in 1 (1, U_MISC, 8)" by (simp add: field_in_def user_offsets)
  have last: "lastuser (sample_base 1) = 1" by (simp add: lastuser_def sample_base_def file_bytes_def)
  have "file_ready (sample_base 1) NAME_DAT" by (rule calm_ready) (simp_all add: sample_base_def)
  then have "fst (nopen (sample_base 1) NAME_DAT False) = 0" by (simp add: nopen_ready)
  moreover have "free_number sample_ucfg (sample_base 1) 0 s 1 = Some (1, s)" for s by (subst free_number.simps) simp
  moreover have "file_bytes (sample_base 1) NAME_DAT = []" "ub_disk (sample_base 1) NAME_DAT \<noteq> None"
    by (simp_all add: sample_base_def file_bytes_def)
  moreover have "get_field (sample_base 1) (1, U_MISC, 8) = []"
    using get_field_text [OF users f] by (simp add: field_text_def sample_base_def file_read_def file_bytes_def user_offsets cstr_def)
  moreover have "ahtoul [] = 0" by (simp add: ahtoul_def)
  moreover obtain m where "getuserrec 1 U_MISC 8 (cfg_data_dir sample_ucfg @ cs ''user/name.dat'' @ [0]) (sample_base 1) = Some (0, m)"
    "cstr m = get_field (sample_base 1) (1, U_MISC, 8)"
    using getuserrec_ready [OF users f] by blast
  ultimately show ?thesis using last by (auto simp: new_number_def Let_def simp del: One_nat_def)
qed

theorem newuserdat_safe_witness:
  "\<exists>b1. newuserdat sample_ucfg sample_user (sample_base 1) = Some (0, sample_user\<lparr>u_number := 2\<rparr>, b1)
    \<and> username 2 b1 = cs ''Guest''
    \<and> file_read b1 USER_DAT (user_pos 1) U_LEN = file_read (sample_base 1) USER_DAT (user_pos 1) U_LEN"
proof -
  let ?b = "sample_base 1" and ?u = "sample_user\<lparr>u_number := 2\<rparr>"
  have ready: "file_ready ?b USER_DAT" "file_ready ?b NAME_DAT" by (rule calm_ready; simp add: sample_base_def)+
  have last: "lastuser ?b = 1" by (simp add: lastuser_def sample_base_def file_bytes_def)
  have empty: "file_bytes ?b NAME_DAT = []" by (simp add: sample_base_def file_bytes_def)
  have w: "e_write (ub_env ?b) NAME_DAT = 0" by (simp add: sample_base_def calm_env_def)
  then obtain b3 where b3: "fill_names (2 * NAME_LEN) ?b = Some b3" using fill_names_ready by blast
  note other = fill_names_other [OF b3, of USER_DAT]
  have "putusername 2 (ur_alias sample_user) ?b = Some (file_write b3 NAME_DAT NAME_LEN (name_record (ur_alias sample_user)))"
    using b3 empty last by (simp add: putusername_def nopen_ready [OF ready(2)] del: One_nat_def)
  then obtain b2 where b2: "putusername 2 (ur_alias sample_user) ?b = Some (0, b2)"
    using w other by (simp add: file_write_def)
  note name = putusername_ready [OF ready(2) _ b2]
  have r2: "file_ready b2 USER_DAT" "file_bytes b2 USER_DAT = file_bytes ?b USER_DAT"
    using ready(1) name by (simp_all add: file_ready_def file_lock_def file_bytes_def)
  have rec: "user_record sample_ucfg ?u \<noteq> None"
    by (simp add: user_record_def user_codes_def sample_ucfg_def sample_user_def)
  then obtain userdat where userdat: "user_record sample_ucfg ?u = Some userdat" by blast
  obtain b1 where b1: "putuserdat sample_ucfg ?u b2 = Some (0, b1)"
    by (rule putuserdat_written [OF r2(1) userdat])
      (use r2(2) in \<open>simp_all add: user_pos_def sample_base_def file_bytes_def\<close>)
  have new: "newuserdat sample_ucfg sample_user ?b = Some (0, ?u, b1)"
    using b1 b2 sample_new_number by (simp add: newuserdat_def Let_def)
  have al: "rec_text LEN_ALIAS (ur_alias sample_user)" "ur_alias sample_user \<noteq> []"
    by (simp_all add: sample_user_def rec_text_def rec_char_def cs_def LEN_ALIAS_def)
  have "(\<forall>m. 1 \<le> m \<and> m \<le> lastuser ?b \<and> m \<noteq> 2 \<longrightarrow>
        file_read b1 USER_DAT (user_pos m) U_LEN = file_read ?b USER_DAT (user_pos m) U_LEN)
    \<and> username 2 b1 = ur_alias sample_user"
    using newuserdat_safe [OF ready _ al new, of 2] last by simp
  then show ?thesis using new last by (simp add: sample_user_def)
qed

end
